(* ===== verification/Prelude.thy ===== *)
theory Prelude
  imports Main "HOL-Library.Word"
begin

unbundle bit_operations_syntax

text \<open>
  Shared vocabulary of the development: names for Go's fixed-width integers, the result type of a
  Go function that may return an error or panic, little-endian byte access as
  \<^verbatim>\<open>encoding/binary\<close> performs it, and the facts on masks and wrapping
  subtraction that the ring, the arena and the writer rest on.
\<close>

section \<open>Machine integers\<close>

type_synonym byte = "8 word"
type_synonym u16 = "16 word"
type_synonym u32 = "32 word"
type_synonym u64 = "64 word"

named_theorems outcome_simps \<open>unfolding of sequenced Go calls\<close>
named_theorems byte_simps \<open>reading back what was written into a byte slice\<close>

section \<open>Results of Go functions\<close>

text \<open>
  A Go function returns a value, returns an error, or panics (an index or slice bound out of
  range). \<open>andThen\<close> is the \<^verbatim>\<open>if err != nil { return err }\<close> sequencing: the first error or panic
  is the result of the whole.
\<close>

datatype ('e, 'a) outcome = Ok 'a | Err 'e | Panic

fun andThen :: "('e, 'a) outcome \<Rightarrow> ('a \<Rightarrow> ('e, 'b) outcome) \<Rightarrow> ('e, 'b) outcome" where
  "andThen (Ok x) f = f x"
| "andThen (Err e) f = Err e"
| "andThen Panic f = Panic"

definition require :: "bool \<Rightarrow> 'e \<Rightarrow> ('e, unit) outcome" where
  "require b e = (if b then Ok () else Err e)"

lemma andThen_Ok [outcome_simps]:
  "andThen m f = Ok y \<longleftrightarrow> (\<exists>x. m = Ok x \<and> f x = Ok y)"
  by (cases m) auto

lemma andThen_Err [outcome_simps]:
  "andThen m f = Err e \<longleftrightarrow> m = Err e \<or> (\<exists>x. m = Ok x \<and> f x = Err e)"
  by (cases m) auto

lemma andThen_Panic [outcome_simps]:
  "andThen m f = Panic \<longleftrightarrow> m = Panic \<or> (\<exists>x. m = Ok x \<and> f x = Panic)"
  by (cases m) auto

lemma require_Ok [outcome_simps]: "require b e = Ok u \<longleftrightarrow> b"
  by (simp add: require_def)

lemma require_Err [outcome_simps]: "require b e = Err e' \<longleftrightarrow> \<not> b \<and> e' = e"
  by (auto simp: require_def)

lemma require_not_Panic [simp]: "require b e \<noteq> Panic"
  by (simp add: require_def)

lemma require_True [simp]: "require True e = Ok ()"
  by (simp add: require_def)

section \<open>Little-endian byte access\<close>

text \<open>
  \<open>le_encode n w\<close> is the \<open>n\<close>-byte little-endian form of \<open>w\<close> and \<open>le_decode\<close> the value of such
  bytes, as \<^verbatim>\<open>binary.LittleEndian\<close>'s Put and Uint functions compute them byte by byte with shifts.
\<close>

definition le_encode :: "nat \<Rightarrow> 'a::len word \<Rightarrow> byte list" where
  "le_encode n w = map (\<lambda>i. ucast (drop_bit (8 * i) w)) [0..<n]"

primrec le_decode :: "byte list \<Rightarrow> 'a::len word" where
  "le_decode [] = 0"
| "le_decode (b # bs) = ucast b OR push_bit 8 (le_decode bs)"

definition put_bytes :: "byte list \<Rightarrow> nat \<Rightarrow> byte list \<Rightarrow> byte list" where
  "put_bytes data off bs = take off data @ bs @ drop (off + length bs) data"

definition get_bytes :: "byte list \<Rightarrow> nat \<Rightarrow> nat \<Rightarrow> byte list" where
  "get_bytes data off n = take n (drop off data)"

lemma length_le_encode [simp]: "length (le_encode n w) = n"
  by (simp add: le_encode_def)

lemma le_decode_zero [simp]: "le_decode (replicate n 0) = 0"
  by (induction n) simp_all

lemma bit_le_decode:
  "bit (le_decode bs :: 'a::len word) k \<longleftrightarrow>
     k < LENGTH('a) \<and> k < 8 * length bs \<and> bit (bs ! (k div 8)) (k mod 8)"
proof (induction bs arbitrary: k)
  case Nil
  then show ?case by simp
next
  case (Cons b bs)
  show ?case
  proof (cases "k < 8")
    case True
    then show ?thesis
      by (simp add: bit_or_iff bit_push_bit_iff bit_ucast_iff)
  next
    case False
    then have "bit (ucast b :: 'a word) k = False"
      using bit_imp_le_length [of b k] by (auto simp: bit_ucast_iff)
    moreover have "k div 8 = Suc ((k - 8) div 8)" "k mod 8 = (k - 8) mod 8"
      using False by (simp_all add: le_div_geq le_mod_geq)
    ultimately show ?thesis
      using False Cons.IH [of "k - 8"]
      by (auto simp: bit_or_iff bit_push_bit_iff possible_bit_def)
  qed
qed

lemma le_decode_encode [byte_simps]:
  "LENGTH('a::len) \<le> 8 * n \<Longrightarrow> le_decode (le_encode n (w :: 'a word)) = w"
  by (rule bit_word_eqI)
    (auto simp: bit_le_decode le_encode_def bit_ucast_iff bit_drop_bit_eq less_mult_imp_div_less
       mult.commute)

lemma le_encode_decode [byte_simps]:
  assumes "length bs = n" "8 * n \<le> LENGTH('a::len)"
  shows "le_encode n (le_decode bs :: 'a word) = bs"
proof (rule nth_equalityI)
  show "length (le_encode n (le_decode bs :: 'a word)) = length bs"
    using assms by simp
next
  fix i assume "i < length (le_encode n (le_decode bs :: 'a word))"
  then have i: "i < n" by simp
  show "le_encode n (le_decode bs :: 'a word) ! i = bs ! i"
  proof (rule bit_word_eqI)
    fix k assume "k < LENGTH(8)"
    then have "k < 8" by simp
    with i assms have "8 * i + k < 8 * n" "8 * i + k < LENGTH('a)" by linarith+
    with \<open>k < 8\<close> i assms show "bit (le_encode n (le_decode bs :: 'a word) ! i) k = bit (bs ! i) k"
      by (simp add: le_encode_def bit_ucast_iff bit_drop_bit_eq bit_le_decode)
  qed
qed

text \<open>Big-endian access is the same bytes in the other order.\<close>

definition be_encode :: "nat \<Rightarrow> 'a::len word \<Rightarrow> byte list" where
  "be_encode n w = rev (le_encode n w)"

definition be_decode :: "byte list \<Rightarrow> 'a::len word" where
  "be_decode bs = le_decode (rev bs)"

lemma length_be_encode [simp]: "length (be_encode n w) = n"
  by (simp add: be_encode_def)

lemma be_decode_encode [byte_simps]:
  "LENGTH('a::len) \<le> 8 * n \<Longrightarrow> be_decode (be_encode n (w :: 'a word)) = w"
  by (simp add: be_encode_def be_decode_def byte_simps)

lemma be_encode_decode [byte_simps]:
  "length bs = n \<Longrightarrow> 8 * n \<le> LENGTH('a::len) \<Longrightarrow> be_encode n (be_decode bs :: 'a word) = bs"
  by (simp add: be_encode_def be_decode_def le_encode_decode)

text \<open>The Go slice expression \<^verbatim>\<open>bs[a:b]\<close>, which panics out of range.\<close>

definition slice :: "byte list \<Rightarrow> nat \<Rightarrow> nat \<Rightarrow> ('e, byte list) outcome" where
  "slice bs a b = (if a \<le> b \<and> b \<le> length bs then Ok (take (b - a) (drop a bs)) else Panic)"

lemma slice_in_range [simp]: "a \<le> b \<Longrightarrow> b \<le> length bs \<Longrightarrow> slice bs a b = Ok (take (b - a) (drop a bs))"
  by (simp add: slice_def)

lemma slice_Ok [outcome_simps]:
  "slice bs a b = Ok xs \<longleftrightarrow> a \<le> b \<and> b \<le> length bs \<and> xs = take (b - a) (drop a bs)"
  by (auto simp: slice_def)

lemma slice_not_Err [simp]: "slice bs a b \<noteq> Err e"
  by (simp add: slice_def)

lemma slice_Panic [outcome_simps]: "slice bs a b = Panic \<longleftrightarrow> \<not> (a \<le> b \<and> b \<le> length bs)"
  by (simp add: slice_def)

lemma length_put_bytes [simp]:
  "off + length bs \<le> length data \<Longrightarrow> length (put_bytes data off bs) = length data"
  by (simp add: put_bytes_def)

lemma length_get_bytes [simp]:
  "off + n \<le> length data \<Longrightarrow> length (get_bytes data off n) = n"
  by (simp add: get_bytes_def)

lemma get_put_same [byte_simps]:
  "off + length bs \<le> length data \<Longrightarrow> n = length bs \<Longrightarrow> get_bytes (put_bytes data off bs) off n = bs"
  by (simp add: get_bytes_def put_bytes_def)

lemma get_put_before [byte_simps]:
  "off' + n \<le> off \<Longrightarrow> off + length bs \<le> length data \<Longrightarrow>
     get_bytes (put_bytes data off bs) off' n = get_bytes data off' n"
  by (rule nth_equalityI) (auto simp: get_bytes_def put_bytes_def nth_append)

lemma get_put_after [byte_simps]:
  "off + length bs \<le> off' \<Longrightarrow> off + length bs \<le> length data \<Longrightarrow>
     get_bytes (put_bytes data off bs) off' n = get_bytes data off' n"
  by (simp add: get_bytes_def put_bytes_def)

section \<open>Masks and wrapping distances\<close>

text \<open>
  Sequence counters are 64-bit words that wrap. A power-of-two mask reduces a counter to a slot,
  and the distance between two counters is the wrapped difference.
\<close>

lemma unat_u32_less: "unat (x :: u32) < 4294967296"
  using unsigned_less [of x] by simp

lemma unat_u64_less: "unat (x :: u64) < 18446744073709551616"
  using unsigned_less [of x] by simp

lemma unat_ucast_u32_u64 [simp]: "unat (ucast (x :: u32) :: u64) = unat x"
  using unat_u32_less [of x] by (simp add: unsigned_ucast_eq take_bit_nat_eq_self)

lemma unat_inject: "unat (x :: 'a::len word) = unat y \<longleftrightarrow> x = y"
  by (simp add: word_unat_eq_iff)

lemma unat_ucast_u64_u32: "unat b < 2 ^ 32 \<Longrightarrow> unat (ucast (b :: u64) :: u32) = unat b"
  by (simp add: unsigned_ucast_eq take_bit_nat_eq_self)

lemma and_mask_take_bit: "x AND (2 ^ k - 1) = take_bit k (x :: 'a::len word)"
  by (simp add: take_bit_eq_mask mask_eq_exp_minus_1)

lemma unat_and_mask: "unat (x AND (2 ^ k - 1) :: 'a::len word) = unat x mod 2 ^ k"
  by (simp only: and_mask_take_bit unsigned_take_bit_eq) (simp add: take_bit_eq_mod)

lemma unat_add_of_nat:
  "i < 2 ^ LENGTH('a) \<Longrightarrow> unat (h + of_nat i :: 'a::len word) = (unat h + i) mod 2 ^ LENGTH('a)"
  by (simp add: unat_word_ariths unat_of_nat)

lemma word_diff_add_of_nat: "(h :: 'a::len word) + of_nat (unat (t - h)) = t"
  by simp

lemma unat_2_power: "k < LENGTH('a) \<Longrightarrow> unat (2 ^ k :: 'a::len word) = 2 ^ k"
  using unat_of_nat [of "2 ^ k", where 'a = 'a] by (simp add: power_strict_increasing_iff)

lemma unat_slot:
  assumes "k \<le> LENGTH('a)"
  shows "unat ((h + of_nat i) AND (2 ^ k - 1) :: 'a::len word) = (unat h + i) mod 2 ^ k"
proof -
  have "unat (h + of_nat i :: 'a word) = (unat h + i mod 2 ^ LENGTH('a)) mod 2 ^ LENGTH('a)"
    by (simp add: unat_word_ariths unat_of_nat)
  also have "\<dots> mod 2 ^ k = (unat h + i) mod 2 ^ k"
    using assms by (simp add: mod_mod_cancel le_imp_power_dvd mod_add_right_eq)
  finally show ?thesis by (simp add: unat_and_mask)
qed

lemma mod_window_inj:
  fixes a i j m :: nat
  assumes "(a + i) mod m = (a + j) mod m" "i \<le> j" "j < i + m"
  shows "i = j"
proof (rule ccontr)
  assume "i \<noteq> j"
  with assms have lt: "0 < j - i" "j - i < m" by simp_all
  have "m dvd (a + j) - (a + i)"
    using assms mod_eq_dvd_iff_nat [of "a + i" "a + j" m] by simp
  then have "m dvd j - i" by simp
  from dvd_imp_le [OF this lt(1)] lt(2) show False by simp
qed

text \<open>The test \<^verbatim>\<open>c & (c-1) == 0\<close> accepts exactly the powers of two.\<close>

lemma nat_and_pred_zero: "0 < n \<Longrightarrow> n AND (n - 1) = (0 :: nat) \<Longrightarrow> \<exists>k. n = 2 ^ k"
proof (induction n rule: less_induct)
  case (less n)
  show ?case
  proof (cases "even n")
    case True
    then obtain m where m: "n = 2 * m" by blast
    with less.prems have "0 < m" by simp
    then have "n - 1 = 1 + 2 * (m - 1)" using m by simp
    then have "n AND (n - 1) = 2 * (m AND (m - 1))"
      using m by (subst and_rec) simp
    with less.prems have "m AND (m - 1) = 0" by simp
    with less.IH [of m] \<open>0 < m\<close> m obtain k where "m = 2 ^ k" by auto
    with m have "n = 2 ^ Suc k" by simp
    then show ?thesis by blast
  next
    case False
    then obtain m where m: "n = 1 + 2 * m" by (metis oddE add.commute)
    then have "n AND (n - 1) = 2 * m" by (subst and_rec) simp
    with less.prems m have "n = 2 ^ 0" by simp
    then show ?thesis by blast
  qed
qed

lemma word_and_pred_zero:
  assumes "0 < x" "x AND (x - 1) = (0 :: 'a::len word)"
  obtains k where "k < LENGTH('a)" "x = 2 ^ k" "unat x = 2 ^ k"
proof -
  have "x \<noteq> 0" using assms(1) by auto
  then have "unat (x - 1) = unat x - 1" by (rule unat_minus_one)
  then have "unat x AND (unat x - 1) = 0"
    using assms(2) by (metis unsigned_and_eq unsigned_0)
  moreover have "0 < unat x"
    using \<open>x \<noteq> 0\<close> by (simp add: unat_gt_0)
  ultimately obtain k where k: "unat x = 2 ^ k" using nat_and_pred_zero by blast
  have "unat x < 2 ^ LENGTH('a)" by (rule unsigned_less)
  then have "k < LENGTH('a)"
    unfolding k by (simp add: power_strict_increasing_iff)
  moreover from this have "x = 2 ^ k"
    using k by (simp add: word_unat_eq_iff unat_2_power)
  ultimately show thesis using that k by blast
qed

end
