(* ===== verification/Descriptor.thy ===== *)
theory Descriptor
  imports Prelude
begin

text \<open>
  The 64-byte ring descriptor of \<^verbatim>\<open>src/internal/ring/descriptor.go\<close>: a raw byte array with
  little-endian field accessors at fixed offsets. The descriptor crosses the process boundary, so
  every value of the 64 bytes is a possible input.
\<close>

section \<open>Frame kinds\<close>

text \<open>A frame kind is one byte on the wire; bytes outside the assigned range do occur.\<close>

type_synonym FrameKind = byte

abbreviation (input) KindUnaryReq :: FrameKind where "KindUnaryReq \<equiv> 0"
abbreviation (input) KindUnaryResp :: FrameKind where "KindUnaryResp \<equiv> 1"
abbreviation (input) KindCancel :: FrameKind where "KindCancel \<equiv> 2"
abbreviation (input) KindStreamOpen :: FrameKind where "KindStreamOpen \<equiv> 3"
abbreviation (input) KindStreamMsg :: FrameKind where "KindStreamMsg \<equiv> 4"
abbreviation (input) KindStreamAck :: FrameKind where "KindStreamAck \<equiv> 5"
abbreviation (input) KindStreamClose :: FrameKind where "KindStreamClose \<equiv> 6"
abbreviation (input) KindStreamErr :: FrameKind where "KindStreamErr \<equiv> 7"
abbreviation (input) KindUnaryErr :: FrameKind where "KindUnaryErr \<equiv> 8"
abbreviation (input) KindStreamChunk :: FrameKind where "KindStreamChunk \<equiv> 9"

section \<open>The descriptor and its accessors\<close>

record Descriptor =
  raw :: "byte list"

abbreviation (input) callIDOffset :: nat where "callIDOffset \<equiv> 0"
abbreviation (input) serviceIDOffset :: nat where "serviceIDOffset \<equiv> 8"
abbreviation (input) methodIDOffset :: nat where "methodIDOffset \<equiv> 16"
abbreviation (input) payloadOffsetOffset :: nat where "payloadOffsetOffset \<equiv> 24"
abbreviation (input) payloadLengthOffset :: nat where "payloadLengthOffset \<equiv> 28"
abbreviation (input) allocSeqOffset :: nat where "allocSeqOffset \<equiv> 32"
abbreviation (input) budgetNSOffset :: nat where "budgetNSOffset \<equiv> 40"
abbreviation (input) kindOffset :: nat where "kindOffset \<equiv> 48"
abbreviation (input) flagsOffset :: nat where "flagsOffset \<equiv> 50"
abbreviation (input) generationOffset :: nat where "generationOffset \<equiv> 52"
abbreviation (input) reservedOffset :: nat where "reservedOffset \<equiv> 56"

definition zeroDescriptor :: Descriptor where
  "zeroDescriptor = \<lparr>raw = replicate 64 0\<rparr>"

definition CallID :: "Descriptor \<Rightarrow> u64" where
  "CallID d = le_decode (get_bytes (raw d) callIDOffset 8)"

definition SetCallID :: "Descriptor \<Rightarrow> u64 \<Rightarrow> Descriptor" where
  "SetCallID d v = d\<lparr>raw := put_bytes (raw d) callIDOffset (le_encode 8 v)\<rparr>"

definition ServiceID :: "Descriptor \<Rightarrow> u64" where
  "ServiceID d = le_decode (get_bytes (raw d) serviceIDOffset 8)"

definition SetServiceID :: "Descriptor \<Rightarrow> u64 \<Rightarrow> Descriptor" where
  "SetServiceID d v = d\<lparr>raw := put_bytes (raw d) serviceIDOffset (le_encode 8 v)\<rparr>"

definition MethodID :: "Descriptor \<Rightarrow> u64" where
  "MethodID d = le_decode (get_bytes (raw d) methodIDOffset 8)"

definition SetMethodID :: "Descriptor \<Rightarrow> u64 \<Rightarrow> Descriptor" where
  "SetMethodID d v = d\<lparr>raw := put_bytes (raw d) methodIDOffset (le_encode 8 v)\<rparr>"

definition PayloadOffset :: "Descriptor \<Rightarrow> u32" where
  "PayloadOffset d = le_decode (get_bytes (raw d) payloadOffsetOffset 4)"

definition SetPayloadOffset :: "Descriptor \<Rightarrow> u32 \<Rightarrow> Descriptor" where
  "SetPayloadOffset d v = d\<lparr>raw := put_bytes (raw d) payloadOffsetOffset (le_encode 4 v)\<rparr>"

definition PayloadLength :: "Descriptor \<Rightarrow> u32" where
  "PayloadLength d = le_decode (get_bytes (raw d) payloadLengthOffset 4)"

definition SetPayloadLength :: "Descriptor \<Rightarrow> u32 \<Rightarrow> Descriptor" where
  "SetPayloadLength d v = d\<lparr>raw := put_bytes (raw d) payloadLengthOffset (le_encode 4 v)\<rparr>"

definition AllocSeq :: "Descriptor \<Rightarrow> u64" where
  "AllocSeq d = le_decode (get_bytes (raw d) allocSeqOffset 8)"

definition SetAllocSeq :: "Descriptor \<Rightarrow> u64 \<Rightarrow> Descriptor" where
  "SetAllocSeq d v = d\<lparr>raw := put_bytes (raw d) allocSeqOffset (le_encode 8 v)\<rparr>"

text \<open>The stored bits of \<^verbatim>\<open>budget_ns\<close>, and the two's-complement reading the accessor returns.\<close>

definition budgetBits :: "Descriptor \<Rightarrow> u64" where
  "budgetBits d = le_decode (get_bytes (raw d) budgetNSOffset 8)"

definition BudgetNS :: "Descriptor \<Rightarrow> int" where
  "BudgetNS d = sint (budgetBits d)"

definition SetBudgetNS :: "Descriptor \<Rightarrow> int \<Rightarrow> Descriptor" where
  "SetBudgetNS d v = d\<lparr>raw := put_bytes (raw d) budgetNSOffset (le_encode 8 (word_of_int v :: u64))\<rparr>"

definition Kind :: "Descriptor \<Rightarrow> FrameKind" where
  "Kind d = raw d ! kindOffset"

definition KindWord :: "Descriptor \<Rightarrow> u16" where
  "KindWord d = le_decode (get_bytes (raw d) kindOffset 2)"

definition SetKind :: "Descriptor \<Rightarrow> FrameKind \<Rightarrow> Descriptor" where
  "SetKind d k = d\<lparr>raw := put_bytes (raw d) kindOffset (le_encode 2 (ucast k :: u16))\<rparr>"

definition Flags :: "Descriptor \<Rightarrow> u16" where
  "Flags d = le_decode (get_bytes (raw d) flagsOffset 2)"

definition SetFlags :: "Descriptor \<Rightarrow> u16 \<Rightarrow> Descriptor" where
  "SetFlags d v = d\<lparr>raw := put_bytes (raw d) flagsOffset (le_encode 2 v)\<rparr>"

definition DescGeneration :: "Descriptor \<Rightarrow> u32" where
  "DescGeneration d = le_decode (get_bytes (raw d) generationOffset 4)"

definition SetGeneration :: "Descriptor \<Rightarrow> u32 \<Rightarrow> Descriptor" where
  "SetGeneration d v = d\<lparr>raw := put_bytes (raw d) generationOffset (le_encode 4 v)\<rparr>"

definition Reserved :: "Descriptor \<Rightarrow> u64" where
  "Reserved d = le_decode (get_bytes (raw d) reservedOffset 8)"

definition SetReserved :: "Descriptor \<Rightarrow> u64 \<Rightarrow> Descriptor" where
  "SetReserved d v = d\<lparr>raw := put_bytes (raw d) reservedOffset (le_encode 8 v)\<rparr>"

definition PayloadInBounds :: "Descriptor \<Rightarrow> u64 \<Rightarrow> bool" where
  "PayloadInBounds d sz \<longleftrightarrow> ucast (PayloadOffset d) + ucast (PayloadLength d) \<le> sz"

lemmas accessor_defs =
  CallID_def SetCallID_def ServiceID_def SetServiceID_def MethodID_def SetMethodID_def
  PayloadOffset_def SetPayloadOffset_def PayloadLength_def SetPayloadLength_def
  AllocSeq_def SetAllocSeq_def budgetBits_def SetBudgetNS_def KindWord_def SetKind_def
  Flags_def SetFlags_def DescGeneration_def SetGeneration_def Reserved_def SetReserved_def

section \<open>Well-formedness and the field view\<close>

text \<open>Go's array type fixes the length at 64 bytes.\<close>

definition wf_desc :: "Descriptor \<Rightarrow> bool" where
  "wf_desc d \<longleftrightarrow> length (raw d) = 64"

text \<open>
  What the eleven fields of a descriptor hold, as independent values: the abstract view against
  which the byte-level accessors are verified.
\<close>

record fields =
  f_call_id :: u64
  f_service :: u64
  f_method :: u64
  f_offset :: u32
  f_length :: u32
  f_alloc_seq :: u64
  f_budget :: u64
  f_kind :: u16
  f_flags :: u16
  f_generation :: u32
  f_reserved :: u64

definition fields_of :: "Descriptor \<Rightarrow> fields" where
  "fields_of d =
     \<lparr>f_call_id = CallID d, f_service = ServiceID d, f_method = MethodID d,
      f_offset = PayloadOffset d, f_length = PayloadLength d, f_alloc_seq = AllocSeq d,
      f_budget = budgetBits d, f_kind = KindWord d, f_flags = Flags d,
      f_generation = DescGeneration d, f_reserved = Reserved d\<rparr>"

lemma wf_zero [simp]: "wf_desc zeroDescriptor"
  by (simp add: wf_desc_def zeroDescriptor_def)

lemma wf_set [simp]:
  assumes "wf_desc d"
  shows "wf_desc (SetCallID d a)" "wf_desc (SetServiceID d a)" "wf_desc (SetMethodID d a)"
    "wf_desc (SetPayloadOffset d b)" "wf_desc (SetPayloadLength d b)" "wf_desc (SetAllocSeq d a)"
    "wf_desc (SetBudgetNS d i)" "wf_desc (SetKind d k)" "wf_desc (SetFlags d w)"
    "wf_desc (SetGeneration d b)" "wf_desc (SetReserved d a)"
  using assms by (simp_all add: wf_desc_def accessor_defs)

lemma fields_set_simps:
  assumes "wf_desc d"
  shows "fields_of (SetCallID d a) = (fields_of d)\<lparr>f_call_id := a\<rparr>"
    and "fields_of (SetServiceID d a) = (fields_of d)\<lparr>f_service := a\<rparr>"
    and "fields_of (SetMethodID d a) = (fields_of d)\<lparr>f_method := a\<rparr>"
    and "fields_of (SetPayloadOffset d b) = (fields_of d)\<lparr>f_offset := b\<rparr>"
    and "fields_of (SetPayloadLength d b) = (fields_of d)\<lparr>f_length := b\<rparr>"
    and "fields_of (SetAllocSeq d a) = (fields_of d)\<lparr>f_alloc_seq := a\<rparr>"
    and "fields_of (SetBudgetNS d i) = (fields_of d)\<lparr>f_budget := word_of_int i\<rparr>"
    and "fields_of (SetKind d k) = (fields_of d)\<lparr>f_kind := ucast k\<rparr>"
    and "fields_of (SetFlags d w) = (fields_of d)\<lparr>f_flags := w\<rparr>"
    and "fields_of (SetGeneration d b) = (fields_of d)\<lparr>f_generation := b\<rparr>"
    and "fields_of (SetReserved d a) = (fields_of d)\<lparr>f_reserved := a\<rparr>"
  using assms by (simp_all add: wf_desc_def fields_of_def accessor_defs byte_simps)

lemma fields_zero:
  "fields_of zeroDescriptor =
     \<lparr>f_call_id = 0, f_service = 0, f_method = 0, f_offset = 0, f_length = 0, f_alloc_seq = 0, f_budget = 0,
      f_kind = 0, f_flags = 0, f_generation = 0, f_reserved = 0\<rparr>"
  by (simp add: fields_of_def accessor_defs zeroDescriptor_def get_bytes_def)

lemma get_of_fields:
  "CallID d = f_call_id (fields_of d)" "ServiceID d = f_service (fields_of d)"
  "MethodID d = f_method (fields_of d)" "PayloadOffset d = f_offset (fields_of d)"
  "PayloadLength d = f_length (fields_of d)" "AllocSeq d = f_alloc_seq (fields_of d)"
  "budgetBits d = f_budget (fields_of d)" "KindWord d = f_kind (fields_of d)"
  "Flags d = f_flags (fields_of d)" "DescGeneration d = f_generation (fields_of d)"
  "Reserved d = f_reserved (fields_of d)"
  by (simp_all add: fields_of_def)

lemma Kind_KindWord:
  assumes "wf_desc d"
  shows "Kind d = ucast (KindWord d)"
proof -
  have "get_bytes (raw d) kindOffset 2 = [raw d ! kindOffset, raw d ! Suc kindOffset]"
    using assms by (intro nth_equalityI) (auto simp: wf_desc_def get_bytes_def less_2_cases_iff)
  then show ?thesis
    by (simp add: Kind_def KindWord_def)
      (auto intro!: bit_word_eqI simp: bit_ucast_iff bit_or_iff bit_push_bit_iff)
qed

text \<open>The eleven fields cover all 64 bytes: the bytes are the concatenated field encodings.\<close>

lemma raw_fields:
  assumes "wf_desc d"
  shows "raw d = le_encode 8 (CallID d) @ le_encode 8 (ServiceID d) @ le_encode 8 (MethodID d) @
    le_encode 4 (PayloadOffset d) @ le_encode 4 (PayloadLength d) @ le_encode 8 (AllocSeq d) @
    le_encode 8 (budgetBits d) @ le_encode 2 (KindWord d) @ le_encode 2 (Flags d) @
    le_encode 4 (DescGeneration d) @ le_encode 8 (Reserved d)"
proof -
  have split: "get_bytes (raw d) off (n + m) = get_bytes (raw d) off n @ get_bytes (raw d) (off + n) m"
    for off n m by (simp add: get_bytes_def take_add) (simp add: add.commute)
  have "raw d = get_bytes (raw d) 0 64"
    using assms by (simp add: wf_desc_def get_bytes_def)
  also have "\<dots> = get_bytes (raw d) 0 8 @ get_bytes (raw d) 8 8 @ get_bytes (raw d) 16 8 @
      get_bytes (raw d) 24 4 @ get_bytes (raw d) 28 4 @ get_bytes (raw d) 32 8 @
      get_bytes (raw d) 40 8 @ get_bytes (raw d) 48 2 @ get_bytes (raw d) 50 2 @
      get_bytes (raw d) 52 4 @ get_bytes (raw d) 56 8"
    using split [of 0 8 56] split [of 8 8 48] split [of 16 8 40] split [of 24 4 36]
      split [of 28 4 32] split [of 32 8 24] split [of 40 8 16] split [of 48 2 14]
      split [of 50 2 12] split [of 52 4 8] by simp
  finally show ?thesis
    using assms by (simp add: wf_desc_def accessor_defs le_encode_decode)
qed

lemma fields_inject:
  "wf_desc d \<Longrightarrow> wf_desc d' \<Longrightarrow> fields_of d = fields_of d' \<Longrightarrow> d = d'"
  using raw_fields [of d] raw_fields [of d'] by (cases d; cases d') (auto simp: fields_of_def)

lemma BudgetNS_SetBudgetNS:
  "wf_desc d \<Longrightarrow> - (2 ^ 63) \<le> v \<Longrightarrow> v < 2 ^ 63 \<Longrightarrow> BudgetNS (SetBudgetNS d v) = v"
  by (simp add: BudgetNS_def SetBudgetNS_def budgetBits_def wf_desc_def byte_simps sint_sbintrunc'
      signed_take_bit_int_eq_self)

lemma PayloadInBounds_iff:
  "PayloadInBounds d sz \<longleftrightarrow> unat (PayloadOffset d) + unat (PayloadLength d) \<le> unat sz"
proof -
  have "unat (ucast (PayloadOffset d) + ucast (PayloadLength d) :: u64)
      = unat (PayloadOffset d) + unat (PayloadLength d)"
    using unat_u32_less [of "PayloadOffset d"] unat_u32_less [of "PayloadLength d"]
    by (simp add: unat_word_ariths)
  then show ?thesis
    by (simp add: PayloadInBounds_def word_le_nat_alt)
qed

section \<open>Properties\<close>

text \<open>every setter changes exactly its own field and leaves the ten others as they were, for every
  descriptor, and a budget written as a signed 64-bit value is read back.\<close>

theorem descriptor_setters_independent:
  assumes "wf_desc d"
  shows "fields_of (SetCallID d a) = (fields_of d)\<lparr>f_call_id := a\<rparr> \<and>
    fields_of (SetServiceID d a) = (fields_of d)\<lparr>f_service := a\<rparr> \<and>
    fields_of (SetMethodID d a) = (fields_of d)\<lparr>f_method := a\<rparr> \<and>
    fields_of (SetPayloadOffset d b) = (fields_of d)\<lparr>f_offset := b\<rparr> \<and>
    fields_of (SetPayloadLength d b) = (fields_of d)\<lparr>f_length := b\<rparr> \<and>
    fields_of (SetAllocSeq d a) = (fields_of d)\<lparr>f_alloc_seq := a\<rparr> \<and>
    fields_of (SetKind d k) = (fields_of d)\<lparr>f_kind := ucast k\<rparr> \<and>
    fields_of (SetFlags d w) = (fields_of d)\<lparr>f_flags := w\<rparr> \<and>
    fields_of (SetGeneration d b) = (fields_of d)\<lparr>f_generation := b\<rparr> \<and>
    fields_of (SetReserved d a) = (fields_of d)\<lparr>f_reserved := a\<rparr> \<and>
    fields_of (SetBudgetNS d (sint i)) = (fields_of d)\<lparr>f_budget := i\<rparr> \<and>
    BudgetNS (SetBudgetNS d (sint i)) = sint (i :: u64)"
  using assms sint_greater_eq [of i] sint_lt [of i]
  by (simp add: fields_set_simps BudgetNS_SetBudgetNS)

theorem descriptor_setters_independent_witness:
  "wf_desc zeroDescriptor \<and>
   fields_of (SetCallID zeroDescriptor 7) = (fields_of zeroDescriptor)\<lparr>f_call_id := 7\<rparr> \<and>
   BudgetNS (SetBudgetNS zeroDescriptor (sint (- 5 :: u64))) = sint (- 5 :: u64)"
  using descriptor_setters_independent [OF wf_zero, of 7 _ _ _ "- 5"] by simp

text \<open>the 64 bytes of a descriptor are the little-endian encodings of its eleven fields in the order
  of the layout, so no byte is outside a field and two descriptors with equal fields are equal.\<close>

theorem descriptor_bytes_are_fields:
  assumes "wf_desc d" "wf_desc d'"
  shows "raw d = le_encode 8 (CallID d) @ le_encode 8 (ServiceID d) @ le_encode 8 (MethodID d) @
      le_encode 4 (PayloadOffset d) @ le_encode 4 (PayloadLength d) @ le_encode 8 (AllocSeq d) @
      le_encode 8 (budgetBits d) @ le_encode 2 (KindWord d) @ le_encode 2 (Flags d) @
      le_encode 4 (DescGeneration d) @ le_encode 8 (Reserved d) \<and>
    (fields_of d = fields_of d' \<longleftrightarrow> d = d')"
  using raw_fields [OF assms(1)] fields_inject [OF assms] by metis

theorem descriptor_bytes_are_fields_witness:
  "wf_desc (SetKind zeroDescriptor KindCancel) \<and>
   fields_of (SetKind zeroDescriptor KindCancel) \<noteq> fields_of zeroDescriptor"
proof -
  have "wf_desc (SetKind zeroDescriptor KindCancel)" by simp
  moreover have "SetKind zeroDescriptor KindCancel \<noteq> zeroDescriptor"
    by (simp add: SetKind_def zeroDescriptor_def put_bytes_def le_encode_def) code_simp
  ultimately show ?thesis
    using descriptor_bytes_are_fields [of "SetKind zeroDescriptor KindCancel" zeroDescriptor] by simp
qed

end
