(* ===== verification/Ring.thy ===== *)
theory Ring
  imports Descriptor
begin

text \<open>
  The single-producer/single-consumer descriptor ring of \<^verbatim>\<open>src/internal/ring/ring.go\<close>. The head and
  tail words are 64-bit sequence counters that are never reduced modulo the capacity and that wrap.
  This theory models the operations as whole calls and refines them to a bounded queue; the theory
  \<open>Ring_Concurrent\<close> splits them into their atomic loads and stores.
\<close>

section \<open>The ring and its operations\<close>

abbreviation (input) minCapacity :: u64 where "minCapacity \<equiv> 64"
abbreviation (input) maxCapacity :: u64 where "maxCapacity \<equiv> 1048576"

datatype ring_error = ErrFull | ErrCorrupt | ErrBadConfig

datatype PeekStatus = PeekEmpty | PeekOK | PeekCorrupt

record Ring =
  slots :: "Descriptor list"
  head :: u64
  tail :: u64
  rmask :: u64
  capacity :: u64

text \<open>
  \<open>New\<close> wraps slots and the two words; a nil word is \<open>None\<close>. The words are shared memory, so the
  model keeps their current values in the record. A Go slice length is below \<open>2 ^ 63\<close>, so comparing
  it as a \<^verbatim>\<open>uint64\<close> is comparing the lengths.
\<close>

definition New :: "Descriptor list \<Rightarrow> u64 option \<Rightarrow> u64 option \<Rightarrow> u64 \<Rightarrow> (ring_error, Ring) outcome" where
  "New ss hw tw cap =
     (if cap < minCapacity \<or> cap > maxCapacity then Err ErrBadConfig
      else if cap AND (cap - 1) \<noteq> 0 then Err ErrBadConfig
      else if length ss \<noteq> unat cap then Err ErrBadConfig
      else case (hw, tw) of
             (Some h, Some t) \<Rightarrow>
               Ok \<lparr>slots = ss, head = h, tail = t, rmask = cap - 1, capacity = cap\<rparr>
           | _ \<Rightarrow> Err ErrBadConfig)"

definition Push :: "Ring \<Rightarrow> Descriptor \<Rightarrow> (ring_error, Ring) outcome" where
  "Push r d =
     (let depth = tail r - head r in
      if depth > capacity r then Err ErrCorrupt
      else if depth = capacity r then Err ErrFull
      else if unat (tail r AND rmask r) < length (slots r)
      then Ok (r\<lparr>slots := (slots r)[unat (tail r AND rmask r) := d], tail := tail r + 1\<rparr>)
      else Panic)"

definition Peek :: "Ring \<Rightarrow> (ring_error, Descriptor \<times> PeekStatus) outcome" where
  "Peek r =
     (let depth = tail r - head r in
      if depth > capacity r then Ok (zeroDescriptor, PeekCorrupt)
      else if depth = 0 then Ok (zeroDescriptor, PeekEmpty)
      else if unat (head r AND rmask r) < length (slots r)
      then Ok (slots r ! unat (head r AND rmask r), PeekOK)
      else Panic)"

definition Advance :: "Ring \<Rightarrow> Ring" where
  "Advance r = r\<lparr>head := head r + 1\<rparr>"

definition Pop :: "Ring \<Rightarrow> (ring_error, (Descriptor \<times> bool) \<times> Ring) outcome" where
  "Pop r =
     andThen (Peek r)
       (\<lambda>(d, status). if status \<noteq> PeekOK then Ok ((zeroDescriptor, False), r)
                       else Ok ((d, True), Advance r))"

definition Len :: "Ring \<Rightarrow> u64" where
  "Len r = tail r - head r"

definition Full :: "Ring \<Rightarrow> bool" where
  "Full r \<longleftrightarrow> Len r = capacity r"

definition Empty :: "Ring \<Rightarrow> bool" where
  "Empty r \<longleftrightarrow> Len r = 0"

definition Tail :: "Ring \<Rightarrow> u64" where
  "Tail r = tail r"

section \<open>Shape, corruption and the queue a ring represents\<close>

text \<open>
  \<open>ring_shape\<close> is what \<open>New\<close> establishes and no operation changes. The two sequence words are
  written by different processes: \<open>ring_sane\<close> is the bound on their distance that both sides check.
\<close>

definition ring_shape :: "Ring \<Rightarrow> bool" where
  "ring_shape r \<longleftrightarrow>
     (\<exists>k. 6 \<le> k \<and> k \<le> 20 \<and> capacity r = 2 ^ k \<and> rmask r = 2 ^ k - 1 \<and> length (slots r) = 2 ^ k)"

definition ring_sane :: "Ring \<Rightarrow> bool" where
  "ring_sane r \<longleftrightarrow> tail r - head r \<le> capacity r"

definition ring_inv :: "Ring \<Rightarrow> bool" where
  "ring_inv r \<longleftrightarrow> ring_shape r \<and> ring_sane r"

definition slot_at :: "Ring \<Rightarrow> u64 \<Rightarrow> Descriptor" where
  "slot_at r s = slots r ! unat (s AND rmask r)"

definition in_flight :: "Ring \<Rightarrow> Descriptor list" where
  "in_flight r = map (\<lambda>i. slot_at r (head r + of_nat i)) [0..<unat (tail r - head r)]"

lemma ring_shapeE:
  assumes "ring_shape r"
  obtains k where "6 \<le> k" "k \<le> 20" "capacity r = 2 ^ k" "rmask r = 2 ^ k - 1"
    "length (slots r) = 2 ^ k" "unat (capacity r) = 2 ^ k"
proof -
  from assms obtain k where k: "6 \<le> k" "k \<le> 20" "capacity r = 2 ^ k" "rmask r = 2 ^ k - 1"
    "length (slots r) = 2 ^ k"
    by (auto simp: ring_shape_def)
  moreover have "unat (2 ^ k :: u64) = 2 ^ k"
    using k(2) by (simp add: unat_2_power)
  ultimately show thesis using that by simp
qed

lemma slot_index:
  assumes "rmask r = 2 ^ k - 1" "k \<le> 64"
  shows "unat ((h + of_nat i) AND rmask r) = (unat h + i) mod 2 ^ k"
  using assms unat_slot [of k h i] by simp

lemma length_in_flight [simp]: "length (in_flight r) = unat (tail r - head r)"
  by (simp add: in_flight_def)

lemma unat_capacity: "ring_shape r \<Longrightarrow> unat (capacity r) = length (slots r)"
  by (erule ring_shapeE) simp

lemma slot_in_range: "ring_shape r \<Longrightarrow> unat (s AND rmask r) < length (slots r)"
  by (erule ring_shapeE) (simp add: unat_and_mask)

lemma New_shape: "New ss hw tw cap = Ok r \<Longrightarrow> ring_shape r"
proof -
  assume new: "New ss hw tw cap = Ok r"
  then have cap: "64 \<le> cap" "cap \<le> 1048576" "cap AND (cap - 1) = 0" "length ss = unat cap"
    by (auto simp: New_def split: if_splits)
  have "0 < cap" using cap(1) by (auto simp: word_gt_0)
  with cap(3) obtain k where k: "k < 64" "cap = 2 ^ k" "unat cap = 2 ^ k"
    by (auto elim: word_and_pred_zero)
  have "64 \<le> unat cap" "unat cap \<le> 1048576"
    using cap(1,2) by (auto simp: word_le_nat_alt)
  then have "2 ^ 6 \<le> (2 ^ k :: nat)" "(2 ^ k :: nat) \<le> 2 ^ 20" using k(3) by simp_all
  then have "6 \<le> k" "k \<le> 20" by (simp_all only: power_increasing_iff power_le_imp_le_exp)
  then show ?thesis
    using new k cap by (auto simp: New_def ring_shape_def split: if_splits option.splits)
qed

lemma slot_at_window:
  assumes "ring_shape r" "i < j" "j < i + length (slots r)"
  shows "unat ((h + of_nat i) AND rmask r) \<noteq> unat ((h + of_nat j) AND rmask r)"
proof -
  obtain k where k: "k \<le> 20" "rmask r = 2 ^ k - 1" "length (slots r) = 2 ^ k"
    using assms(1) by (rule ring_shapeE)
  show ?thesis
    using mod_window_inj [of "unat h" i "2 ^ k" j] assms(2,3) k slot_index [OF k(2)]
    by (auto simp: slot_index)
qed

lemma Push_Ok_iff:
  assumes "ring_shape r"
  shows "Push r d = Ok r' \<longleftrightarrow> tail r - head r < capacity r \<and>
    r' = r\<lparr>slots := (slots r)[unat (tail r AND rmask r) := d], tail := tail r + 1\<rparr>"
  using slot_in_range [OF assms, of "tail r"] by (auto simp: Push_def Let_def)

lemma Push_shape: "ring_shape r \<Longrightarrow> Push r d = Ok r' \<Longrightarrow> ring_shape r'"
  by (auto simp: Push_Ok_iff ring_shape_def)

lemma unat_depth_Suc:
  assumes "ring_shape r" "tail r - head r < capacity r"
  shows "unat (tail r + 1 - head r) = Suc (unat (tail r - head r))"
proof -
  have "tail r - head r \<noteq> - 1"
    using assms(2) by auto
  then have "1 + (tail r - head r) \<noteq> 0"
    by (simp add: eq_neg_iff_add_eq_0 add.commute)
  then have "unat (1 + (tail r - head r)) = Suc (unat (tail r - head r))"
    by (rule unatSuc)
  then show ?thesis by (simp add: algebra_simps)
qed

lemma Push_in_flight:
  assumes "ring_shape r" "Push r d = Ok r'"
  shows "in_flight r' = in_flight r @ [d]"
proof -
  let ?n = "unat (tail r - head r)"
  have r': "r' = r\<lparr>slots := (slots r)[unat (tail r AND rmask r) := d], tail := tail r + 1\<rparr>"
    and room: "tail r - head r < capacity r"
    using assms Push_Ok_iff by auto
  have "?n < length (slots r)"
    using room unat_capacity [OF assms(1)] by (simp add: word_less_nat_alt)
  then have other: "unat ((head r + of_nat i) AND rmask r) \<noteq> unat (tail r AND rmask r)"
    if "i < ?n" for i
    using slot_at_window [OF assms(1) that, of "head r"] by simp
  have n': "unat (tail r' - head r') = Suc ?n"
    using unat_depth_Suc [OF assms(1) room] r' by simp
  have tl: "head r + of_nat ?n = tail r" by simp
  show ?thesis
    using other slot_in_range [OF assms(1), of "tail r"]
    by (simp add: in_flight_def n' slot_at_def)
      (fastforce simp: r' tl nth_list_update)
qed

lemma Push_sane:
  assumes "ring_shape r" "Push r d = Ok r'"
  shows "ring_sane r'"
proof -
  have r': "tail r' = tail r + 1" "head r' = head r" "capacity r' = capacity r"
    and room: "tail r - head r < capacity r"
    using assms Push_Ok_iff by auto
  with unat_depth_Suc [OF assms(1) room] show ?thesis
    by (simp add: ring_sane_def word_le_nat_alt word_less_nat_alt)
qed

lemma Peek_cases:
  assumes "ring_inv r"
  shows "Peek r = Ok (case in_flight r of [] \<Rightarrow> (zeroDescriptor, PeekEmpty) | d # _ \<Rightarrow> (d, PeekOK))"
proof (cases "tail r = head r")
  case True
  then show ?thesis by (simp add: Peek_def in_flight_def)
next
  case False
  then have "0 < unat (tail r - head r)"
    by (simp add: unat_gt_0)
  then have "in_flight r = slot_at r (head r) # tl (in_flight r)"
    by (simp add: in_flight_def upt_conv_Cons)
  with False assms show ?thesis
    by (auto simp: Peek_def Let_def ring_inv_def ring_sane_def slot_in_range slot_at_def
        split: list.split)
qed

lemma Advance_in_flight:
  assumes "ring_inv r" "in_flight r = d # ds"
  shows "in_flight (Advance r) = ds" "ring_inv (Advance r)"
proof -
  have "0 < unat (tail r - head r)"
    using assms(2) length_in_flight [of r] by simp
  then have n: "unat (tail r - (head r + 1)) = unat (tail r - head r) - 1"
    by (metis diff_diff_eq unat_minus_one unat_gt_0)
  have "in_flight (Advance r) = tl (in_flight r)"
    by (simp add: in_flight_def Advance_def slot_at_def n)
      (rule nth_equalityI, auto simp: nth_tl ac_simps)
  with assms(2) show "in_flight (Advance r) = ds" by simp
  show "ring_inv (Advance r)"
    using assms(1) n
    by (auto simp: ring_inv_def ring_sane_def ring_shape_def Advance_def word_le_nat_alt)
qed

section \<open>The queue interface\<close>

text \<open>
  What the transport relies on when it publishes to and consumes from a ring: a bounded queue with a
  typed full signal, a non-destructive peek and an advance. The writer sees a ring through the Go
  interface \<^verbatim>\<open>descriptorRing\<close> and the consumer through \<^verbatim>\<open>inboundReader\<close>; this locale is the
  contract both use.
\<close>

datatype 'd queue_op = Enqueue 'd | Dequeue

text \<open>
  Any history of calls by the two sides, one call at a time: the descriptors accepted by Push (a
  full ring refuses and the caller drops the attempt), and the ones handed out by Peek and Advance.
\<close>

fun drive :: "('q \<Rightarrow> 'd \<Rightarrow> (ring_error, 'q) outcome) \<Rightarrow>
    ('q \<Rightarrow> (ring_error, 'd \<times> PeekStatus) outcome) \<Rightarrow> ('q \<Rightarrow> 'q) \<Rightarrow>
    'q \<Rightarrow> 'd queue_op list \<Rightarrow> (ring_error, 'd list \<times> 'd list \<times> 'q) outcome" where
  "drive push peek advance q [] = Ok ([], [], q)"
| "drive push peek advance q (Enqueue d # ops) =
     (case push q d of
        Ok q' \<Rightarrow> andThen (drive push peek advance q' ops) (\<lambda>(acc, del, q''). Ok (d # acc, del, q''))
      | Err ErrFull \<Rightarrow> drive push peek advance q ops
      | Err e \<Rightarrow> Err e
      | Panic \<Rightarrow> Panic)"
| "drive push peek advance q (Dequeue # ops) =
     andThen (peek q)
       (\<lambda>(d, st). case st of
           PeekOK \<Rightarrow> andThen (drive push peek advance (advance q) ops)
                      (\<lambda>(acc, del, q''). Ok (acc, d # del, q''))
         | PeekEmpty \<Rightarrow> drive push peek advance q ops
         | PeekCorrupt \<Rightarrow> Err ErrCorrupt)"

locale descriptor_queue =
  fixes push :: "'q \<Rightarrow> 'd \<Rightarrow> (ring_error, 'q) outcome"
    and peek :: "'q \<Rightarrow> (ring_error, 'd \<times> PeekStatus) outcome"
    and advance :: "'q \<Rightarrow> 'q"
    and contents :: "'q \<Rightarrow> 'd list"
    and bound :: "'q \<Rightarrow> nat"
    and inv :: "'q \<Rightarrow> bool"
    and none :: 'd
  assumes contents_bound: "inv q \<Longrightarrow> length (contents q) \<le> bound q"
    and push_full: "inv q \<Longrightarrow> length (contents q) = bound q \<Longrightarrow> push q d = Err ErrFull"
    and push_room: "inv q \<Longrightarrow> length (contents q) < bound q \<Longrightarrow>
        \<exists>q'. push q d = Ok q' \<and> inv q' \<and> contents q' = contents q @ [d] \<and> bound q' = bound q"
    and peek_empty: "inv q \<Longrightarrow> contents q = [] \<Longrightarrow> peek q = Ok (none, PeekEmpty)"
    and peek_first: "inv q \<Longrightarrow> contents q = d # ds \<Longrightarrow> peek q = Ok (d, PeekOK)"
    and advance_first: "inv q \<Longrightarrow> contents q = d # ds \<Longrightarrow>
        inv (advance q) \<and> contents (advance q) = ds \<and> bound (advance q) = bound q"
begin

lemma drive_fifo:
  "inv q \<Longrightarrow> \<exists>acc del q'. drive push peek advance q ops = Ok (acc, del, q') \<and>
     inv q' \<and> contents q @ acc = del @ contents q' \<and> bound q' = bound q"
proof (induction ops arbitrary: q)
  case Nil
  then show ?case by simp
next
  case (Cons op ops)
  show ?case
  proof (cases op)
    case (Enqueue d)
    show ?thesis
    proof (cases "length (contents q) = bound q")
      case True
      with Cons Enqueue show ?thesis by (simp add: push_full)
    next
      case False
      with contents_bound [OF Cons.prems] have "length (contents q) < bound q" by simp
      from push_room [OF Cons.prems this, of d] obtain q1 where
        q1: "push q d = Ok q1" "inv q1" "contents q1 = contents q @ [d]" "bound q1 = bound q" by blast
      with Cons.IH [OF q1(2)] Enqueue show ?thesis by fastforce
    qed
  next
    case Dequeue
    note IH = Cons.IH and inv_q = Cons.prems
    show ?thesis
    proof (cases "contents q")
      case Nil
      with IH [OF inv_q] Dequeue inv_q show ?thesis by (simp add: peek_empty)
    next
      case (Cons d ds)
      with advance_first [OF inv_q Cons] IH [of "advance q"] Dequeue inv_q show ?thesis
        by (fastforce simp: peek_first)
    qed
  qed
qed

end

interpretation dring: descriptor_queue Push Peek Advance in_flight "\<lambda>r. unat (capacity r)" ring_inv
  zeroDescriptor
proof unfold_locales
  fix q :: Ring and d :: Descriptor and ds
  assume inv: "ring_inv q"
  then have shape: "ring_shape q" and sane: "ring_sane q" by (simp_all add: ring_inv_def)
  show "length (in_flight q) \<le> unat (capacity q)"
    using sane by (simp add: ring_sane_def word_le_nat_alt)
  { assume "length (in_flight q) = unat (capacity q)"
    then show "Push q d = Err ErrFull"
      by (simp add: Push_def word_unat_eq_iff [symmetric]) }
  { assume "length (in_flight q) < unat (capacity q)"
    then have "tail q - head q < capacity q" by (simp add: word_less_nat_alt)
    with shape obtain q' where q': "Push q d = Ok q'" using Push_Ok_iff by blast
    then have "capacity q' = capacity q" using shape by (simp add: Push_Ok_iff)
    with q' shape show "\<exists>q'. Push q d = Ok q' \<and> ring_inv q' \<and>
        in_flight q' = in_flight q @ [d] \<and> unat (capacity q') = unat (capacity q)"
      by (auto simp: ring_inv_def Push_shape Push_sane Push_in_flight) }
  { assume "in_flight q = []"
    with inv show "Peek q = Ok (zeroDescriptor, PeekEmpty)" by (simp add: Peek_cases) }
  { assume "in_flight q = d # ds"
    with inv show "Peek q = Ok (d, PeekOK)" by (simp add: Peek_cases) }
  { assume "in_flight q = d # ds"
    with inv show "ring_inv (Advance q) \<and> in_flight (Advance q) = ds \<and>
        unat (capacity (Advance q)) = unat (capacity q)"
      by (simp add: Advance_in_flight) (simp add: Advance_def) }
qed

section \<open>Properties\<close>

text \<open>C16: from an empty ring at any 64-bit sequence value, every history of calls succeeds, and what the
  consumer received followed by what is still queued is exactly what the producer had accepted, in
  order; the queue never exceeds the capacity, also when the counters wrap.\<close>

theorem ring_fifo:
  assumes "New ss (Some h) (Some h) cap = Ok r"
  shows "\<exists>acc del r'. drive Push Peek Advance r ops = Ok (acc, del, r') \<and>
    acc = del @ in_flight r' \<and> length (in_flight r') \<le> unat cap"
proof -
  have r: "ring_inv r" "in_flight r = []" "capacity r = cap"
    using assms New_shape [OF assms]
    by (auto simp: New_def ring_inv_def ring_sane_def in_flight_def split: if_splits)
  with dring.drive_fifo [OF r(1), of ops] dring.contents_bound show ?thesis by fastforce
qed

theorem ring_fifo_witness:
  "\<exists>r. New (replicate 64 zeroDescriptor) (Some (- 1)) (Some (- 1)) 64 = Ok r \<and>
     (\<exists>acc del r'. drive Push Peek Advance r
        [Enqueue (SetCallID zeroDescriptor 1), Enqueue (SetCallID zeroDescriptor 2), Dequeue, Dequeue]
        = Ok (acc, del, r') \<and> acc = del @ in_flight r' \<and> length (in_flight r') \<le> unat (64 :: u64))"
proof -
  define r where "r = \<lparr>slots = replicate 64 zeroDescriptor, head = - 1, tail = - 1, rmask = 63, capacity = 64\<rparr>"
  have "New (replicate 64 zeroDescriptor) (Some (- 1)) (Some (- 1)) 64 = Ok r"
    by (simp add: New_def r_def)
  from ring_fifo [OF this] this show ?thesis by blast
qed

text \<open>C37: with the two shared words set to anything at all by the peer, no operation of a constructed
  ring indexes out of range, and a distance beyond the capacity is refused on both sides without
  touching a slot or the words.\<close>

theorem ring_fails_closed:
  assumes "New ss hw tw cap = Ok r0" and "r = r0\<lparr>head := h, tail := t\<rparr>"
  shows "Push r d \<noteq> Panic \<and> Peek r \<noteq> Panic \<and> Pop r \<noteq> Panic \<and>
    (cap < t - h \<longrightarrow> Push r d = Err ErrCorrupt \<and> Peek r = Ok (zeroDescriptor, PeekCorrupt) \<and>
       Pop r = Ok ((zeroDescriptor, False), r))"
proof -
  have "ring_shape r" "capacity r = cap"
    using New_shape [OF assms(1)] assms
    by (auto simp: ring_shape_def New_def split: if_splits option.splits)
  with slot_in_range [of r] show ?thesis
    by (simp add: Push_def Peek_def Pop_def Let_def assms(2))
qed

theorem ring_fails_closed_witness:
  "\<exists>r. New (replicate 64 zeroDescriptor) (Some 0) (Some 0) 64 = Ok r \<and>
     Push (r\<lparr>head := 5, tail := 3\<rparr>) zeroDescriptor = Err ErrCorrupt"
proof -
  define r where "r = \<lparr>slots = replicate 64 zeroDescriptor, head = 0, tail = 0, rmask = 63, capacity = 64\<rparr>"
  have new: "New (replicate 64 zeroDescriptor) (Some 0) (Some 0) 64 = Ok r"
    by (simp add: New_def r_def)
  have "(64 :: u64) < 3 - 5" by simp
  with ring_fails_closed [OF new refl, of 3 5 zeroDescriptor] new show ?thesis by auto
qed

end
