(* ===== verification/Ring_Concurrent.thy ===== *)
theory Ring_Concurrent
  imports Ring
begin

text \<open>
  Push, Peek and Advance of \<^verbatim>\<open>src/internal/ring/ring.go\<close> as sequences of atomic steps of two processes
  that share the slots and the two sequence words. Loads and stores of the words are atomic and
  sequentially consistent; the 64-byte descriptor is copied byte by byte and may be interleaved
  arbitrarily with the other side. The theorems show that the publication order (descriptor bytes,
  then tail store; tail load, then descriptor bytes) makes the byte copies race-free.
\<close>

section \<open>Program counters and the shared state\<close>

text \<open>The producer's program counter inside Push: the words it has loaded and the bytes written.\<close>

datatype producer =
    PIdle
  | PLoadTail u64 Descriptor            \<comment> \<open>head loaded\<close>
  | PDecide u64 u64 Descriptor          \<comment> \<open>head and tail loaded\<close>
  | PWriting u64 Descriptor nat         \<comment> \<open>copying descriptor bytes into the slot of the tail\<close>
  | PStore u64 Descriptor               \<comment> \<open>all bytes written, tail store pending\<close>

text \<open>The consumer's program counter inside Peek and Advance.\<close>

datatype consumer =
    CIdle
  | CLoadTail u64                       \<comment> \<open>head loaded\<close>
  | CDecide u64 u64                     \<comment> \<open>head and tail loaded\<close>
  | CReading u64 "byte list"            \<comment> \<open>bytes of the head slot copied so far\<close>
  | CPeeked Descriptor                  \<comment> \<open>Peek returned a descriptor\<close>
  | CAdvance u64 Descriptor             \<comment> \<open>Advance loaded head, head store pending\<close>

record sys =
  mem :: Ring
  prod :: producer
  cons :: consumer
  accepted :: "Descriptor list"
  delivered :: "Descriptor list"
  corrupt :: bool

definition write_byte :: "Descriptor \<Rightarrow> nat \<Rightarrow> byte \<Rightarrow> Descriptor" where
  "write_byte d i b = d\<lparr>raw := (raw d)[i := b]\<rparr>"

inductive sys_step :: "sys \<Rightarrow> sys \<Rightarrow> bool" where
  push_load_head:
    "prod s = PIdle \<Longrightarrow> wf_desc d \<Longrightarrow> sys_step s (s\<lparr>prod := PLoadTail (head (mem s)) d\<rparr>)"
| push_load_tail:
    "prod s = PLoadTail h d \<Longrightarrow> sys_step s (s\<lparr>prod := PDecide h (tail (mem s)) d\<rparr>)"
| push_corrupt:
    "prod s = PDecide h t d \<Longrightarrow> t - h > capacity (mem s) \<Longrightarrow>
       sys_step s (s\<lparr>prod := PIdle, corrupt := True\<rparr>)"
| push_full:
    "prod s = PDecide h t d \<Longrightarrow> t - h = capacity (mem s) \<Longrightarrow> sys_step s (s\<lparr>prod := PIdle\<rparr>)"
| push_room:
    "prod s = PDecide h t d \<Longrightarrow> t - h < capacity (mem s) \<Longrightarrow> sys_step s (s\<lparr>prod := PWriting t d 0\<rparr>)"
| push_byte:
    "prod s = PWriting t d i \<Longrightarrow> i < 64 \<Longrightarrow> j = unat (t AND rmask (mem s)) \<Longrightarrow>
       sys_step s (s\<lparr>mem := (mem s)\<lparr>slots := (slots (mem s))[j := write_byte (slots (mem s) ! j) i (raw d ! i)]\<rparr>,
                     prod := PWriting t d (Suc i)\<rparr>)"
| push_written:
    "prod s = PWriting t d 64 \<Longrightarrow> sys_step s (s\<lparr>prod := PStore t d\<rparr>)"
| push_store_tail:
    "prod s = PStore t d \<Longrightarrow>
       sys_step s (s\<lparr>mem := (mem s)\<lparr>tail := t + 1\<rparr>, prod := PIdle, accepted := accepted s @ [d]\<rparr>)"
| peek_load_head:
    "cons s = CIdle \<Longrightarrow> sys_step s (s\<lparr>cons := CLoadTail (head (mem s))\<rparr>)"
| peek_load_tail:
    "cons s = CLoadTail h \<Longrightarrow> sys_step s (s\<lparr>cons := CDecide h (tail (mem s))\<rparr>)"
| peek_corrupt:
    "cons s = CDecide h t \<Longrightarrow> t - h > capacity (mem s) \<Longrightarrow>
       sys_step s (s\<lparr>cons := CIdle, corrupt := True\<rparr>)"
| peek_empty:
    "cons s = CDecide h t \<Longrightarrow> t - h = 0 \<Longrightarrow> sys_step s (s\<lparr>cons := CIdle\<rparr>)"
| peek_nonempty:
    "cons s = CDecide h t \<Longrightarrow> t - h \<noteq> 0 \<Longrightarrow> t - h \<le> capacity (mem s) \<Longrightarrow>
       sys_step s (s\<lparr>cons := CReading h []\<rparr>)"
| peek_byte:
    "cons s = CReading h bs \<Longrightarrow> length bs < 64 \<Longrightarrow>
       sys_step s (s\<lparr>cons := CReading h (bs @ [raw (slot_at (mem s) h) ! length bs])\<rparr>)"
| peek_ok:
    "cons s = CReading h bs \<Longrightarrow> length bs = 64 \<Longrightarrow> sys_step s (s\<lparr>cons := CPeeked \<lparr>raw = bs\<rparr>\<rparr>)"
| advance_load_head:
    "cons s = CPeeked d \<Longrightarrow> sys_step s (s\<lparr>cons := CAdvance (head (mem s)) d\<rparr>)"
| advance_store_head:
    "cons s = CAdvance h d \<Longrightarrow>
       sys_step s (s\<lparr>mem := (mem s)\<lparr>head := h + 1\<rparr>, cons := CIdle, delivered := delivered s @ [d]\<rparr>)"

text \<open>Both sides attach to a ring whose two words agree: the ring is empty.\<close>

definition init_sys :: "Ring \<Rightarrow> sys" where
  "init_sys r = \<lparr>mem = r, prod = PIdle, cons = CIdle, accepted = [], delivered = [], corrupt = False\<rparr>"

definition fresh_ring :: "Ring \<Rightarrow> bool" where
  "fresh_ring r \<longleftrightarrow> ring_shape r \<and> tail r = head r \<and> list_all wf_desc (slots r)"

inductive reachable :: "sys \<Rightarrow> bool" where
  start: "fresh_ring r \<Longrightarrow> reachable (init_sys r)"
| step: "reachable s \<Longrightarrow> sys_step s s' \<Longrightarrow> reachable s'"

section \<open>The invariant\<close>

text \<open>
  What each program counter knows about the shared words. The producer's copy of the head may lag
  the true head, never the tail; the consumer's copy of the tail may lag the true tail.
\<close>

fun prod_inv :: "Ring \<Rightarrow> producer \<Rightarrow> bool" where
  "prod_inv r PIdle = True"
| "prod_inv r (PLoadTail h d) =
     (wf_desc d \<and> tail r - head r \<le> tail r - h \<and> tail r - h \<le> capacity r)"
| "prod_inv r (PDecide h t d) =
     (wf_desc d \<and> t = tail r \<and> tail r - head r \<le> t - h \<and> t - h \<le> capacity r)"
| "prod_inv r (PWriting t d i) =
     (wf_desc d \<and> t = tail r \<and> tail r - head r < capacity r \<and> i \<le> 64 \<and>
      take i (raw (slot_at r t)) = take i (raw d))"
| "prod_inv r (PStore t d) =
     (wf_desc d \<and> t = tail r \<and> tail r - head r < capacity r \<and> slot_at r t = d)"

fun cons_inv :: "Ring \<Rightarrow> consumer \<Rightarrow> bool" where
  "cons_inv r CIdle = True"
| "cons_inv r (CLoadTail h) = (h = head r)"
| "cons_inv r (CDecide h t) = (h = head r \<and> t - h \<le> tail r - head r)"
| "cons_inv r (CReading h bs) =
     (h = head r \<and> tail r \<noteq> head r \<and> bs = take (length bs) (raw (slot_at r h)))"
| "cons_inv r (CPeeked d) = (tail r \<noteq> head r \<and> d = slot_at r (head r))"
| "cons_inv r (CAdvance h d) = (h = head r \<and> tail r \<noteq> head r \<and> d = slot_at r (head r))"

definition sys_inv :: "sys \<Rightarrow> bool" where
  "sys_inv s \<longleftrightarrow>
     ring_inv (mem s) \<and> list_all wf_desc (slots (mem s)) \<and>
     prod_inv (mem s) (prod s) \<and> cons_inv (mem s) (cons s) \<and>
     accepted s = delivered s @ in_flight (mem s) \<and> \<not> corrupt s"

section \<open>How the shared updates act on the ring\<close>

lemma nonempty_depth: "tail r \<noteq> head r \<Longrightarrow> \<exists>n. unat (tail r - head r) = Suc n"
  by (simp add: gr0_conv_Suc [symmetric] unat_gt_0)

lemma in_flight_nonempty:
  "tail r \<noteq> head r \<Longrightarrow> in_flight r = slot_at r (head r) # tl (in_flight r)"
  by (drule nonempty_depth) (auto simp: in_flight_def upt_conv_Cons simp del: upt_Suc)

lemma depth_advance:
  "tail r \<noteq> head r \<Longrightarrow> unat (tail r - (head r + 1)) = unat (tail r - head r) - 1"
  by (simp add: diff_diff_eq [symmetric] unat_minus_one)

text \<open>Writing the slot of the tail leaves every published slot alone while the ring has room.\<close>

lemma write_tail_slot:
  assumes "ring_shape r" "tail r - head r < capacity r"
    and r': "r' = r\<lparr>slots := (slots r)[unat (tail r AND rmask r) := x]\<rparr>"
  shows "in_flight r' = in_flight r"
    and "tail r \<noteq> head r \<Longrightarrow> slot_at r' (head r) = slot_at r (head r)"
    and "slot_at r' (tail r) = x"
    and "ring_shape r'"
proof -
  let ?n = "unat (tail r - head r)"
  have "?n < length (slots r)"
    using assms(2) unat_capacity [OF assms(1)] by (simp add: word_less_nat_alt)
  then have other: "unat ((head r + of_nat i) AND rmask r) \<noteq> unat (tail r AND rmask r)"
    if "i < ?n" for i
    using slot_at_window [OF assms(1) that, of "head r"] by simp
  have same: "slot_at r' (head r + of_nat i) = slot_at r (head r + of_nat i)" if "i < ?n" for i
    using other [OF that] by (simp add: slot_at_def r')
  then show "in_flight r' = in_flight r"
    by (simp add: in_flight_def r' cong: map_cong)
  show "slot_at r' (head r) = slot_at r (head r)" if "tail r \<noteq> head r"
    using same [of 0] nonempty_depth [OF that] by auto
  show "slot_at r' (tail r) = x"
    using slot_in_range [OF assms(1)] by (simp add: slot_at_def r')
  show "ring_shape r'"
    using assms(1) by (simp add: ring_shape_def r')
qed

lemma store_tail:
  assumes "ring_inv r" "tail r - head r < capacity r"
  shows "in_flight (r\<lparr>tail := tail r + 1\<rparr>) = in_flight r @ [slot_at r (tail r)]"
    and "ring_inv (r\<lparr>tail := tail r + 1\<rparr>)"
proof -
  have n: "unat (tail r + 1 - head r) = Suc (unat (tail r - head r))"
    using assms unat_depth_Suc by (simp add: ring_inv_def)
  show "in_flight (r\<lparr>tail := tail r + 1\<rparr>) = in_flight r @ [slot_at r (tail r)]"
    by (simp add: in_flight_def n slot_at_def)
  show "ring_inv (r\<lparr>tail := tail r + 1\<rparr>)"
    using assms n by (simp add: ring_inv_def ring_shape_def ring_sane_def word_le_nat_alt word_less_nat_alt)
qed

lemma wf_slot_at: "ring_shape r \<Longrightarrow> list_all wf_desc (slots r) \<Longrightarrow> wf_desc (slot_at r s)"
  using slot_in_range [of r s] by (simp add: slot_at_def list_all_length)

lemma wf_write_byte: "wf_desc d \<Longrightarrow> wf_desc (write_byte d i b)"
  by (simp add: write_byte_def wf_desc_def)

lemma wf_update: "list_all wf_desc ds \<Longrightarrow> wf_desc d \<Longrightarrow> list_all wf_desc (ds[j := d])"
  by (metis list_all_length length_list_update nth_list_update nth_list_update_neq)

lemma take_write_byte:
  "wf_desc x \<Longrightarrow> i < 64 \<Longrightarrow> take i (raw x) = take i bs \<Longrightarrow> length bs = 64 \<Longrightarrow>
     take (Suc i) (raw (write_byte x i (bs ! i))) = take (Suc i) bs"
  by (simp add: write_byte_def wf_desc_def take_Suc_conv_app_nth)

section \<open>Preservation\<close>

lemma cons_inv_write_tail:
  assumes "ring_shape r" "tail r - head r < capacity r" "cons_inv r c"
  shows "cons_inv (r\<lparr>slots := (slots r)[unat (tail r AND rmask r) := x]\<rparr>) c"
  using assms write_tail_slot(2) [OF assms(1,2) refl, of x] by (cases c) auto

lemma cons_inv_store_tail:
  assumes "ring_shape r" "tail r - head r < capacity r" "cons_inv r c"
  shows "cons_inv (r\<lparr>tail := tail r + 1\<rparr>) c"
proof -
  have "unat (tail r + 1 - head r) = Suc (unat (tail r - head r))"
    using assms(1,2) by (rule unat_depth_Suc)
  then have "tail r - head r \<le> tail r + 1 - head r" "tail r + 1 \<noteq> head r"
    by (auto simp: word_le_nat_alt)
  with assms(3) show ?thesis by (cases c) (auto simp: slot_at_def)
qed

lemma prod_inv_advance:
  assumes "tail r \<noteq> head r" "prod_inv r p"
  shows "prod_inv (r\<lparr>head := head r + 1\<rparr>) p"
  using assms depth_advance [OF assms(1)]
  by (cases p) (auto simp: word_le_nat_alt word_less_nat_alt slot_at_def)

lemma sys_inv_producer:
  "sys_inv s \<Longrightarrow> ring_inv r' \<Longrightarrow> list_all wf_desc (slots r') \<Longrightarrow> prod_inv r' p' \<Longrightarrow>
     cons_inv r' (cons s) \<Longrightarrow> in_flight r' = in_flight (mem s) \<Longrightarrow>
     sys_inv (s\<lparr>mem := r', prod := p'\<rparr>)"
  by (simp add: sys_inv_def)

lemma sys_inv_push_byte:
  assumes inv: "sys_inv s" and p: "prod s = PWriting t d i" "i < 64"
    and j: "j = unat (t AND rmask (mem s))"
  shows "sys_inv (s\<lparr>mem := (mem s)\<lparr>slots := (slots (mem s))[j := write_byte (slots (mem s) ! j) i (raw d ! i)]\<rparr>,
                     prod := PWriting t d (Suc i)\<rparr>)"
proof -
  define r x where "r = mem s" and "x = write_byte (slots r ! j) i (raw d ! i)"
  define r' where "r' = r\<lparr>slots := (slots r)[j := x]\<rparr>"
  from inv have ri: "ring_shape r" "ring_sane r" and wf: "list_all wf_desc (slots r)"
    and pi: "prod_inv r (PWriting t d i)" and ci: "cons_inv r (cons s)"
    by (simp_all add: sys_inv_def ring_inv_def p(1) [symmetric] r_def)
  from pi have t: "t = tail r" and room: "tail r - head r < capacity r" and d: "wf_desc d" by auto
  have j': "j = unat (tail r AND rmask r)" by (simp add: j t r_def)
  note w = write_tail_slot [OF ri(1) room r'_def [unfolded j'], folded j']
  have old: "slots r ! j = slot_at r (tail r)" by (simp add: j' slot_at_def)
  then have wx: "wf_desc (slots r ! j)" using wf_slot_at [OF ri(1) wf] by simp
  have "take (Suc i) (raw x) = take (Suc i) (raw d)"
    unfolding x_def using pi p(2) wx old t d by (intro take_write_byte) (auto simp: wf_desc_def)
  then have pi': "prod_inv r' (PWriting t d (Suc i))"
    using w(3) room p(2) d by (simp add: t) (simp add: r'_def)
  have ci': "cons_inv r' (cons s)"
    using cons_inv_write_tail [OF ri(1) room ci, of x] by (simp add: r'_def j')
  have wf': "list_all wf_desc (slots r')"
    using wf wx by (simp add: wf_update wf_write_byte r'_def x_def)
  have "ring_inv r'"
    using w(4) ri(2) by (simp add: ring_inv_def ring_sane_def r'_def)
  from sys_inv_producer [OF inv this wf' pi' ci'] w(1)
  show ?thesis by (simp add: r'_def r_def x_def)
qed

lemma sys_inv_push_store_tail:
  assumes inv: "sys_inv s" and p: "prod s = PStore t d"
  shows "sys_inv (s\<lparr>mem := (mem s)\<lparr>tail := t + 1\<rparr>, prod := PIdle, accepted := accepted s @ [d]\<rparr>)"
proof -
  define r where "r = mem s"
  from inv p have ri: "ring_inv r" and t: "t = tail r" and room: "tail r - head r < capacity r"
    and d: "slot_at r (tail r) = d" and ci: "cons_inv r (cons s)"
    by (auto simp: sys_inv_def r_def)
  have "cons_inv (r\<lparr>tail := tail r + 1\<rparr>) (cons s)"
    using ri room ci by (intro cons_inv_store_tail) (auto simp: ring_inv_def)
  then show ?thesis
    using inv store_tail [OF ri room] by (simp add: sys_inv_def t d [symmetric] r_def)
qed

lemma sys_inv_advance_store_head:
  assumes inv: "sys_inv s" and c: "cons s = CAdvance h d"
  shows "sys_inv (s\<lparr>mem := (mem s)\<lparr>head := h + 1\<rparr>, cons := CIdle, delivered := delivered s @ [d]\<rparr>)"
proof -
  define r where "r = mem s"
  from inv c have ri: "ring_inv r" and h: "h = head r" and ne: "tail r \<noteq> head r"
    and d: "slot_at r (head r) = d" and pi: "prod_inv r (prod s)"
    by (auto simp: sys_inv_def r_def)
  have fl: "in_flight r = d # in_flight (r\<lparr>head := head r + 1\<rparr>)"
    using Advance_in_flight [OF ri in_flight_nonempty [OF ne]] in_flight_nonempty [OF ne] d
    by (simp add: Advance_def)
  have "ring_inv (r\<lparr>head := head r + 1\<rparr>)"
    using ri depth_advance [OF ne]
    by (auto simp: ring_inv_def ring_shape_def ring_sane_def word_le_nat_alt)
  then show ?thesis
    using inv fl prod_inv_advance [OF ne pi] by (simp add: sys_inv_def h r_def)
qed

lemma sys_inv_peek_byte:
  assumes inv: "sys_inv s" and c: "cons s = CReading h bs" "length bs < 64"
  shows "sys_inv (s\<lparr>cons := CReading h (bs @ [raw (slot_at (mem s) h) ! length bs])\<rparr>)"
proof -
  let ?x = "slot_at (mem s) h"
  from inv c have x: "wf_desc ?x" "bs = take (length bs) (raw ?x)"
    using wf_slot_at by (auto simp: sys_inv_def ring_inv_def)
  then have "bs @ [raw ?x ! length bs] = take (length (bs @ [raw ?x ! length bs])) (raw ?x)"
    using c(2) by (metis length_append_singleton take_Suc_conv_app_nth wf_desc_def)
  then show ?thesis using inv c x(1)
    by (simp add: sys_inv_def wf_desc_def min_absorb2)
qed

text \<open>A completely written slot holds the descriptor, and a completely read one was copied whole.\<close>

lemma whole_copy: "wf_desc x \<Longrightarrow> wf_desc d \<Longrightarrow> take 64 (raw x) = take 64 (raw d) \<Longrightarrow> x = d"
  by (simp add: wf_desc_def)

lemma sys_inv_push_written:
  assumes "sys_inv s" "prod s = PWriting t d 64"
  shows "sys_inv (s\<lparr>prod := PStore t d\<rparr>)"
proof -
  from assms have "wf_desc (slot_at (mem s) t)" "wf_desc d"
    "take 64 (raw (slot_at (mem s) t)) = take 64 (raw d)"
    using wf_slot_at by (auto simp: sys_inv_def ring_inv_def)
  then have "slot_at (mem s) t = d" by (rule whole_copy)
  with assms show ?thesis by (simp add: sys_inv_def)
qed

lemma sys_inv_peek_ok:
  assumes "sys_inv s" "cons s = CReading h bs" "length bs = 64"
  shows "sys_inv (s\<lparr>cons := CPeeked \<lparr>raw = bs\<rparr>\<rparr>)"
proof -
  from assms have "wf_desc (slot_at (mem s) h)" "bs = take 64 (raw (slot_at (mem s) h))"
    using wf_slot_at by (auto simp: sys_inv_def ring_inv_def)
  then have "\<lparr>raw = bs\<rparr> = slot_at (mem s) h" by (simp add: wf_desc_def)
  with assms show ?thesis by (simp add: sys_inv_def)
qed

lemma sys_step_inv:
  assumes "sys_step s s'" "sys_inv s"
  shows "sys_inv s'"
  using assms
proof (induction rule: sys_step.induct)
  case (push_store_tail s t d)
  then show ?case by (intro sys_inv_push_store_tail)
next
  case (advance_store_head s h d)
  then show ?case by (intro sys_inv_advance_store_head)
next
  case (peek_byte s h bs)
  then show ?case by (intro sys_inv_peek_byte)
next
  case (push_byte s t d i j)
  then show ?case by (intro sys_inv_push_byte)
next
  case (push_written s t d)
  then show ?case by (intro sys_inv_push_written)
next
  case (peek_ok s h bs)
  then show ?case by (intro sys_inv_peek_ok)
qed (auto simp: sys_inv_def ring_inv_def ring_sane_def)

lemma sys_inv_init: "fresh_ring r \<Longrightarrow> sys_inv (init_sys r)"
  by (auto simp: fresh_ring_def init_sys_def sys_inv_def ring_inv_def ring_sane_def in_flight_def)

lemma reachable_inv: "reachable s \<Longrightarrow> sys_inv s"
  by (induction rule: reachable.induct) (auto intro: sys_step_inv sys_inv_init)

section \<open>Progress of each side without the other\<close>

lemma reachable_run: "sys_step\<^sup>*\<^sup>* s s' \<Longrightarrow> reachable s \<Longrightarrow> reachable s'"
  by (induction rule: rtranclp_induct) (auto intro: reachable.step)

lemma run_step:
  "sys_step s s1 \<Longrightarrow> \<exists>s'. sys_step\<^sup>*\<^sup>* s1 s' \<and> Q s' \<Longrightarrow> \<exists>s'. sys_step\<^sup>*\<^sup>* s s' \<and> Q s'"
  by (meson converse_rtranclp_into_rtranclp)

lemma run_stop: "Q s \<Longrightarrow> \<exists>s'. sys_step\<^sup>*\<^sup>* s s' \<and> Q s'"
  by blast

lemma push_write_runs:
  "prod s = PWriting t d i \<Longrightarrow> i \<le> 64 \<Longrightarrow>
     \<exists>s'. sys_step\<^sup>*\<^sup>* s s' \<and> prod s' = PIdle \<and> accepted s' = accepted s @ [d] \<and> cons s' = cons s \<and>
       delivered s' = delivered s"
proof (induction "64 - i" arbitrary: s i)
  case 0
  then have "prod s = PWriting t d 64" by simp
  then have "sys_step s (s\<lparr>prod := PStore t d\<rparr>)" by (rule push_written)
  moreover note push_store_tail [of "s\<lparr>prod := PStore t d\<rparr>" t d]
  ultimately show ?case by (elim run_step) (auto elim!: run_step)
next
  case (Suc n)
  note IH = Suc.hyps(1)
  define j where "j = unat (t AND rmask (mem s))"
  define s1 where "s1 = s\<lparr>mem := (mem s)\<lparr>slots := (slots (mem s))[j := write_byte (slots (mem s) ! j) i (raw d ! i)]\<rparr>,
                     prod := PWriting t d (Suc i)\<rparr>"
  have "sys_step s s1"
    unfolding s1_def using Suc.prems Suc.hyps(2) by (intro push_byte) (simp_all add: j_def)
  moreover have "n = 64 - Suc i" "Suc i \<le> 64" "prod s1 = PWriting t d (Suc i)" "accepted s1 = accepted s"
    "cons s1 = cons s" "delivered s1 = delivered s"
    using Suc.hyps(2) by (simp_all add: s1_def)
  ultimately show ?case using IH [of "Suc i" s1] by (auto intro: run_step)
qed

lemma push_runs:
  assumes "prod s = PIdle" "wf_desc d" "tail (mem s) - head (mem s) < capacity (mem s)"
  shows "\<exists>s'. sys_step\<^sup>*\<^sup>* s s' \<and> prod s' = PIdle \<and> accepted s' = accepted s @ [d] \<and> cons s' = cons s \<and>
       delivered s' = delivered s"
proof -
  let ?h = "head (mem s)" and ?t = "tail (mem s)"
  let ?s1 = "s\<lparr>prod := PLoadTail ?h d\<rparr>" and ?s2 = "s\<lparr>prod := PDecide ?h ?t d\<rparr>"
    and ?s3 = "s\<lparr>prod := PWriting ?t d 0\<rparr>"
  have "sys_step s ?s1" using assms by (intro push_load_head)
  moreover have "sys_step ?s1 ?s2" using push_load_tail [of ?s1 ?h d] by simp
  moreover have "sys_step ?s2 ?s3" using push_room [of ?s2 ?h ?t d] assms by simp
  moreover have "\<exists>s'. sys_step\<^sup>*\<^sup>* ?s3 s' \<and> prod s' = PIdle \<and> accepted s' = accepted s @ [d] \<and> cons s' = cons s \<and>
       delivered s' = delivered s"
    using push_write_runs [of ?s3 ?t d 0] by simp
  ultimately show ?thesis by (intro run_step [of s ?s1] run_step [of ?s1 ?s2] run_step [of ?s2 ?s3])
qed

lemma peek_read_runs:
  "cons s = CReading h bs \<Longrightarrow> length bs \<le> 64 \<Longrightarrow>
     \<exists>s'. sys_step\<^sup>*\<^sup>* s s' \<and> (\<exists>d. cons s' = CPeeked d) \<and> accepted s' = accepted s \<and>
       delivered s' = delivered s"
proof (induction "64 - length bs" arbitrary: s bs)
  case 0
  then have "length bs = 64" by simp
  then show ?case using 0 by (intro run_step [OF peek_ok] run_stop) auto
next
  case (Suc n)
  note IH = Suc.hyps(1)
  define bs' where "bs' = bs @ [raw (slot_at (mem s) h) ! length bs]"
  define s1 where "s1 = s\<lparr>cons := CReading h bs'\<rparr>"
  have step: "sys_step s s1"
    unfolding s1_def bs'_def using Suc.prems Suc.hyps(2) by (intro peek_byte) auto
  have "n = 64 - length bs'" "length bs' \<le> 64" using Suc.hyps(2) by (simp_all add: bs'_def)
  then have "\<exists>s'. sys_step\<^sup>*\<^sup>* s1 s' \<and> (\<exists>d. cons s' = CPeeked d) \<and> accepted s' = accepted s \<and>
       delivered s' = delivered s"
    using IH [of bs' s1] by (simp add: s1_def)
  with step show ?case by (rule run_step)
qed

lemma peek_runs:
  assumes "reachable s" "cons s = CIdle" "tail (mem s) \<noteq> head (mem s)"
  shows "\<exists>s'. sys_step\<^sup>*\<^sup>* s s' \<and> (\<exists>d. cons s' = CPeeked d) \<and> accepted s' = accepted s \<and>
           delivered s' = delivered s"
proof -
  let ?h = "head (mem s)" and ?t = "tail (mem s)"
  let ?s1 = "s\<lparr>cons := CLoadTail ?h\<rparr>" and ?s2 = "s\<lparr>cons := CDecide ?h ?t\<rparr>"
    and ?s3 = "s\<lparr>cons := CReading ?h []\<rparr>"
  have le: "?t - ?h \<le> capacity (mem s)"
    using reachable_inv [OF assms(1)] by (simp add: sys_inv_def ring_inv_def ring_sane_def)
  have "sys_step s ?s1" using assms by (intro peek_load_head)
  moreover have "sys_step ?s1 ?s2" using peek_load_tail [of ?s1 ?h] by simp
  moreover have "sys_step ?s2 ?s3" using peek_nonempty [of ?s2 ?h ?t] assms le by simp
  moreover have "\<exists>s'. sys_step\<^sup>*\<^sup>* ?s3 s' \<and> (\<exists>d. cons s' = CPeeked d) \<and> accepted s' = accepted s \<and>
      delivered s' = delivered s"
    using peek_read_runs [of ?s3 ?h "[]"] by simp
  ultimately show ?thesis by (intro run_step [of s ?s1] run_step [of ?s1 ?s2] run_step [of ?s2 ?s3])
qed

lemma peek_advance_runs:
  assumes "reachable s" "cons s = CIdle" "tail (mem s) \<noteq> head (mem s)"
  shows "\<exists>s'. sys_step\<^sup>*\<^sup>* s s' \<and> cons s' = CIdle \<and> accepted s' = accepted s \<and>
           (\<exists>d. delivered s' = delivered s @ [d])"
proof -
  obtain s4 d where run: "sys_step\<^sup>*\<^sup>* s s4" and s4: "cons s4 = CPeeked d" "accepted s4 = accepted s"
      "delivered s4 = delivered s"
    using peek_runs [OF assms] by blast
  have "\<exists>s'. sys_step\<^sup>*\<^sup>* s4 s' \<and> cons s' = CIdle \<and> accepted s' = accepted s \<and>
          (\<exists>d. delivered s' = delivered s @ [d])"
    using advance_load_head [OF s4(1)] advance_store_head [of "s4\<lparr>cons := CAdvance (head (mem s4)) d\<rparr>"] s4
    by (elim run_step) (auto elim!: run_step)
  with run show ?thesis by (meson rtranclp_trans)
qed

section \<open>Properties\<close>

text \<open>The ring of the witnesses: 64 zero slots whose words are about to wrap.\<close>

definition wrapping_ring :: Ring where
  "wrapping_ring = \<lparr>slots = replicate 64 zeroDescriptor, head = - 1, tail = - 1, rmask = 63, capacity = 64\<rparr>"

lemma fresh_wrapping_ring: "fresh_ring wrapping_ring"
  by (auto simp: fresh_ring_def wrapping_ring_def ring_shape_def list_all_iff intro!: exI [of _ 6])

lemma reachable_with_one:
  "\<exists>s. reachable s \<and> cons s = CIdle \<and> accepted s = [zeroDescriptor] \<and> delivered s = []"
proof -
  let ?s = "init_sys wrapping_ring"
  have reach: "reachable ?s" using fresh_wrapping_ring by (rule reachable.start)
  have "\<exists>s'. sys_step\<^sup>*\<^sup>* ?s s' \<and> prod s' = PIdle \<and> accepted s' = accepted ?s @ [zeroDescriptor] \<and>
      cons s' = cons ?s \<and> delivered s' = delivered ?s"
    by (rule push_runs) (simp_all add: init_sys_def wrapping_ring_def)
  with reach show ?thesis
    using reachable_run by (auto simp: init_sys_def)
qed

lemma reachable_peeked: "\<exists>s d. reachable s \<and> cons s = CPeeked d"
proof -
  obtain s where s: "reachable s" "cons s = CIdle" "accepted s = [zeroDescriptor]" "delivered s = []"
    using reachable_with_one by blast
  have "tail (mem s) \<noteq> head (mem s)"
    using reachable_inv [OF s(1)] s(3,4) by (auto simp: sys_inv_def in_flight_def)
  from peek_runs [OF s(1,2) this] s(1) show ?thesis using reachable_run by blast
qed

text \<open>C3: in every interleaving of the two sides' atomic steps, with descriptors copied byte by byte, the
  consumer has received a prefix of what the producer published, at most \<open>capacity\<close> descriptors are
  outstanding, and neither side ever reports corruption.\<close>

theorem ring_spsc_fifo:
  assumes "reachable s"
  shows "\<exists>waiting. accepted s = delivered s @ waiting \<and> length waiting \<le> unat (capacity (mem s)) \<and>
    \<not> corrupt s"
  using reachable_inv [OF assms] dring.contents_bound [of "mem s"] by (auto simp: sys_inv_def)

theorem ring_spsc_fifo_witness:
  "\<exists>s. reachable s \<and> accepted s = [zeroDescriptor] \<and>
     (\<exists>waiting. accepted s = delivered s @ waiting \<and> length waiting \<le> unat (capacity (mem s)) \<and>
        \<not> corrupt s)"
  using reachable_with_one ring_spsc_fifo by blast

text \<open>C15: a descriptor that Peek has returned is the whole, untorn descriptor that the producer published
  next after those already delivered, in every interleaving.\<close>

theorem ring_no_torn_read:
  assumes "reachable s" "cons s = CPeeked d \<or> cons s = CAdvance h d"
  shows "\<exists>waiting. accepted s = delivered s @ d # waiting"
proof -
  have "tail (mem s) \<noteq> head (mem s)" "d = slot_at (mem s) (head (mem s))"
    using reachable_inv [OF assms(1)] assms(2) by (auto simp: sys_inv_def)
  then show ?thesis
    using reachable_inv [OF assms(1)] in_flight_nonempty [of "mem s"] by (auto simp: sys_inv_def)
qed

theorem ring_no_torn_read_witness:
  "\<exists>s d. reachable s \<and> cons s = CPeeked d \<and> (\<exists>waiting. accepted s = delivered s @ d # waiting)"
proof -
  obtain s d where "reachable s" "cons s = CPeeked d"
    using reachable_peeked by blast
  then show ?thesis using ring_no_torn_read by blast
qed



end
