(* ===== verification/Poison.thy ===== *)
theory Poison
  imports Prelude
begin

text \<open>
  The poison protocol of \<^verbatim>\<open>src/internal/transport/shm/poison.go\<close>, the conformance faults of
  \<^verbatim>\<open>errors.go\<close>, the park-state word of \<^verbatim>\<open>src/internal/event/parkstate.go\<close> and the producer's signal in
  \<^verbatim>\<open>transport.go\<close>, each as a whole call on the shared words of the sync page.
\<close>

section \<open>Errors as the sentinels they match\<close>

text \<open>
  Callers classify a Go error with \<^verbatim>\<open>errors.Is\<close>, which asks whether the error wraps a sentinel. An
  error is modelled by the set of sentinels it wraps.
\<close>

datatype sentinel =
    errRingCorrupt | errBadFrame | errChecksum | errBadSync | errLostWake | errNilConsume
  | errGenerationMismatch | ErrPoisonedRegion | TransportErrPoisoned | TransportErrClosed
  | ErrConsumeFault | ErrPayloadMalformed | ErrMalformedStatusFrame | ErrUnimplementedFrameKind
  | ErrPayloadTooLarge | ErrInvalidPayloadSize | ErrPayloadFillFailed | TransportErrBackpressure
  | ErrStreamChunkOnUDS | ErrReceiveBudgetExpired | CtxCanceled | CtxDeadlineExceeded | IOEOF | IOUnexpectedEOF
  | errUnsupportedKind | errLaneKindMismatch | errUnknownLane | errSendAbandoned
  | errFillOnDescriptorOnlyKind | errFillPanic | ShmErrBackpressure | ErrOther
  | ErrCanceledLocally | ErrDeadlineExceeded | ErrStreamsAtCapacity | ErrStreamExists | ErrStreamConformance
  | ErrSendClosed | ErrStreamTableClosed | ErrStreamCreditsExceedMax | ErrStreamDeadlineRequired
  | ErrOwedTeardownDropped | StreamStatusError "(u32 \<times> byte list \<times> byte list list) option"

type_synonym err = "sentinel set"

definition ErrPoisoned :: err where
  "ErrPoisoned = {ErrPoisonedRegion, TransportErrPoisoned}"

definition markPoisoned :: "err \<Rightarrow> err" where
  "markPoisoned e = e \<union> {TransportErrPoisoned}"

section \<open>Causes\<close>

type_synonym PoisonCause = u32

abbreviation (input) PoisonNone :: PoisonCause where "PoisonNone \<equiv> 0"
abbreviation (input) PoisonGeneric :: PoisonCause where "PoisonGeneric \<equiv> 1"
abbreviation (input) PoisonBadGeometry :: PoisonCause where "PoisonBadGeometry \<equiv> 2"
abbreviation (input) PoisonBadFrame :: PoisonCause where "PoisonBadFrame \<equiv> 3"
abbreviation (input) PoisonRingCorrupt :: PoisonCause where "PoisonRingCorrupt \<equiv> 4"
abbreviation (input) PoisonChecksum :: PoisonCause where "PoisonChecksum \<equiv> 5"
abbreviation (input) PoisonStaleStamp :: PoisonCause where "PoisonStaleStamp \<equiv> 6"
abbreviation (input) PoisonPeerCrash :: PoisonCause where "PoisonPeerCrash \<equiv> 7"
abbreviation (input) PoisonBadSync :: PoisonCause where "PoisonBadSync \<equiv> 8"

definition faultToPoisonCause :: "err \<Rightarrow> PoisonCause \<times> bool" where
  "faultToPoisonCause e =
     (if errRingCorrupt \<in> e then (PoisonRingCorrupt, True)
      else if errBadFrame \<in> e then (PoisonBadFrame, True)
      else if errChecksum \<in> e then (PoisonChecksum, True)
      else if errBadSync \<in> e then (PoisonBadSync, True)
      else if errLostWake \<in> e then (PoisonGeneric, True)
      else (PoisonNone, False))"

section \<open>The shared words\<close>

text \<open>The sync page words the protocol shares, and the counters of the two eventfds.\<close>

record sync =
  s_poison :: u32
  s_shutdown :: u32
  hpEFD :: nat
  phEFD :: nat

definition wakeBoth :: "sync \<Rightarrow> sync" where
  "wakeBoth s = s\<lparr>s_shutdown := 1, hpEFD := hpEFD s + 1, phEFD := phEFD s + 1\<rparr>"

definition Set :: "sync \<Rightarrow> PoisonCause \<Rightarrow> (err, bool \<times> sync) outcome" where
  "Set s cause =
     (if cause = PoisonNone \<or> cause = PoisonStaleStamp \<or> cause > PoisonBadSync then Panic
      else let won = (s_poison s = 0) in
        Ok (won, wakeBoth (if won then s\<lparr>s_poison := cause\<rparr> else s)))"

definition Shutdown :: "sync \<Rightarrow> sync" where
  "Shutdown s = wakeBoth s"

definition Check :: "sync \<Rightarrow> PoisonCause \<times> bool" where
  "Check s = (let v = s_poison s in (v, v \<noteq> 0))"

text \<open>The error of a torn-down region, with the recorded cause when it is poisoned.\<close>

definition TeardownError :: "sync \<Rightarrow> (err \<times> PoisonCause) option" where
  "TeardownError s =
     (let (cause, poisoned) = Check s in
      if poisoned then Some (ErrPoisoned, cause)
      else if s_shutdown s \<noteq> 0 then Some ({TransportErrClosed}, PoisonNone)
      else None)"

section \<open>Park state and the producer's signal\<close>

abbreviation (input) StateAwake :: u32 where "StateAwake \<equiv> 0"
abbreviation (input) StateParked :: u32 where "StateParked \<equiv> 1"

record ParkState =
  word :: u32

definition TryPark :: "ParkState \<Rightarrow> ParkState" where
  "TryPark p = p\<lparr>word := StateParked\<rparr>"

definition MarkAwake :: "ParkState \<Rightarrow> ParkState" where
  "MarkAwake p = p\<lparr>word := StateAwake\<rparr>"

definition IsParked :: "ParkState \<Rightarrow> bool" where
  "IsParked p \<longleftrightarrow> word p = StateParked"

text \<open>
  The producer's side: the outbound direction's park word and eventfd, the shared words, and the two
  recorded faults. Whether the eventfd write succeeds is an argument.
\<close>

record producerSignal =
  ps_park :: ParkState
  ps_efd :: nat
  ps_sync :: sync
  badSync :: bool
  lostWake :: bool

definition signal :: "bool \<Rightarrow> producerSignal \<Rightarrow> (err, producerSignal) outcome" where
  "signal writeOk p =
     (if s_poison (ps_sync p) \<noteq> 0 \<or> s_shutdown (ps_sync p) \<noteq> 0 then Ok p
      else if word (ps_park p) = StateParked then
        (if writeOk then Ok (p\<lparr>ps_efd := ps_efd p + 1\<rparr>)
         else andThen (Set (ps_sync p) PoisonGeneric)
                (\<lambda>(_, s). Ok (p\<lparr>lostWake := True, ps_sync := s\<rparr>)))
      else if word (ps_park p) = StateAwake then Ok p
      else andThen (Set (ps_sync p) PoisonBadSync) (\<lambda>(_, s). Ok (p\<lparr>badSync := True, ps_sync := s\<rparr>)))"

definition signalFault :: "producerSignal \<Rightarrow> err option" where
  "signalFault p = (if badSync p then Some {errBadSync} else if lostWake p then Some {errLostWake} else None)"

section \<open>Histories of poison and shutdown calls\<close>

datatype teardown_op = SetOp PoisonCause | ShutdownOp

fun teardown_run :: "sync \<Rightarrow> teardown_op list \<Rightarrow> (err, sync) outcome" where
  "teardown_run s [] = Ok s"
| "teardown_run s (SetOp c # ops) = andThen (Set s c) (\<lambda>(_, s'). teardown_run s' ops)"
| "teardown_run s (ShutdownOp # ops) = teardown_run (Shutdown s) ops"

definition valid_cause :: "PoisonCause \<Rightarrow> bool" where
  "valid_cause c \<longleftrightarrow> c \<in> {1, 2, 3, 4, 5, 7, 8}"

text \<open>The cause of the first Set in a history.\<close>

fun first_cause :: "teardown_op list \<Rightarrow> PoisonCause" where
  "first_cause [] = PoisonNone"
| "first_cause (SetOp c # ops) = c"
| "first_cause (ShutdownOp # ops) = first_cause ops"

lemma valid_cause_iff:
  "valid_cause c \<longleftrightarrow> \<not> (c = PoisonNone \<or> c = PoisonStaleStamp \<or> c > PoisonBadSync)"
proof
  assume "\<not> (c = PoisonNone \<or> c = PoisonStaleStamp \<or> c > PoisonBadSync)"
  then have u: "unat c \<le> 8" "c \<noteq> 0" "c \<noteq> 6" by (auto simp: word_le_nat_alt not_less)
  then have "unat c \<in> {0, 1, 2, 3, 4, 5, 6, 7, 8}" by auto
  moreover have "c = of_nat (unat c)" by simp
  ultimately have "c \<in> of_nat ` {0, 1, 2, 3, 4, 5, 6, 7, 8}" by (rule rev_image_eqI)
  with u show "valid_cause c" by (auto simp: valid_cause_def)
qed (auto simp: valid_cause_def)

lemma Set_valid:
  "valid_cause c \<Longrightarrow> Set s c = Ok (s_poison s = 0, wakeBoth (if s_poison s = 0 then s\<lparr>s_poison := c\<rparr> else s))"
  by (auto simp: Set_def Let_def valid_cause_iff)

lemma wakeBoth_simps [simp]:
  "s_poison (wakeBoth s) = s_poison s" "s_shutdown (wakeBoth s) = 1"
  "hpEFD (wakeBoth s) = Suc (hpEFD s)" "phEFD (wakeBoth s) = Suc (phEFD s)"
  by (simp_all add: wakeBoth_def)

lemma teardown_run_spec:
  "\<forall>c. SetOp c \<in> set ops \<longrightarrow> valid_cause c \<Longrightarrow>
     \<exists>s'. teardown_run s ops = Ok s' \<and>
       s_poison s' = (if s_poison s \<noteq> 0 then s_poison s else first_cause ops) \<and>
       s_shutdown s' = (if ops = [] then s_shutdown s else 1) \<and>
       hpEFD s' = hpEFD s + length ops \<and> phEFD s' = phEFD s + length ops"
proof (induction s ops rule: teardown_run.induct)
  case (2 s c ops)
  then have v: "valid_cause c" "c \<noteq> 0" by (auto simp: valid_cause_def)
  define s1 where "s1 = wakeBoth (if s_poison s = 0 then s\<lparr>s_poison := c\<rparr> else s)"
  have "Set s c = Ok (s_poison s = 0, s1)" using Set_valid [OF v(1)] by (simp add: s1_def)
  with 2(1) [of s1] 2(2) v(2) show ?case by (auto simp: s1_def)
next
  case (3 s ops)
  then show ?case by (auto simp: Shutdown_def)
qed simp

lemma first_cause_zero:
  "\<forall>c. SetOp c \<in> set ops \<longrightarrow> valid_cause c \<Longrightarrow> first_cause ops = 0 \<longleftrightarrow> (\<forall>c. SetOp c \<notin> set ops)"
proof (induction ops rule: first_cause.induct)
  case (2 c ops)
  then have "valid_cause c" by simp
  then have "c \<noteq> 0" by (auto simp: valid_cause_def)
  then show ?case by auto
qed simp_all

section \<open>Properties\<close>

text \<open>C29: in any history of poison and shutdown calls on a healthy region, from either side, no call
  panics, the recorded cause is that of the first poison call and never changes, every call wakes
  both directions, and from the first call on the region reports the poison with that cause, or, if
  there was no poison, that it is closed.\<close>

theorem poison_first_setter_wins:
  assumes "\<forall>c. SetOp c \<in> set ops \<longrightarrow> valid_cause c" "s_poison s = 0" "s_shutdown s = 0"
  shows "\<exists>s'. teardown_run s ops = Ok s' \<and> fst (Check s') = first_cause ops \<and>
    hpEFD s' = hpEFD s + length ops \<and> phEFD s' = phEFD s + length ops \<and>
    TeardownError s' =
      (if ops = [] then None
       else if \<exists>c. SetOp c \<in> set ops then Some (ErrPoisoned, first_cause ops)
       else Some ({TransportErrClosed}, PoisonNone))"
proof -
  obtain s' where s': "teardown_run s ops = Ok s'" "s_poison s' = first_cause ops"
    "s_shutdown s' = (if ops = [] then 0 else 1)" "hpEFD s' = hpEFD s + length ops"
    "phEFD s' = phEFD s + length ops"
    using teardown_run_spec [OF assms(1), of s] assms(2,3) by auto
  with first_cause_zero [OF assms(1)] show ?thesis
    by (intro exI [of _ s']) (simp add: Check_def TeardownError_def Let_def)
qed

theorem poison_first_setter_wins_witness:
  "\<exists>s'. teardown_run \<lparr>s_poison = 0, s_shutdown = 0, hpEFD = 0, phEFD = 0\<rparr>
          [ShutdownOp, SetOp PoisonBadFrame, SetOp PoisonPeerCrash] = Ok s' \<and>
        TeardownError s' = Some (ErrPoisoned, PoisonBadFrame)"
proof -
  let ?ops = "[ShutdownOp, SetOp PoisonBadFrame, SetOp PoisonPeerCrash]"
  let ?s = "\<lparr>s_poison = 0, s_shutdown = 0, hpEFD = 0, phEFD = 0\<rparr>"
  have "\<forall>c. SetOp c \<in> set ?ops \<longrightarrow> valid_cause c" by (simp add: valid_cause_def)
  moreover have "s_poison ?s = 0" "s_shutdown ?s = 0" by simp_all
  ultimately obtain s' where s': "teardown_run ?s ?ops = Ok s'"
    and "TeardownError s' = (if ?ops = [] then None
       else if \<exists>c. SetOp c \<in> set ?ops then Some (ErrPoisoned, first_cause ?ops)
       else Some ({TransportErrClosed}, PoisonNone))"
    using poison_first_setter_wins [of ?ops ?s] by blast
  moreover have "SetOp PoisonBadFrame \<in> set ?ops" by simp
  ultimately have "TeardownError s' = Some (ErrPoisoned, PoisonBadFrame)" by (auto split: if_splits)
  with s' show ?thesis by blast
qed

text \<open>the producer's signal leaves a torn-down region alone, writes the eventfd exactly when the
  consumer is parked, and turns a failed wake or an illegal park word into a poison whose cause is
  the one the recorded fault maps to; it never panics.\<close>

theorem signal_outcomes:
  assumes "signalFault p = None"
  shows "\<exists>p'. signal ok p = Ok p' \<and>
    (if TeardownError (ps_sync p) \<noteq> None \<or> word (ps_park p) = StateAwake then p' = p
     else if IsParked (ps_park p) \<and> ok then p' = p\<lparr>ps_efd := ps_efd p + 1\<rparr>
     else \<exists>f. signalFault p' = Some f \<and> faultToPoisonCause f = Check (ps_sync p') \<and>
            TeardownError (ps_sync p') =
              Some (ErrPoisoned, if IsParked (ps_park p) then PoisonGeneric else PoisonBadSync))"
proof (cases "TeardownError (ps_sync p) \<noteq> None")
  case True
  then show ?thesis by (auto simp: signal_def TeardownError_def Check_def Let_def split: if_splits)
next
  case False
  then have h: "s_poison (ps_sync p) = 0" "s_shutdown (ps_sync p) = 0"
    by (auto simp: TeardownError_def Check_def Let_def split: if_splits)
  consider "word (ps_park p) = 0" | "word (ps_park p) = 1" ok | "word (ps_park p) = 1" "\<not> ok"
    | "word (ps_park p) \<noteq> 0" "word (ps_park p) \<noteq> 1" by auto
  then show ?thesis
    using False h assms
    by cases (simp_all add: signal_def Set_def Let_def IsParked_def signalFault_def faultToPoisonCause_def
        TeardownError_def Check_def split: if_splits)
qed

theorem signal_outcomes_witness:
  "\<exists>p'. signal True \<lparr>ps_park = \<lparr>word = 9\<rparr>, ps_efd = 0,
      ps_sync = \<lparr>s_poison = 0, s_shutdown = 0, hpEFD = 0, phEFD = 0\<rparr>, badSync = False, lostWake = False\<rparr> = Ok p' \<and>
    TeardownError (ps_sync p') = Some (ErrPoisoned, PoisonBadSync)"
proof -
  let ?p = "\<lparr>ps_park = \<lparr>word = 9\<rparr>, ps_efd = 0,
      ps_sync = \<lparr>s_poison = 0, s_shutdown = 0, hpEFD = 0, phEFD = 0\<rparr>, badSync = False, lostWake = False\<rparr>"
  have "signalFault ?p = None" "TeardownError (ps_sync ?p) = None" "\<not> IsParked (ps_park ?p)"
    by (simp_all add: signalFault_def IsParked_def TeardownError_def Check_def)
  with signal_outcomes [of ?p True] show ?thesis by auto
qed

end
