(* ===== verification/Park_Wake.thy ===== *)
theory Park_Wake
  imports Poison
begin

text \<open>
  The spin-then-park waiter of \<^verbatim>\<open>src/internal/event/spin.go\<close> against the producer's signal and the
  teardown wakes, as interleaved atomic steps on the tail word, the park word, the poison and
  shutdown words and one direction's eventfd. The eventfd is a counter: a write adds one, a read
  blocks while it is zero and drains it. The theorems show that no wake is lost.
\<close>

section \<open>State\<close>

text \<open>Where the producer stands in \<open>Push\<close>'s tail store and \<open>signal\<close>.\<close>

datatype signal_pc = SigIdle | SigPoison | SigShutdown | SigPark | SigWrite

datatype wait_result = Work u64 | WaitShutdown | WaitCtx

text \<open>Where the consumer stands in \<open>Wait\<close>: the names say which access comes next.\<close>

datatype wait_pc =
    Running "wait_result option"
  | SpinShut | SpinTail
  | Arm | ArmCtx | ArmShut | ArmTail | Blocked
  | Woken | WakeCtx | WakeShut | WakeTail
  | Disarm wait_result

record park_sys =
  k_tail :: u64
  k_park :: u32
  k_efd :: nat
  k_poison :: bool
  k_shutdown :: bool
  k_signal :: signal_pc
  k_wait :: wait_pc
  k_lastSeen :: u64
  pend_poison :: nat   \<comment> \<open>poison calls between their CAS and their shutdown store\<close>
  pend_wake :: nat     \<comment> \<open>poison and shutdown calls between the shutdown store and the eventfd write\<close>

section \<open>Steps\<close>

inductive signal_step :: "park_sys \<Rightarrow> park_sys \<Rightarrow> bool" where
  publish: "k_signal s = SigIdle \<Longrightarrow> signal_step s (s\<lparr>k_tail := k_tail s + 1, k_signal := SigPoison\<rparr>)"
| sig_poisoned: "k_signal s = SigPoison \<Longrightarrow> k_poison s \<Longrightarrow> signal_step s (s\<lparr>k_signal := SigIdle\<rparr>)"
| sig_healthy: "k_signal s = SigPoison \<Longrightarrow> \<not> k_poison s \<Longrightarrow> signal_step s (s\<lparr>k_signal := SigShutdown\<rparr>)"
| sig_shut: "k_signal s = SigShutdown \<Longrightarrow> k_shutdown s \<Longrightarrow> signal_step s (s\<lparr>k_signal := SigIdle\<rparr>)"
| sig_open: "k_signal s = SigShutdown \<Longrightarrow> \<not> k_shutdown s \<Longrightarrow> signal_step s (s\<lparr>k_signal := SigPark\<rparr>)"
| sig_parked: "k_signal s = SigPark \<Longrightarrow> k_park s = StateParked \<Longrightarrow> signal_step s (s\<lparr>k_signal := SigWrite\<rparr>)"
| sig_awake: "k_signal s = SigPark \<Longrightarrow> k_park s = StateAwake \<Longrightarrow> signal_step s (s\<lparr>k_signal := SigIdle\<rparr>)"
| sig_illegal: "k_signal s = SigPark \<Longrightarrow> k_park s \<noteq> StateAwake \<Longrightarrow> k_park s \<noteq> StateParked \<Longrightarrow>
    signal_step s (s\<lparr>k_signal := SigIdle, k_poison := True, pend_poison := pend_poison s + 1\<rparr>)"
| sig_write: "k_signal s = SigWrite \<Longrightarrow> signal_step s (s\<lparr>k_signal := SigIdle, k_efd := k_efd s + 1\<rparr>)"
| sig_lost: "k_signal s = SigWrite \<Longrightarrow>
    signal_step s (s\<lparr>k_signal := SigIdle, k_poison := True, pend_poison := pend_poison s + 1\<rparr>)"

text \<open>Poison and shutdown calls by any party, any number of them at a time.\<close>

inductive teardown_step :: "park_sys \<Rightarrow> park_sys \<Rightarrow> bool" where
  poison_cas: "teardown_step s (s\<lparr>k_poison := True, pend_poison := pend_poison s + 1\<rparr>)"
| graceful: "teardown_step s (s\<lparr>k_shutdown := True, pend_wake := pend_wake s + 1\<rparr>)"
| poison_store: "pend_poison s = Suc n \<Longrightarrow>
    teardown_step s (s\<lparr>k_shutdown := True, pend_poison := n, pend_wake := pend_wake s + 1\<rparr>)"
| wake: "pend_wake s = Suc n \<Longrightarrow> teardown_step s (s\<lparr>pend_wake := n, k_efd := k_efd s + 1\<rparr>)"

text \<open>The steps of \<open>Wait\<close> other than giving up on a cancelled context.\<close>

inductive wait_step :: "park_sys \<Rightarrow> park_sys \<Rightarrow> bool" where
  call_spin: "k_wait s = Running r \<Longrightarrow> wait_step s (s\<lparr>k_wait := SpinShut, k_lastSeen := ls\<rparr>)"
| call_arm: "k_wait s = Running r \<Longrightarrow> wait_step s (s\<lparr>k_wait := Arm, k_lastSeen := ls\<rparr>)"
| spin_shut: "k_wait s = SpinShut \<Longrightarrow>
    wait_step s (s\<lparr>k_wait := (if k_shutdown s then Running (Some WaitShutdown) else SpinTail)\<rparr>)"
| spin_work: "k_wait s = SpinTail \<Longrightarrow> k_tail s \<noteq> k_lastSeen s \<Longrightarrow>
    wait_step s (s\<lparr>k_wait := Running (Some (Work (k_tail s)))\<rparr>)"
| spin_again: "k_wait s = SpinTail \<Longrightarrow> k_tail s = k_lastSeen s \<Longrightarrow> wait_step s (s\<lparr>k_wait := SpinShut\<rparr>)"
| spin_over: "k_wait s = SpinTail \<Longrightarrow> k_tail s = k_lastSeen s \<Longrightarrow> wait_step s (s\<lparr>k_wait := Arm\<rparr>)"
| arm: "k_wait s = Arm \<Longrightarrow> wait_step s (s\<lparr>k_park := StateParked, k_wait := ArmCtx\<rparr>)"
| arm_ctx: "k_wait s = ArmCtx \<Longrightarrow> wait_step s (s\<lparr>k_wait := ArmShut\<rparr>)"
| arm_shut: "k_wait s = ArmShut \<Longrightarrow>
    wait_step s (s\<lparr>k_wait := (if k_shutdown s then Disarm WaitShutdown else ArmTail)\<rparr>)"
| arm_tail: "k_wait s = ArmTail \<Longrightarrow>
    wait_step s (s\<lparr>k_wait := (if k_tail s \<noteq> k_lastSeen s then Disarm (Work (k_tail s)) else Blocked)\<rparr>)"
| read: "k_wait s = Blocked \<Longrightarrow> k_efd s > 0 \<Longrightarrow> wait_step s (s\<lparr>k_efd := 0, k_wait := Woken\<rparr>)"
| awake: "k_wait s = Woken \<Longrightarrow> wait_step s (s\<lparr>k_park := StateAwake, k_wait := WakeCtx\<rparr>)"
| wake_ctx: "k_wait s = WakeCtx \<Longrightarrow> wait_step s (s\<lparr>k_wait := WakeShut\<rparr>)"
| wake_shut: "k_wait s = WakeShut \<Longrightarrow>
    wait_step s (s\<lparr>k_wait := (if k_shutdown s then Running (Some WaitShutdown) else WakeTail)\<rparr>)"
| wake_tail: "k_wait s = WakeTail \<Longrightarrow>
    wait_step s (s\<lparr>k_wait := (if k_tail s \<noteq> k_lastSeen s then Running (Some (Work (k_tail s))) else Arm)\<rparr>)"
| disarm: "k_wait s = Disarm r \<Longrightarrow> wait_step s (s\<lparr>k_park := StateAwake, k_wait := Running (Some r)\<rparr>)"

text \<open>A cancelled context ends the wait at each point where the code looks at it.\<close>

inductive cancel_step :: "park_sys \<Rightarrow> park_sys \<Rightarrow> bool" where
  spin_cancel: "k_wait s = SpinShut \<Longrightarrow> cancel_step s (s\<lparr>k_wait := Running (Some WaitCtx)\<rparr>)"
| arm_cancel: "k_wait s = ArmCtx \<Longrightarrow> cancel_step s (s\<lparr>k_wait := Disarm WaitCtx\<rparr>)"
| read_cancel: "k_wait s = Blocked \<Longrightarrow> cancel_step s (s\<lparr>k_wait := Disarm WaitCtx\<rparr>)"
| wake_cancel: "k_wait s = WakeCtx \<Longrightarrow> cancel_step s (s\<lparr>k_wait := Running (Some WaitCtx)\<rparr>)"

definition park_step :: "park_sys \<Rightarrow> park_sys \<Rightarrow> bool" where
  "park_step s s' \<longleftrightarrow> signal_step s s' \<or> teardown_step s s' \<or> wait_step s s' \<or> cancel_step s s'"

definition park_init :: "park_sys \<Rightarrow> bool" where
  "park_init s \<longleftrightarrow> k_park s = StateAwake \<and> k_efd s = 0 \<and> \<not> k_poison s \<and> \<not> k_shutdown s \<and>
     k_signal s = SigIdle \<and> k_wait s = Running None \<and> pend_poison s = 0 \<and> pend_wake s = 0"

inductive park_reachable :: "park_sys \<Rightarrow> bool" where
  park_start: "park_init s \<Longrightarrow> park_reachable s"
| park_more: "park_reachable s \<Longrightarrow> park_step s s' \<Longrightarrow> park_reachable s'"

section \<open>Invariant\<close>

fun armed :: "wait_pc \<Rightarrow> bool" where
  "armed ArmCtx = True"
| "armed ArmShut = True"
| "armed ArmTail = True"
| "armed Blocked = True"
| "armed Woken = True"
| "armed (Disarm r) = True"
| "armed _ = False"

definition teardown_pending :: "park_sys \<Rightarrow> bool" where
  "teardown_pending s \<longleftrightarrow> pend_poison s > 0 \<or> pend_wake s > 0"

definition park_inv :: "park_sys \<Rightarrow> bool" where
  "park_inv s \<longleftrightarrow>
     k_park s = (if armed (k_wait s) then StateParked else StateAwake) \<and>
     (k_poison s \<and> \<not> k_shutdown s \<longrightarrow> pend_poison s > 0) \<and>
     (k_wait s \<in> {ArmTail, Blocked} \<and> (k_poison s \<or> k_shutdown s) \<longrightarrow> teardown_pending s \<or> k_efd s > 0) \<and>
     (k_wait s = Blocked \<and> k_tail s \<noteq> k_lastSeen s \<longrightarrow>
        k_signal s \<noteq> SigIdle \<or> teardown_pending s \<or> k_efd s > 0)"

lemmas park_inv_defs = park_inv_def teardown_pending_def

lemma signal_step_inv: "signal_step s s' \<Longrightarrow> park_inv s \<Longrightarrow> park_inv s'"
  by (induction rule: signal_step.induct) (auto simp: park_inv_defs split: if_splits)

lemma teardown_step_inv: "teardown_step s s' \<Longrightarrow> park_inv s \<Longrightarrow> park_inv s'"
  by (induction rule: teardown_step.induct) (auto simp: park_inv_defs split: if_splits)

lemma wait_step_inv: "wait_step s s' \<Longrightarrow> park_inv s \<Longrightarrow> park_inv s'"
  by (induction rule: wait_step.induct) (auto simp: park_inv_defs split: if_splits)

lemma cancel_step_inv: "cancel_step s s' \<Longrightarrow> park_inv s \<Longrightarrow> park_inv s'"
  by (induction rule: cancel_step.induct) (auto simp: park_inv_defs split: if_splits)

lemma park_reachable_inv: "park_reachable s \<Longrightarrow> park_inv s"
proof (induction rule: park_reachable.induct)
  case (park_start s)
  then show ?case by (simp add: park_init_def park_inv_def)
next
  case (park_more s s')
  then show ?case
    using signal_step_inv teardown_step_inv wait_step_inv cancel_step_inv by (auto simp: park_step_def)
qed

section \<open>A waiter with something to return returns\<close>

definition returns :: "park_sys \<Rightarrow> bool" where
  "returns s \<longleftrightarrow> (\<exists>s' r. wait_step\<^sup>*\<^sup>* s s' \<and> k_wait s' = Running (Some r) \<and> k_park s' = StateAwake \<and>
     (r = WaitShutdown \<and> k_shutdown s \<or> r = Work (k_tail s) \<and> k_tail s \<noteq> k_lastSeen s))"

lemma returns_step:
  "wait_step s s1 \<Longrightarrow> k_tail s1 = k_tail s \<Longrightarrow> k_lastSeen s1 = k_lastSeen s \<Longrightarrow> k_shutdown s1 = k_shutdown s \<Longrightarrow>
     returns s1 \<Longrightarrow> returns s"
  unfolding returns_def by (elim exE conjE, intro exI conjI, rule converse_rtranclp_into_rtranclp) simp_all

lemma returns_now:
  "k_wait s = Running (Some r) \<Longrightarrow> k_park s = StateAwake \<Longrightarrow>
     r = WaitShutdown \<and> k_shutdown s \<or> r = Work (k_tail s) \<and> k_tail s \<noteq> k_lastSeen s \<Longrightarrow> returns s"
  unfolding returns_def by blast

lemma returns_disarm:
  "k_wait s = Disarm r \<Longrightarrow>
     r = WaitShutdown \<and> k_shutdown s \<or> r = Work (k_tail s) \<and> k_tail s \<noteq> k_lastSeen s \<Longrightarrow> returns s"
  by (rule returns_step [OF disarm [of s r]]) (auto intro: returns_now [of _ r])

text \<open>From the arm onwards, when the shutdown word is set.\<close>

lemma returns_arm_shutdown:
  assumes "k_shutdown s"
  shows "k_wait s = ArmShut \<Longrightarrow> returns s" "k_wait s = ArmCtx \<Longrightarrow> returns s" "k_wait s = Arm \<Longrightarrow> returns s"
proof -
  have A: "returns u" if "k_shutdown u" "k_wait u = ArmShut" for u
    by (rule returns_step [OF arm_shut]) (use that in \<open>auto intro: returns_disarm\<close>)
  have B: "returns u" if "k_shutdown u" "k_wait u = ArmCtx" for u
    by (rule returns_step [OF arm_ctx]) (use that A in \<open>auto\<close>)
  have C: "returns u" if "k_shutdown u" "k_wait u = Arm" for u
    by (rule returns_step [OF arm]) (use that B in \<open>auto\<close>)
  show "k_wait s = ArmShut \<Longrightarrow> returns s" "k_wait s = ArmCtx \<Longrightarrow> returns s" "k_wait s = Arm \<Longrightarrow> returns s"
    using A B C assms by blast+
qed

lemma returns_woken:
  assumes "k_shutdown s \<or> k_tail s \<noteq> k_lastSeen s" "k_park s = StateAwake"
  shows "k_wait s = WakeTail \<Longrightarrow> returns s" "k_wait s = WakeShut \<Longrightarrow> returns s" "k_wait s = WakeCtx \<Longrightarrow> returns s"
proof -
  have A: "returns u" if "k_shutdown u \<or> k_tail u \<noteq> k_lastSeen u" "k_park u = StateAwake" "k_wait u = WakeTail" for u
    by (rule returns_step [OF wake_tail]) (use that in \<open>auto intro: returns_now returns_arm_shutdown\<close>)
  have B: "returns u" if "k_shutdown u \<or> k_tail u \<noteq> k_lastSeen u" "k_park u = StateAwake" "k_wait u = WakeShut" for u
    by (rule returns_step [OF wake_shut]) (use that A in \<open>auto intro: returns_now\<close>)
  have C: "returns u" if "k_shutdown u \<or> k_tail u \<noteq> k_lastSeen u" "k_park u = StateAwake" "k_wait u = WakeCtx" for u
    by (rule returns_step [OF wake_ctx]) (use that B in \<open>auto\<close>)
  show "k_wait s = WakeTail \<Longrightarrow> returns s" "k_wait s = WakeShut \<Longrightarrow> returns s" "k_wait s = WakeCtx \<Longrightarrow> returns s"
    using A B C assms by blast+
qed

lemma returns_blocked:
  assumes "k_shutdown s \<or> k_tail s \<noteq> k_lastSeen s"
  shows "k_wait s = Woken \<Longrightarrow> returns s" "k_wait s = Blocked \<Longrightarrow> k_efd s > 0 \<Longrightarrow> returns s"
proof -
  have A: "returns u" if "k_shutdown u \<or> k_tail u \<noteq> k_lastSeen u" "k_wait u = Woken" for u
    by (rule returns_step [OF awake]) (use that in \<open>auto intro: returns_woken\<close>)
  have B: "returns u" if "k_shutdown u \<or> k_tail u \<noteq> k_lastSeen u" "k_wait u = Blocked" "k_efd u > 0" for u
    by (rule returns_step [OF read]) (use that A in \<open>auto\<close>)
  show "k_wait s = Woken \<Longrightarrow> returns s" "k_wait s = Blocked \<Longrightarrow> k_efd s > 0 \<Longrightarrow> returns s"
    using A B assms by blast+
qed

lemma returns_arm:
  assumes "k_shutdown s \<or> k_tail s \<noteq> k_lastSeen s"
  shows "k_wait s = ArmTail \<Longrightarrow> k_tail s \<noteq> k_lastSeen s \<or> k_efd s > 0 \<Longrightarrow> returns s"
    "k_wait s = ArmShut \<Longrightarrow> returns s" "k_wait s = ArmCtx \<Longrightarrow> returns s" "k_wait s = Arm \<Longrightarrow> returns s"
proof -
  have A: "returns u" if "k_shutdown u \<or> k_tail u \<noteq> k_lastSeen u" "k_wait u = ArmTail"
      "k_tail u \<noteq> k_lastSeen u \<or> k_efd u > 0" for u
    by (rule returns_step [OF arm_tail]) (use that in \<open>auto intro: returns_disarm returns_blocked\<close>)
  have B: "returns u" if "k_shutdown u \<or> k_tail u \<noteq> k_lastSeen u" "k_wait u = ArmShut" for u
    by (rule returns_step [OF arm_shut]) (use that in \<open>auto intro: returns_disarm A\<close>)
  have C: "returns u" if "k_shutdown u \<or> k_tail u \<noteq> k_lastSeen u" "k_wait u = ArmCtx" for u
    by (rule returns_step [OF arm_ctx]) (use that B in \<open>auto\<close>)
  have D: "returns u" if "k_shutdown u \<or> k_tail u \<noteq> k_lastSeen u" "k_wait u = Arm" for u
    by (rule returns_step [OF arm]) (use that C in \<open>auto\<close>)
  show "k_wait s = ArmTail \<Longrightarrow> k_tail s \<noteq> k_lastSeen s \<or> k_efd s > 0 \<Longrightarrow> returns s"
    "k_wait s = ArmShut \<Longrightarrow> returns s" "k_wait s = ArmCtx \<Longrightarrow> returns s" "k_wait s = Arm \<Longrightarrow> returns s"
    using A B C D assms by blast+
qed

lemma returns_spin:
  assumes "k_shutdown s \<or> k_tail s \<noteq> k_lastSeen s" "k_park s = StateAwake"
  shows "k_wait s = SpinTail \<Longrightarrow> returns s" "k_wait s = SpinShut \<Longrightarrow> returns s"
proof -
  have A: "returns u" if "k_shutdown u \<or> k_tail u \<noteq> k_lastSeen u" "k_park u = StateAwake" "k_wait u = SpinTail" for u
  proof (cases "k_tail u = k_lastSeen u")
    case True
    show ?thesis by (rule returns_step [OF spin_over]) (use that True in \<open>auto intro: returns_arm\<close>)
  next
    case False
    show ?thesis by (rule returns_step [OF spin_work]) (use that False in \<open>auto intro: returns_now\<close>)
  qed
  have B: "returns u" if "k_shutdown u \<or> k_tail u \<noteq> k_lastSeen u" "k_park u = StateAwake" "k_wait u = SpinShut" for u
    by (rule returns_step [OF spin_shut]) (use that A in \<open>auto intro: returns_now\<close>)
  show "k_wait s = SpinTail \<Longrightarrow> returns s" "k_wait s = SpinShut \<Longrightarrow> returns s"
    using A B assms by blast+
qed

section \<open>Properties\<close>

definition park_start_state :: park_sys where
  "park_start_state = \<lparr>k_tail = 5, k_park = 0, k_efd = 0, k_poison = False, k_shutdown = False, k_signal = SigIdle,
     k_wait = Running None, k_lastSeen = 5, pend_poison = 0, pend_wake = 0\<rparr>"

lemma park_reachable_start: "park_reachable park_start_state"
  by (rule park_reachable.park_start) (simp add: park_init_def park_start_state_def)

lemma park_reachable_wait: "park_reachable s \<Longrightarrow> wait_step s s' \<Longrightarrow> park_reachable s'"
  by (auto intro: park_reachable.park_more simp: park_step_def)

lemma park_reachable_signal: "park_reachable s \<Longrightarrow> signal_step s s' \<Longrightarrow> park_reachable s'"
  by (auto intro: park_reachable.park_more simp: park_step_def)

text \<open>A reachable state in which the consumer has blocked and then a frame was published.\<close>

lemma reachable_blocked_with_work:
  "park_reachable (park_start_state\<lparr>k_park := 1, k_wait := Blocked, k_tail := 6, k_signal := SigPoison\<rparr>)"
proof -
  let ?s0 = park_start_state
  have "park_reachable (?s0\<lparr>k_wait := Arm, k_lastSeen := 5\<rparr>)"
    by (rule park_reachable_wait [OF park_reachable_start], rule call_arm [of _ None]) (simp add: park_start_state_def)
  then have "park_reachable (?s0\<lparr>k_park := 1, k_wait := ArmCtx\<rparr>)"
    by (rule park_reachable_wait) (use arm [of "?s0\<lparr>k_wait := Arm, k_lastSeen := 5\<rparr>"] in \<open>simp add: park_start_state_def\<close>)
  then have "park_reachable (?s0\<lparr>k_park := 1, k_wait := ArmShut\<rparr>)"
    by (rule park_reachable_wait) (use arm_ctx [of "?s0\<lparr>k_park := 1, k_wait := ArmCtx\<rparr>"] in \<open>simp add: park_start_state_def\<close>)
  then have "park_reachable (?s0\<lparr>k_park := 1, k_wait := ArmTail\<rparr>)"
    by (rule park_reachable_wait) (use arm_shut [of "?s0\<lparr>k_park := 1, k_wait := ArmShut\<rparr>"] in \<open>simp add: park_start_state_def\<close>)
  then have "park_reachable (?s0\<lparr>k_park := 1, k_wait := Blocked\<rparr>)"
    by (rule park_reachable_wait) (use arm_tail [of "?s0\<lparr>k_park := 1, k_wait := ArmTail\<rparr>"] in \<open>simp add: park_start_state_def\<close>)
  then show ?thesis
    by (rule park_reachable_signal) (use publish [of "?s0\<lparr>k_park := 1, k_wait := Blocked\<rparr>"] in \<open>simp add: park_start_state_def\<close>)
qed

text \<open>C6: no wake is lost. In every reachable state in which the consumer is blocked on an empty eventfd
  while there is a newer tail, a poison or a shutdown, somebody is still on the way to writing the
  eventfd: the producer between its tail store and the end of its signal, or a teardown between its
  first store and its wake. The park word says parked exactly while the consumer is armed.\<close>

theorem no_lost_wake:
  assumes "park_reachable s"
  shows "(k_wait s = Blocked \<and> k_efd s = 0 \<and> (k_tail s \<noteq> k_lastSeen s \<or> k_poison s \<or> k_shutdown s) \<longrightarrow>
      k_signal s \<noteq> SigIdle \<or> teardown_pending s) \<and>
    (k_park s = (if armed (k_wait s) then StateParked else StateAwake))"
  using park_reachable_inv [OF assms] by (auto simp: park_inv_def)

theorem no_lost_wake_witness:
  "\<exists>s. park_reachable s \<and> k_wait s = Blocked \<and> k_efd s = 0 \<and> k_tail s \<noteq> k_lastSeen s \<and> k_park s = StateParked"
  using no_lost_wake [OF reachable_blocked_with_work] reachable_blocked_with_work
  by (intro exI [of _ "park_start_state\<lparr>k_park := 1, k_wait := Blocked, k_tail := 6, k_signal := SigPoison\<rparr>"])
    (simp add: park_start_state_def)



end
