(* ===== verification/Frames.thy ===== *)
theory Frames
  imports Descriptor Poison
begin

text \<open>
  The frame both transports carry, \<^verbatim>\<open>src/internal/transport/transport.go\<close>: its kinds, the status body
  codec shared by the two transports (\<^verbatim>\<open>uds.go\<close>), the mapping between frame kinds and ring descriptor
  kinds (\<^verbatim>\<open>shm/intent.go\<close>, \<^verbatim>\<open>shm/transport.go\<close>), the classification of errors and the fault barrier
  around a consume callback (\<^verbatim>\<open>consume.go\<close>). A Go string is its bytes.
\<close>

section \<open>Frames\<close>

abbreviation (input) MaxFrameSize :: nat where "MaxFrameSize \<equiv> 1048576"

abbreviation (input) FrameUnaryReq :: byte where "FrameUnaryReq \<equiv> 0"
abbreviation (input) FrameUnaryResp :: byte where "FrameUnaryResp \<equiv> 1"
abbreviation (input) FrameCancel :: byte where "FrameCancel \<equiv> 2"
abbreviation (input) FrameStreamOpen :: byte where "FrameStreamOpen \<equiv> 3"
abbreviation (input) FrameStreamMsg :: byte where "FrameStreamMsg \<equiv> 4"
abbreviation (input) FrameStreamAck :: byte where "FrameStreamAck \<equiv> 5"
abbreviation (input) FrameStreamClose :: byte where "FrameStreamClose \<equiv> 6"
abbreviation (input) FrameStreamErr :: byte where "FrameStreamErr \<equiv> 7"
abbreviation (input) FrameUnaryErr :: byte where "FrameUnaryErr \<equiv> 8"
abbreviation (input) FrameStreamChunk :: byte where "FrameStreamChunk \<equiv> 9"

record FrameStatus =
  Code :: u32
  Message :: "byte list"
  Details :: "byte list list"

record Frame =
  fr_CallID :: u64
  fr_Kind :: byte
  fr_Service :: u64
  fr_Method :: u64
  fr_Budget :: int
  fr_Payload :: "byte list"
  fr_Status :: "FrameStatus option"
  fr_Control :: u64

definition zeroFrame :: Frame where
  "zeroFrame = \<lparr>fr_CallID = 0, fr_Kind = 0, fr_Service = 0, fr_Method = 0, fr_Budget = 0, fr_Payload = [],
     fr_Status = None, fr_Control = 0\<rparr>"

definition CarriesStatusBody :: "byte \<Rightarrow> bool" where
  "CarriesStatusBody k \<longleftrightarrow> k = FrameUnaryErr \<or> k = FrameStreamErr"

definition checkImplementedKind :: "byte \<Rightarrow> (err, unit) outcome" where
  "checkImplementedKind k =
     (if k \<in> {FrameUnaryReq, FrameUnaryResp, FrameCancel, FrameUnaryErr} then Ok ()
      else if k \<in> {FrameStreamOpen, FrameStreamMsg, FrameStreamAck, FrameStreamClose, FrameStreamErr} then Ok ()
      else Err {ErrUnimplementedFrameKind})"

definition IsFrameLocalRecvErr :: "err \<Rightarrow> bool" where
  "IsFrameLocalRecvErr e \<longleftrightarrow> ErrMalformedStatusFrame \<in> e \<or> ErrUnimplementedFrameKind \<in> e \<or> ErrConsumeFault \<in> e"

definition NeverPublished :: "err \<Rightarrow> bool" where
  "NeverPublished e \<longleftrightarrow> ErrUnimplementedFrameKind \<in> e \<or> ErrPayloadTooLarge \<in> e \<or> TransportErrBackpressure \<in> e"

section \<open>The status body\<close>

abbreviation (input) statusHeadSize :: nat where "statusHeadSize \<equiv> 12"

definition zeroStatus :: FrameStatus where
  "zeroStatus = \<lparr>Code = 0, Message = [], Details = []\<rparr>"

definition encodeDetail :: "byte list \<Rightarrow> byte list" where
  "encodeDetail d = be_encode 4 (of_nat (length d) :: u32) @ d"

definition EncodeStatus :: "FrameStatus option \<Rightarrow> byte list" where
  "EncodeStatus so =
     (let s = (case so of None \<Rightarrow> zeroStatus | Some s \<Rightarrow> s) in
      be_encode 4 (Code s) @ be_encode 4 (of_nat (length (Message s)) :: u32)
      @ be_encode 4 (of_nat (length (Details s)) :: u32)
      @ Message s @ concat (map encodeDetail (Details s)))"

fun decodeDetails :: "byte list \<Rightarrow> nat \<Rightarrow> nat \<Rightarrow> (err, byte list list) outcome" where
  "decodeDetails body off 0 = Ok []"
| "decodeDetails body off (Suc n) =
     (if length body - off < 4 then Err {ErrMalformedStatusFrame}
      else andThen (slice body off (off + 4)) (\<lambda>lb.
        let dLen = unat (be_decode lb :: u32); off = off + 4 in
        if dLen > length body - off then Err {ErrMalformedStatusFrame}
        else andThen (slice body off (off + dLen)) (\<lambda>d.
          andThen (decodeDetails body (off + dLen) n) (\<lambda>ds. Ok (d # ds)))))"

definition DecodeStatus :: "byte list \<Rightarrow> (err, FrameStatus) outcome" where
  "DecodeStatus body =
     (if length body < statusHeadSize then Err {ErrMalformedStatusFrame}
      else andThen (slice body 0 4) (\<lambda>c. andThen (slice body 4 8) (\<lambda>m. andThen (slice body 8 12) (\<lambda>n.
        let code = be_decode c; msgLen = unat (be_decode m :: u32); detailCount = unat (be_decode n :: u32);
            off = statusHeadSize; rem = length body - off in
        if msgLen > rem then Err {ErrMalformedStatusFrame}
        else andThen (slice body off (off + msgLen)) (\<lambda>message.
          andThen (decodeDetails body (off + msgLen) detailCount) (\<lambda>details.
            Ok \<lparr>Code = code, Message = message, Details = details\<rparr>))))))"

definition wirePayload :: "Frame \<Rightarrow> byte list" where
  "wirePayload f = (if CarriesStatusBody (fr_Kind f) then EncodeStatus (fr_Status f) else fr_Payload f)"

section \<open>Frame kinds and descriptor kinds\<close>

definition mapKind :: "byte \<Rightarrow> bool \<Rightarrow> (err, FrameKind \<times> bool) outcome" where
  "mapKind k chunkingActive =
     (if k = FrameUnaryReq then Ok (KindUnaryReq, False)
      else if k = FrameUnaryResp then Ok (KindUnaryResp, False)
      else if k = FrameUnaryErr then Ok (KindUnaryErr, False)
      else if k = FrameCancel then Ok (KindCancel, True)
      else if k = FrameStreamOpen then Ok (KindStreamOpen, False)
      else if k = FrameStreamMsg then Ok (KindStreamMsg, False)
      else if k = FrameStreamAck then Ok (KindStreamAck, True)
      else if k = FrameStreamClose then Ok (KindStreamClose, False)
      else if k = FrameStreamErr then Ok (KindStreamErr, False)
      else if k = FrameStreamChunk then
        (if \<not> chunkingActive then Err {errUnsupportedKind, ErrUnimplementedFrameKind}
         else Ok (KindStreamChunk, False))
      else Err {errUnsupportedKind, ErrUnimplementedFrameKind})"

definition unmapKind :: "FrameKind \<Rightarrow> bool \<Rightarrow> (byte \<times> bool) option" where
  "unmapKind k chunkingActive =
     (if k = KindUnaryReq then Some (FrameUnaryReq, False)
      else if k = KindUnaryResp then Some (FrameUnaryResp, False)
      else if k = KindUnaryErr then Some (FrameUnaryErr, False)
      else if k = KindCancel then Some (FrameCancel, True)
      else if k = KindStreamOpen then Some (FrameStreamOpen, False)
      else if k = KindStreamMsg then Some (FrameStreamMsg, False)
      else if k = KindStreamAck then Some (FrameStreamAck, True)
      else if k = KindStreamClose then Some (FrameStreamClose, False)
      else if k = KindStreamErr then Some (FrameStreamErr, False)
      else if k = KindStreamChunk then
        (if \<not> chunkingActive then None else Some (FrameStreamChunk, False))
      else None)"

section \<open>The consume barrier\<close>

abbreviation (input) FaultDetailMaxBytes :: nat where "FaultDetailMaxBytes \<equiv> 512"

text \<open>\<open>utf8.RuneStart\<close>: not a continuation byte.\<close>

definition RuneStart :: "byte \<Rightarrow> bool" where
  "RuneStart b \<longleftrightarrow> b AND 0xC0 \<noteq> 0x80"

fun cutBack :: "byte list \<Rightarrow> nat \<Rightarrow> nat" where
  "cutBack s 0 = 0"
| "cutBack s (Suc n) = (if \<not> RuneStart (s ! Suc n) then cutBack s n else Suc n)"

text \<open>The marker is the bytes of \<^verbatim>\<open>... (truncated)\<close>.\<close>

definition truncatedMarker :: "byte list" where
  "truncatedMarker = [46, 46, 46, 32, 40, 116, 114, 117, 110, 99, 97, 116, 101, 100, 41]"

definition TruncateFaultDetail :: "byte list \<Rightarrow> byte list" where
  "TruncateFaultDetail s =
     (if length s \<le> FaultDetailMaxBytes then s else take (cutBack s FaultDetailMaxBytes) s @ truncatedMarker)"

datatype ConsumeDisposition = ConsumeAccepted | ConsumeMalformed | ConsumeFaulted

record ConsumeFaultError =
  cf_CallID :: u64
  cf_Kind :: byte
  cf_Panicked :: bool
  cf_Detail :: "byte list"

text \<open>
  What a callback does with a frame: it returns nil, returns an error that wraps some sentinels and
  renders to text, or panics with a value that renders to text; rendering an error runs callback
  code, which may panic as well.
\<close>

datatype callback =
    Returns
  | Fails err "byte list"
  | FailsUnrendered err "byte list"
  | Panics "byte list"

definition ProtectedConsume ::
  "Frame \<Rightarrow> (Frame \<Rightarrow> callback) \<Rightarrow> ConsumeDisposition \<times> (err \<times> ConsumeFaultError option) option" where
  "ProtectedConsume f consume =
     (let fault = (\<lambda>p t. (ConsumeFaulted,
            Some ({ErrConsumeFault}, Some \<lparr>cf_CallID = fr_CallID f, cf_Kind = fr_Kind f, cf_Panicked = p,
                                           cf_Detail = TruncateFaultDetail t\<rparr>))) in
      case consume f of
        Returns \<Rightarrow> (ConsumeAccepted, None)
      | Fails e text \<Rightarrow>
          if ErrPayloadMalformed \<in> e then (ConsumeMalformed, Some ({ErrPayloadMalformed}, None)) else fault False text
      | FailsUnrendered e text \<Rightarrow>
          if ErrPayloadMalformed \<in> e then (ConsumeMalformed, Some ({ErrPayloadMalformed}, None)) else fault True text
      | Panics text \<Rightarrow> fault True text)"

section \<open>The status codec\<close>

text \<open>The decoder on the remaining bytes, without offsets.\<close>

fun parseDetails :: "byte list \<Rightarrow> nat \<Rightarrow> (err, byte list list) outcome" where
  "parseDetails xs 0 = Ok []"
| "parseDetails xs (Suc n) =
     (if length xs < 4 then Err {ErrMalformedStatusFrame}
      else let dLen = unat (be_decode (take 4 xs) :: u32); ys = drop 4 xs in
        if dLen > length ys then Err {ErrMalformedStatusFrame}
        else andThen (parseDetails (drop dLen ys) n) (\<lambda>ds. Ok (take dLen ys # ds)))"

lemma decodeDetails_parse: "off \<le> length body \<Longrightarrow> decodeDetails body off n = parseDetails (drop off body) n"
proof (induction n arbitrary: off)
  case (Suc n)
  then show ?case by (auto simp: Let_def add.commute add.left_commute not_less)
qed simp

definition small :: "byte list \<Rightarrow> bool" where
  "small d \<longleftrightarrow> length d < 2 ^ 32"

lemma unat_length_u32: "small d \<Longrightarrow> unat (of_nat (length d) :: u32) = length d"
  by (simp add: small_def unsigned_of_nat take_bit_nat_eq_self)

lemma parseDetails_Ok:
  "parseDetails xs n = Ok ds \<longleftrightarrow>
     length ds = n \<and> (\<forall>d \<in> set ds. small d) \<and> (\<exists>rest. xs = concat (map encodeDetail ds) @ rest)"
proof (induction xs n arbitrary: ds rule: parseDetails.induct)
  case (2 xs n)
  show ?case
  proof
    assume ok: "parseDetails xs (Suc n) = Ok ds"
    define dLen where "dLen = unat (be_decode (take 4 xs) :: u32)"
    from ok have len: "4 \<le> length xs" "dLen \<le> length xs - 4"
      by (auto simp: dLen_def Let_def split: if_splits)
    with ok obtain ds' where ds: "ds = take dLen (drop 4 xs) # ds'" and "parseDetails (drop dLen (drop 4 xs)) n = Ok ds'"
      by (auto simp: dLen_def Let_def outcome_simps not_less)
    with 2 [OF _ dLen_def refl] len obtain rest where
      r: "length ds' = n" "\<forall>d \<in> set ds'. small d" "drop dLen (drop 4 xs) = concat (map encodeDetail ds') @ rest"
      by auto
    have d: "length (take dLen (drop 4 xs)) = dLen" using len(2) by simp
    then have "encodeDetail (take dLen (drop 4 xs)) = take 4 xs @ take dLen (drop 4 xs)"
      unfolding encodeDetail_def using len(1) d by (simp add: dLen_def be_encode_decode)
    moreover have "small (take dLen (drop 4 xs))"
      using unat_u32_less [of "be_decode (take 4 xs)"] d by (simp add: small_def dLen_def)
    moreover have "xs = take 4 xs @ take dLen (drop 4 xs) @ concat (map encodeDetail ds') @ rest"
      unfolding r(3) [symmetric] by (simp only: append_take_drop_id)
    ultimately have "xs = concat (map encodeDetail ds) @ rest" "\<forall>d \<in> set ds. small d"
      using r(2) by (simp_all add: ds)
    then show "length ds = Suc n \<and> (\<forall>d \<in> set ds. small d) \<and> (\<exists>rest. xs = concat (map encodeDetail ds) @ rest)"
      using r(1) ds by auto
  next
    assume "length ds = Suc n \<and> (\<forall>d \<in> set ds. small d) \<and> (\<exists>rest. xs = concat (map encodeDetail ds) @ rest)"
    then obtain d ds' rest where d: "ds = d # ds'" "length ds' = n" "small d" "\<forall>d \<in> set ds'. small d"
      and xs: "xs = encodeDetail d @ concat (map encodeDetail ds') @ rest"
      by (cases ds) auto
    have u: "unat (be_decode (take 4 xs) :: u32) = length d"
      using unat_length_u32 [OF d(3)] by (simp add: xs encodeDetail_def byte_simps)
    have rem: "drop (length d) (drop 4 xs) = concat (map encodeDetail ds') @ rest" "4 + length d \<le> length xs"
      by (simp_all add: xs encodeDetail_def)
    have "parseDetails (drop (length d) (drop 4 xs)) n = Ok ds'"
      using 2 [OF _ refl refl] rem d u by auto
    with u show "parseDetails xs (Suc n) = Ok ds"
      by (simp add: Let_def d(1)) (simp add: xs encodeDetail_def)
  qed
qed auto

lemma parseDetails_cases: "parseDetails xs n = Err {ErrMalformedStatusFrame} \<or> (\<exists>ds. parseDetails xs n = Ok ds)"
proof (induction xs n rule: parseDetails.induct)
  case (2 xs n)
  then show ?case by (fastforce simp: Let_def)
qed simp

definition status_fits :: "FrameStatus \<Rightarrow> bool" where
  "status_fits s \<longleftrightarrow> small (Message s) \<and> length (Details s) < 2 ^ 32 \<and> (\<forall>d \<in> set (Details s). small d)"

text \<open>What a status body is, on the bytes: three words, the message and the encoded details.\<close>

lemma DecodeStatus_parse:
  "DecodeStatus body =
     (if length body < 12 then Err {ErrMalformedStatusFrame}
      else let msgLen = unat (be_decode (take 4 (drop 4 body)) :: u32); xs = drop 12 body in
        if msgLen > length xs then Err {ErrMalformedStatusFrame}
        else andThen (parseDetails (drop msgLen xs) (unat (be_decode (take 4 (drop 8 body)) :: u32))) (\<lambda>ds.
          Ok \<lparr>Code = be_decode (take 4 body), Message = take msgLen xs, Details = ds\<rparr>))"
  by (auto simp: DecodeStatus_def Let_def decodeDetails_parse add.commute)

lemma DecodeStatus_cases: "DecodeStatus body = Err {ErrMalformedStatusFrame} \<or> (\<exists>s. DecodeStatus body = Ok s)"
proof -
  obtain r where "parseDetails (drop (unat (be_decode (take 4 (drop 4 body)) :: u32)) (drop 12 body))
      (unat (be_decode (take 4 (drop 8 body)) :: u32)) = r"
    and "r = Err {ErrMalformedStatusFrame} \<or> (\<exists>ds. r = Ok ds)" using parseDetails_cases by blast
  then show ?thesis unfolding DecodeStatus_parse Let_def by auto
qed

lemma DecodeStatus_encoded:
  assumes "status_fits s"
  shows "DecodeStatus (EncodeStatus (Some s) @ rest) = Ok s"
proof -
  let ?body = "EncodeStatus (Some s) @ rest"
  have m: "unat (of_nat (length (Message s)) :: u32) = length (Message s)"
    using assms unat_length_u32 by (simp add: status_fits_def)
  have n: "unat (of_nat (length (Details s)) :: u32) = length (Details s)"
    using assms by (simp add: status_fits_def unsigned_of_nat take_bit_nat_eq_self)
  have "parseDetails (concat (map encodeDetail (Details s)) @ rest) (length (Details s)) = Ok (Details s)"
    using assms unfolding parseDetails_Ok by (auto simp: status_fits_def)
  then show ?thesis
    using m n by (simp add: DecodeStatus_parse EncodeStatus_def Let_def byte_simps)
qed

lemma split_head: "take 4 xs @ take 4 (drop 4 xs) @ take 4 (drop 8 xs) @ drop 12 xs = xs"
  using append_take_drop_id [of 4 xs] append_take_drop_id [of 4 "drop 4 xs"] append_take_drop_id [of 4 "drop 8 xs"]
  by simp

lemma DecodeStatus_Ok:
  assumes "DecodeStatus body = Ok s"
  shows "status_fits s \<and> (\<exists>rest. body = EncodeStatus (Some s) @ rest)"
proof -
  define msgLen xs where "msgLen = unat (be_decode (take 4 (drop 4 body)) :: u32)" and "xs = drop 12 body"
  let ?n = "be_decode (take 4 (drop 8 body)) :: u32"
  from assms have len: "12 \<le> length body" "msgLen \<le> length xs"
    by (auto simp: DecodeStatus_parse Let_def msgLen_def xs_def split: if_splits)
  with assms obtain ds where ds: "parseDetails (drop msgLen xs) (unat ?n) = Ok ds"
    and s: "s = \<lparr>Code = be_decode (take 4 body), Message = take msgLen xs, Details = ds\<rparr>"
    by (auto simp: DecodeStatus_parse Let_def msgLen_def xs_def outcome_simps not_less)
  from ds obtain rest where r: "length ds = unat ?n" "\<forall>d \<in> set ds. small d"
    "drop msgLen xs = concat (map encodeDetail ds) @ rest" unfolding parseDetails_Ok by blast
  have "of_nat (length ds) = ?n" using r(1) by simp
  moreover have "of_nat (length (take msgLen xs)) = (be_decode (take 4 (drop 4 body)) :: u32)"
    using len(2) by (simp add: msgLen_def)
  ultimately have "EncodeStatus (Some s) @ rest =
      take 4 body @ take 4 (drop 4 body) @ take 4 (drop 8 body) @ take msgLen xs @ concat (map encodeDetail ds) @ rest"
    using len(1) by (simp add: EncodeStatus_def s be_encode_decode)
  also have "\<dots> = take 4 body @ take 4 (drop 4 body) @ take 4 (drop 8 body) @ xs"
    unfolding r(3) [symmetric] by simp
  also have "\<dots> = body"
    unfolding xs_def by (rule split_head)
  finally have "body = EncodeStatus (Some s) @ rest" by simp
  moreover have "status_fits s"
    using r len unat_u32_less [of "be_decode (take 4 (drop 4 body))"] unat_u32_less [of ?n]
    by (simp add: status_fits_def s small_def msgLen_def)
  ultimately show ?thesis by blast
qed

definition carried :: "bool \<Rightarrow> byte \<Rightarrow> bool" where
  "carried c k \<longleftrightarrow> k \<in> {0, 1, 2, 3, 4, 5, 6, 7, 8} \<or> k = 9 \<and> c"

lemma mapKind_eq:
  "mapKind k c = (if carried c k then Ok (k, k = 2 \<or> k = 5) else Err {errUnsupportedKind, ErrUnimplementedFrameKind})"
  by (simp add: mapKind_def carried_def)

lemma unmapKind_eq: "unmapKind k c = (if carried c k then Some (k, k = 2 \<or> k = 5) else None)"
  by (simp add: unmapKind_def carried_def)

section \<open>Properties\<close>


text \<open>the producer's and the consumer's kind tables agree: a frame kind is emitted as a descriptor kind on a
  connection exactly when the receiver, under the same chunking setting, reads that descriptor kind back
  as that frame kind with the same lane; every other kind is refused before anything is published.\<close>

theorem kind_maps_inverse:
  "(mapKind k c = Ok (rk, dOnly) \<longleftrightarrow> unmapKind rk c = Some (k, dOnly))
   \<and> (mapKind k c = Err e \<longleftrightarrow> unmapKind k c = None \<and> e = {errUnsupportedKind, ErrUnimplementedFrameKind})
   \<and> mapKind k c \<noteq> Panic"
  by (auto simp: mapKind_eq unmapKind_eq)

end
