(* ===== verification/Uds.thy ===== *)
theory Uds
  imports Frames
begin

text \<open>
  The socket transport of \<^verbatim>\<open>src/internal/transport/uds.go\<close>: the frame header, sending and receiving
  one frame over a byte stream that may deliver any number of bytes at a time, and the rule that a
  frame torn after its first byte closes the connection. The socket, its timeouts and the caller's
  context appear as a schedule: one tick is one iteration of a read or write loop and says which of
  the loop's exits or retries it takes.
\<close>

section \<open>The header\<close>

abbreviation (input) headerSize :: nat where "headerSize \<equiv> 37"
abbreviation (input) controlWordSize :: nat where "controlWordSize \<equiv> 8"

definition encodeHeader :: "Frame \<Rightarrow> u32 \<Rightarrow> bool \<Rightarrow> byte list" where
  "encodeHeader f payloadLen streaming =
     be_encode 4 payloadLen @ be_encode 8 (fr_CallID f) @ [fr_Kind f] @ be_encode 8 (fr_Service f)
     @ be_encode 8 (fr_Method f) @ be_encode 8 (word_of_int (fr_Budget f) :: u64)
     @ (if streaming then le_encode 8 (fr_Control f) else [])"

definition decodeHeader :: "byte list \<Rightarrow> bool \<Rightarrow> Frame \<times> u32" where
  "decodeHeader buf streaming =
     (zeroFrame\<lparr>fr_CallID := be_decode (get_bytes buf 4 8), fr_Kind := buf ! 12,
        fr_Service := be_decode (get_bytes buf 13 8), fr_Method := be_decode (get_bytes buf 21 8),
        fr_Budget := sint (be_decode (get_bytes buf 29 8) :: u64),
        fr_Control := (if streaming then le_decode (get_bytes buf headerSize controlWordSize) else 0)\<rparr>,
      be_decode (get_bytes buf 0 4))"

definition frameBody :: "Frame \<Rightarrow> byte list" where
  "frameBody f = (if CarriesStatusBody (fr_Kind f) then EncodeStatus (fr_Status f) else fr_Payload f)"

section \<open>The connection\<close>

record UDSTransport =
  streaming :: bool
  maxFrame :: u32
  u_closed :: bool
  observed :: "err option"   \<comment> \<open>what the fatal observer was told, at most once\<close>
  sentCount :: u64
  sentBytes :: u64
  recvCount :: u64
  recvBytes :: u64

definition headerLen :: "UDSTransport \<Rightarrow> nat" where
  "headerLen t = (if streaming t then headerSize + controlWordSize else headerSize)"

definition Close :: "UDSTransport \<Rightarrow> UDSTransport" where
  "Close t = t\<lparr>u_closed := True\<rparr>"

definition abortFrame :: "UDSTransport \<Rightarrow> err \<Rightarrow> bool \<Rightarrow> UDSTransport \<times> err" where
  "abortFrame t e started =
     (if u_closed t then (t, {TransportErrClosed})
      else if started then
        let wrapped = e \<union> {TransportErrPoisoned};
            t' = t\<lparr>observed := (case observed t of None \<Rightarrow> Some wrapped | Some w \<Rightarrow> Some w)\<rparr> in
        (Close t', wrapped)
      else (t, e))"

section \<open>Sending\<close>

text \<open>
  One iteration of \<open>writeFull\<close>: it stops with an error found before or in the write, retries, or the
  kernel takes up to \<open>k\<close> bytes (at least one).
\<close>

datatype wtick = WStop err | WRetry | WTake nat

fun writeFull :: "wtick list \<Rightarrow> byte list \<Rightarrow> byte list \<Rightarrow> wtick list \<times> byte list \<times> (err, unit) outcome option" where
  "writeFull ts [] wire = (ts, wire, Some (Ok ()))"
| "writeFull [] (b # buf) wire = ([], wire, None)"
| "writeFull (WStop e # ts) (b # buf) wire = (ts, wire, Some (Err e))"
| "writeFull (WRetry # ts) (b # buf) wire = writeFull ts (b # buf) wire"
| "writeFull (WTake k # ts) (b # buf) wire = writeFull ts (drop k buf) (wire @ b # take k buf)"

definition writeFrame ::
  "UDSTransport \<Rightarrow> wtick list \<Rightarrow> Frame \<Rightarrow> byte list \<Rightarrow> byte list
     \<Rightarrow> UDSTransport \<times> wtick list \<times> byte list \<times> (err, unit) outcome option" where
  "writeFrame t ts f body wire =
     (let header = encodeHeader f (of_nat (length body)) (streaming t) in
      case writeFull ts header wire of
        (ts1, w1, None) \<Rightarrow> (t, ts1, w1, None)
      | (ts1, w1, Some (Ok _)) \<Rightarrow>
          if body = [] then (t, ts1, w1, Some (Ok ()))
          else (case writeFull ts1 body w1 of
              (ts2, w2, None) \<Rightarrow> (t, ts2, w2, None)
            | (ts2, w2, Some (Ok _)) \<Rightarrow> (t, ts2, w2, Some (Ok ()))
            | (ts2, w2, Some (Err e)) \<Rightarrow> let (t', e') = abortFrame t e True in (t', ts2, w2, Some (Err e'))
            | (ts2, w2, Some Panic) \<Rightarrow> (t, ts2, w2, Some Panic))
      | (ts1, w1, Some (Err e)) \<Rightarrow>
          let (t', e') = abortFrame t e (length w1 > length wire) in (t', ts1, w1, Some (Err e'))
      | (ts1, w1, Some Panic) \<Rightarrow> (t, ts1, w1, Some Panic))"

definition Send ::
  "UDSTransport \<Rightarrow> wtick list \<Rightarrow> Frame \<Rightarrow> byte list
     \<Rightarrow> UDSTransport \<times> wtick list \<times> byte list \<times> (err, unit) outcome option" where
  "Send t ts f wire =
     (case checkImplementedKind (fr_Kind f) of
        Err e \<Rightarrow> (t, ts, wire, Some (Err e))
      | Panic \<Rightarrow> (t, ts, wire, Some Panic)
      | Ok _ \<Rightarrow>
          let body = frameBody f in
          if length body > unat (maxFrame t) then (t, ts, wire, Some (Err {ErrPayloadTooLarge}))
          else case writeFrame t ts f body wire of
              (t', ts', w', Some (Ok _)) \<Rightarrow>
                (t'\<lparr>sentCount := sentCount t' + 1,
                    sentBytes := sentBytes t' + of_nat (headerLen t + length body)\<rparr>, ts', w', Some (Ok ()))
            | r \<Rightarrow> r)"

section \<open>Receiving\<close>

text \<open>
  One iteration of the loop of \<open>fdReader.Read\<close>: it stops with an error (the context, the close, the
  receive budget, the socket option or the read itself), retries, finds the peer gone, or the kernel
  hands over up to \<open>Suc k\<close> of the bytes sent by the peer, when there are any.
\<close>

datatype rtick = RStop err | RRetry | REof | RGive nat

datatype read_result = Got "byte list" | ReadErr err | ReadEOF

fun Read :: "rtick list \<Rightarrow> nat \<Rightarrow> byte list \<Rightarrow> rtick list \<times> byte list \<times> read_result option" where
  "Read [] n inb = ([], inb, None)"
| "Read (RStop e # ts) n inb = (ts, inb, Some (ReadErr e))"
| "Read (RRetry # ts) n inb = Read ts n inb"
| "Read (REof # ts) n inb = (ts, inb, Some ReadEOF)"
| "Read (RGive k # ts) n inb =
     (if inb = [] then Read ts n inb
      else let m = min n (Suc k) in (ts, drop m inb, Some (Got (take m inb))))"

lemma Read_consumes: "Read ts n inb = (ts', inb', Some r) \<Longrightarrow> length ts' < length ts"
  by (induction ts n inb rule: Read.induct) (auto simp: Let_def split: if_splits)

text \<open>
  \<^verbatim>\<open>io.ReadFull\<close> and \<^verbatim>\<open>io.CopyN\<close> to a sink: both read until \<open>n\<close> bytes are there. An end of stream in the
  middle is an unexpected one for the former and a plain one for the latter.
\<close>

function readFull :: "bool \<Rightarrow> rtick list \<Rightarrow> nat \<Rightarrow> byte list \<Rightarrow> byte list \<Rightarrow> rtick list \<times> byte list \<times> (err, byte list) outcome option" where
  "readFull copyN ts n inb acc =
     (if n = 0 then (ts, inb, Some (Ok acc))
      else case Read ts n inb of
          (ts', inb', None) \<Rightarrow> (ts', inb', None)
        | (ts', inb', Some (ReadErr e)) \<Rightarrow> (ts', inb', Some (Err e))
        | (ts', inb', Some ReadEOF) \<Rightarrow> (ts', inb', Some (Err (if acc = [] \<or> copyN then {IOEOF} else {IOUnexpectedEOF})))
        | (ts', inb', Some (Got bs)) \<Rightarrow> readFull copyN ts' (n - length bs) inb' (acc @ bs))"
  by pat_completeness auto
termination
  by (relation "measure (\<lambda>(c, ts, n, inb, acc). length ts)") (auto dest: Read_consumes [OF sym])

declare readFull.simps [simp del]

text \<open>
  \<open>recvCore\<close>, on the path of a plain Recv: the context's error at entry is an argument.
\<close>

definition aborted ::
  "UDSTransport \<Rightarrow> rtick list \<Rightarrow> byte list \<Rightarrow> err \<Rightarrow> bool
     \<Rightarrow> UDSTransport \<times> rtick list \<times> byte list \<times> (err, Frame) outcome option" where
  "aborted t ts inb e started = (let (t', e') = abortFrame t e started in (t', ts, inb, Some (Err e')))"

definition delivered :: "UDSTransport \<Rightarrow> nat \<Rightarrow> UDSTransport" where
  "delivered t n = t\<lparr>recvCount := recvCount t + 1, recvBytes := recvBytes t + of_nat (headerLen t + n)\<rparr>"

definition recvBody ::
  "UDSTransport \<Rightarrow> rtick list \<Rightarrow> byte list \<Rightarrow> Frame \<Rightarrow> u32
     \<Rightarrow> UDSTransport \<times> rtick list \<times> byte list \<times> (err, Frame) outcome option" where
  "recvBody t ts inb f payloadLen =
     (case readFull False ts (unat payloadLen) inb [] of
        (ts', inb', None) \<Rightarrow> (t, ts', inb', None)
      | (ts', inb', Some Panic) \<Rightarrow> (t, ts', inb', Some Panic)
      | (ts', inb', Some (Err e)) \<Rightarrow> aborted t ts' inb' e True
      | (ts', inb', Some (Ok body)) \<Rightarrow>
          if CarriesStatusBody (fr_Kind f) then
            (case DecodeStatus body of
               Ok status \<Rightarrow> (delivered t (unat payloadLen), ts', inb', Some (Ok (f\<lparr>fr_Status := Some status\<rparr>)))
             | Err e \<Rightarrow> (t, ts', inb', Some (Err e))
             | Panic \<Rightarrow> (t, ts', inb', Some Panic))
          else (delivered t (unat payloadLen), ts', inb', Some (Ok (f\<lparr>fr_Payload := body\<rparr>))))"

definition recvCore ::
  "err option \<Rightarrow> UDSTransport \<Rightarrow> rtick list \<Rightarrow> byte list \<Rightarrow> UDSTransport \<times> rtick list \<times> byte list \<times> (err, Frame) outcome option" where
  "recvCore ctx t ts inb =
     (if ctx \<noteq> None then (t, ts, inb, Some (Err (the ctx)))
      else if u_closed t then (t, ts, inb, Some (Err {TransportErrClosed}))
      else case readFull False ts (headerLen t) inb [] of
          (ts1, inb1, None) \<Rightarrow> (t, ts1, inb1, None)
        | (ts1, inb1, Some Panic) \<Rightarrow> (t, ts1, inb1, Some Panic)
        | (ts1, inb1, Some (Err e)) \<Rightarrow> aborted t ts1 inb1 e (length inb1 < length inb)
        | (ts1, inb1, Some (Ok header)) \<Rightarrow>
            let (f, payloadLen) = decodeHeader header (streaming t) in
            if payloadLen > maxFrame t then aborted t ts1 inb1 {ErrPayloadTooLarge} True
            else if fr_Kind f = FrameStreamChunk then aborted t ts1 inb1 {ErrStreamChunkOnUDS} True
            else case checkImplementedKind (fr_Kind f) of
                Err ek \<Rightarrow>
                  (case readFull True ts1 (unat payloadLen) inb1 [] of
                     (ts2, inb2, None) \<Rightarrow> (t, ts2, inb2, None)
                   | (ts2, inb2, Some (Err e)) \<Rightarrow> aborted t ts2 inb2 e True
                   | (ts2, inb2, Some Panic) \<Rightarrow> (t, ts2, inb2, Some Panic)
                   | (ts2, inb2, Some (Ok _)) \<Rightarrow> (t, ts2, inb2, Some (Err ek)))
              | Panic \<Rightarrow> (t, ts1, inb1, Some Panic)
              | Ok _ \<Rightarrow> recvBody t ts1 inb1 f payloadLen)"

section \<open>The receive budget\<close>

abbreviation (input) second :: int where "second \<equiv> 1000000000"

record ReceiveBudget =
  Slack :: int
  MinRate :: u32
  HasClock :: bool

definition normalized :: "ReceiveBudget \<Rightarrow> ReceiveBudget" where
  "normalized b =
     (let b = (if Slack b \<le> 0 then b\<lparr>Slack := 30 * second\<rparr> else b);
          b = (if MinRate b = 0 then b\<lparr>MinRate := 0x100000\<rparr> else b) in
      b\<lparr>HasClock := True\<rparr>)"

definition bodyBudget :: "ReceiveBudget \<Rightarrow> u32 \<Rightarrow> int" where
  "bodyBudget b sz =
     (let rate = ucast (MinRate b) :: u64;
          seconds = (ucast sz + rate - 1) div rate;
          tot = word_of_int (Slack b) + seconds * word_of_int second in
      if tot > word_of_int (2 ^ 63 - 1) then 2 ^ 63 - 1 else uint tot)"

section \<open>Reading a prefix under any schedule\<close>

definition harmless :: "rtick list \<Rightarrow> bool" where
  "harmless ts \<longleftrightarrow> (\<forall>t \<in> set ts. \<exists>k. t = RRetry \<or> t = RGive k)"

definition gives :: "rtick list \<Rightarrow> nat" where
  "gives ts = length (filter (\<lambda>t. \<exists>k. t = RGive k) ts)"

lemma Read_harmless:
  assumes "harmless ts" "inb \<noteq> []" "0 < gives ts" "0 < n"
  shows "\<exists>ts' m. Read ts n inb = (ts', drop m inb, Some (Got (take m inb))) \<and> 0 < m \<and> m \<le> n
           \<and> harmless ts' \<and> gives ts = Suc (gives ts')"
  using assms
proof (induction ts n inb rule: Read.induct)
  case (5 k ts n inb)
  then show ?case
    by (intro exI [of _ ts] exI [of _ "min n (Suc k)"]) (auto simp: harmless_def gives_def Let_def)
qed (auto simp: harmless_def gives_def)

lemma readFull_harmless:
  assumes "harmless ts" "length xs \<le> gives ts"
  shows "\<exists>ts'. readFull c ts (length xs) (xs @ rest) acc = (ts', rest, Some (Ok (acc @ xs)))
           \<and> harmless ts' \<and> gives ts \<le> gives ts' + length xs"
  using assms
proof (induction "length xs" arbitrary: ts xs acc rule: less_induct)
  case less
  show ?case
  proof (cases "xs = []")
    case True
    then show ?thesis using less.prems by (simp add: readFull.simps)
  next
    case False
    then have "0 < gives ts" using less.prems(2) by (cases xs) auto
    then obtain ts' m where r: "Read ts (length xs) (xs @ rest) = (ts', drop m (xs @ rest), Some (Got (take m (xs @ rest))))"
      "0 < m" "m \<le> length xs" "harmless ts'" "gives ts = Suc (gives ts')"
      using Read_harmless [OF less.prems(1), of "xs @ rest" "length xs"] False by auto
    have "length (drop m xs) < length xs" "length (drop m xs) \<le> gives ts'"
      using r less.prems(2) False by auto
    from less.hyps [OF this(1) r(4) this(2), of "acc @ take m xs"] obtain ts''
      where "readFull c ts' (length (drop m xs)) (drop m xs @ rest) (acc @ take m xs) = (ts'', rest, Some (Ok (acc @ xs)))"
        "harmless ts''" "gives ts' \<le> gives ts'' + length (drop m xs)"
      by auto
    with r False show ?thesis
      by (intro exI [of _ ts'']) (subst readFull.simps, auto)
  qed
qed

section \<open>Frames that survive the wire\<close>

definition carryable :: "UDSTransport \<Rightarrow> Frame \<Rightarrow> bool" where
  "carryable t f \<longleftrightarrow>
     checkImplementedKind (fr_Kind f) = Ok () \<and> length (frameBody f) \<le> unat (maxFrame t)
     \<and> - (2 ^ 63) \<le> fr_Budget f \<and> fr_Budget f < 2 ^ 63 \<and> (streaming t \<or> fr_Control f = 0)
     \<and> (if CarriesStatusBody (fr_Kind f) then fr_Payload f = [] \<and> fr_Status f \<noteq> None else fr_Status f = None)"

definition wire_of :: "UDSTransport \<Rightarrow> Frame \<Rightarrow> byte list" where
  "wire_of t f = encodeHeader f (of_nat (length (frameBody f))) (streaming t) @ frameBody f"

lemma length_encodeHeader [simp]: "length (encodeHeader f n (streaming t)) = headerLen t"
  by (simp add: encodeHeader_def headerLen_def)

lemma decode_encode_header:
  assumes "- (2 ^ 63) \<le> fr_Budget f" "fr_Budget f < 2 ^ 63" "st \<or> fr_Control f = 0"
  shows "decodeHeader (encodeHeader f n st) st = (f\<lparr>fr_Payload := [], fr_Status := None\<rparr>, n)"
proof -
  have "sint (word_of_int (fr_Budget f) :: u64) = fr_Budget f"
    using assms(1,2) by (simp add: sint_sbintrunc' signed_take_bit_int_eq_self)
  then show ?thesis
    using assms(3) by (auto simp: decodeHeader_def encodeHeader_def get_bytes_def byte_simps nth_append zeroFrame_def)
qed

lemma fits_of_length:
  assumes "length (EncodeStatus (Some s)) < 2 ^ 32"
  shows "status_fits s"
proof -
  have "length d + 4 \<le> length (concat (map encodeDetail ds))" if "d \<in> set ds" for d ds
    using that by (induction ds) (auto simp: encodeDetail_def)
  moreover have "length ds \<le> length (concat (map encodeDetail ds))" for ds
    by (induction ds) (auto simp: encodeDetail_def)
  ultimately show ?thesis
    using assms by (fastforce simp: status_fits_def small_def EncodeStatus_def intro: le_less_trans)
qed

lemma unat_body_length: "carryable t f \<Longrightarrow> unat (of_nat (length (frameBody f)) :: u32) = length (frameBody f)"
  using unat_u32_less [of "maxFrame t"] by (simp add: carryable_def unsigned_of_nat take_bit_nat_eq_self)

lemma recvBody_frame:
  assumes "carryable t f" "harmless ts" "length (frameBody f) \<le> gives ts"
  shows "\<exists>ts'. recvBody t ts (frameBody f @ rest) (f\<lparr>fr_Payload := [], fr_Status := None\<rparr>) (of_nat (length (frameBody f)))
           = (delivered t (length (frameBody f)), ts', rest, Some (Ok f))
           \<and> harmless ts' \<and> gives ts \<le> gives ts' + length (frameBody f)"
proof -
  obtain ts' where r: "readFull False ts (length (frameBody f)) (frameBody f @ rest) [] = (ts', rest, Some (Ok (frameBody f)))"
    "harmless ts'" "gives ts \<le> gives ts' + length (frameBody f)"
    using readFull_harmless [OF assms(2,3), of False rest "[]"] by auto
  show ?thesis
  proof (cases "CarriesStatusBody (fr_Kind f)")
    case True
    then obtain s where s: "fr_Status f = Some s" "fr_Payload f = []" "frameBody f = EncodeStatus (Some s)"
      using assms(1) by (auto simp: carryable_def frameBody_def)
    have "status_fits s"
      using fits_of_length [of s] s(3) assms(1) unat_u32_less [of "maxFrame t"] by (simp add: carryable_def)
    then have "DecodeStatus (frameBody f) = Ok s" using DecodeStatus_encoded [of s "[]"] s(3) by simp
    with True r s(1,2) unat_body_length [OF assms(1)] show ?thesis
      by (cases f) (simp add: recvBody_def)
  next
    case False
    with r assms(1) unat_body_length [OF assms(1)] show ?thesis
      by (cases f) (simp add: recvBody_def carryable_def frameBody_def)
  qed
qed

lemma recv_frame:
  assumes "carryable t f" "\<not> u_closed t" "harmless ts" "length (wire_of t f) \<le> gives ts"
  shows "\<exists>ts'. recvCore None t ts (wire_of t f @ rest) = (delivered t (length (frameBody f)), ts', rest, Some (Ok f))
           \<and> harmless ts' \<and> gives ts \<le> gives ts' + length (wire_of t f)"
proof -
  let ?b = "frameBody f" and ?h = "encodeHeader f (of_nat (length (frameBody f))) (streaming t)"
  have len: "length (wire_of t f) = headerLen t + length ?b" by (simp add: wire_of_def)
  obtain ts1 where h: "readFull False ts (length ?h) (?h @ ?b @ rest) [] = (ts1, ?b @ rest, Some (Ok ?h))"
    "harmless ts1" "gives ts \<le> gives ts1 + length ?h"
    using readFull_harmless [OF assms(3), of ?h False "?b @ rest" "[]"] assms(4) len by auto
  have d: "decodeHeader ?h (streaming t) = (f\<lparr>fr_Payload := [], fr_Status := None\<rparr>, of_nat (length ?b))"
    by (rule decode_encode_header) (use assms(1) in \<open>auto simp: carryable_def\<close>)
  have ok: "\<not> maxFrame t < of_nat (length ?b)" "fr_Kind f \<noteq> FrameStreamChunk"
    using assms(1) unat_body_length [OF assms(1)]
    by (auto simp: word_less_nat_alt carryable_def checkImplementedKind_def)
  have "length ?b \<le> gives ts1" using h(3) assms(4) len by simp
  from recvBody_frame [OF assms(1) h(2) this, of rest] obtain ts2 where
    b: "recvBody t ts1 (?b @ rest) (f\<lparr>fr_Payload := [], fr_Status := None\<rparr>) (of_nat (length ?b))
          = (delivered t (length ?b), ts2, rest, Some (Ok f))" "harmless ts2" "gives ts1 \<le> gives ts2 + length ?b" by auto
  have "recvCore None t ts (wire_of t f @ rest) = (delivered t (length ?b), ts2, rest, Some (Ok f))"
    using h(1) d ok b(1) assms(1,2) by (simp add: recvCore_def wire_of_def carryable_def)
  with b(2,3) h(3) len show ?thesis by auto
qed

text \<open>Sending a list of frames and receiving as many.\<close>

fun sendAll :: "UDSTransport \<Rightarrow> wtick list \<Rightarrow> Frame list \<Rightarrow> byte list \<Rightarrow> UDSTransport \<times> wtick list \<times> byte list \<times> (err, unit) outcome option" where
  "sendAll t ts [] wire = (t, ts, wire, Some (Ok ()))"
| "sendAll t ts (f # fs) wire =
     (case Send t ts f wire of
        (t', ts', wire', Some (Ok _)) \<Rightarrow> sendAll t' ts' fs wire'
      | r \<Rightarrow> r)"

fun recvAll :: "nat \<Rightarrow> UDSTransport \<Rightarrow> rtick list \<Rightarrow> byte list \<Rightarrow> Frame list \<times> UDSTransport \<times> byte list" where
  "recvAll 0 t ts inb = ([], t, inb)"
| "recvAll (Suc n) t ts inb =
     (case recvCore None t ts inb of
        (t', ts', inb', Some (Ok f)) \<Rightarrow> let (fs, t'', inb'') = recvAll n t' ts' inb' in (f # fs, t'', inb'')
      | (t', ts', inb', _) \<Rightarrow> ([], t', inb'))"

lemma writeFull_Ok: "writeFull ts buf wire = (ts', wire', Some (Ok ())) \<Longrightarrow> wire' = wire @ buf"
  by (induction ts buf wire rule: writeFull.induct) auto

lemma writeFull_prefix: "writeFull ts buf wire = (ts', wire', r) \<Longrightarrow> \<exists>k. wire' = wire @ take k buf"
proof (induction ts buf wire rule: writeFull.induct)
  case (5 k ts b buf wire)
  then obtain j where "wire' = (wire @ b # take k buf) @ take j (drop k buf)" by auto
  then have "wire' = wire @ take (Suc (k + j)) (b # buf)" by (simp add: take_add)
  then show ?case by blast
qed (auto intro: exI [of _ 0])

lemma Send_Ok:
  assumes "Send t ts f wire = (t', ts', wire', Some (Ok ()))"
  shows "wire' = wire @ wire_of t f" "streaming t' = streaming t" "maxFrame t' = maxFrame t"
    "checkImplementedKind (fr_Kind f) = Ok ()" "length (frameBody f) \<le> unat (maxFrame t)"
  using assms
  by (auto simp: Send_def writeFrame_def wire_of_def Let_def dest!: writeFull_Ok
      split: outcome.splits if_splits option.splits prod.splits)

lemma sendAll_Ok:
  "sendAll t ts fs wire = (t', ts', wire', Some (Ok ())) \<Longrightarrow> wire' = wire @ concat (map (wire_of t) fs)"
proof (induction fs arbitrary: t ts wire)
  case (Cons f fs)
  then obtain t1 ts1 w1 where s: "Send t ts f wire = (t1, ts1, w1, Some (Ok ()))"
    and r: "sendAll t1 ts1 fs w1 = (t', ts', wire', Some (Ok ()))"
    by (auto split: prod.splits option.splits outcome.splits)
  have "wire_of t1 = wire_of t" using Send_Ok [OF s] by (simp add: wire_of_def fun_eq_iff)
  with Cons.IH [OF r] Send_Ok [OF s] show ?case by simp
qed simp

lemma delivered_simps [simp]:
  "streaming (delivered t n) = streaming t" "maxFrame (delivered t n) = maxFrame t"
  "u_closed (delivered t n) = u_closed t"
  by (simp_all add: delivered_def)

lemma recvAll_frames:
  assumes "\<forall>f \<in> set fs. carryable t f" "\<not> u_closed t" "harmless ts"
    "length (concat (map (wire_of t) fs)) \<le> gives ts"
  shows "\<exists>t'. recvAll (length fs) t ts (concat (map (wire_of t) fs) @ rest) = (fs, t', rest) \<and> \<not> u_closed t'"
  using assms
proof (induction fs arbitrary: t ts)
  case (Cons f fs)
  have f: "carryable t f" "length (wire_of t f) \<le> gives ts" using Cons.prems by auto
  let ?t = "delivered t (length (frameBody f))" and ?w = "concat (map (wire_of t) fs)"
  have w: "wire_of ?t = wire_of t" by (simp add: wire_of_def fun_eq_iff)
  obtain ts' where r: "recvCore None t ts (wire_of t f @ ?w @ rest) = (?t, ts', ?w @ rest, Some (Ok f))"
    "harmless ts'" "gives ts \<le> gives ts' + length (wire_of t f)"
    using recv_frame [OF f(1) Cons.prems(2,3) f(2), of "?w @ rest"] by auto
  have "\<exists>t'. recvAll (length fs) ?t ts' (concat (map (wire_of ?t) fs) @ rest) = (fs, t', rest) \<and> \<not> u_closed t'"
  proof (rule Cons.IH)
    show "\<forall>f \<in> set fs. carryable ?t f" using Cons.prems(1) by (simp add: carryable_def)
    show "length (concat (map (wire_of ?t) fs)) \<le> gives ts'" using Cons.prems(4) r(3) w by simp
  qed (use Cons.prems(2) r(2) in simp_all)
  with r(1) w show ?case by auto
qed simp

section \<open>What a receive may leave behind\<close>

lemma Read_suffix:
  "Read ts n inb = (ts', inb', Some (Got bs)) \<Longrightarrow> inb = bs @ inb' \<and> length bs \<le> n"
  "Read ts n inb = (ts', inb', None) \<Longrightarrow> inb' = inb"
  "Read ts n inb = (ts', inb', Some (ReadErr e)) \<Longrightarrow> inb' = inb"
  "Read ts n inb = (ts', inb', Some ReadEOF) \<Longrightarrow> inb' = inb"
  by (induction ts n inb rule: Read.induct) (auto simp: Let_def split: if_splits)

lemma readFull_suffix:
  "readFull c ts n inb acc = (ts', inb', r) \<Longrightarrow>
     r \<noteq> Some Panic \<and> (\<exists>bs. inb = bs @ inb' \<and> length bs \<le> n \<and> (\<forall>xs. r = Some (Ok xs) \<longrightarrow> xs = acc @ bs \<and> length bs = n))"
proof (induction c ts n inb acc arbitrary: ts' inb' r rule: readFull.induct)
  case (1 c ts n inb acc)
  show ?case
  proof (cases "n = 0")
    case True
    with 1(2) show ?thesis by (auto simp: readFull.simps)
  next
    case False
    obtain ts1 inb1 rr where rd: "Read ts n inb = (ts1, inb1, rr)" by (cases "Read ts n inb") auto
    show ?thesis
    proof (cases "\<exists>bs. rr = Some (Got bs)")
      case True
      then obtain bs where b: "rr = Some (Got bs)" by blast
      have s: "inb = bs @ inb1" "length bs \<le> n" using Read_suffix(1) rd b by auto
      have "readFull c ts1 (n - length bs) inb1 (acc @ bs) = (ts', inb', r)"
        using 1(2) False rd b by (simp add: readFull.simps [of c ts])
      from 1(1) [OF False _ _ _ _ this] rd b s show ?thesis by fastforce
    next
      case False': False
      then have "inb' = inb" "r \<noteq> Some Panic" "\<nexists>xs. r = Some (Ok xs)"
        using 1(2) False rd Read_suffix(2-4) [of ts n inb ts1 inb1]
        by (auto simp: readFull.simps [of c ts] split: option.splits read_result.splits)
      then show ?thesis by auto
    qed
  qed
qed

text \<open>
  The dispositions of a receive: a frame, or a frame-local error, after exactly one whole frame; a
  poisoned and closed connection; or an error with nothing read.
\<close>

definition whole_frame :: "UDSTransport \<Rightarrow> byte list \<Rightarrow> bool" where
  "whole_frame t used \<longleftrightarrow>
     (let n = snd (decodeHeader (take (headerLen t) used) (streaming t)) in
      n \<le> maxFrame t \<and> length used = headerLen t + unat n)"

definition in_sync :: "UDSTransport \<Rightarrow> byte list \<Rightarrow> UDSTransport \<Rightarrow> (err, Frame) outcome \<Rightarrow> bool" where
  "in_sync t used t' r \<longleftrightarrow>
     (case r of
        Ok f \<Rightarrow> \<not> u_closed t' \<and> whole_frame t used
      | Err e \<Rightarrow> if u_closed t' then TransportErrPoisoned \<in> e \<and> observed t' \<noteq> None
                 else used = [] \<or> whole_frame t used \<and> IsFrameLocalRecvErr e
      | Panic \<Rightarrow> False)"

lemma aborted_sync:
  assumes "\<not> u_closed t" "aborted t ts inb e started = (t', ts', inb', Some r)" "\<not> started \<Longrightarrow> used = []"
  shows "in_sync t used t' r \<and> inb' = inb"
  using assms by (auto simp: aborted_def abortFrame_def Close_def in_sync_def Let_def split: if_splits option.splits)

lemma checkImplementedKind_Err: "checkImplementedKind k = Err e \<Longrightarrow> IsFrameLocalRecvErr e"
  by (auto simp: checkImplementedKind_def IsFrameLocalRecvErr_def split: if_splits)

lemma recvBody_sync:
  assumes "\<not> u_closed t" "recvBody t ts inb f n = (t', ts', inb', Some r)"
    and h: "length hd' = headerLen t" "decodeHeader hd' (streaming t) = (f, n)" "n \<le> maxFrame t"
  shows "\<exists>body. inb = body @ inb' \<and> in_sync t (hd' @ body) t' r"
proof -
  obtain ts1 inb1 r1 where rf: "readFull False ts (unat n) inb [] = (ts1, inb1, r1)" by (cases "readFull False ts (unat n) inb []") auto
  obtain bs where b: "r1 \<noteq> Some Panic" "inb = bs @ inb1"
    "\<And>xs. r1 = Some (Ok xs) \<Longrightarrow> xs = bs \<and> length bs = unat n"
    using readFull_suffix [OF rf] by auto
  have whole: "whole_frame t (hd' @ bs)" if "length bs = unat n"
    using that h by (simp add: whole_frame_def Let_def)
  consider e where "r1 = Some (Err e)" | xs where "r1 = Some (Ok xs)" | "r1 = None"
    using b(1) by (cases r1) (auto, metis outcome.exhaust)
  then show ?thesis
  proof cases
    case 1
    then have "aborted t ts1 inb1 e True = (t', ts', inb', Some r)" using assms(2) rf by (simp add: recvBody_def)
    from aborted_sync [OF assms(1) this, of "hd' @ bs"] b(2) show ?thesis by auto
  next
    case 2
    then have xs: "xs = bs" "length bs = unat n" using b(3) by auto
    have "inb' = inb1 \<and> in_sync t (hd' @ bs) t' r"
      using assms(1,2) rf 2 xs DecodeStatus_cases [of bs] whole [OF xs(2)]
      by (auto simp: recvBody_def in_sync_def IsFrameLocalRecvErr_def split: if_splits)
    with b(2) show ?thesis by auto
  next
    case 3
    then show ?thesis using assms(2) rf by (simp add: recvBody_def)
  qed
qed

lemma drain_sync:
  assumes "\<not> u_closed t" "checkImplementedKind k = Err ek"
    and h: "length hd' = headerLen t" "decodeHeader hd' (streaming t) = (f, n)" "n \<le> maxFrame t"
    and r: "(case readFull True ts (unat n) inb [] of
         (ts2, inb2, None) \<Rightarrow> (t, ts2, inb2, None)
       | (ts2, inb2, Some (Err e)) \<Rightarrow> aborted t ts2 inb2 e True
       | (ts2, inb2, Some Panic) \<Rightarrow> (t, ts2, inb2, Some Panic)
       | (ts2, inb2, Some (Ok _)) \<Rightarrow> (t, ts2, inb2, Some (Err ek))) = (t', ts', inb', Some r)"
  shows "\<exists>body. inb = body @ inb' \<and> in_sync t (hd' @ body) t' r"
proof -
  obtain ts1 inb1 r1 where rf: "readFull True ts (unat n) inb [] = (ts1, inb1, r1)" by (cases "readFull True ts (unat n) inb []") auto
  obtain bs where b: "r1 \<noteq> Some Panic" "inb = bs @ inb1" "\<And>xs. r1 = Some (Ok xs) \<Longrightarrow> length bs = unat n"
    using readFull_suffix [OF rf] by auto
  consider e where "r1 = Some (Err e)" | xs where "r1 = Some (Ok xs)" | "r1 = None"
    using b(1) by (cases r1) (auto, metis outcome.exhaust)
  then show ?thesis
  proof cases
    case 1
    then have "aborted t ts1 inb1 e True = (t', ts', inb', Some r)" using r rf by simp
    from aborted_sync [OF assms(1) this, of "hd' @ bs"] b(2) show ?thesis by auto
  next
    case 2
    then have "inb' = inb1 \<and> in_sync t (hd' @ bs) t' r"
      using r rf assms(1) h b(3) checkImplementedKind_Err [OF assms(2)]
      by (auto simp: in_sync_def whole_frame_def Let_def)
    with b(2) show ?thesis by auto
  qed (use r rf in simp)
qed

lemma recvCore_sync:
  assumes "\<not> u_closed t" "recvCore ctx t ts inb = (t', ts', inb', Some r)"
  shows "\<exists>used. inb = used @ inb' \<and> in_sync t used t' r"
proof (cases ctx)
  case (Some e)
  with assms show ?thesis by (auto simp: recvCore_def in_sync_def)
next
  case None
  obtain ts1 inb1 r1 where rf: "readFull False ts (headerLen t) inb [] = (ts1, inb1, r1)"
    by (cases "readFull False ts (headerLen t) inb []") auto
  obtain h where b: "r1 \<noteq> Some Panic" "inb = h @ inb1" "\<And>xs. r1 = Some (Ok xs) \<Longrightarrow> xs = h \<and> length h = headerLen t"
    using readFull_suffix [OF rf] by auto
  consider e where "r1 = Some (Err e)" | "r1 = Some (Ok h)" "length h = headerLen t" | "r1 = None"
    using b(1,3) by (metis not_None_eq outcome.exhaust)
  then show ?thesis
  proof cases
    case 1
    then have "aborted t ts1 inb1 e (length inb1 < length inb) = (t', ts', inb', Some r)"
      using assms rf None by (simp add: recvCore_def)
    from aborted_sync [OF assms(1) this, of h] b(2) show ?thesis by auto
  next
    case 2
    obtain f n where d: "decodeHeader h (streaming t) = (f, n)" by fastforce
    have fatal: "aborted t ts1 inb1 e True = (t', ts', inb', Some r) \<Longrightarrow> ?thesis" for e
      using aborted_sync [OF assms(1), of ts1 inb1 e True t' ts' inb' r h] b(2) by auto
    show ?thesis
    proof (cases "n > maxFrame t \<or> fr_Kind f = FrameStreamChunk")
      case True
      then have "\<exists>e. aborted t ts1 inb1 e True = (t', ts', inb', Some r)"
        using assms rf None 2 d by (cases "n > maxFrame t") (auto simp: recvCore_def)
      then show ?thesis using fatal by blast
    next
      case False
      then have le: "n \<le> maxFrame t" by (simp add: not_less)
      have "\<exists>body. inb1 = body @ inb' \<and> in_sync t (h @ body) t' r"
      proof (cases "checkImplementedKind (fr_Kind f)")
        case (Err ek)
        show ?thesis
          by (rule drain_sync [OF assms(1) Err 2(2) d le]) (use assms rf None 2 d False Err in \<open>simp add: recvCore_def\<close>)
      next
        case (Ok u)
        show ?thesis
          by (rule recvBody_sync [OF assms(1) _ 2(2) d le]) (use assms rf None 2 d False Ok in \<open>simp add: recvCore_def\<close>)
      qed (simp add: checkImplementedKind_def split: if_splits)
      with b(2) show ?thesis by auto
    qed
  next
    case 3
    then show ?thesis using assms rf None by (simp add: recvCore_def)
  qed
qed

section \<open>Properties\<close>

text \<open>C14: frames accepted by Send arrive as they were sent: when any list of frames was sent to completion, under any
  schedule of partial writes, receiving over the bytes written returns exactly those frames in order, under any
  schedule of retries and of reads of any size that offers at least as many reads as there are bytes, and leaves
  nothing behind on an open connection.\<close>

theorem uds_roundtrip:
  assumes "sendAll t wts fs [] = (t', wts', wire, Some (Ok ()))"
    and "\<forall>f \<in> set fs. carryable t f" "\<not> u_closed t" "harmless rts" "length wire \<le> gives rts"
  shows "\<exists>t''. recvAll (length fs) t rts wire = (fs, t'', []) \<and> \<not> u_closed t''"
  using recvAll_frames [OF assms(2-4), of "[]"] sendAll_Ok [OF assms(1)] assms(5) by simp

definition sample_uds :: UDSTransport where
  "sample_uds = \<lparr>streaming = True, maxFrame = 1048576, u_closed = False, observed = None, sentCount = 0,
     sentBytes = 0, recvCount = 0, recvBytes = 0\<rparr>"

definition sample_frames :: "Frame list" where
  "sample_frames =
     [zeroFrame\<lparr>fr_CallID := 7, fr_Kind := FrameStreamMsg, fr_Budget := - 3, fr_Payload := [1, 2, 3], fr_Control := 9\<rparr>,
      zeroFrame\<lparr>fr_CallID := 8, fr_Kind := FrameUnaryErr,
         fr_Status := Some \<lparr>Code = 5, Message = [104, 105], Details = [[1], []]\<rparr>\<rparr>]"

lemma sample_bodies:
  "frameBody (sample_frames ! 0) = [1, 2, 3]"
  "length (frameBody (sample_frames ! 1)) = 23"
  by (simp_all add: sample_frames_def frameBody_def CarriesStatusBody_def EncodeStatus_def encodeDetail_def zeroFrame_def)

lemma sample_carryable: "\<forall>f \<in> set sample_frames. carryable sample_uds f"
  by (simp add: sample_frames_def carryable_def sample_uds_def frameBody_def CarriesStatusBody_def EncodeStatus_def
      encodeDetail_def zeroFrame_def checkImplementedKind_def)

lemma Send_whole:
  assumes "carryable t f" and ne: "frameBody f \<noteq> []" "length (frameBody f) \<le> 100"
  shows "\<exists>t'. Send t (WTake 100 # WRetry # WTake 100 # ts) f wire = (t', ts, wire @ wire_of t f, Some (Ok ()))
     \<and> streaming t' = streaming t \<and> maxFrame t' = maxFrame t"
proof -
  have w: "writeFull (WTake 100 # ts) buf wire = (ts, wire @ buf, Some (Ok ()))"
    if "buf \<noteq> []" "length buf \<le> 101" for buf ts wire
    using that by (cases buf) (auto simp: writeFull.simps)
  have "encodeHeader f (of_nat (length (frameBody f))) (streaming t) \<noteq> []"
    "length (encodeHeader f (of_nat (length (frameBody f))) (streaming t)) \<le> 101"
    by (auto simp: encodeHeader_def)
  moreover obtain b bs where "frameBody f = b # bs" using ne(1) by (cases "frameBody f") auto
  ultimately show ?thesis
    using assms(1) ne w by (simp add: Send_def writeFrame_def carryable_def Let_def wire_of_def not_less)
qed

theorem uds_roundtrip_witness:
  "\<exists>t' wire t''. sendAll sample_uds [WTake 100, WRetry, WTake 100, WTake 100, WRetry, WTake 100] sample_frames []
        = (t', [], wire, Some (Ok ()))
     \<and> recvAll 2 sample_uds (concat (replicate (length wire) [RRetry, RGive 2])) wire = (sample_frames, t'', [])"
proof -
  let ?f = "sample_frames ! 0" and ?g = "sample_frames ! 1"
  have fs: "sample_frames = [?f, ?g]" by (simp add: sample_frames_def)
  have c: "carryable sample_uds ?f" "carryable sample_uds ?g" using sample_carryable fs by (metis list.set_intros)+
  obtain t1 where s1: "Send sample_uds [WTake 100, WRetry, WTake 100, WTake 100, WRetry, WTake 100] ?f []
      = (t1, [WTake 100, WRetry, WTake 100], wire_of sample_uds ?f, Some (Ok ()))"
    "streaming t1 = streaming sample_uds" "maxFrame t1 = maxFrame sample_uds"
    using Send_whole [OF c(1), of "[WTake 100, WRetry, WTake 100]" "[]"] sample_bodies by auto
  have c2: "carryable t1 ?g" using c(2) s1 by (simp add: carryable_def)
  obtain t2 where s2: "Send t1 [WTake 100, WRetry, WTake 100] ?g (wire_of sample_uds ?f)
      = (t2, [], wire_of sample_uds ?f @ wire_of t1 ?g, Some (Ok ()))"
    using Send_whole [OF c2, of "[]" "wire_of sample_uds ?f"] sample_bodies by fastforce
  let ?w = "wire_of sample_uds ?f @ wire_of t1 ?g"
  let ?r = "concat (replicate (length ?w) [RRetry, RGive 2])"
  have s: "sendAll sample_uds [WTake 100, WRetry, WTake 100, WTake 100, WRetry, WTake 100] sample_frames []
      = (t2, [], ?w, Some (Ok ()))"
    using s1 s2 by (subst fs) simp
  have h: "harmless ?r" by (auto simp: harmless_def)
  have "gives (concat (replicate n [RRetry, RGive 2])) = n" for n by (induction n) (auto simp: gives_def)
  then have g: "length ?w \<le> gives ?r" by simp
  have o: "\<not> u_closed sample_uds" by (simp add: sample_uds_def)
  have l: "length sample_frames = 2" by (simp add: sample_frames_def)
  from uds_roundtrip [OF s sample_carryable o h g] s show ?thesis unfolding l by blast
qed



text \<open>the body stage's receive budget is the slack plus one second per started second of the declared size at the
  minimum rate, saturated at the largest duration: no intermediate of the 64-bit computation wraps, so the deadline
  is never in the past.\<close>

theorem body_budget_exact:
  assumes "0 < Slack b" "Slack b < 2 ^ 63" "MinRate b \<noteq> 0"
  shows "bodyBudget b sz
    = min (2 ^ 63 - 1) (Slack b + 1000000000 * ((uint sz + uint (MinRate b) - 1) div uint (MinRate b)))"
proof -
  let ?S = "uint sz" and ?R = "uint (MinRate b)" and ?q = "(uint sz + uint (MinRate b) - 1) div uint (MinRate b)"
  let ?rate = "ucast (MinRate b) :: u64"
  have R: "1 \<le> ?R" "?R < 2 ^ 32" "0 \<le> ?S" "?S < 2 ^ 32"
    using assms(3) uint_bounded [of "MinRate b"] uint_bounded [of sz] by (auto simp: int_one_le_iff_zero_less word_neq_0_conv word_less_def)
  have "(?S + ?R - 1) mod 18446744073709551616 = ?S + ?R - 1"
    by (rule mod_pos_pos_trivial) (use R in \<open>linarith, simp\<close>)
  then have "uint (ucast sz + ?rate - 1) = ?S + ?R - 1"
    using R by (simp add: uint_word_ariths unsigned_ucast_eq take_bit_int_eq_self mod_simps)
  then have s: "uint ((ucast sz + ?rate - 1) div ?rate) = ?q"
    using R by (simp add: uint_div unsigned_ucast_eq take_bit_int_eq_self)
  have q: "0 \<le> ?q" "?q \<le> 2 ^ 32"
  proof -
    have "0 \<le> ?S + ?R - 1" using R by linarith
    moreover have "0 < ?R" using R by linarith
    ultimately show "0 \<le> ?q" by (simp only: pos_imp_zdiv_nonneg_iff)
    have "?S + ?R - 1 \<le> 2 ^ 32 * ?R"
      using R mult_left_mono [of 1 ?R "2 ^ 32"] by (simp add: algebra_simps)
    then have "?q \<le> 2 ^ 32 * ?R div ?R" using R by (intro zdiv_mono1) auto
    then show "?q \<le> 2 ^ 32" using R by simp
  qed
  let ?tot = "word_of_int (Slack b) + (ucast sz + ?rate - 1) div ?rate * word_of_int 1000000000"
  have t: "uint ?tot = Slack b + 1000000000 * ?q"
    using s q assms(1,2) by (simp add: uint_word_ariths unsigned_of_int take_bit_int_eq_self mult.commute)
  then show ?thesis
    by (simp add: bodyBudget_def Let_def word_less_def)
qed

theorem body_budget_exact_witness:
  "bodyBudget \<lparr>Slack = 30000000000, MinRate = 1048576, HasClock = True\<rparr> 1 = 31000000000"
  using body_budget_exact [of "\<lparr>Slack = 30000000000, MinRate = 1048576, HasClock = True\<rparr>" 1] by simp

end
