(* ===== verification/Layout.thy ===== *)
theory Layout
  imports Prelude
begin

text \<open>
  The region layout of \<^verbatim>\<open>src/internal/shm/layout.go\<close> and \<^verbatim>\<open>region.go\<close>: deriving a geometry from the
  host's choices, writing the layout page, and the attach-time check of a layout page that a peer
  may have filled with anything. Byte access is bounds-checked as Go does it, so that an index out
  of range is the value \<open>Panic\<close>.
\<close>

section \<open>Schema\<close>

abbreviation (input) PageSize :: u64 where "PageSize \<equiv> 4096"
abbreviation (input) CacheLine :: u32 where "CacheLine \<equiv> 64"
abbreviation (input) DescriptorSize :: u64 where "DescriptorSize \<equiv> 64"
abbreviation (input) LayoutPageSize :: u64 where "LayoutPageSize \<equiv> 4096"
abbreviation (input) SyncPageSize :: u64 where "SyncPageSize \<equiv> 4096"
abbreviation (input) headerSize :: u64 where "headerSize \<equiv> 256"
abbreviation (input) syncPageReservedTailOffset :: u64 where "syncPageReservedTailOffset \<equiv> 512"
abbreviation (input) minRingCapacity :: u32 where "minRingCapacity \<equiv> 64"
abbreviation (input) maxRingCapacity :: u32 where "maxRingCapacity \<equiv> 1048576"
abbreviation (input) maxArenaBytes :: u64 where "maxArenaBytes \<equiv> 4294967295"
abbreviation (input) maxRegionSize :: u64 where "maxRegionSize \<equiv> 1099511627776"
abbreviation (input) minRegionSize :: u64 where "minRegionSize \<equiv> 8192"
abbreviation (input) minLargestSlabSize :: u32 where "minLargestSlabSize \<equiv> 4096"
abbreviation (input) sizeClassEntrySize :: nat where "sizeClassEntrySize \<equiv> 16"
abbreviation (input) classTableRecommendedOffset :: u64 where "classTableRecommendedOffset \<equiv> 256"

abbreviation (input) offMagic :: nat where "offMagic \<equiv> 0"
abbreviation (input) offLayoutVersion :: nat where "offLayoutVersion \<equiv> 8"
abbreviation (input) offHeaderFlags :: nat where "offHeaderFlags \<equiv> 12"
abbreviation (input) offGeneration :: nat where "offGeneration \<equiv> 16"
abbreviation (input) offRegionSize :: nat where "offRegionSize \<equiv> 24"
abbreviation (input) offPageSize :: nat where "offPageSize \<equiv> 32"
abbreviation (input) offDescriptorSize :: nat where "offDescriptorSize \<equiv> 36"
abbreviation (input) offRingCapacity :: nat where "offRingCapacity \<equiv> 40"
abbreviation (input) offNumClassesHP :: nat where "offNumClassesHP \<equiv> 44"
abbreviation (input) offNumClassesPH :: nat where "offNumClassesPH \<equiv> 48"
abbreviation (input) offReservedU32 :: nat where "offReservedU32 \<equiv> 52"
abbreviation (input) offSyncPageOffset :: nat where "offSyncPageOffset \<equiv> 56"
abbreviation (input) offRingHPOffset :: nat where "offRingHPOffset \<equiv> 64"
abbreviation (input) offRingPHOffset :: nat where "offRingPHOffset \<equiv> 72"
abbreviation (input) offArenaHPOffset :: nat where "offArenaHPOffset \<equiv> 80"
abbreviation (input) offArenaPHOffset :: nat where "offArenaPHOffset \<equiv> 88"
abbreviation (input) offArenaBytesHP :: nat where "offArenaBytesHP \<equiv> 96"
abbreviation (input) offArenaBytesPH :: nat where "offArenaBytesPH \<equiv> 104"
abbreviation (input) offClassTableHPOffset :: nat where "offClassTableHPOffset \<equiv> 112"
abbreviation (input) offClassTablePHOffset :: nat where "offClassTablePHOffset \<equiv> 120"
abbreviation (input) offShardCount :: nat where "offShardCount \<equiv> 128"
abbreviation (input) offLifecycleReserve :: nat where "offLifecycleReserve \<equiv> 136"
abbreviation (input) offReservedHdr :: nat where "offReservedHdr \<equiv> 140"
abbreviation (input) reservedHdrSize :: nat where "reservedHdrSize \<equiv> 116"

abbreviation (input) offSizeClassSlabSize :: nat where "offSizeClassSlabSize \<equiv> 0"
abbreviation (input) offSizeClassSlabCount :: nat where "offSizeClassSlabCount \<equiv> 4"
abbreviation (input) offSizeClassBaseOffset :: nat where "offSizeClassBaseOffset \<equiv> 8"
abbreviation (input) offSizeClassReserved :: nat where "offSizeClassReserved \<equiv> 12"

text \<open>The bytes of STYXSHMR.\<close>

definition layoutMagic :: "byte list" where
  "layoutMagic = [0x53, 0x54, 0x59, 0x58, 0x53, 0x48, 0x4D, 0x52]"

datatype layout_error = ErrBadGeometry | ErrAttachRejected | ErrSyscall

datatype Direction = HostToPlugin | PluginToHost

text \<open>A Go array of length two indexed by a direction.\<close>

datatype 'a dirs = Dirs 'a 'a

fun at :: "'a dirs \<Rightarrow> Direction \<Rightarrow> 'a" where
  "at (Dirs a b) HostToPlugin = a"
| "at (Dirs a b) PluginToHost = b"

record SizeClass =
  SlabSize :: u32
  SlabCount :: u32
  ClassBaseOffset :: u32

record RingGeometry =
  ringOffset :: u64

record ArenaGeometry =
  arenaOffset :: u64
  arenaBytes :: u64
  ClassTableOffset :: u64
  Classes :: "SizeClass list"

record Layout =
  Magic :: "byte list"
  LayoutVersion :: u32
  HeaderFlags :: u32
  Generation :: u64
  RegionSize :: u64
  RingCapacity :: u32
  LifecycleReserve :: u32
  SyncPageOffset :: u64
  Rings :: "RingGeometry dirs"
  Arenas :: "ArenaGeometry dirs"

record derivedGeometry =
  g_syncPageOffset :: u64
  g_ringHPOffset :: u64
  g_ringPHOffset :: u64
  g_arenaHPOffset :: u64
  g_arenaPHOffset :: u64
  g_arenaBytes :: "u64 dirs"
  g_regionSize :: u64

section \<open>Derivation\<close>

definition addOverflowSafe :: "u64 \<Rightarrow> u64 \<Rightarrow> (layout_error, u64) outcome" where
  "addOverflowSafe s a = (let result = s + a in if result < s then Err ErrBadGeometry else Ok result)"

definition roundupPageSize :: "u64 \<Rightarrow> (layout_error, u64) outcome" where
  "roundupPageSize n =
     (let rm = n mod PageSize in if rm = 0 then Ok n else addOverflowSafe n (PageSize - rm))"

definition validateRingCapacity :: "u32 \<Rightarrow> (layout_error, unit) outcome" where
  "validateRingCapacity c =
     (if c < minRingCapacity \<or> c > maxRingCapacity then Err ErrBadGeometry
      else if c AND (c - 1) \<noteq> 0 then Err ErrBadGeometry
      else Ok ())"

definition validateLifecycleReserve :: "u32 \<Rightarrow> u32 \<Rightarrow> (layout_error, unit) outcome" where
  "validateLifecycleReserve r cap = (if r = 0 \<or> r \<ge> cap then Err ErrBadGeometry else Ok ())"

text \<open>The loop of \<open>validateSlabBounds\<close>; the previous size is \<open>None\<close> in the first round.\<close>

fun slabBoundsLoop :: "u32 option \<Rightarrow> SizeClass list \<Rightarrow> (layout_error, unit) outcome" where
  "slabBoundsLoop prev [] = Ok ()"
| "slabBoundsLoop prev (c # cs) =
     (if SlabSize c = 0 \<or> SlabSize c mod CacheLine \<noteq> 0 then Err ErrBadGeometry
      else if (case prev of None \<Rightarrow> False | Some p \<Rightarrow> SlabSize c \<le> p) then Err ErrBadGeometry
      else if SlabCount c = 0 then Err ErrBadGeometry
      else slabBoundsLoop (Some (SlabSize c)) cs)"

definition validateSlabBounds :: "SizeClass list \<Rightarrow> (layout_error, unit) outcome" where
  "validateSlabBounds classes =
     (if classes = [] then Err ErrBadGeometry
      else andThen (slabBoundsLoop None classes)
        (\<lambda>_. if SlabSize (last classes) < minLargestSlabSize then Err ErrBadGeometry else Ok ()))"

fun classBasesFrom :: "u64 \<Rightarrow> SizeClass list \<Rightarrow> (layout_error, u64 list \<times> u64) outcome" where
  "classBasesFrom base [] = Ok ([], base)"
| "classBasesFrom base (c # cs) =
     andThen (addOverflowSafe base (ucast (SlabSize c) * ucast (SlabCount c)))
       (\<lambda>nxt. andThen (classBasesFrom nxt cs) (\<lambda>(bases, total). Ok (base # bases, total)))"

definition computeClassBaseOffsets :: "SizeClass list \<Rightarrow> (layout_error, u64 list \<times> u64) outcome" where
  "computeClassBaseOffsets classes = classBasesFrom 0 classes"

definition buildArenaGeometry :: "SizeClass list \<Rightarrow> (layout_error, SizeClass list \<times> u64) outcome" where
  "buildArenaGeometry classes =
     andThen (validateSlabBounds classes) (\<lambda>_.
     andThen (computeClassBaseOffsets classes) (\<lambda>(bases, classTotal).
     andThen (roundupPageSize classTotal) (\<lambda>bytes.
       if bytes > maxArenaBytes then Err ErrBadGeometry
       else Ok (map2 (\<lambda>c b. \<lparr>SlabSize = SlabSize c, SlabCount = SlabCount c, ClassBaseOffset = ucast b\<rparr>)
                  classes bases, bytes))))"

definition deriveSpans :: "u32 \<Rightarrow> u64 \<Rightarrow> u64 \<Rightarrow> (layout_error, derivedGeometry) outcome" where
  "deriveSpans cap bytesHP bytesPH =
     (let ringSpan = ucast cap * DescriptorSize; sync = PageSize in
      andThen (addOverflowSafe sync PageSize) (\<lambda>ringHP.
      andThen (addOverflowSafe ringHP ringSpan) (\<lambda>ringPH.
      andThen (addOverflowSafe ringPH ringSpan) (\<lambda>arenaHP.
      andThen (addOverflowSafe arenaHP bytesHP) (\<lambda>arenaPH.
      andThen (addOverflowSafe arenaPH bytesPH) (\<lambda>regionSize.
        if regionSize > maxRegionSize then Err ErrBadGeometry
        else Ok \<lparr>g_syncPageOffset = sync, g_ringHPOffset = ringHP, g_ringPHOffset = ringPH,
                 g_arenaHPOffset = arenaHP, g_arenaPHOffset = arenaPH,
                 g_arenaBytes = Dirs bytesHP bytesPH, g_regionSize = regionSize\<rparr>))))))"

definition DeriveLayout :: "Layout \<Rightarrow> (layout_error, Layout) outcome" where
  "DeriveLayout l =
     andThen (validateRingCapacity (RingCapacity l)) (\<lambda>_.
     andThen (validateLifecycleReserve (LifecycleReserve l) (RingCapacity l)) (\<lambda>_.
     andThen (buildArenaGeometry (Classes (at (Arenas l) HostToPlugin))) (\<lambda>(classesHP, bytesHP).
     andThen (buildArenaGeometry (Classes (at (Arenas l) PluginToHost))) (\<lambda>(classesPH, bytesPH).
     andThen (deriveSpans (RingCapacity l) bytesHP bytesPH) (\<lambda>spans.
       let tableHP = classTableRecommendedOffset;
           tablePH = tableHP + of_nat (length classesHP) * of_nat sizeClassEntrySize;
           tablesEnd = tablePH + of_nat (length classesPH) * of_nat sizeClassEntrySize in
       if tablesEnd > LayoutPageSize then Err ErrBadGeometry
       else Ok \<lparr>Magic = Magic l, LayoutVersion = LayoutVersion l, HeaderFlags = HeaderFlags l,
          Generation = Generation l, RegionSize = g_regionSize spans, RingCapacity = RingCapacity l,
          LifecycleReserve = LifecycleReserve l, SyncPageOffset = g_syncPageOffset spans,
          Rings = Dirs \<lparr>ringOffset = g_ringHPOffset spans\<rparr> \<lparr>ringOffset = g_ringPHOffset spans\<rparr>,
          Arenas = Dirs
            \<lparr>arenaOffset = g_arenaHPOffset spans, arenaBytes = bytesHP, ClassTableOffset = tableHP,
             Classes = classesHP\<rparr>
            \<lparr>arenaOffset = g_arenaPHOffset spans, arenaBytes = bytesPH, ClassTableOffset = tablePH,
             Classes = classesPH\<rparr>\<rparr>)))))"

section \<open>Writing the layout page\<close>

text \<open>
  A write of bytes at an offset panics when the slice is too short. The page is written by a sequence
  of such writes; \<open>headerWrites\<close> lists those of \<open>writeLayoutPage\<close> in the order of the code.
\<close>

definition putAt :: "byte list \<Rightarrow> nat \<Rightarrow> byte list \<Rightarrow> (layout_error, byte list) outcome" where
  "putAt data off bs = (if off + length bs \<le> length data then Ok (put_bytes data off bs) else Panic)"

fun putAll :: "byte list \<Rightarrow> (nat \<times> byte list) list \<Rightarrow> (layout_error, byte list) outcome" where
  "putAll data [] = Ok data"
| "putAll data ((off, bs) # ws) = andThen (putAt data off bs) (\<lambda>data'. putAll data' ws)"

abbreviation (input) u32le :: "u32 \<Rightarrow> byte list" where "u32le v \<equiv> le_encode 4 v"
abbreviation (input) u64le :: "u64 \<Rightarrow> byte list" where "u64le v \<equiv> le_encode 8 v"

definition headerWrites :: "Layout \<Rightarrow> (nat \<times> byte list) list" where
  "headerWrites l =
     [(offMagic, Magic l), (offLayoutVersion, u32le (LayoutVersion l)),
      (offHeaderFlags, u32le (HeaderFlags l)), (offGeneration, u64le (Generation l)),
      (offRegionSize, u64le (RegionSize l)), (offPageSize, u32le 4096), (offDescriptorSize, u32le 64),
      (offRingCapacity, u32le (RingCapacity l)),
      (offNumClassesHP, u32le (of_nat (length (Classes (at (Arenas l) HostToPlugin))))),
      (offNumClassesPH, u32le (of_nat (length (Classes (at (Arenas l) PluginToHost))))),
      (offReservedU32, u32le 0), (offSyncPageOffset, u64le (SyncPageOffset l)),
      (offRingHPOffset, u64le (ringOffset (at (Rings l) HostToPlugin))),
      (offRingPHOffset, u64le (ringOffset (at (Rings l) PluginToHost))),
      (offArenaHPOffset, u64le (arenaOffset (at (Arenas l) HostToPlugin))),
      (offArenaPHOffset, u64le (arenaOffset (at (Arenas l) PluginToHost))),
      (offArenaBytesHP, u64le (arenaBytes (at (Arenas l) HostToPlugin))),
      (offArenaBytesPH, u64le (arenaBytes (at (Arenas l) PluginToHost))),
      (offClassTableHPOffset, u64le (ClassTableOffset (at (Arenas l) HostToPlugin))),
      (offClassTablePHOffset, u64le (ClassTableOffset (at (Arenas l) PluginToHost))),
      (offShardCount, u64le 1), (offLifecycleReserve, u32le (LifecycleReserve l)),
      (offReservedHdr, replicate reservedHdrSize 0)]"

fun entryWrites :: "nat \<Rightarrow> SizeClass list \<Rightarrow> (nat \<times> byte list) list" where
  "entryWrites off [] = []"
| "entryWrites off (c # cs) =
     [(off + offSizeClassSlabSize, u32le (SlabSize c)), (off + offSizeClassSlabCount, u32le (SlabCount c)),
      (off + offSizeClassBaseOffset, u32le (ClassBaseOffset c)), (off + offSizeClassReserved, u32le 0)]
     @ entryWrites (off + sizeClassEntrySize) cs"

definition writeClassTable :: "byte list \<Rightarrow> u64 \<Rightarrow> SizeClass list \<Rightarrow> (layout_error, byte list) outcome" where
  "writeClassTable data tableOff classes = putAll data (entryWrites (unat tableOff) classes)"

definition writeLayoutPage :: "byte list \<Rightarrow> Layout \<Rightarrow> (layout_error, byte list) outcome" where
  "writeLayoutPage data l =
     andThen (putAll data (headerWrites l)) (\<lambda>data.
     andThen (writeClassTable data (ClassTableOffset (at (Arenas l) HostToPlugin))
                (Classes (at (Arenas l) HostToPlugin))) (\<lambda>data.
       writeClassTable data (ClassTableOffset (at (Arenas l) PluginToHost))
                (Classes (at (Arenas l) PluginToHost))))"

section \<open>Checking a layout page\<close>

text \<open>Reading a field and slicing, with Go's bounds checks.\<close>

definition readU32 :: "byte list \<Rightarrow> nat \<Rightarrow> (layout_error, u32) outcome" where
  "readU32 data off = (if off + 4 \<le> length data then Ok (le_decode (get_bytes data off 4)) else Panic)"

definition readU64 :: "byte list \<Rightarrow> nat \<Rightarrow> (layout_error, u64) outcome" where
  "readU64 data off = (if off + 8 \<le> length data then Ok (le_decode (get_bytes data off 8)) else Panic)"

definition byteSlice :: "byte list \<Rightarrow> nat \<Rightarrow> nat \<Rightarrow> (layout_error, byte list) outcome" where
  "byteSlice data a b = (if a \<le> b \<and> b \<le> length data then Ok (get_bytes data a (b - a)) else Panic)"

fun isZero :: "byte list \<Rightarrow> bool" where
  "isZero [] = True"
| "isZero (v # b) = (if v \<noteq> 0 then False else isZero b)"

definition overlaps :: "u64 \<Rightarrow> u64 \<Rightarrow> u64 \<Rightarrow> u64 \<Rightarrow> bool" where
  "overlaps aStart aEnd bStart bEnd \<longleftrightarrow> aStart < bEnd \<and> bStart < aEnd"

definition checkHeaderScalars :: "byte list \<Rightarrow> (layout_error, unit) outcome" where
  "checkHeaderScalars data =
     andThen (byteSlice data offMagic (offMagic + 8)) (\<lambda>magic. andThen (require (magic = layoutMagic) ErrBadGeometry) (\<lambda>_.
     andThen (readU32 data offLayoutVersion) (\<lambda>v. andThen (require (v = 1) ErrBadGeometry) (\<lambda>_.
     andThen (readU32 data offPageSize) (\<lambda>v. andThen (require (v = 4096) ErrBadGeometry) (\<lambda>_.
     andThen (readU32 data offDescriptorSize) (\<lambda>v. andThen (require (v = 64) ErrBadGeometry) (\<lambda>_.
     andThen (readU64 data offShardCount) (\<lambda>v. andThen (require (v = 1) ErrBadGeometry) (\<lambda>_.
     andThen (readU32 data offReservedU32) (\<lambda>v. require (v = 0) ErrBadGeometry)))))))))))"

definition checkRingReservation :: "byte list \<Rightarrow> (layout_error, u32 \<times> u32) outcome" where
  "checkRingReservation data =
     andThen (readU32 data offRingCapacity) (\<lambda>cap.
     andThen (validateRingCapacity cap) (\<lambda>_.
     andThen (readU32 data offLifecycleReserve) (\<lambda>reserve.
     andThen (validateLifecycleReserve reserve cap) (\<lambda>_. Ok (cap, reserve)))))"

definition checkOneClassTableRange :: "u32 \<Rightarrow> u64 \<Rightarrow> (layout_error, unit) outcome" where
  "checkOneClassTableRange n tableOff =
     (if n < 1 then Err ErrBadGeometry
      else if tableOff < headerSize \<or> tableOff \<ge> LayoutPageSize then Err ErrBadGeometry
      else if tableOff mod 4 \<noteq> 0 then Err ErrBadGeometry
      else if tableOff + ucast n * of_nat sizeClassEntrySize > LayoutPageSize then Err ErrBadGeometry
      else Ok ())"

definition checkClassTableRanges :: "u32 \<Rightarrow> u32 \<Rightarrow> u64 \<Rightarrow> u64 \<Rightarrow> (layout_error, unit) outcome" where
  "checkClassTableRanges numHP numPH offHP offPH =
     andThen (checkOneClassTableRange numHP offHP) (\<lambda>_.
     andThen (checkOneClassTableRange numPH offPH) (\<lambda>_.
       let endHP = offHP + ucast numHP * of_nat sizeClassEntrySize;
           endPH = offPH + ucast numPH * of_nat sizeClassEntrySize in
       if overlaps offHP endHP offPH endPH then Err ErrBadGeometry else Ok ()))"

text \<open>The decoding loop of \<open>checkClassRules\<close>, entry by entry.\<close>

fun readClasses :: "byte list \<Rightarrow> nat \<Rightarrow> nat \<Rightarrow> (layout_error, SizeClass list) outcome" where
  "readClasses data entryOff 0 = Ok []"
| "readClasses data entryOff (Suc n) =
     andThen (readU32 data (entryOff + offSizeClassSlabSize)) (\<lambda>sz.
     andThen (readU32 data (entryOff + offSizeClassSlabCount)) (\<lambda>cnt.
     andThen (readU32 data (entryOff + offSizeClassBaseOffset)) (\<lambda>base.
     andThen (readClasses data (entryOff + sizeClassEntrySize) n) (\<lambda>cs.
       Ok (\<lparr>SlabSize = sz, SlabCount = cnt, ClassBaseOffset = base\<rparr> # cs)))))"

definition checkClassBaseOffsets :: "SizeClass list \<Rightarrow> (layout_error, u64) outcome" where
  "checkClassBaseOffsets classes =
     andThen (computeClassBaseOffsets classes) (\<lambda>(bases, classTotal).
       if list_all2 (\<lambda>c b. ucast (ClassBaseOffset c) = b) classes bases then Ok classTotal
       else Err ErrBadGeometry)"

definition checkClassRules :: "byte list \<Rightarrow> u64 \<Rightarrow> u32 \<Rightarrow> (layout_error, SizeClass list \<times> u64) outcome" where
  "checkClassRules data tableOff n =
     andThen (readClasses data (unat tableOff) (unat n)) (\<lambda>classes.
     andThen (validateSlabBounds classes) (\<lambda>_.
     andThen (checkClassBaseOffsets classes) (\<lambda>classTotal. Ok (classes, classTotal))))"

definition checkArenaTotal :: "u64 \<Rightarrow> u64 \<Rightarrow> (layout_error, u64) outcome" where
  "checkArenaTotal classTotal stored =
     andThen (roundupPageSize classTotal) (\<lambda>want.
       if want > maxArenaBytes then Err ErrBadGeometry
       else if stored \<noteq> want then Err ErrBadGeometry
       else Ok want)"

fun checkFields :: "byte list \<Rightarrow> (nat \<times> u64) list \<Rightarrow> (layout_error, unit) outcome" where
  "checkFields data [] = Ok ()"
| "checkFields data ((off, want) # fs) =
     andThen (readU64 data off) (\<lambda>got. if got \<noteq> want then Err ErrBadGeometry else checkFields data fs)"

definition checkSpansAndCoverage :: "byte list \<Rightarrow> derivedGeometry \<Rightarrow> u64 \<Rightarrow> (layout_error, unit) outcome" where
  "checkSpansAndCoverage data spans declared =
     andThen (checkFields data
        [(offSyncPageOffset, g_syncPageOffset spans), (offRingHPOffset, g_ringHPOffset spans),
         (offRingPHOffset, g_ringPHOffset spans), (offArenaHPOffset, g_arenaHPOffset spans),
         (offArenaPHOffset, g_arenaPHOffset spans), (offRegionSize, g_regionSize spans)]) (\<lambda>_.
       if g_regionSize spans \<noteq> declared then Err ErrBadGeometry
       else if length data \<noteq> unat (g_regionSize spans) then Err ErrBadGeometry
       else Ok ())"

fun checkClassEntriesReservedZero :: "byte list \<Rightarrow> nat \<Rightarrow> nat \<Rightarrow> (layout_error, unit) outcome" where
  "checkClassEntriesReservedZero data entryOff 0 = Ok ()"
| "checkClassEntriesReservedZero data entryOff (Suc n) =
     andThen (readU32 data (entryOff + offSizeClassReserved)) (\<lambda>v.
       if v \<noteq> 0 then Err ErrBadGeometry
       else checkClassEntriesReservedZero data (entryOff + sizeClassEntrySize) n)"

definition checkSyncPageReservedTailZero :: "byte list \<Rightarrow> derivedGeometry \<Rightarrow> (layout_error, unit) outcome" where
  "checkSyncPageReservedTailZero data spans =
     andThen (byteSlice data (unat (g_syncPageOffset spans + syncPageReservedTailOffset))
                             (unat (g_syncPageOffset spans + SyncPageSize)))
       (\<lambda>b. require (isZero b) ErrBadGeometry)"

definition checkArenaPadZero :: "byte list \<Rightarrow> u64 \<Rightarrow> u64 \<Rightarrow> u64 \<Rightarrow> (layout_error, unit) outcome" where
  "checkArenaPadZero data off classTotal bytes =
     andThen (byteSlice data (unat (off + classTotal)) (unat (off + bytes)))
       (\<lambda>b. require (isZero b) ErrBadGeometry)"

definition checkReservedZero ::
    "byte list \<Rightarrow> derivedGeometry \<Rightarrow> u64 \<Rightarrow> u32 \<Rightarrow> u64 \<Rightarrow> u32 \<Rightarrow> u64 \<Rightarrow> u64 \<Rightarrow> (layout_error, unit) outcome" where
  "checkReservedZero data spans tableHP numHP tablePH numPH totalHP totalPH =
     andThen (readU32 data offHeaderFlags) (\<lambda>v. andThen (require (v = 0) ErrBadGeometry) (\<lambda>_.
     andThen (byteSlice data offReservedHdr (offReservedHdr + reservedHdrSize)) (\<lambda>b.
     andThen (require (isZero b) ErrBadGeometry) (\<lambda>_.
     andThen (checkSyncPageReservedTailZero data spans) (\<lambda>_.
     andThen (checkClassEntriesReservedZero data (unat tableHP) (unat numHP)) (\<lambda>_.
     andThen (checkClassEntriesReservedZero data (unat tablePH) (unat numPH)) (\<lambda>_.
     andThen (checkArenaPadZero data (g_arenaHPOffset spans) totalHP (at (g_arenaBytes spans) HostToPlugin)) (\<lambda>_.
       checkArenaPadZero data (g_arenaPHOffset spans) totalPH (at (g_arenaBytes spans) PluginToHost)))))))))"

definition parseLayoutPhase2 :: "byte list \<Rightarrow> u64 \<Rightarrow> (layout_error, Layout) outcome" where
  "parseLayoutPhase2 data declared =
     andThen (checkHeaderScalars data) (\<lambda>_.
     andThen (checkRingReservation data) (\<lambda>(cap, reserve).
     andThen (readU32 data offNumClassesHP) (\<lambda>numHP.
     andThen (readU32 data offNumClassesPH) (\<lambda>numPH.
     andThen (readU64 data offClassTableHPOffset) (\<lambda>tableHP.
     andThen (readU64 data offClassTablePHOffset) (\<lambda>tablePH.
     andThen (checkClassTableRanges numHP numPH tableHP tablePH) (\<lambda>_.
     andThen (checkClassRules data tableHP numHP) (\<lambda>(classesHP, totalHP).
     andThen (checkClassRules data tablePH numPH) (\<lambda>(classesPH, totalPH).
     andThen (readU64 data offArenaBytesHP) (\<lambda>storedHP.
     andThen (checkArenaTotal totalHP storedHP) (\<lambda>bytesHP.
     andThen (readU64 data offArenaBytesPH) (\<lambda>storedPH.
     andThen (checkArenaTotal totalPH storedPH) (\<lambda>bytesPH.
     andThen (deriveSpans cap bytesHP bytesPH) (\<lambda>spans.
     andThen (checkSpansAndCoverage data spans declared) (\<lambda>_.
     andThen (checkReservedZero data spans tableHP numHP tablePH numPH totalHP totalPH) (\<lambda>_.
     andThen (byteSlice data offMagic (offMagic + 8)) (\<lambda>magic.
     andThen (readU32 data offLayoutVersion) (\<lambda>version.
     andThen (readU32 data offHeaderFlags) (\<lambda>flags.
     andThen (readU64 data offGeneration) (\<lambda>gen.
       Ok \<lparr>Magic = magic, LayoutVersion = version, HeaderFlags = flags, Generation = gen,
          RegionSize = g_regionSize spans, RingCapacity = cap, LifecycleReserve = reserve,
          SyncPageOffset = g_syncPageOffset spans,
          Rings = Dirs \<lparr>ringOffset = g_ringHPOffset spans\<rparr> \<lparr>ringOffset = g_ringPHOffset spans\<rparr>,
          Arenas = Dirs
            \<lparr>arenaOffset = g_arenaHPOffset spans, arenaBytes = bytesHP, ClassTableOffset = tableHP,
             Classes = classesHP\<rparr>
            \<lparr>arenaOffset = g_arenaPHOffset spans, arenaBytes = bytesPH, ClassTableOffset = tablePH,
             Classes = classesPH\<rparr>\<rparr>))))))))))))))))))))"

section \<open>Creating and opening a region\<close>

text \<open>
  The calls into the kernel are arguments: what fstat, F_GET_SEALS and mmap return. Opening yields a
  region with its layout, a mapped region whose layout was rejected (the caller poisons it), or no
  region at all.
\<close>

datatype opened =
    Attached "byte list" Layout
  | MappedBad "byte list" layout_error
  | NotMapped layout_error

abbreviation (input) wantSeals :: int where "wantSeals \<equiv> 7" \<comment> \<open>F_SEAL_SEAL, F_SEAL_SHRINK, F_SEAL_GROW\<close>

definition createRegionLayout :: "Layout \<Rightarrow> (layout_error, Layout) outcome" where
  "createRegionLayout inp =
     (if Generation inp = 0 then Err ErrBadGeometry
      else if HeaderFlags inp \<noteq> 0 then Err ErrBadGeometry
      else andThen (DeriveLayout inp) (\<lambda>l.
        Ok (l\<lparr>Magic := layoutMagic, LayoutVersion := 1, Generation := Generation inp\<rparr>)))"

text \<open>A fresh memfd of the region's size reads as zeros before the layout page is written.\<close>

definition CreateRegion :: "Layout \<Rightarrow> (layout_error, byte list \<times> Layout) outcome" where
  "CreateRegion inp =
     andThen (createRegionLayout inp) (\<lambda>l.
     andThen (writeLayoutPage (replicate (unat (RegionSize l)) 0) l) (\<lambda>data. Ok (data, l)))"

definition openRegionOwned ::
    "layout_error + int \<Rightarrow> layout_error + int \<Rightarrow> (nat \<Rightarrow> layout_error + byte list)
     \<Rightarrow> u64 \<Rightarrow> (layout_error, opened) outcome" where
  "openRegionOwned fstat seals mmap expected =
     (if expected > maxRegionSize then Ok (NotMapped ErrAttachRejected)
      else case fstat of
        Inl e \<Rightarrow> Ok (NotMapped e)
      | Inr sz \<Rightarrow>
          if sz < 0 then Ok (NotMapped ErrAttachRejected)
          else let actual = word_of_int sz :: u64 in
          if expected < minRegionSize \<or> actual < minRegionSize then Ok (NotMapped ErrAttachRejected)
          else if actual \<noteq> expected then Ok (NotMapped ErrAttachRejected)
          else (case seals of
              Inl e \<Rightarrow> Ok (NotMapped e)
            | Inr got \<Rightarrow>
                if got \<noteq> wantSeals then Ok (NotMapped ErrAttachRejected)
                else (case mmap (unat expected) of
                    Inl e \<Rightarrow> Ok (NotMapped e)
                  | Inr data \<Rightarrow>
                      (case parseLayoutPhase2 data expected of
                         Ok l \<Rightarrow> Ok (Attached data l)
                       | Err e \<Rightarrow> Ok (MappedBad data e)
                       | Panic \<Rightarrow> Panic))))"

definition Truncated :: "u64 \<Rightarrow> u32" where
  "Truncated g = ucast g"

definition Stale :: "u64 \<Rightarrow> u32 \<Rightarrow> bool" where
  "Stale g stamp \<longleftrightarrow> Truncated g \<noteq> stamp"

section \<open>What a geometry is, over the natural numbers\<close>

definition extent :: "SizeClass \<Rightarrow> nat" where
  "extent c = unat (SlabSize c) * unat (SlabCount c)"

definition class_total :: "SizeClass list \<Rightarrow> nat" where
  "class_total cs = sum_list (map extent cs)"

fun class_bases :: "nat \<Rightarrow> SizeClass list \<Rightarrow> nat list" where
  "class_bases b [] = []"
| "class_bases b (c # cs) = b # class_bases (b + extent c) cs"

definition page_round :: "nat \<Rightarrow> nat" where
  "page_round n = (n + 4095) div 4096 * 4096"

definition classes_ok :: "SizeClass list \<Rightarrow> bool" where
  "classes_ok cs \<longleftrightarrow> cs \<noteq> [] \<and> sorted_wrt (\<lambda>a b. SlabSize a < SlabSize b) cs \<and>
     (\<forall>c \<in> set cs. 0 < SlabSize c \<and> 64 dvd unat (SlabSize c) \<and> 0 < SlabCount c) \<and>
     4096 \<le> SlabSize (last cs)"

definition arena_ok :: "ArenaGeometry \<Rightarrow> bool" where
  "arena_ok a \<longleftrightarrow> classes_ok (Classes a) \<and>
     map (\<lambda>c. unat (ClassBaseOffset c)) (Classes a) = class_bases 0 (Classes a) \<and>
     unat (arenaBytes a) = page_round (class_total (Classes a)) \<and> unat (arenaBytes a) < 2 ^ 32"

definition ring_reserve_ok :: "u32 \<Rightarrow> u32 \<Rightarrow> bool" where
  "ring_reserve_ok cap res \<longleftrightarrow>
     (\<exists>k. 6 \<le> k \<and> k \<le> 20 \<and> unat cap = 2 ^ k) \<and> 0 < res \<and> res < cap"

text \<open>The spans follow each other without gap or overlap and cover the region.\<close>

definition spans_ok :: "Layout \<Rightarrow> bool" where
  "spans_ok l \<longleftrightarrow>
     (let ringSpan = unat (RingCapacity l) * 64;
          hp = at (Arenas l) HostToPlugin; ph = at (Arenas l) PluginToHost in
      unat (SyncPageOffset l) = 4096 \<and>
      unat (ringOffset (at (Rings l) HostToPlugin)) = 8192 \<and>
      unat (ringOffset (at (Rings l) PluginToHost)) = 8192 + ringSpan \<and>
      unat (arenaOffset hp) = 8192 + 2 * ringSpan \<and>
      unat (arenaOffset ph) = unat (arenaOffset hp) + unat (arenaBytes hp) \<and>
      unat (RegionSize l) = unat (arenaOffset ph) + unat (arenaBytes ph) \<and>
      unat (RegionSize l) \<le> 2 ^ 40)"

definition layout_ok :: "Layout \<Rightarrow> bool" where
  "layout_ok l \<longleftrightarrow> ring_reserve_ok (RingCapacity l) (LifecycleReserve l) \<and>
     arena_ok (at (Arenas l) HostToPlugin) \<and> arena_ok (at (Arenas l) PluginToHost) \<and> spans_ok l"

section \<open>The arithmetic never wraps\<close>

lemma addOverflowSafe_Ok_iff:
  "addOverflowSafe a b = Ok c \<longleftrightarrow> unat a + unat b < 2 ^ 64 \<and> c = a + b"
proof -
  have "\<not> a + b < a \<longleftrightarrow> unat a + unat b < 2 ^ 64"
    using no_olen_add_nat [of a b] by (simp add: not_less)
  then show ?thesis by (auto simp: addOverflowSafe_def Let_def)
qed

lemma addOverflowSafe_Ok: "addOverflowSafe a b = Ok c \<Longrightarrow> unat c = unat a + unat b"
  by (simp add: addOverflowSafe_Ok_iff unat_word_ariths)

lemma addOverflowSafe_total:
  "unat a + unat b < 2 ^ 64 \<Longrightarrow> \<exists>c. addOverflowSafe a b = Ok c \<and> unat c = unat a + unat b"
  using addOverflowSafe_Ok_iff [of a b] addOverflowSafe_Ok [of a b] by blast

lemma addOverflowSafe_not_Panic [simp]: "addOverflowSafe a b \<noteq> Panic"
  by (simp add: addOverflowSafe_def Let_def)

lemma page_round_cases:
  "page_round n = (if n mod 4096 = 0 then n else n + (4096 - n mod 4096))"
proof -
  define q k where "q = n div 4096" and "k = n mod 4096"
  have n: "n = q * 4096 + k" and k: "k < 4096"
    by (simp_all add: q_def k_def)
  have "page_round n = (q + (k + 4095) div 4096) * 4096"
    unfolding page_round_def n by (simp add: add.assoc)
  moreover have "(k + 4095) div 4096 = (if k = 0 then 0 else 1)"
    using k by (cases k) (simp_all add: le_div_geq)
  ultimately show ?thesis using k n by (simp add: k_def [symmetric])
qed

lemma page_round_ge: "n \<le> page_round n"
  using mod_less_divisor [of 4096 n] by (auto simp: page_round_cases)

lemma page_round_lt: "page_round n < n + 4096"
  by (simp add: page_round_cases)

lemma page_round_dvd: "4096 dvd page_round n"
  by (simp add: page_round_def)

lemma roundupPageSize_Ok: "roundupPageSize n = Ok m \<Longrightarrow> unat m = page_round (unat n)"
proof -
  assume r: "roundupPageSize n = Ok m"
  have md: "unat (n mod 4096) = unat n mod 4096" by (simp add: unat_mod)
  then have "unat (n mod 4096) < 4096" by simp
  then have sub: "unat (4096 - n mod 4096) = 4096 - unat n mod 4096"
    using md by (subst unat_sub) (simp_all add: word_le_nat_alt)
  have z: "n mod 4096 = 0 \<longleftrightarrow> unat n mod 4096 = 0"
    using md by (metis unat_0 unat_eq_zero)
  show ?thesis
    using r sub z by (auto simp: roundupPageSize_def Let_def page_round_cases dest!: addOverflowSafe_Ok split: if_splits)
qed

lemma roundupPageSize_total:
  assumes "page_round (unat n) < 2 ^ 64"
  shows "\<exists>m. roundupPageSize n = Ok m"
proof -
  have md: "unat (n mod 4096) = unat n mod 4096" by (simp add: unat_mod)
  then have sub: "unat (4096 - n mod 4096) = 4096 - unat n mod 4096"
    by (subst unat_sub) (simp_all add: word_le_nat_alt)
  have z: "n mod 4096 = 0 \<longleftrightarrow> unat n mod 4096 = 0"
    using md by (metis unat_0 unat_eq_zero)
  with assms sub show ?thesis
    by (auto simp: roundupPageSize_def Let_def page_round_cases addOverflowSafe_Ok_iff)
qed

lemma roundupPageSize_not_Panic [simp]: "roundupPageSize n \<noteq> Panic"
  by (simp add: roundupPageSize_def Let_def)

lemma unat_extent: "unat (ucast (SlabSize c) * ucast (SlabCount c) :: u64) = extent c"
proof -
  have "unat (SlabSize c) * unat (SlabCount c) < 2 ^ 32 * 2 ^ 32"
    using unat_u32_less [of "SlabSize c"] unat_u32_less [of "SlabCount c"]
    by (intro mult_strict_mono) simp_all
  then show ?thesis by (simp add: extent_def unat_word_ariths)
qed

lemma classBasesFrom_Ok:
  "classBasesFrom b cs = Ok (bs, t) \<Longrightarrow>
     map unat bs = class_bases (unat b) cs \<and> unat t = unat b + class_total cs"
proof (induction cs arbitrary: b bs t)
  case Nil
  then show ?case by (simp add: class_total_def)
next
  case (Cons c cs)
  then obtain n bs' where n: "addOverflowSafe b (ucast (SlabSize c) * ucast (SlabCount c)) = Ok n"
    and r: "classBasesFrom n cs = Ok (bs', t)" "bs = b # bs'"
    by (auto simp: outcome_simps)
  from addOverflowSafe_Ok [OF n] have "unat n = unat b + extent c" by (simp add: unat_extent)
  with Cons.IH [OF r(1)] r(2) show ?case by (simp add: class_total_def)
qed

lemma classBasesFrom_total:
  "unat b + class_total cs < 2 ^ 64 \<Longrightarrow> \<exists>bs t. classBasesFrom b cs = Ok (bs, t)"
proof (induction cs arbitrary: b)
  case Nil
  then show ?case by simp
next
  case (Cons c cs)
  then have "unat b + unat (ucast (SlabSize c) * ucast (SlabCount c) :: u64) < 2 ^ 64"
    by (simp only: unat_extent) (simp add: class_total_def)
  from addOverflowSafe_total [OF this] obtain n where
    n: "addOverflowSafe b (ucast (SlabSize c) * ucast (SlabCount c)) = Ok n" "unat n = unat b + extent c"
    by (auto simp: unat_extent)
  with Cons.IH [of n] Cons.prems obtain bs t where "classBasesFrom n cs = Ok (bs, t)"
    by (auto simp: class_total_def)
  with n show ?case by simp
qed

lemma classBasesFrom_not_Panic [simp]: "classBasesFrom b cs \<noteq> Panic"
  by (induction cs arbitrary: b) (auto simp: outcome_simps)

section \<open>Each check against the specification\<close>

lemma validateRingCapacity_Ok:
  assumes "validateRingCapacity c = Ok u"
  shows "\<exists>k. 6 \<le> k \<and> k \<le> 20 \<and> unat c = 2 ^ k"
proof -
  have c: "64 \<le> c" "c \<le> 1048576" "c AND (c - 1) = 0"
    using assms by (auto simp: validateRingCapacity_def split: if_splits)
  have "0 < c" using c(1) by (auto simp: word_gt_0)
  with c(3) obtain k where k: "unat c = 2 ^ k" by (auto elim: word_and_pred_zero)
  have "64 \<le> unat c" "unat c \<le> 1048576" using c(1,2) by (auto simp: word_le_nat_alt)
  then have "2 ^ 6 \<le> (2 ^ k :: nat)" "(2 ^ k :: nat) \<le> 2 ^ 20" using k by simp_all
  then have "6 \<le> k" "k \<le> 20" by (simp_all only: power_increasing_iff power_le_imp_le_exp)
  with k show ?thesis by blast
qed

lemma validateLifecycleReserve_Ok:
  "validateLifecycleReserve r c = Ok u \<longleftrightarrow> 0 < r \<and> r < c"
  by (auto simp: validateLifecycleReserve_def word_gt_0)

lemma slab_size_dvd: "SlabSize c mod 64 = 0 \<longleftrightarrow> 64 dvd unat (SlabSize c)"
proof -
  have "unat (SlabSize c mod 64) = unat (SlabSize c) mod 64" by (simp add: unat_mod)
  then show ?thesis by (metis mod_eq_0_iff_dvd unat_0 unat_eq_zero)
qed

lemma slabBoundsLoop_Ok:
  "slabBoundsLoop prev cs = Ok u \<longleftrightarrow>
     (\<forall>c \<in> set cs. 0 < SlabSize c \<and> 64 dvd unat (SlabSize c) \<and> 0 < SlabCount c) \<and>
     sorted_wrt (\<lambda>a b. SlabSize a < SlabSize b) cs \<and>
     (\<forall>p. prev = Some p \<longrightarrow> (\<forall>c \<in> set cs. p < SlabSize c))"
proof (induction prev cs rule: slabBoundsLoop.induct)
  case (1 prev)
  then show ?case by simp
next
  case (2 prev c cs)
  show ?case
    using 2 by (cases prev) (auto simp: slab_size_dvd word_gt_0 not_le)
qed

lemma slabBoundsLoop_not_Panic [simp]: "slabBoundsLoop prev cs \<noteq> Panic"
  by (induction prev cs rule: slabBoundsLoop.induct) (auto split: option.splits)

lemma validateSlabBounds_Ok: "validateSlabBounds cs = Ok u \<longleftrightarrow> classes_ok cs"
  by (auto simp: validateSlabBounds_def classes_ok_def outcome_simps slabBoundsLoop_Ok)

lemma validators_not_Panic [simp]:
  "validateSlabBounds cs \<noteq> Panic" "validateRingCapacity cap \<noteq> Panic"
  "validateLifecycleReserve r cap \<noteq> Panic" "computeClassBaseOffsets cs \<noteq> Panic"
  "checkArenaTotal tot stored \<noteq> Panic" "checkClassTableRanges a b x y \<noteq> Panic"
  "checkClassBaseOffsets cs \<noteq> Panic" "deriveSpans cap bh bp \<noteq> Panic"
  by (auto simp: validateSlabBounds_def validateRingCapacity_def validateLifecycleReserve_def
      computeClassBaseOffsets_def checkArenaTotal_def checkClassTableRanges_def
      checkOneClassTableRange_def checkClassBaseOffsets_def deriveSpans_def Let_def outcome_simps
      split: if_splits)

lemma class_bases_le: "b \<in> set (class_bases o' cs) \<Longrightarrow> b \<le> o' + class_total cs"
  by (induction cs arbitrary: o') (fastforce simp: class_total_def)+

lemma length_class_bases [simp]: "length (class_bases b cs) = length cs"
  by (induction cs arbitrary: b) auto

lemma class_bases_extent_cong:
  "map extent cs = map extent cs' \<Longrightarrow> class_bases b cs = class_bases b cs'"
proof (induction cs arbitrary: b cs')
  case (Cons c cs)
  from Cons.prems obtain c' ds where
    ds: "cs' = c' # ds" "extent c' = extent c" "map extent cs = map extent ds" by auto
  have "class_bases (b + extent c) cs = class_bases (b + extent c) ds" by (rule Cons.IH [OF ds(3)])
  then show ?case by (simp add: ds(1,2))
qed simp

lemma classes_ok_maps:
  "classes_ok cs \<longleftrightarrow> cs \<noteq> [] \<and> sorted_wrt (<) (map SlabSize cs) \<and>
     (\<forall>z \<in> set (map SlabSize cs). 0 < z \<and> 64 dvd unat z) \<and> (\<forall>n \<in> set (map SlabCount cs). 0 < n) \<and>
     4096 \<le> last (map SlabSize cs)"
  by (auto simp: classes_ok_def sorted_wrt_map last_map)

lemma classes_ok_cong:
  "map SlabSize cs' = map SlabSize cs \<Longrightarrow> map SlabCount cs' = map SlabCount cs \<Longrightarrow>
     classes_ok cs' = classes_ok cs"
  unfolding classes_ok_maps by (auto simp del: list.set_map)

lemma buildArenaGeometry_Ok:
  assumes "buildArenaGeometry cs = Ok (cs', bytes)"
  shows "arena_ok \<lparr>arenaOffset = off, arenaBytes = bytes, ClassTableOffset = tab, Classes = cs'\<rparr>"
    and "map SlabSize cs' = map SlabSize cs" "map SlabCount cs' = map SlabCount cs"
proof -
  from assms obtain bases tot where
    ok: "classes_ok cs" and b: "classBasesFrom 0 cs = Ok (bases, tot)"
    and r: "roundupPageSize tot = Ok bytes" "bytes \<le> 4294967295"
    and cs': "cs' = map2 (\<lambda>c b. \<lparr>SlabSize = SlabSize c, SlabCount = SlabCount c, ClassBaseOffset = ucast b\<rparr>) cs bases"
    by (auto simp: buildArenaGeometry_def outcome_simps validateSlabBounds_Ok computeClassBaseOffsets_def
        split: if_splits)
  from classBasesFrom_Ok [OF b] have bases: "map unat bases = class_bases 0 cs" and tot: "unat tot = class_total cs"
    by simp_all
  have len: "length bases = length cs" using bases by (metis length_class_bases length_map)
  have bytes: "unat bytes = page_round (class_total cs)" "unat bytes < 2 ^ 32"
    using roundupPageSize_Ok [OF r(1)] r(2) tot by (auto simp: word_le_nat_alt)
  have small: "unat b < 2 ^ 32" if "b \<in> set bases" for b
  proof -
    have "unat b \<in> set (class_bases 0 cs)" using that bases by (metis image_eqI list.set_map)
    then have "unat b \<le> class_total cs" using class_bases_le by fastforce
    with bytes page_round_ge [of "class_total cs"] show ?thesis by linarith
  qed
  show sizes: "map SlabSize cs' = map SlabSize cs" and counts: "map SlabCount cs' = map SlabCount cs"
    using len by (auto simp: cs' intro!: nth_equalityI)
  have ext: "map extent cs' = map extent cs"
    using len by (auto simp: cs' extent_def intro!: nth_equalityI)
  have "map (\<lambda>c. unat (ClassBaseOffset c)) cs' = map unat bases"
    using len small by (auto simp: cs' unat_ucast_u64_u32 intro!: nth_equalityI)
  also have "\<dots> = class_bases 0 cs'"
    using bases class_bases_extent_cong [OF ext] by simp
  finally have "map (\<lambda>c. unat (ClassBaseOffset c)) cs' = class_bases 0 cs'" .
  moreover have "class_total cs' = class_total cs" using ext by (simp add: class_total_def)
  moreover have "classes_ok cs'"
    using classes_ok_cong [OF sizes counts] ok by simp
  ultimately show "arena_ok \<lparr>arenaOffset = off, arenaBytes = bytes, ClassTableOffset = tab, Classes = cs'\<rparr>"
    using bytes by (simp add: arena_ok_def)
qed

lemma unat_ring_span: "unat (ucast (cap :: u32) * 64 :: u64) = unat cap * 64"
proof -
  have "unat cap * 64 < 2 ^ 32 * 64" using unat_u32_less [of cap] by simp
  then show ?thesis by (simp add: unat_word_ariths)
qed

lemma deriveSpans_Ok:
  assumes "deriveSpans cap bh bp = Ok g"
  shows "unat (g_syncPageOffset g) = 4096" "unat (g_ringHPOffset g) = 8192"
    "unat (g_ringPHOffset g) = 8192 + unat cap * 64" "unat (g_arenaHPOffset g) = 8192 + 2 * (unat cap * 64)"
    "unat (g_arenaPHOffset g) = unat (g_arenaHPOffset g) + unat bh"
    "unat (g_regionSize g) = unat (g_arenaPHOffset g) + unat bp" "unat (g_regionSize g) \<le> 2 ^ 40"
    "g_arenaBytes g = Dirs bh bp"
proof -
  from assms obtain a b c d e where
    s: "addOverflowSafe 4096 4096 = Ok a" "addOverflowSafe a (ucast cap * 64) = Ok b"
      "addOverflowSafe b (ucast cap * 64) = Ok c" "addOverflowSafe c bh = Ok d"
      "addOverflowSafe d bp = Ok e" "e \<le> 1099511627776"
    and g: "g = \<lparr>g_syncPageOffset = 4096, g_ringHPOffset = a, g_ringPHOffset = b, g_arenaHPOffset = c,
        g_arenaPHOffset = d, g_arenaBytes = Dirs bh bp, g_regionSize = e\<rparr>"
    by (auto simp: deriveSpans_def Let_def outcome_simps split: if_splits)
  note u = s(1-5) [THEN addOverflowSafe_Ok]
  show "unat (g_syncPageOffset g) = 4096" "unat (g_ringHPOffset g) = 8192"
    "unat (g_ringPHOffset g) = 8192 + unat cap * 64" "unat (g_arenaHPOffset g) = 8192 + 2 * (unat cap * 64)"
    "unat (g_arenaPHOffset g) = unat (g_arenaHPOffset g) + unat bh"
    "unat (g_regionSize g) = unat (g_arenaPHOffset g) + unat bp" "g_arenaBytes g = Dirs bh bp"
    using u by (simp_all add: g unat_ring_span)
  show "unat (g_regionSize g) \<le> 2 ^ 40"
    using s(6) by (simp add: g word_le_nat_alt)
qed

lemma deriveSpans_spans_ok:
  assumes "deriveSpans cap bh bp = Ok g" "RingCapacity l = cap"
    "RegionSize l = g_regionSize g" "SyncPageOffset l = g_syncPageOffset g"
    "Rings l = Dirs \<lparr>ringOffset = g_ringHPOffset g\<rparr> \<lparr>ringOffset = g_ringPHOffset g\<rparr>"
    "Arenas l = Dirs \<lparr>arenaOffset = g_arenaHPOffset g, arenaBytes = bh, ClassTableOffset = th, Classes = ch\<rparr>
       \<lparr>arenaOffset = g_arenaPHOffset g, arenaBytes = bp, ClassTableOffset = tp, Classes = cp\<rparr>"
  shows "spans_ok l"
  using deriveSpans_Ok [OF assms(1)] assms(2-) by (simp add: spans_ok_def Let_def)

lemma DeriveLayout_layout_ok:
  assumes "DeriveLayout inp = Ok l"
  shows "layout_ok l"
proof -
  from assms obtain ch bh cp bp g where
    cap: "validateRingCapacity (RingCapacity inp) = Ok ()"
    and res: "validateLifecycleReserve (LifecycleReserve inp) (RingCapacity inp) = Ok ()"
    and hp: "buildArenaGeometry (Classes (at (Arenas inp) HostToPlugin)) = Ok (ch, bh)"
    and ph: "buildArenaGeometry (Classes (at (Arenas inp) PluginToHost)) = Ok (cp, bp)"
    and g: "deriveSpans (RingCapacity inp) bh bp = Ok g"
    and l: "RingCapacity l = RingCapacity inp" "LifecycleReserve l = LifecycleReserve inp"
      "RegionSize l = g_regionSize g" "SyncPageOffset l = g_syncPageOffset g"
      "Rings l = Dirs \<lparr>ringOffset = g_ringHPOffset g\<rparr> \<lparr>ringOffset = g_ringPHOffset g\<rparr>"
      "Arenas l = Dirs
         \<lparr>arenaOffset = g_arenaHPOffset g, arenaBytes = bh, ClassTableOffset = 256, Classes = ch\<rparr>
         \<lparr>arenaOffset = g_arenaPHOffset g, arenaBytes = bp,
          ClassTableOffset = 256 + of_nat (length ch) * 16, Classes = cp\<rparr>"
    by (auto simp: DeriveLayout_def Let_def outcome_simps split: if_splits)
  show ?thesis
    unfolding layout_ok_def ring_reserve_ok_def
    using validateRingCapacity_Ok [OF cap] res buildArenaGeometry_Ok(1) [OF hp]
      buildArenaGeometry_Ok(1) [OF ph] deriveSpans_spans_ok [OF g l(1) l(3-)] l
    by (simp add: validateLifecycleReserve_Ok)
qed

lemma checkClassRules_Ok:
  assumes "checkClassRules data tab n = Ok (cs, tot)"
  shows "readClasses data (unat tab) (unat n) = Ok cs" "classes_ok cs"
    "map (\<lambda>c. unat (ClassBaseOffset c)) cs = class_bases 0 cs" "unat tot = class_total cs"
proof -
  from assms obtain bases where
    r: "readClasses data (unat tab) (unat n) = Ok cs" "classes_ok cs"
    and b: "classBasesFrom 0 cs = Ok (bases, tot)"
    and eq: "list_all2 (\<lambda>c b. ucast (ClassBaseOffset c) = b) cs bases"
    by (auto simp: checkClassRules_def outcome_simps validateSlabBounds_Ok checkClassBaseOffsets_def
        computeClassBaseOffsets_def split: if_splits)
  have "map (\<lambda>c. unat (ClassBaseOffset c)) cs = map unat bases"
    using eq by (induction rule: list_all2_induct) auto
  then show "map (\<lambda>c. unat (ClassBaseOffset c)) cs = class_bases 0 cs" "unat tot = class_total cs"
    using classBasesFrom_Ok [OF b] by simp_all
  show "readClasses data (unat tab) (unat n) = Ok cs" "classes_ok cs" by fact+
qed

lemma checkArenaTotal_Ok:
  "checkArenaTotal tot stored = Ok b \<Longrightarrow> unat b = page_round (unat tot) \<and> unat b < 2 ^ 32 \<and> stored = b"
  by (auto simp: checkArenaTotal_def outcome_simps word_le_nat_alt not_less dest: roundupPageSize_Ok
      split: if_splits)

lemma parse_layout_ok:
  assumes "parseLayoutPhase2 data declared = Ok l"
  shows "layout_ok l \<and> RegionSize l = declared \<and> length data = unat declared \<and> Magic l = layoutMagic \<and>
    LayoutVersion l = 1 \<and> HeaderFlags l = 0"
proof -
  from assms obtain cap res nh np th tp ch toth cp totp bh bp g where
    hdr: "checkHeaderScalars data = Ok ()" and rr: "checkRingReservation data = Ok (cap, res)"
    and hp: "checkClassRules data th nh = Ok (ch, toth)" and ph: "checkClassRules data tp np = Ok (cp, totp)"
    and b: "\<exists>s. checkArenaTotal toth s = Ok bh" "\<exists>s. checkArenaTotal totp s = Ok bp"
    and g: "deriveSpans cap bh bp = Ok g" and cov: "checkSpansAndCoverage data g declared = Ok ()"
    and rz: "checkReservedZero data g th nh tp np toth totp = Ok ()"
    and l: "RingCapacity l = cap" "LifecycleReserve l = res"
      "RegionSize l = g_regionSize g" "SyncPageOffset l = g_syncPageOffset g"
      "Rings l = Dirs \<lparr>ringOffset = g_ringHPOffset g\<rparr> \<lparr>ringOffset = g_ringPHOffset g\<rparr>"
      "Arenas l = Dirs \<lparr>arenaOffset = g_arenaHPOffset g, arenaBytes = bh, ClassTableOffset = th, Classes = ch\<rparr>
         \<lparr>arenaOffset = g_arenaPHOffset g, arenaBytes = bp, ClassTableOffset = tp, Classes = cp\<rparr>"
    and lh: "byteSlice data 0 8 = Ok (Magic l)" "readU32 data 8 = Ok (LayoutVersion l)"
      "readU32 data 12 = Ok (HeaderFlags l)"
    by (simp add: parseLayoutPhase2_def outcome_simps split_paired_Ex) (elim exE conjE, force)
  have "spans_ok l" by (rule deriveSpans_spans_ok [OF g l(1) l(3-)])
  moreover have "ring_reserve_ok cap res"
    using rr validateRingCapacity_Ok
    by (auto simp: checkRingReservation_def outcome_simps validateLifecycleReserve_Ok ring_reserve_ok_def)
  moreover have "arena_ok (at (Arenas l) HostToPlugin)" "arena_ok (at (Arenas l) PluginToHost)"
    using checkClassRules_Ok(2-) [OF hp] checkClassRules_Ok(2-) [OF ph] b
    by (auto simp: arena_ok_def l dest!: checkArenaTotal_Ok)
  moreover have "RegionSize l = declared \<and> length data = unat declared"
    using cov l(3) by (auto simp: checkSpansAndCoverage_def outcome_simps split: if_splits)
  moreover have "Magic l = layoutMagic \<and> LayoutVersion l = 1"
    using hdr lh(1,2) by (auto simp: checkHeaderScalars_def outcome_simps)
  moreover have "HeaderFlags l = 0"
    using rz lh(3) by (auto simp: checkReservedZero_def outcome_simps)
  ultimately show ?thesis by (simp add: layout_ok_def l)
qed

section \<open>No layout page makes the check panic\<close>

lemma read_Panic [outcome_simps]:
  "readU32 data off = Panic \<longleftrightarrow> length data < off + 4"
  "readU64 data off = Panic \<longleftrightarrow> length data < off + 8"
  "byteSlice data a b = Panic \<longleftrightarrow> \<not> (a \<le> b \<and> b \<le> length data)"
  by (auto simp: readU32_def readU64_def byteSlice_def)

lemma readClasses_not_Panic: "off + 16 * n \<le> length data \<Longrightarrow> readClasses data off n \<noteq> Panic"
  by (induction data off n rule: readClasses.induct)
    (auto simp: outcome_simps split: if_splits)

lemma entriesReserved_not_Panic:
  "off + 16 * n \<le> length data \<Longrightarrow> checkClassEntriesReservedZero data off n \<noteq> Panic"
  by (induction data off n rule: checkClassEntriesReservedZero.induct)
    (auto simp: outcome_simps split: if_splits)

lemma checkFields_not_Panic:
  "\<forall>(off, w) \<in> set fs. off + 8 \<le> length data \<Longrightarrow> checkFields data fs \<noteq> Panic"
  by (induction data fs rule: checkFields.induct) (auto simp: outcome_simps split: if_splits)

lemma unat_table_end:
  assumes "unat off < 2 ^ 63"
  shows "unat (off + ucast (n :: u32) * 16 :: u64) = unat off + 16 * unat n"
proof -
  have "unat n * 16 < 2 ^ 36" using unat_u32_less [of n] by simp
  then show ?thesis using assms by (simp add: unat_word_ariths)
qed

lemma checkOneClassTableRange_Ok:
  assumes "checkOneClassTableRange n off = Ok u"
  shows "256 \<le> unat off" "unat off + 16 * unat n \<le> 4096" "0 < unat n"
proof -
  have r: "n \<noteq> 0" "256 \<le> off" "off < 4096" "off + ucast n * 16 \<le> 4096"
    using assms by (auto simp: checkOneClassTableRange_def not_less split: if_splits)
  have "unat off < 4096" using r(3) by (simp add: word_less_nat_alt)
  then have "unat (off + ucast n * 16) = unat off + 16 * unat n" by (intro unat_table_end) simp
  with r show "256 \<le> unat off" "unat off + 16 * unat n \<le> 4096" "0 < unat n"
    by (simp_all add: word_le_nat_alt unat_gt_0)
qed

lemma checkClassTableRanges_Ok:
  "checkClassTableRanges nh np th tp = Ok u \<Longrightarrow>
     unat th + 16 * unat nh \<le> 4096 \<and> unat tp + 16 * unat np \<le> 4096"
  using checkOneClassTableRange_Ok(2) by (auto simp: checkClassTableRanges_def outcome_simps)

lemma unat_add_small: "unat (a :: u64) + unat b \<le> 2 ^ 40 \<Longrightarrow> unat (a + b) = unat a + unat b"
  by (simp add: unat_word_ariths)

lemma checkArenaPadZero_not_Panic:
  assumes "unat off + unat bytes \<le> length data" "length data \<le> 2 ^ 40" "unat tot \<le> unat bytes"
  shows "checkArenaPadZero data off tot bytes \<noteq> Panic"
proof -
  have "unat (off + bytes) = unat off + unat bytes" "unat (off + tot) = unat off + unat tot"
    using assms by (intro unat_add_small, linarith)+
  then show ?thesis
    using assms by (auto simp: checkArenaPadZero_def outcome_simps)
qed

lemma checkReservedZero_not_Panic:
  assumes g: "deriveSpans cap bh bp = Ok g" and len: "length data = unat (g_regionSize g)" "8192 \<le> length data"
    and tab: "unat th + 16 * unat nh \<le> 4096" "unat tp + 16 * unat np \<le> 4096"
    and tot: "unat toth \<le> unat bh" "unat totp \<le> unat bp"
  shows "checkReservedZero data g th nh tp np toth totp \<noteq> Panic"
proof -
  note d = deriveSpans_Ok [OF g]
  have sync: "unat (g_syncPageOffset g + 512) = 4608" "unat (g_syncPageOffset g + 4096) = 8192"
    using d(1) by (simp_all add: unat_word_ariths)
  have "checkSyncPageReservedTailZero data g \<noteq> Panic"
    using len(2) by (auto simp: checkSyncPageReservedTailZero_def sync outcome_simps)
  moreover have "checkArenaPadZero data (g_arenaHPOffset g) toth bh \<noteq> Panic"
      "checkArenaPadZero data (g_arenaPHOffset g) totp bp \<noteq> Panic"
    using d(5-7) len tot by (intro checkArenaPadZero_not_Panic; simp)+
  moreover have "checkClassEntriesReservedZero data (unat th) (unat nh) \<noteq> Panic"
      "checkClassEntriesReservedZero data (unat tp) (unat np) \<noteq> Panic"
    using len tab by (intro entriesReserved_not_Panic; linarith)+
  ultimately show ?thesis
    using len(2) d(8)
    by (auto simp: checkReservedZero_def outcome_simps)
qed

lemma parse_not_Panic:
  assumes "8192 \<le> length data"
  shows "parseLayoutPhase2 data declared \<noteq> Panic"
proof -
  have hdr: "checkHeaderScalars data \<noteq> Panic" "checkRingReservation data \<noteq> Panic"
    using assms by (auto simp: checkHeaderScalars_def checkRingReservation_def outcome_simps)
  have cov: "checkSpansAndCoverage data g declared \<noteq> Panic" for g
    using assms by (auto simp: checkSpansAndCoverage_def outcome_simps checkFields_not_Panic split: if_splits)
  have rules: "checkClassRules data off n \<noteq> Panic" if "unat off + 16 * unat n \<le> 4096" for off n
    using assms that by (auto simp: checkClassRules_def outcome_simps readClasses_not_Panic)
  have rz: "checkReservedZero data g th nh tp np toth totp \<noteq> Panic"
    if "checkClassTableRanges nh np th tp = Ok ()" "checkArenaTotal toth sh = Ok bh"
      "checkArenaTotal totp sp = Ok bp" "deriveSpans cap bh bp = Ok g"
      "checkSpansAndCoverage data g declared = Ok ()" for cap bh bp g th nh tp np toth totp sh sp
  proof (rule checkReservedZero_not_Panic [OF that(4) _ assms])
    show "length data = unat (g_regionSize g)"
      using that(5) by (auto simp: checkSpansAndCoverage_def outcome_simps split: if_splits)
    show "unat th + 16 * unat nh \<le> 4096" "unat tp + 16 * unat np \<le> 4096"
      using checkClassTableRanges_Ok [OF that(1)] by simp_all
    show "unat toth \<le> unat bh" "unat totp \<le> unat bp"
      using that(2,3) page_round_ge by (auto dest!: checkArenaTotal_Ok)
  qed
  show ?thesis
  proof
    assume "parseLayoutPhase2 data declared = Panic"
    then show False
      using assms hdr cov rules rz checkClassTableRanges_Ok
      by (auto simp: parseLayoutPhase2_def outcome_simps)
  qed
qed

end
