(* ===== verification/Layout_Roundtrip.thy ===== *)
theory Layout_Roundtrip
  imports Layout
begin

text \<open>
  The layout page that CreateRegion writes is accepted by the attach-time check and decodes to the
  very layout it was written from: the writes are in ascending order and do not overlap, so each
  field reads back, and the bytes behind them keep the zeros of a fresh mapping.
\<close>

section \<open>Sequences of writes\<close>

fun ascending :: "nat \<Rightarrow> (nat \<times> byte list) list \<Rightarrow> bool" where
  "ascending lo [] = True"
| "ascending lo ((off, bs) # ws) = (lo \<le> off \<and> ascending (off + length bs) ws)"

definition within :: "nat \<Rightarrow> (nat \<times> byte list) list \<Rightarrow> bool" where
  "within n ws \<longleftrightarrow> (\<forall>(off, bs) \<in> set ws. off + length bs \<le> n)"

definition holds :: "byte list \<Rightarrow> nat \<times> byte list \<Rightarrow> bool" where
  "holds data w \<longleftrightarrow> (case w of (off, bs) \<Rightarrow> off + length bs \<le> length data \<and> get_bytes data off (length bs) = bs)"

lemma putAll_append: "putAll data (ws @ ws') = andThen (putAll data ws) (\<lambda>d. putAll d ws')"
proof (induction data ws rule: putAll.induct)
  case (2 data off bs ws)
  then show ?case by (cases "putAt data off bs") auto
qed simp

lemma putAll_total:
  "within (length data) ws \<Longrightarrow> \<exists>d. putAll data ws = Ok d \<and> length d = length data"
proof (induction data ws rule: putAll.induct)
  case (2 data off bs ws)
  then have "off + length bs \<le> length data" "within (length (put_bytes data off bs)) ws"
    by (auto simp: within_def)
  with 2(1) [of "put_bytes data off bs"] show ?case by (simp add: putAt_def)
qed simp

lemma putAll_before:
  "putAll data ws = Ok d \<Longrightarrow> ascending lo ws \<Longrightarrow> off + n \<le> lo \<Longrightarrow> get_bytes d off n = get_bytes data off n"
proof (induction data ws arbitrary: lo rule: putAll.induct)
  case (2 data o' bs ws)
  from 2(2) have p: "o' + length bs \<le> length data" "putAll (put_bytes data o' bs) ws = Ok d"
    by (auto simp: putAt_def split: if_splits)
  have "get_bytes d off n = get_bytes (put_bytes data o' bs) off n"
    using 2(1) [OF p(2), of "o' + length bs"] 2(3,4) by auto
  with 2(3,4) p(1) show ?case by (simp add: get_put_before)
qed simp

lemma putAll_after:
  "putAll data ws = Ok d \<Longrightarrow> within lim ws \<Longrightarrow> lim \<le> off \<Longrightarrow> get_bytes d off n = get_bytes data off n"
proof (induction data ws rule: putAll.induct)
  case (2 data o' bs ws)
  from 2(2) have p: "o' + length bs \<le> length data" "putAll (put_bytes data o' bs) ws = Ok d"
    by (auto simp: putAt_def split: if_splits)
  have "get_bytes d off n = get_bytes (put_bytes data o' bs) off n"
    using 2(1) [OF p(2)] 2(3,4) by (auto simp: within_def)
  with 2(3,4) p(1) show ?case by (simp add: get_put_after within_def)
qed simp

lemma putAll_holds:
  "putAll data ws = Ok d \<Longrightarrow> ascending lo ws \<Longrightarrow> w \<in> set ws \<Longrightarrow> length d = length data \<Longrightarrow> holds d w"
proof (induction data ws arbitrary: lo rule: putAll.induct)
  case (2 data o' bs ws)
  from 2(2) have p: "o' + length bs \<le> length data" "putAll (put_bytes data o' bs) ws = Ok d"
    by (auto simp: putAt_def split: if_splits)
  show ?case
  proof (cases "w = (o', bs)")
    case True
    have "get_bytes d o' (length bs) = get_bytes (put_bytes data o' bs) o' (length bs)"
      using p(2) 2(3) by (intro putAll_before) auto
    with True p 2(5) show ?thesis by (simp add: holds_def get_put_same)
  next
    case False
    with 2(1) [OF p(2), of "o' + length bs"] 2(3-) p(1) show ?thesis by auto
  qed
qed simp

lemma readU32_holds: "holds data (off, le_encode 4 v) \<Longrightarrow> readU32 data off = Ok v"
  by (simp add: holds_def readU32_def le_decode_encode)

lemma readU64_holds: "holds data (off, le_encode 8 v) \<Longrightarrow> readU64 data off = Ok v"
  by (simp add: holds_def readU64_def le_decode_encode)

lemma byteSlice_holds:
  "holds data (off, bs) \<Longrightarrow> b = off + length bs \<Longrightarrow> byteSlice data off b = Ok bs"
  by (simp add: holds_def byteSlice_def)

section \<open>The writes of the layout page\<close>

definition page_writes :: "Layout \<Rightarrow> (nat \<times> byte list) list" where
  "page_writes l = headerWrites l
     @ entryWrites (unat (ClassTableOffset (at (Arenas l) HostToPlugin))) (Classes (at (Arenas l) HostToPlugin))
     @ entryWrites (unat (ClassTableOffset (at (Arenas l) PluginToHost))) (Classes (at (Arenas l) PluginToHost))"

lemma writeLayoutPage_putAll: "writeLayoutPage data l = putAll data (page_writes l)"
  by (simp add: writeLayoutPage_def page_writes_def putAll_append writeClassTable_def)

lemma entryWrites_ascending:
  "lo \<le> off \<Longrightarrow> ascending (off + 16 * length cs) ws \<Longrightarrow> ascending lo (entryWrites off cs @ ws)"
proof (induction cs arbitrary: lo off)
  case Nil
  then show ?case
    by (cases ws) auto
next
  case (Cons c cs)
  then show ?case using Cons.IH [of "off + 16" "off + 16"] by (simp add: ac_simps)
qed

lemma entryWrites_within: "off + 16 * length cs \<le> n \<Longrightarrow> within n (entryWrites off cs)"
proof (induction cs arbitrary: off)
  case (Cons c cs)
  then show ?case using Cons.IH [of "off + 16"] by (simp add: within_def)
qed (simp add: within_def)

lemma readClasses_holds:
  "\<forall>w \<in> set (entryWrites off cs). holds data w \<Longrightarrow> readClasses data off (length cs) = Ok cs"
  by (induction cs arbitrary: off) (auto dest!: readU32_holds)

lemma entriesReserved_holds:
  "\<forall>w \<in> set (entryWrites off cs). holds data w \<Longrightarrow>
     checkClassEntriesReservedZero data off (length cs) = Ok ()"
  by (induction cs arbitrary: off) (auto dest!: readU32_holds)

section \<open>A page that holds a well-formed layout is accepted\<close>

definition tables_ok :: "Layout \<Rightarrow> bool" where
  "tables_ok l \<longleftrightarrow>
     (let hp = at (Arenas l) HostToPlugin; ph = at (Arenas l) PluginToHost in
      256 \<le> unat (ClassTableOffset hp) \<and> 4 dvd unat (ClassTableOffset hp) \<and> 4 dvd unat (ClassTableOffset ph) \<and>
      unat (ClassTableOffset hp) + 16 * length (Classes hp) \<le> unat (ClassTableOffset ph) \<and>
      unat (ClassTableOffset ph) + 16 * length (Classes ph) \<le> 4096)"

lemma checkOneClassTableRange_total:
  assumes "256 \<le> unat off" "4 dvd unat off" "unat off + 16 * unat n \<le> 4096" "0 < unat n"
  shows "checkOneClassTableRange n off = Ok ()"
proof -
  have "unat (off + ucast n * 16) = unat off + 16 * unat n"
    using assms(3) by (intro unat_table_end) simp
  moreover have "off mod 4 = 0"
    using assms(2) by (simp add: word_unat_eq_iff unat_mod)
  moreover have "n \<noteq> 0" "\<not> off < 256" "off < 4096"
    using assms by (auto simp: word_less_nat_alt)
  ultimately show ?thesis
    using assms(3) by (simp add: checkOneClassTableRange_def word_less_nat_alt word_le_nat_alt unat_gt_0)
qed

lemma checkClassTableRanges_total:
  assumes "256 \<le> unat th" "4 dvd unat th" "4 dvd unat tp" "0 < unat nh" "0 < unat np"
    "unat th + 16 * unat nh \<le> unat tp" "unat tp + 16 * unat np \<le> 4096"
  shows "checkClassTableRanges nh np th tp = Ok ()"
proof -
  have "checkOneClassTableRange nh th = Ok ()" "checkOneClassTableRange np tp = Ok ()"
    using assms by (auto intro!: checkOneClassTableRange_total)
  moreover have "unat (th + ucast nh * 16) = unat th + 16 * unat nh"
    using assms by (intro unat_table_end) simp
  then have "\<not> tp < th + ucast nh * 16"
    using assms(6) by (simp add: word_less_nat_alt)
  ultimately show ?thesis by (simp add: checkClassTableRanges_def overlaps_def)
qed

lemma length_classes:
  assumes "classes_ok cs"
  shows "0 < length cs" "length cs \<le> 2 ^ 32"
proof -
  have "sorted_wrt (<) (map SlabSize cs)" using assms by (simp add: classes_ok_maps)
  then have "distinct (map SlabSize cs)" by (simp add: strict_sorted_iff)
  then have "length cs = card (set (map SlabSize cs))" by (metis distinct_card length_map)
  also have "\<dots> \<le> card (UNIV :: u32 set)" by (rule card_mono) simp_all
  also have "\<dots> = 2 ^ 32" by (simp add: card_word)
  finally show "length cs \<le> 2 ^ 32" .
  show "0 < length cs" using assms by (simp add: classes_ok_def)
qed

lemma checkClassRules_holds:
  assumes "arena_ok a" "\<forall>w \<in> set (entryWrites (unat (ClassTableOffset a)) (Classes a)). holds data w"
    "unat n = length (Classes a)"
  shows "\<exists>tot. checkClassRules data (ClassTableOffset a) n = Ok (Classes a, tot) \<and>
     unat tot = class_total (Classes a) \<and> checkArenaTotal tot (arenaBytes a) = Ok (arenaBytes a)"
proof -
  let ?cs = "Classes a"
  have a: "classes_ok ?cs" "map (\<lambda>c. unat (ClassBaseOffset c)) ?cs = class_bases 0 ?cs"
    "unat (arenaBytes a) = page_round (class_total ?cs)" "unat (arenaBytes a) < 2 ^ 32"
    using assms(1) by (auto simp: arena_ok_def)
  have "class_total ?cs < 2 ^ 32" using a(3,4) page_round_ge [of "class_total ?cs"] by linarith
  then obtain bases tot where b: "classBasesFrom 0 ?cs = Ok (bases, tot)"
    using classBasesFrom_total [of 0 ?cs] by auto
  from classBasesFrom_Ok [OF b] have bs: "map unat bases = class_bases 0 ?cs" and t: "unat tot = class_total ?cs"
    by simp_all
  have "map (\<lambda>c. ucast (ClassBaseOffset c)) ?cs = bases"
  proof -
    have "map unat (map (\<lambda>c. ucast (ClassBaseOffset c) :: u64) ?cs) = map unat bases"
      using a(2) bs by (simp add: comp_def)
    then show ?thesis by (rule map_injective) (simp add: inj_def word_unat_eq_iff)
  qed
  then have eq: "list_all2 (\<lambda>c b. ucast (ClassBaseOffset c) = b) ?cs bases"
    by (auto simp: list_all2_conv_all_nth)
  have "page_round (unat tot) < 2 ^ 64" using a(3,4) t by simp
  then obtain m where m: "roundupPageSize tot = Ok m" using roundupPageSize_total by blast
  then have "m = arenaBytes a" using roundupPageSize_Ok [OF m] a(3) t by (simp add: word_unat_eq_iff)
  then have "checkArenaTotal tot (arenaBytes a) = Ok (arenaBytes a)"
    using m a(4) by (simp add: checkArenaTotal_def word_less_nat_alt)
  moreover have "checkClassRules data (ClassTableOffset a) n = Ok (?cs, tot)"
    using readClasses_holds [OF assms(2)] assms(3) a(1) b eq
    by (simp add: checkClassRules_def validateSlabBounds_Ok [of _ "()", THEN iffD2] checkClassBaseOffsets_def computeClassBaseOffsets_def)
  ultimately show ?thesis using t by blast
qed

lemma deriveSpans_total:
  assumes "unat cap < 2 ^ 21" "unat bh < 2 ^ 32" "unat bp < 2 ^ 32"
  shows "\<exists>g. deriveSpans cap bh bp = Ok g"
proof -
  have sp: "unat (ucast cap * 64 :: u64) < 2 ^ 27" using assms(1) by (simp add: unat_ring_span)
  have chain: "\<exists>c. addOverflowSafe a b = Ok c \<and> unat c = unat a + unat b"
    if "unat a < 2 ^ 36" "unat b < 2 ^ 36" for a b :: u64
    using that by (intro addOverflowSafe_total) simp
  obtain a where a: "addOverflowSafe 4096 4096 = Ok a" "unat a = 8192"
    using chain [of 4096 4096] by auto
  obtain b where b: "addOverflowSafe a (ucast cap * 64) = Ok b" "unat b = unat a + unat (ucast cap * 64 :: u64)"
    using chain [of a "ucast cap * 64"] a sp by auto
  obtain c where c: "addOverflowSafe b (ucast cap * 64) = Ok c" "unat c = unat b + unat (ucast cap * 64 :: u64)"
    using chain [of b "ucast cap * 64"] a b sp by auto
  obtain d where d: "addOverflowSafe c bh = Ok d" "unat d = unat c + unat bh"
    using chain [of c bh] a b c sp assms(2) by auto
  obtain e where e: "addOverflowSafe d bp = Ok e" "unat e = unat d + unat bp"
    using chain [of d bp] a b c d sp assms(2,3) by auto
  have "\<not> 1099511627776 < e"
    using a b c d e sp assms by (simp add: word_less_nat_alt)
  with a b c d e show ?thesis by (simp add: deriveSpans_def Let_def)
qed

lemma get_bytes_replicate: "off + n \<le> m \<Longrightarrow> get_bytes (replicate m 0) off n = replicate n 0"
  by (simp add: get_bytes_def)

lemma isZero_replicate [simp]: "isZero (replicate n 0)"
  by (induction n) auto

text \<open>The zeros behind the page: the reserved tail of the sync page and both arenas' padding.\<close>

definition zero_tail :: "byte list \<Rightarrow> bool" where
  "zero_tail data \<longleftrightarrow> (\<forall>off n. 4096 \<le> off \<longrightarrow> off + n \<le> length data \<longrightarrow> get_bytes data off n = replicate n 0)"

lemma checkArenaPadZero_zero:
  assumes "zero_tail data" "4096 \<le> unat off" "unat off + unat bytes \<le> length data" "length data \<le> 2 ^ 40"
    "unat tot \<le> unat bytes"
  shows "checkArenaPadZero data off tot bytes = Ok ()"
proof -
  have "unat (off + bytes) = unat off + unat bytes" "unat (off + tot) = unat off + unat tot"
    using assms by (intro unat_add_small, linarith)+
  then show ?thesis
    using assms by (auto simp: checkArenaPadZero_def byteSlice_def zero_tail_def)
qed

lemma checkReservedZero_zero:
  assumes g: "deriveSpans cap bh bp = Ok g" and len: "length data = unat (g_regionSize g)" and z: "zero_tail data"
    and flags: "readU32 data 12 = Ok 0" and hdr: "byteSlice data 140 256 = Ok (replicate 116 0)"
    and ent: "checkClassEntriesReservedZero data (unat th) (unat nh) = Ok ()"
      "checkClassEntriesReservedZero data (unat tp) (unat np) = Ok ()"
    and tot: "unat toth \<le> unat bh" "unat totp \<le> unat bp"
  shows "checkReservedZero data g th nh tp np toth totp = Ok ()"
proof -
  note d = deriveSpans_Ok [OF g]
  have sync: "unat (g_syncPageOffset g + 512) = 4608" "unat (g_syncPageOffset g + 4096) = 8192"
    using d(1) by (simp_all add: unat_word_ariths)
  have "8192 \<le> length data" using d len by simp
  then have "get_bytes data 4608 3584 = replicate 3584 0"
    using z unfolding zero_tail_def by simp
  then have "checkSyncPageReservedTailZero data g = Ok ()"
    using \<open>8192 \<le> length data\<close> by (simp add: checkSyncPageReservedTailZero_def sync byteSlice_def)
  moreover have "checkArenaPadZero data (g_arenaHPOffset g) toth bh = Ok ()"
      "checkArenaPadZero data (g_arenaPHOffset g) totp bp = Ok ()"
    using d len tot z by (intro checkArenaPadZero_zero; simp)+
  ultimately show ?thesis
    using flags hdr ent d(8) by (simp add: checkReservedZero_def)
qed

lemma spans_of_layout:
  assumes "layout_ok l"
  shows "\<exists>g. deriveSpans (RingCapacity l) (arenaBytes (at (Arenas l) HostToPlugin)) (arenaBytes (at (Arenas l) PluginToHost)) = Ok g \<and>
    g_syncPageOffset g = SyncPageOffset l \<and> g_ringHPOffset g = ringOffset (at (Rings l) HostToPlugin) \<and>
    g_ringPHOffset g = ringOffset (at (Rings l) PluginToHost) \<and>
    g_arenaHPOffset g = arenaOffset (at (Arenas l) HostToPlugin) \<and>
    g_arenaPHOffset g = arenaOffset (at (Arenas l) PluginToHost) \<and> g_regionSize g = RegionSize l"
proof -
  have "unat (RingCapacity l) \<le> 2 ^ 20"
    using assms power_increasing [of _ 20 "2 :: nat"] by (auto simp: layout_ok_def ring_reserve_ok_def)
  then obtain g where g: "deriveSpans (RingCapacity l) (arenaBytes (at (Arenas l) HostToPlugin))
      (arenaBytes (at (Arenas l) PluginToHost)) = Ok g"
    using deriveSpans_total [of "RingCapacity l"] assms by (auto simp: layout_ok_def arena_ok_def)
  with deriveSpans_Ok [OF g] assms show ?thesis
    by (auto simp: layout_ok_def spans_ok_def Let_def word_unat_eq_iff)
qed

lemma dirs_eta: "Dirs (at d HostToPlugin) (at d PluginToHost) = d"
  by (cases d) simp

lemma geometry_eta:
  "\<lparr>ringOffset = ringOffset r\<rparr> = r"
  "\<lparr>arenaOffset = arenaOffset a, arenaBytes = arenaBytes a, ClassTableOffset = ClassTableOffset a,
    Classes = Classes a\<rparr> = a"
  by simp_all

lemma parse_holds:
  assumes ok: "layout_ok l" and tab: "tables_ok l"
    and hdr: "Magic l = layoutMagic" "LayoutVersion l = 1" "HeaderFlags l = 0"
    and h: "\<forall>w \<in> set (page_writes l). holds data w"
    and len: "length data = unat (RegionSize l)" and z: "zero_tail data"
    and vcap: "validateRingCapacity (RingCapacity l) = Ok ()"
  shows "parseLayoutPhase2 data (RegionSize l) = Ok l"
proof -
  define hp ph where "hp = at (Arenas l) HostToPlugin" and "ph = at (Arenas l) PluginToHost"
  obtain g where g: "deriveSpans (RingCapacity l) (arenaBytes hp) (arenaBytes ph) = Ok g"
    "g_syncPageOffset g = SyncPageOffset l" "g_ringHPOffset g = ringOffset (at (Rings l) HostToPlugin)"
    "g_ringPHOffset g = ringOffset (at (Rings l) PluginToHost)" "g_arenaHPOffset g = arenaOffset hp"
    "g_arenaPHOffset g = arenaOffset ph" "g_regionSize g = RegionSize l"
    using spans_of_layout [OF ok] unfolding hp_def ph_def by blast
  have hh: "\<forall>w \<in> set (headerWrites l). holds data w"
    and eh: "\<forall>w \<in> set (entryWrites (unat (ClassTableOffset hp)) (Classes hp)). holds data w"
    and ep: "\<forall>w \<in> set (entryWrites (unat (ClassTableOffset ph)) (Classes ph)). holds data w"
    using h by (auto simp: page_writes_def hp_def ph_def)
  note rd = hh [unfolded headerWrites_def, simplified, folded hp_def ph_def]
  have arenas: "arena_ok hp" "arena_ok ph" using ok by (simp_all add: layout_ok_def hp_def ph_def)
  then have lens: "length (Classes hp) \<le> 256" "length (Classes ph) \<le> 256" "0 < length (Classes hp)" "0 < length (Classes ph)"
    using tab length_classes(1) by (auto simp: tables_ok_def Let_def hp_def ph_def arena_ok_def)
  have un: "unat (of_nat (length (Classes hp)) :: u32) = length (Classes hp)"
    "unat (of_nat (length (Classes ph)) :: u32) = length (Classes ph)"
    using lens by (simp_all add: unat_of_nat)
  obtain toth where th: "checkClassRules data (ClassTableOffset hp) (of_nat (length (Classes hp))) = Ok (Classes hp, toth)"
    "unat toth = class_total (Classes hp)" "checkArenaTotal toth (arenaBytes hp) = Ok (arenaBytes hp)"
    using checkClassRules_holds [OF arenas(1) eh un(1)] by blast
  obtain totp where tp: "checkClassRules data (ClassTableOffset ph) (of_nat (length (Classes ph))) = Ok (Classes ph, totp)"
    "unat totp = class_total (Classes ph)" "checkArenaTotal totp (arenaBytes ph) = Ok (arenaBytes ph)"
    using checkClassRules_holds [OF arenas(2) ep un(2)] by blast
  have ranges: "checkClassTableRanges (of_nat (length (Classes hp))) (of_nat (length (Classes ph)))
      (ClassTableOffset hp) (ClassTableOffset ph) = Ok ()"
    using tab lens un by (intro checkClassTableRanges_total) (auto simp: tables_ok_def Let_def hp_def ph_def)
  have scal: "checkHeaderScalars data = Ok ()"
    using rd hdr
    by (auto simp: checkHeaderScalars_def byteSlice_holds layoutMagic_def dest!: readU32_holds readU64_holds)
  have resv: "checkRingReservation data = Ok (RingCapacity l, LifecycleReserve l)"
    using rd ok vcap
    by (auto simp: checkRingReservation_def validateLifecycleReserve_def layout_ok_def ring_reserve_ok_def
        dest!: readU32_holds)
  have cov: "checkSpansAndCoverage data g (RegionSize l) = Ok ()"
    using rd g len by (auto simp: checkSpansAndCoverage_def dest!: readU64_holds)
  have rz: "checkReservedZero data g (ClassTableOffset hp) (of_nat (length (Classes hp)))
      (ClassTableOffset ph) (of_nat (length (Classes ph))) toth totp = Ok ()"
    using rd hdr g(1,7) len z eh ep un th(2) tp(2) arenas page_round_ge
    by (intro checkReservedZero_zero [OF g(1)])
      (auto simp: arena_ok_def byteSlice_holds entriesReserved_holds dest!: readU32_holds)
  have "byteSlice data 0 8 = Ok layoutMagic"
    using rd hdr by (simp add: byteSlice_holds layoutMagic_def)
  then show ?thesis
    using rd scal resv ranges th tp g cov rz hdr
    by (auto simp: parseLayoutPhase2_def hp_def ph_def geometry_eta dirs_eta
        dest!: readU32_holds readU64_holds)
qed

section \<open>What DeriveLayout places\<close>

lemma DeriveLayout_tables:
  assumes "DeriveLayout inp = Ok l"
  shows "tables_ok l" "unat (ClassTableOffset (at (Arenas l) HostToPlugin)) = 256"
    "unat (ClassTableOffset (at (Arenas l) PluginToHost)) = 256 + 16 * length (Classes (at (Arenas l) HostToPlugin))"
    "validateRingCapacity (RingCapacity l) = Ok ()"
proof -
  define nh np where "nh = length (Classes (at (Arenas l) HostToPlugin))"
    and "np = length (Classes (at (Arenas l) PluginToHost))"
  from assms have th: "ClassTableOffset (at (Arenas l) HostToPlugin) = 256"
    and tp: "ClassTableOffset (at (Arenas l) PluginToHost) = 256 + of_nat nh * 16"
    and e: "256 + of_nat nh * 16 + of_nat np * 16 \<le> (4096 :: u64)"
    and v: "validateRingCapacity (RingCapacity l) = Ok ()"
    by (auto simp: DeriveLayout_def Let_def outcome_simps nh_def np_def not_less split: if_splits)
  have "nh \<le> 2 ^ 32" "np \<le> 2 ^ 32"
    using DeriveLayout_layout_ok [OF assms] length_classes(2)
    by (auto simp: layout_ok_def arena_ok_def nh_def np_def)
  then have u: "unat (256 + of_nat nh * 16 :: u64) = 256 + 16 * nh"
    "unat (256 + of_nat nh * 16 + of_nat np * 16 :: u64) = 256 + 16 * nh + 16 * np"
    by (simp_all add: unat_word_ariths unat_of_nat)
  then show "unat (ClassTableOffset (at (Arenas l) HostToPlugin)) = 256"
    "unat (ClassTableOffset (at (Arenas l) PluginToHost)) = 256 + 16 * length (Classes (at (Arenas l) HostToPlugin))"
    by (simp_all add: th tp nh_def)
  have "256 + 16 * nh + 16 * np \<le> 4096"
    using e u(2) by (simp add: word_le_nat_alt)
  then show "tables_ok l"
    using u(1) by (simp add: tables_ok_def Let_def th tp nh_def [symmetric] np_def [symmetric] dvd_add)
  show "validateRingCapacity (RingCapacity l) = Ok ()" by fact
qed

lemma ascending_header:
  assumes "length (Magic l) = 8" "ascending 256 ws"
  shows "ascending 0 (headerWrites l @ ws)"
  using assms by (simp add: headerWrites_def)

lemma within_append [simp]: "within n (ws @ ws') \<longleftrightarrow> within n ws \<and> within n ws'"
  by (auto simp: within_def)

lemma within_mono: "within n ws \<Longrightarrow> n \<le> m \<Longrightarrow> within m ws"
  by (fastforce simp: within_def)

lemma createRegionLayout_Ok:
  assumes "createRegionLayout inp = Ok l"
  shows "\<exists>l0. DeriveLayout inp = Ok l0 \<and> layout_ok l \<and> tables_ok l \<and> Magic l = layoutMagic \<and>
    LayoutVersion l = 1 \<and> HeaderFlags l = 0 \<and> Generation l = Generation inp \<and>
    validateRingCapacity (RingCapacity l) = Ok () \<and>
    unat (ClassTableOffset (at (Arenas l) HostToPlugin)) = 256 \<and>
    unat (ClassTableOffset (at (Arenas l) PluginToHost)) = 256 + 16 * length (Classes (at (Arenas l) HostToPlugin))"
proof -
  from assms obtain l0 where l0: "DeriveLayout inp = Ok l0" "HeaderFlags inp = 0"
    and l: "l = l0\<lparr>Magic := layoutMagic, LayoutVersion := 1, Generation := Generation inp\<rparr>"
    by (auto simp: createRegionLayout_def outcome_simps split: if_splits)
  have "HeaderFlags l0 = 0"
    using l0 by (auto simp: DeriveLayout_def Let_def outcome_simps split: if_splits)
  with DeriveLayout_layout_ok [OF l0(1)] DeriveLayout_tables [OF l0(1)] l0(1) show ?thesis
    by (simp add: l layout_ok_def spans_ok_def tables_ok_def)
qed

lemma create_open:
  assumes "createRegionLayout inp = Ok l"
  shows "\<exists>data. CreateRegion inp = Ok (data, l) \<and> parseLayoutPhase2 data (RegionSize l) = Ok l \<and>
    length data = unat (RegionSize l)"
proof -
  obtain ok: "layout_ok l" "tables_ok l" "Magic l = layoutMagic" "LayoutVersion l = 1" "HeaderFlags l = 0"
    "validateRingCapacity (RingCapacity l) = Ok ()"
    and th: "unat (ClassTableOffset (at (Arenas l) HostToPlugin)) = 256"
    and tp: "unat (ClassTableOffset (at (Arenas l) PluginToHost)) = 256 + 16 * length (Classes (at (Arenas l) HostToPlugin))"
    using createRegionLayout_Ok [OF assms] by blast
  let ?z = "replicate (unat (RegionSize l)) 0 :: byte list"
  have asc: "ascending 0 (page_writes l)"
    unfolding page_writes_def th tp using ok(3)
    by (intro ascending_header entryWrites_ascending)
      (auto simp: layoutMagic_def intro: entryWrites_ascending [of _ _ _ "[]", simplified])
  have size: "8192 \<le> unat (RegionSize l)"
    using ok(1) by (simp add: layout_ok_def spans_ok_def Let_def)
  have "within 4096 (headerWrites l)" using ok(3) by (simp add: within_def headerWrites_def layoutMagic_def)
  then have win: "within 4096 (page_writes l)"
    using ok(2) by (auto simp: page_writes_def tables_ok_def Let_def intro!: entryWrites_within)
  then have "within (length ?z) (page_writes l)" using size by (auto elim: within_mono)
  from putAll_total [OF this] obtain data where
    d: "putAll ?z (page_writes l) = Ok data" and len: "length data = unat (RegionSize l)" by auto
  have h: "\<forall>w \<in> set (page_writes l). holds data w"
    using putAll_holds [OF d asc] len by simp
  have "zero_tail data"
    using putAll_after [OF d win] len by (auto simp: zero_tail_def get_bytes_replicate)
  then have "parseLayoutPhase2 data (RegionSize l) = Ok l"
    using ok h len by (intro parse_holds)
  with d len assms show ?thesis
    by (simp add: CreateRegion_def writeLayoutPage_putAll)
qed

section \<open>Where the slabs lie\<close>

text \<open>The byte range of a slab within its arena: class by position, slab by index.\<close>

definition slab_start :: "SizeClass list \<Rightarrow> nat \<Rightarrow> nat \<Rightarrow> nat" where
  "slab_start cs i j = unat (ClassBaseOffset (cs ! i)) + j * unat (SlabSize (cs ! i))"

definition slab_id :: "SizeClass list \<Rightarrow> nat \<Rightarrow> nat \<Rightarrow> bool" where
  "slab_id cs i j \<longleftrightarrow> i < length cs \<and> j < unat (SlabCount (cs ! i))"

lemma class_bases_nth: "i < length cs \<Longrightarrow> class_bases b cs ! i = b + class_total (take i cs)"
proof (induction cs arbitrary: b i)
  case (Cons c cs)
  then show ?case by (cases i) (auto simp: class_total_def)
qed simp

lemma class_total_take_Suc:
  "i < length cs \<Longrightarrow> class_total (take (Suc i) cs) = class_total (take i cs) + extent (cs ! i)"
  by (simp add: class_total_def take_Suc_conv_app_nth)

lemma class_total_take_mono: "i \<le> j \<Longrightarrow> class_total (take i cs) \<le> class_total (take j cs)"
proof -
  assume "i \<le> j"
  then have "take j cs = take i cs @ take (j - i) (drop i cs)" by (metis le_add_diff_inverse take_add)
  then show ?thesis by (simp add: class_total_def)
qed

text \<open>A size-class table whose bases follow each other and whose slabs fit into \<open>n\<close> bytes.\<close>

definition geometry_ok :: "SizeClass list \<Rightarrow> nat \<Rightarrow> bool" where
  "geometry_ok cs n \<longleftrightarrow> classes_ok cs \<and> map (\<lambda>c. unat (ClassBaseOffset c)) cs = class_bases 0 cs \<and>
     class_total cs \<le> n \<and> class_total cs < 2 ^ 32"

lemma geometry_arena_ok:
  assumes "arena_ok a"
  shows "geometry_ok (Classes a) (unat (arenaBytes a))"
  using assms page_round_ge [of "class_total (Classes a)"] by (auto simp: arena_ok_def geometry_ok_def)

lemma geometry_base:
  assumes "geometry_ok cs n" "i < length cs"
  shows "unat (ClassBaseOffset (cs ! i)) = class_total (take i cs)"
proof -
  have "map (\<lambda>c. unat (ClassBaseOffset c)) cs ! i = class_bases 0 cs ! i"
    using assms(1) by (simp only: geometry_ok_def)
  then show ?thesis using assms(2) by (simp add: class_bases_nth)
qed

lemma slab_extent:
  assumes "geometry_ok cs n" "slab_id cs i j"
  shows "class_total (take i cs) \<le> slab_start cs i j"
    "slab_start cs i j + unat (SlabSize (cs ! i)) \<le> class_total (take (Suc i) cs)"
    "class_total (take (Suc i) cs) \<le> class_total cs"
proof -
  have i: "i < length cs" and j: "Suc j \<le> unat (SlabCount (cs ! i))"
    using assms(2) by (auto simp: slab_id_def)
  have "Suc j * unat (SlabSize (cs ! i)) \<le> extent (cs ! i)"
    unfolding extent_def using j by (metis mult.commute mult_le_mono1)
  then show "class_total (take i cs) \<le> slab_start cs i j"
    "slab_start cs i j + unat (SlabSize (cs ! i)) \<le> class_total (take (Suc i) cs)"
    using geometry_base [OF assms(1) i] class_total_take_Suc [OF i] by (simp_all add: slab_start_def)
  show "class_total (take (Suc i) cs) \<le> class_total cs"
    using class_total_take_mono [of "Suc i" "length cs" cs] i by simp
qed

lemma slab_in_bounds:
  assumes "geometry_ok cs n" "slab_id cs i j"
  shows "slab_start cs i j + unat (SlabSize (cs ! i)) \<le> n"
  using slab_extent [OF assms] assms(1) by (simp add: geometry_ok_def)

lemma slabs_ordered:
  assumes "geometry_ok cs n" "slab_id cs i j" "slab_id cs i' j'" "i < i' \<or> i = i' \<and> j < j'"
  shows "slab_start cs i j + unat (SlabSize (cs ! i)) \<le> slab_start cs i' j'"
proof (cases "i < i'")
  case True
  then show ?thesis
    using slab_extent(2) [OF assms(1,2)] slab_extent(1) [OF assms(1,3)]
      class_total_take_mono [of "Suc i" i' cs] by linarith
next
  case False
  with assms(4) have "i' = i" "Suc j \<le> j'" by auto
  then have "Suc j * unat (SlabSize (cs ! i)) \<le> j' * unat (SlabSize (cs ! i))"
    by (intro mult_le_mono1)
  then show ?thesis by (simp add: slab_start_def \<open>i' = i\<close>)
qed

lemma slabs_disjoint:
  assumes "geometry_ok cs n" "slab_id cs i j" "slab_id cs i' j'" "(i, j) \<noteq> (i', j')"
  shows "slab_start cs i j + unat (SlabSize (cs ! i)) \<le> slab_start cs i' j' \<or>
    slab_start cs i' j' + unat (SlabSize (cs ! i')) \<le> slab_start cs i j"
  using slabs_ordered [OF assms(1-3)] slabs_ordered [OF assms(1,3,2)] assms(4)
  by (metis linorder_neqE_nat)

section \<open>Properties\<close>

text \<open>The small geometry of the witnesses: 64 slots, one request class and two response classes.\<close>

definition sample_layout :: Layout where
  "sample_layout = \<lparr>Magic = [], LayoutVersion = 0, HeaderFlags = 0, Generation = 7, RegionSize = 0,
     RingCapacity = 64, LifecycleReserve = 8, SyncPageOffset = 0,
     Rings = Dirs \<lparr>ringOffset = 0\<rparr> \<lparr>ringOffset = 0\<rparr>,
     Arenas = Dirs
       \<lparr>arenaOffset = 0, arenaBytes = 0, ClassTableOffset = 0,
        Classes = [\<lparr>SlabSize = 4096, SlabCount = 2, ClassBaseOffset = 0\<rparr>]\<rparr>
       \<lparr>arenaOffset = 0, arenaBytes = 0, ClassTableOffset = 0,
        Classes = [\<lparr>SlabSize = 64, SlabCount = 3, ClassBaseOffset = 0\<rparr>,
                   \<lparr>SlabSize = 4096, SlabCount = 2, ClassBaseOffset = 0\<rparr>]\<rparr>\<rparr>"

lemma sample_created: "\<exists>l. createRegionLayout sample_layout = Ok l"
  by (simp add: sample_layout_def createRegionLayout_def DeriveLayout_def validateRingCapacity_def
      validateLifecycleReserve_def buildArenaGeometry_def validateSlabBounds_def
      computeClassBaseOffsets_def addOverflowSafe_def roundupPageSize_def deriveSpans_def Let_def)

text \<open>C19: whatever a peer has written into a mapping of at least two pages, the attach-time check does not
  index out of range; and a page it accepts describes a region of exactly the declared and mapped
  size whose spans are contiguous and cover it, with both size-class tables well formed.\<close>

theorem untrusted_layout_checked:
  assumes "8192 \<le> length data"
  shows "parseLayoutPhase2 data declared \<noteq> Panic \<and>
    (\<forall>l. parseLayoutPhase2 data declared = Ok l \<longrightarrow>
       layout_ok l \<and> RegionSize l = declared \<and> length data = unat declared)"
  using parse_not_Panic [OF assms] parse_layout_ok by blast

theorem untrusted_layout_checked_witness:
  "\<exists>data l. parseLayoutPhase2 data (RegionSize l) = Ok l \<and> 8192 \<le> length data \<and> layout_ok l"
proof -
  obtain l where l: "createRegionLayout sample_layout = Ok l" using sample_created by blast
  obtain data where d: "parseLayoutPhase2 data (RegionSize l) = Ok l" "length data = unat (RegionSize l)"
    using create_open [OF l] by blast
  have "8192 \<le> length data"
    using createRegionLayout_Ok [OF l] d(2) by (auto simp: layout_ok_def spans_ok_def Let_def)
  with untrusted_layout_checked [OF this, of "RegionSize l"] d show ?thesis by blast
qed

text \<open>C30: in an accepted layout every slab of either direction lies inside its arena, inside the mapped
  region, above the rings, and no two slabs of a direction overlap.\<close>

theorem accepted_slabs_disjoint_in_bounds:
  assumes "parseLayoutPhase2 data declared = Ok l" "a = at (Arenas l) dir" "slab_id (Classes a) i j"
  shows "slab_start (Classes a) i j + unat (SlabSize (Classes a ! i)) \<le> unat (arenaBytes a) \<and>
    unat (arenaOffset a) + unat (arenaBytes a) \<le> length data \<and>
    8192 + 2 * (64 * unat (RingCapacity l)) \<le> unat (arenaOffset a) \<and>
    (\<forall>i' j'. slab_id (Classes a) i' j' \<and> (i, j) \<noteq> (i', j') \<longrightarrow>
       slab_start (Classes a) i j + unat (SlabSize (Classes a ! i)) \<le> slab_start (Classes a) i' j' \<or>
       slab_start (Classes a) i' j' + unat (SlabSize (Classes a ! i')) \<le> slab_start (Classes a) i j)"
proof -
  have l: "layout_ok l" "length data = unat (RegionSize l)"
    using parse_layout_ok [OF assms(1)] by auto
  then have a: "geometry_ok (Classes a) (unat (arenaBytes a))"
    using assms(2) geometry_arena_ok by (cases dir) (auto simp: layout_ok_def)
  have "unat (arenaOffset a) + unat (arenaBytes a) \<le> length data"
    "8192 + 2 * (64 * unat (RingCapacity l)) \<le> unat (arenaOffset a)"
    using l assms(2) by (cases dir; simp add: layout_ok_def spans_ok_def Let_def)+
  then show ?thesis
    using slab_in_bounds [OF a assms(3)] slabs_disjoint [OF a assms(3)] by blast
qed

theorem accepted_slabs_disjoint_in_bounds_witness:
  "\<exists>data l. parseLayoutPhase2 data (RegionSize l) = Ok l \<and>
     slab_start (Classes (at (Arenas l) HostToPlugin)) 0 0 +
       unat (SlabSize (Classes (at (Arenas l) HostToPlugin) ! 0)) \<le> unat (arenaBytes (at (Arenas l) HostToPlugin))"
proof -
  obtain l where l: "createRegionLayout sample_layout = Ok l" using sample_created by blast
  obtain data where d: "parseLayoutPhase2 data (RegionSize l) = Ok l"
    using create_open [OF l] by blast
  let ?a = "at (Arenas l) HostToPlugin"
  have "classes_ok (Classes ?a)" using parse_layout_ok [OF d] by (simp add: layout_ok_def arena_ok_def)
  then have "slab_id (Classes ?a) 0 0"
    by (cases "Classes ?a") (auto simp: classes_ok_def slab_id_def unat_gt_0)
  from accepted_slabs_disjoint_in_bounds [OF d refl this] d show ?thesis by blast
qed

text \<open>C31: a region that CreateRegion lays out is accepted by the attach-time check of the other process,
  which decodes exactly the layout the creator holds.\<close>

theorem create_open_roundtrip:
  assumes "createRegionLayout inp = Ok l"
  shows "\<exists>data. CreateRegion inp = Ok (data, l) \<and> length data = unat (RegionSize l) \<and>
    parseLayoutPhase2 data (RegionSize l) = Ok l"
  using create_open [OF assms] by blast

theorem create_open_roundtrip_witness:
  "\<exists>data l. CreateRegion sample_layout = Ok (data, l) \<and> parseLayoutPhase2 data (RegionSize l) = Ok l"
  using sample_created create_open_roundtrip by blast

text \<open>opening a region never panics, whatever the kernel calls return, provided mmap maps as many bytes
  as asked; a mapping it hands back has the poison word in range even when its layout was rejected,
  and an attached region carries the exact seals and a well-formed layout of the declared size.\<close>

theorem open_region_outcomes:
  assumes "\<And>n d. mmap n = Inr d \<Longrightarrow> length d = n"
  shows "\<exists>r. openRegionOwned fstat seals mmap expected = Ok r \<and>
    (case r of
       Attached data l \<Rightarrow> layout_ok l \<and> RegionSize l = expected \<and> length data = unat expected \<and>
         seals = Inr 7 \<and> 4480 + 4 \<le> length data
     | MappedBad data e \<Rightarrow> length data = unat expected \<and> 4480 + 4 \<le> length data
     | NotMapped e \<Rightarrow> True)"
proof -
  have big: "8192 \<le> length d" if "\<not> expected < 8192" "mmap (unat expected) = Inr d" for d
    using assms [OF that(2)] that(1) by (simp add: not_less word_le_nat_alt)
  show ?thesis
    using big assms parse_not_Panic parse_layout_ok
    by (fastforce simp: openRegionOwned_def Let_def split: sum.split outcome.split)
qed

theorem open_region_outcomes_witness:
  "\<exists>r. openRegionOwned (Inr 8192) (Inr 7) (\<lambda>n. Inr (replicate n 0)) 8192 = Ok r \<and>
    (case r of
       Attached data l \<Rightarrow> layout_ok l \<and> RegionSize l = 8192 \<and> length data = unat (8192 :: u64) \<and>
         (Inr 7 :: layout_error + int) = Inr 7 \<and> 4480 + 4 \<le> length data
     | MappedBad data e \<Rightarrow> length data = unat (8192 :: u64) \<and> 4480 + 4 \<le> length data
     | NotMapped e \<Rightarrow> True)"
  by (rule open_region_outcomes) auto

end
