(* ===== verification/Arena.thy ===== *)
theory Arena
  imports Layout_Roundtrip
begin

text \<open>
  The per-direction slab allocator of \<^verbatim>\<open>src/internal/arena\<close>. The slab bytes are never touched by the
  allocator; a slice handed out by \<open>Alloc\<close> is modelled by its bounds within the arena's memory.
\<close>

section \<open>State\<close>

datatype arena_error =
  ErrExhausted | ErrTooLarge | ErrZeroLength | ErrArenaConfig | ErrInvalidFree | ErrStaleHandle

record SlabHandle =
  Offset :: u32
  Length :: u32
  h_Generation :: u32
  Sequence :: u64
  h_class :: u32
  h_index :: u32
  h_owner :: u64

text \<open>The free list is a stack whose top is the last element, as the Go slice is.\<close>

record classState =
  free :: "u32 list"
  liveSeq :: "u64 list"

record Arena =
  amem :: "byte list"
  classes :: "SizeClass list"
  pools :: "classState list"
  a_generation :: u32
  nextSeq :: u64
  a_id :: u64
  occupancy :: u64

section \<open>Operations\<close>

text \<open>The process-wide identity counter skips the value zero when it wraps.\<close>

function mintArenaID :: "u64 \<Rightarrow> u64 \<times> u64" where
  "mintArenaID seq = (let i = seq + 1 in if i \<noteq> 0 then (i, i) else mintArenaID i)"
  by pat_completeness auto
termination
  by (relation "measure (\<lambda>seq. if seq = - 1 then 1 else 0)")
    (auto simp: eq_neg_iff_add_eq_0 add.commute)

declare mintArenaID.simps [simp del]

fun SelectClassFrom :: "nat \<Rightarrow> SizeClass list \<Rightarrow> u32 \<Rightarrow> nat \<times> bool" where
  "SelectClassFrom i [] sz = (0, False)"
| "SelectClassFrom i (c # cs) sz = (if SlabSize c \<ge> sz then (i, True) else SelectClassFrom (Suc i) cs sz)"

definition SelectClass :: "SizeClass list \<Rightarrow> u32 \<Rightarrow> nat \<times> bool" where
  "SelectClass cs sz = SelectClassFrom 0 cs sz"

definition newClassState :: "SizeClass \<Rightarrow> bool \<Rightarrow> classState" where
  "newClassState sc reserveZero =
     (let first = (if reserveZero then 1 else 0) in
      \<lparr>free = map of_nat (rev [first..<unat (SlabCount sc)]), liveSeq = replicate (unat (SlabCount sc)) 0\<rparr>)"

fun maxSlabExtentFrom :: "u64 \<Rightarrow> SizeClass list \<Rightarrow> u64" where
  "maxSlabExtentFrom maxEnd [] = maxEnd"
| "maxSlabExtentFrom maxEnd (c # cs) =
     (let e = ucast (ClassBaseOffset c) + ucast (SlabSize c) * ucast (SlabCount c) in
      maxSlabExtentFrom (if e > maxEnd then e else maxEnd) cs)"

definition maxSlabExtent :: "SizeClass list \<Rightarrow> u64" where
  "maxSlabExtent cs = maxSlabExtentFrom 0 cs"

definition New :: "u64 \<Rightarrow> byte list \<Rightarrow> SizeClass list \<Rightarrow> u64 \<Rightarrow> (arena_error, Arena \<times> u64) outcome" where
  "New seq m cs gen =
     (if cs = [] then Err ErrArenaConfig
      else if \<exists>c \<in> set cs. SlabCount c = 0 then Err ErrArenaConfig
      else if length m < unat (maxSlabExtent cs) then Err ErrArenaConfig
      else let (i, seq') = mintArenaID seq in
        Ok (\<lparr>amem = m, classes = cs,
             pools = map2 (\<lambda>c k. newClassState c (k = 0)) cs [0..<length cs],
             a_generation = Truncated gen, nextSeq = 1, a_id = i, occupancy = 0\<rparr>, seq'))"

definition nextAllocSeq :: "Arena \<Rightarrow> u64 \<times> Arena" where
  "nextAllocSeq a =
     (let seq = nextSeq a; n = seq + 1 in (seq, a\<lparr>nextSeq := (if n = 0 then 1 else n)\<rparr>))"

definition Alloc :: "Arena \<Rightarrow> u32 \<Rightarrow> (arena_error, (SlabHandle \<times> nat \<times> nat) \<times> Arena) outcome" where
  "Alloc a sz =
     (if sz = 0 then Err ErrZeroLength
      else case SelectClass (classes a) sz of
        (_, False) \<Rightarrow> Err ErrTooLarge
      | (ci, True) \<Rightarrow>
          if ci \<ge> length (pools a) then Panic
          else if free (pools a ! ci) = [] then Err ErrExhausted
          else let pool = pools a ! ci;
                   idx = last (free pool);
                   (seq, a1) = nextAllocSeq a;
                   sc = classes a ! ci;
                   off = ClassBaseOffset sc + idx * SlabSize sc in
            if unat idx \<ge> length (liveSeq pool) then Panic
            else if unat (off + SlabSize sc) < unat off \<or> length (amem a) < unat (off + SlabSize sc) then Panic
            else Ok
              ((\<lparr>Offset = off, Length = sz, h_Generation = a_generation a, Sequence = seq,
                 h_class = of_nat ci, h_index = idx, h_owner = a_id a\<rparr>,
                unat off, unat (off + SlabSize sc)),
               a1\<lparr>pools := (pools a)[ci := \<lparr>free = butlast (free pool), liveSeq = (liveSeq pool)[unat idx := seq]\<rparr>],
                  occupancy := occupancy a + ucast (SlabSize sc)\<rparr>))"

definition locate :: "Arena \<Rightarrow> SlabHandle \<Rightarrow> nat option" where
  "locate a h =
     (if unat (h_class h) \<ge> length (pools a) then None
      else if h_index h \<ge> SlabCount (classes a ! unat (h_class h)) then None
      else Some (unat (h_class h)))"

definition Free :: "Arena \<Rightarrow> SlabHandle \<Rightarrow> (arena_error, Arena) outcome" where
  "Free a h =
     (if h_owner h \<noteq> a_id a then Err ErrInvalidFree
      else if h_Generation h \<noteq> a_generation a then Err ErrInvalidFree
      else case locate a h of
        None \<Rightarrow> Err ErrInvalidFree
      | Some ci \<Rightarrow>
          let pool = pools a ! ci; idx = unat (h_index h) in
          if idx \<ge> length (liveSeq pool) then Panic
          else if liveSeq pool ! idx = 0 then Err ErrInvalidFree
          else if liveSeq pool ! idx \<noteq> Sequence h then Err ErrInvalidFree
          else Ok (a\<lparr>pools := (pools a)[ci := \<lparr>free = free pool @ [h_index h], liveSeq = (liveSeq pool)[idx := 0]\<rparr>],
                     occupancy := occupancy a + NOT (ucast (SlabSize (classes a ! ci)) - 1)\<rparr>))"

definition Validate :: "Arena \<Rightarrow> SlabHandle \<Rightarrow> (arena_error, unit) outcome" where
  "Validate a h =
     (if h_owner h \<noteq> a_id a then Err ErrStaleHandle
      else if h_Generation h \<noteq> a_generation a then Err ErrStaleHandle
      else if Sequence h = 0 then Err ErrStaleHandle
      else case locate a h of
        None \<Rightarrow> Err ErrStaleHandle
      | Some ci \<Rightarrow>
          if unat (h_index h) \<ge> length (liveSeq (pools a ! ci)) then Panic
          else if liveSeq (pools a ! ci) ! unat (h_index h) \<noteq> Sequence h then Err ErrStaleHandle
          else Ok ())"

definition OccupancyBytes :: "Arena \<Rightarrow> u64" where
  "OccupancyBytes a = occupancy a"

definition ClassSlabSizes :: "Arena \<Rightarrow> u32 list" where
  "ClassSlabSizes a = map SlabSize (classes a)"

definition ServingClass :: "Arena \<Rightarrow> u32 \<Rightarrow> nat \<times> bool" where
  "ServingClass a sz = SelectClass (classes a) sz"

section \<open>Class selection\<close>

lemma SelectClassFrom_None:
  "SelectClassFrom i cs sz = (k, False) \<Longrightarrow> k = 0 \<and> (\<forall>c \<in> set cs. SlabSize c < sz)"
  by (induction i cs sz rule: SelectClassFrom.induct) (auto split: if_splits)

lemma SelectClassFrom_Some:
  "SelectClassFrom i cs sz = (k, True) \<Longrightarrow>
     i \<le> k \<and> k < i + length cs \<and> sz \<le> SlabSize (cs ! (k - i)) \<and> (\<forall>j < k - i. SlabSize (cs ! j) < sz)"
proof (induction i cs sz rule: SelectClassFrom.induct)
  case (2 i c cs sz)
  show ?case
  proof (cases "sz \<le> SlabSize c")
    case True
    with 2(2) show ?thesis by auto
  next
    case False
    with 2 have r: "Suc i \<le> k" "k < Suc i + length cs" "sz \<le> SlabSize (cs ! (k - Suc i))"
      "\<forall>j < k - Suc i. SlabSize (cs ! j) < sz" by auto
    have "SlabSize ((c # cs) ! j) < sz" if "j < k - i" for j
      using r(1,4) that False by (cases j) auto
    moreover have "(c # cs) ! (k - i) = cs ! (k - Suc i)" using r(1) by (simp add: Suc_diff_le nth_Cons')
    ultimately show ?thesis using r by auto
  qed
qed simp

lemma SelectClass_False: "SelectClass cs sz = (k, False) \<longleftrightarrow> k = 0 \<and> (\<forall>c \<in> set cs. SlabSize c < sz)"
proof
  show "SelectClass cs sz = (k, False) \<Longrightarrow> k = 0 \<and> (\<forall>c \<in> set cs. SlabSize c < sz)"
    unfolding SelectClass_def by (rule SelectClassFrom_None)
next
  have "SelectClassFrom i cs sz = (0, False)" if "\<forall>c \<in> set cs. SlabSize c < sz" for i
    using that by (induction cs arbitrary: i) auto
  then show "k = 0 \<and> (\<forall>c \<in> set cs. SlabSize c < sz) \<Longrightarrow> SelectClass cs sz = (k, False)"
    by (auto simp: SelectClass_def)
qed

lemma SelectClass_True:
  "SelectClass cs sz = (k, True) \<Longrightarrow>
     k < length cs \<and> sz \<le> SlabSize (cs ! k) \<and> (\<forall>j < k. SlabSize (cs ! j) < sz)"
  using SelectClassFrom_Some [of 0 cs sz k] by (simp add: SelectClass_def)

section \<open>Invariant\<close>

text \<open>
  The free list of a class holds, without repetition, exactly the indices whose live sequence is zero,
  except slab 0 of class 0, which is never handed out.
\<close>

definition allocatable :: "nat \<Rightarrow> nat \<Rightarrow> bool" where
  "allocatable ci j \<longleftrightarrow> \<not> (ci = 0 \<and> j = 0)"

definition pool_ok :: "nat \<Rightarrow> SizeClass \<Rightarrow> classState \<Rightarrow> bool" where
  "pool_ok ci c p \<longleftrightarrow> length (liveSeq p) = unat (SlabCount c) \<and> distinct (free p) \<and>
     unat ` set (free p) = {j. j < unat (SlabCount c) \<and> liveSeq p ! j = 0 \<and> allocatable ci j} \<and>
     (ci = 0 \<longrightarrow> liveSeq p ! 0 = 0)"

definition live :: "Arena \<Rightarrow> (nat \<times> nat) set" where
  "live a = {(i, j). i < length (classes a) \<and> j < unat (SlabCount (classes a ! i)) \<and> liveSeq (pools a ! i) ! j \<noteq> 0}"

definition slab_bytes :: "SizeClass list \<Rightarrow> nat \<times> nat \<Rightarrow> u64" where
  "slab_bytes cs s = ucast (SlabSize (cs ! fst s))"

definition arena_inv :: "Arena \<Rightarrow> bool" where
  "arena_inv a \<longleftrightarrow> geometry_ok (classes a) (length (amem a)) \<and> length (pools a) = length (classes a) \<and>
     (\<forall>i < length (classes a). pool_ok i (classes a ! i) (pools a ! i)) \<and> nextSeq a \<noteq> 0 \<and>
     occupancy a = sum (slab_bytes (classes a)) (live a)"

lemma finite_live [simp]: "finite (live a)"
proof -
  have "live a \<subseteq> {..<length (classes a)} \<times> (\<Union>i<length (classes a). {..<unat (SlabCount (classes a ! i))})"
    by (auto simp: live_def)
  then show ?thesis by (rule finite_subset) auto
qed

lemma slab_offset_word:
  assumes "geometry_ok cs n" "slab_id cs i (unat idx)"
  shows "unat (ClassBaseOffset (cs ! i) + idx * SlabSize (cs ! i)) = slab_start cs i (unat idx)"
    "unat (ClassBaseOffset (cs ! i) + idx * SlabSize (cs ! i) + SlabSize (cs ! i))
       = slab_start cs i (unat idx) + unat (SlabSize (cs ! i))"
    "slab_start cs i (unat idx) + unat (SlabSize (cs ! i)) \<le> n"
proof -
  have lt: "slab_start cs i (unat idx) + unat (SlabSize (cs ! i)) < 2 ^ 32"
    and le: "slab_start cs i (unat idx) + unat (SlabSize (cs ! i)) \<le> n"
    using slab_extent [OF assms] assms(1) by (auto simp: geometry_ok_def)
  then show "slab_start cs i (unat idx) + unat (SlabSize (cs ! i)) \<le> n" by simp
  show "unat (ClassBaseOffset (cs ! i) + idx * SlabSize (cs ! i)) = slab_start cs i (unat idx)"
    "unat (ClassBaseOffset (cs ! i) + idx * SlabSize (cs ! i) + SlabSize (cs ! i))
       = slab_start cs i (unat idx) + unat (SlabSize (cs ! i))"
    using lt by (simp_all add: slab_start_def unat_word_ariths)
qed

lemma unat_image_mem: "unat (x :: 'a::len word) \<in> unat ` A \<longleftrightarrow> x \<in> A"
  by (auto simp: unat_inject)

lemma pool_ok_alloc:
  assumes p: "pool_ok ci c p" and ne: "free p \<noteq> []" and seq: "seq \<noteq> 0"
  defines "idx \<equiv> last (free p)"
  shows "unat idx < unat (SlabCount c)" "liveSeq p ! unat idx = 0" "allocatable ci (unat idx)"
    "pool_ok ci c \<lparr>free = butlast (free p), liveSeq = (liveSeq p)[unat idx := seq]\<rparr>"
proof -
  have fr: "unat ` set (free p) = {j. j < unat (SlabCount c) \<and> liveSeq p ! j = 0 \<and> allocatable ci j}"
    and len: "length (liveSeq p) = unat (SlabCount c)" and d: "distinct (free p)"
    and z: "ci = 0 \<longrightarrow> liveSeq p ! 0 = 0"
    using p by (auto simp: pool_ok_def)
  have "unat idx \<in> unat ` set (free p)" using ne by (simp add: idx_def)
  then show i: "unat idx < unat (SlabCount c)" "liveSeq p ! unat idx = 0" and al: "allocatable ci (unat idx)"
    unfolding fr by auto
  have split: "free p = butlast (free p) @ [idx]" using ne by (simp add: idx_def)
  then have "set (free p) = insert idx (set (butlast (free p)))" "idx \<notin> set (butlast (free p))"
    using d by (metis Un_insert_right list.simps(15) set_append sup_bot_right empty_set,
        metis distinct_append disjoint_iff list.set_intros(1))
  then have "unat ` set (butlast (free p)) = unat ` set (free p) - {unat idx}"
    by (auto simp: unat_inject)
  also have "\<dots> = {j. j < unat (SlabCount c) \<and> (liveSeq p)[unat idx := seq] ! j = 0 \<and> allocatable ci j}"
    unfolding fr using i len seq by (auto simp: nth_list_update)
  finally show "pool_ok ci c \<lparr>free = butlast (free p), liveSeq = (liveSeq p)[unat idx := seq]\<rparr>"
    using len d z al i by (auto simp: pool_ok_def distinct_butlast nth_list_update allocatable_def)
qed

lemma pool_ok_free:
  assumes p: "pool_ok ci c p" and i: "unat idx < unat (SlabCount c)" "liveSeq p ! unat idx \<noteq> 0"
  shows "pool_ok ci c \<lparr>free = free p @ [idx], liveSeq = (liveSeq p)[unat idx := 0]\<rparr>"
proof -
  have fr: "unat ` set (free p) = {j. j < unat (SlabCount c) \<and> liveSeq p ! j = 0 \<and> allocatable ci j}"
    and len: "length (liveSeq p) = unat (SlabCount c)" and d: "distinct (free p)"
    and z: "ci = 0 \<longrightarrow> liveSeq p ! 0 = 0"
    using p by (auto simp: pool_ok_def)
  have "unat idx \<notin> unat ` set (free p)" unfolding fr using i(2) by simp
  then have "idx \<notin> set (free p)" by (simp add: unat_image_mem)
  have al: "allocatable ci (unat idx)"
    using z i(2) by (cases "ci = 0 \<and> unat idx = 0") (auto simp: allocatable_def)
  have "unat ` set (free p @ [idx]) = insert (unat idx) (unat ` set (free p))" by simp
  also have "\<dots> = {j. j < unat (SlabCount c) \<and> (liveSeq p)[unat idx := 0] ! j = 0 \<and> allocatable ci j}"
    unfolding fr using al i len by (auto simp: nth_list_update)
  finally have fr': "unat ` set (free p @ [idx]) =
      {j. j < unat (SlabCount c) \<and> (liveSeq p)[unat idx := 0] ! j = 0 \<and> allocatable ci j}" .
  have "ci = 0 \<longrightarrow> (liveSeq p)[unat idx := 0] ! 0 = 0"
    using z i(1) len by (cases "unat idx = 0") auto
  then show ?thesis
    using len d \<open>idx \<notin> set (free p)\<close> fr' by (simp add: pool_ok_def)
qed

section \<open>Alloc and Free against the set of live slabs\<close>

definition slab_of :: "SlabHandle \<Rightarrow> nat \<times> nat" where
  "slab_of h = (unat (h_class h), unat (h_index h))"

definition valid_handle :: "Arena \<Rightarrow> SlabHandle \<Rightarrow> bool" where
  "valid_handle a h \<longleftrightarrow> h_owner h = a_id a \<and> h_Generation h = a_generation a \<and> slab_of h \<in> live a \<and>
     liveSeq (pools a ! fst (slab_of h)) ! snd (slab_of h) = Sequence h"

definition same_frame :: "Arena \<Rightarrow> Arena \<Rightarrow> bool" where
  "same_frame a b \<longleftrightarrow> classes b = classes a \<and> amem b = amem a \<and> a_id b = a_id a \<and> a_generation b = a_generation a"

lemma live_slab_id: "(i, j) \<in> live a \<Longrightarrow> slab_id (classes a) i j"
  by (simp add: live_def slab_id_def)

lemma live_update:
  assumes "arena_inv a" "slab_id (classes a) i j" "pools b = (pools a)[i := \<lparr>free = fr, liveSeq = (liveSeq (pools a ! i))[j := seq]\<rparr>]"
    "classes b = classes a"
  shows "live b = (if seq = 0 then live a - {(i, j)} else insert (i, j) (live a))"
proof -
  have i: "i < length (pools a)" "i < length (classes a)" "j < length (liveSeq (pools a ! i))"
    "length (pools a) = length (classes a)"
    using assms(1,2) by (auto simp: arena_inv_def slab_id_def pool_ok_def)
  have "liveSeq (pools b ! i') ! j' = (if (i', j') = (i, j) then seq else liveSeq (pools a ! i') ! j')"
    if "i' < length (classes a)" for i' j'
    using i assms(3) by (auto simp: nth_list_update)
  then show ?thesis
    using assms(2,4) by (auto simp: live_def slab_id_def split: if_splits)
qed

lemma arena_inv_pool_update:
  assumes inv: "arena_inv a" and id: "slab_id (classes a) i j"
    and b: "b = a\<lparr>pools := (pools a)[i := \<lparr>free = fr, liveSeq = (liveSeq (pools a ! i))[j := seq]\<rparr>],
                   nextSeq := ns, occupancy := occ\<rparr>"
    and p: "pool_ok i (classes a ! i) \<lparr>free = fr, liveSeq = (liveSeq (pools a ! i))[j := seq]\<rparr>"
    and ns: "ns \<noteq> 0" and occ: "occ = sum (slab_bytes (classes a)) (live b)"
  shows "arena_inv b"
  using inv id p ns occ by (auto simp: arena_inv_def b nth_list_update slab_id_def)

lemma slab_start_pos:
  assumes "geometry_ok cs n" "slab_id cs i j" "allocatable i j"
  shows "0 < slab_start cs i j"
proof -
  have pos: "0 < unat (SlabSize c) * unat (SlabCount c)" if "c \<in> set cs" for c
    using assms(1) that by (auto simp: geometry_ok_def classes_ok_def unat_gt_0)
  have i: "i < length cs" using assms(2) by (simp add: slab_id_def)
  show ?thesis
  proof (cases "i = 0")
    case True
    then have "0 < j" using assms(3) by (simp add: allocatable_def)
    with pos [of "cs ! i"] i show ?thesis by (auto simp: slab_start_def)
  next
    case False
    then have "extent (cs ! 0) \<le> class_total (take i cs)"
      using class_total_take_mono [of 1 i cs] i by (cases cs) (auto simp: class_total_def)
    moreover have "cs ! 0 \<in> set cs" using i by (cases cs) auto
    then have "0 < extent (cs ! 0)" using pos by (auto simp: extent_def)
    ultimately show ?thesis using slab_extent(1) [OF assms(1,2)] by linarith
  qed
qed

lemma nextAllocSeq_frame:
  assumes "nextSeq a \<noteq> 0"
  obtains ns where "nextAllocSeq a = (nextSeq a, a\<lparr>nextSeq := ns\<rparr>)" "ns \<noteq> 0"
  using assms by (auto simp: nextAllocSeq_def Let_def)

lemma length_classes_u32:
  "geometry_ok cs n \<Longrightarrow> i < length cs \<Longrightarrow> unat (of_nat i :: u32) = i"
  using length_classes(2) [of cs] by (simp add: geometry_ok_def unat_of_nat)

text \<open>The outcome of an allocation, branch by branch.\<close>

lemma Alloc_cases:
  assumes inv: "arena_inv a" and sz: "sz \<noteq> 0" and sel: "SelectClass (classes a) sz = (ci, True)"
    and ne: "free (pools a ! ci) \<noteq> []"
  defines "idx \<equiv> last (free (pools a ! ci))"
  shows "\<exists>h lo hi a'. Alloc a sz = Ok ((h, lo, hi), a') \<and> arena_inv a' \<and> same_frame a a' \<and>
    slab_of h = (ci, unat idx) \<and> slab_of h \<notin> live a \<and> live a' = insert (slab_of h) (live a) \<and>
    valid_handle a' h \<and> Length h = sz \<and> unat (Offset h) = lo \<and> lo = slab_start (classes a) ci (unat idx) \<and>
    hi = lo + unat (SlabSize (classes a ! ci)) \<and> hi \<le> length (amem a) \<and> 0 < lo \<and>
    pools a' = (pools a)[ci := \<lparr>free = butlast (free (pools a ! ci)), liveSeq = (liveSeq (pools a ! ci))[unat idx := nextSeq a]\<rparr>]"
proof -
  let ?p = "pools a ! ci" and ?c = "classes a ! ci"
  have ci: "ci < length (classes a)" using SelectClass_True [OF sel] by simp
  have i: "geometry_ok (classes a) (length (amem a))" "length (pools a) = length (classes a)"
    "pool_ok ci ?c ?p" "nextSeq a \<noteq> 0" "occupancy a = sum (slab_bytes (classes a)) (live a)"
    using inv ci by (auto simp: arena_inv_def)
  note p = pool_ok_alloc [OF i(3) ne i(4), folded idx_def]
  have id: "slab_id (classes a) ci (unat idx)" using ci p(1) by (simp add: slab_id_def)
  note w = slab_offset_word [OF i(1) id]
  obtain ns where ns: "nextAllocSeq a = (nextSeq a, a\<lparr>nextSeq := ns\<rparr>)" "ns \<noteq> 0"
    using i(4) by (rule nextAllocSeq_frame)
  define pool' where "pool' = \<lparr>free = butlast (free ?p), liveSeq = (liveSeq ?p)[unat idx := nextSeq a]\<rparr>"
  define a' where "a' = a\<lparr>pools := (pools a)[ci := pool'], nextSeq := ns, occupancy := occupancy a + ucast (SlabSize ?c)\<rparr>"
  define h where "h = \<lparr>Offset = ClassBaseOffset ?c + idx * SlabSize ?c, Length = sz, h_Generation = a_generation a,
    Sequence = nextSeq a, h_class = of_nat ci, h_index = idx, h_owner = a_id a\<rparr>"
  have slab: "slab_of h = (ci, unat idx)"
    using length_classes_u32 [OF i(1) ci] by (simp add: slab_of_def h_def)
  have live': "live a' = insert (ci, unat idx) (live a)"
    using live_update [OF inv id, of a' "butlast (free ?p)" "nextSeq a"] i(4) by (simp add: a'_def pool'_def)
  have fresh: "(ci, unat idx) \<notin> live a" using p(2) by (simp add: live_def)
  have "arena_inv a'"
    using i(5) fresh live' ns(2) p(4)
    by (intro arena_inv_pool_update [OF inv id a'_def [unfolded pool'_def]])
      (simp_all add: slab_bytes_def add.commute)
  moreover have "Alloc a sz = Ok ((h, slab_start (classes a) ci (unat idx),
      slab_start (classes a) ci (unat idx) + unat (SlabSize ?c)), a')"
    using sz sel ci ne i p w ns(1)
    by (auto simp: Alloc_def Let_def idx_def [symmetric] h_def a'_def pool'_def pool_ok_def)
  moreover have "valid_handle a' h"
    using live' slab ci i p(1) by (simp add: valid_handle_def h_def a'_def pool'_def pool_ok_def)
  ultimately show ?thesis
    using slab live' fresh w slab_start_pos [OF i(1) id p(3)]
    by (intro exI conjI) (auto simp: same_frame_def a'_def h_def pool'_def)
qed

lemma Alloc_not_Ok:
  assumes "arena_inv a"
  shows "Alloc a sz = Err ErrZeroLength \<longleftrightarrow> sz = 0"
    "Alloc a sz = Err ErrTooLarge \<longleftrightarrow> sz \<noteq> 0 \<and> (\<forall>c \<in> set (classes a). SlabSize c < sz)"
    "Alloc a sz = Err ErrExhausted \<longleftrightarrow>
       sz \<noteq> 0 \<and> (\<exists>ci. SelectClass (classes a) sz = (ci, True) \<and> free (pools a ! ci) = [])"
    "Alloc a sz \<noteq> Panic"
proof -
  obtain ci b where sel: "SelectClass (classes a) sz = (ci, b)" by fastforce
  consider "sz = 0" | "sz \<noteq> 0" "b = False" | "sz \<noteq> 0" "b = True" "free (pools a ! ci) = []"
    | "sz \<noteq> 0" "b = True" "free (pools a ! ci) \<noteq> []" by auto
  then have "(Alloc a sz = Err ErrZeroLength \<longleftrightarrow> sz = 0) \<and>
    (Alloc a sz = Err ErrTooLarge \<longleftrightarrow> sz \<noteq> 0 \<and> b = False) \<and>
    (Alloc a sz = Err ErrExhausted \<longleftrightarrow> sz \<noteq> 0 \<and> b = True \<and> free (pools a ! ci) = []) \<and> Alloc a sz \<noteq> Panic"
  proof cases
    case 3
    have "ci < length (pools a)"
      using SelectClass_True sel 3(2) assms by (auto simp: arena_inv_def)
    with 3 sel show ?thesis by (simp add: Alloc_def)
  next
    case 4
    with Alloc_cases [OF assms 4(1) _ 4(3)] sel show ?thesis by fastforce
  qed (use sel in \<open>auto simp: Alloc_def\<close>)
  then show "Alloc a sz = Err ErrZeroLength \<longleftrightarrow> sz = 0"
    "Alloc a sz = Err ErrTooLarge \<longleftrightarrow> sz \<noteq> 0 \<and> (\<forall>c \<in> set (classes a). SlabSize c < sz)"
    "Alloc a sz = Err ErrExhausted \<longleftrightarrow>
       sz \<noteq> 0 \<and> (\<exists>ci. SelectClass (classes a) sz = (ci, True) \<and> free (pools a ! ci) = [])"
    "Alloc a sz \<noteq> Panic"
    using sel SelectClass_False [of "classes a" sz] by auto
qed

lemma Alloc_Ok:
  assumes inv: "arena_inv a" and ok: "Alloc a sz = Ok ((h, lo, hi), a')"
  shows "arena_inv a'" "same_frame a a'" "slab_of h \<notin> live a" "live a' = insert (slab_of h) (live a)"
    "valid_handle a' h" "sz \<noteq> 0" "Length h = sz" "SelectClass (classes a) sz = (fst (slab_of h), True)"
    "unat (Offset h) = lo" "lo = slab_start (classes a) (fst (slab_of h)) (snd (slab_of h))"
    "hi = lo + unat (SlabSize (classes a ! fst (slab_of h)))" "hi \<le> length (amem a)" "0 < lo"
    "\<And>s. s \<in> live a \<Longrightarrow> liveSeq (pools a' ! fst s) ! snd s = liveSeq (pools a ! fst s) ! snd s"
proof -
  obtain ci b where sel: "SelectClass (classes a) sz = (ci, b)" by fastforce
  have b: "sz \<noteq> 0" "b" "free (pools a ! ci) \<noteq> []"
    using Alloc_not_Ok [OF inv, of sz] ok sel SelectClass_False [of "classes a" sz] by auto
  from Alloc_cases [OF inv b(1) _ b(3)] sel b(2) ok
  show "arena_inv a'" "same_frame a a'" "slab_of h \<notin> live a" "live a' = insert (slab_of h) (live a)"
    "valid_handle a' h" "sz \<noteq> 0" "Length h = sz" "SelectClass (classes a) sz = (fst (slab_of h), True)"
    "unat (Offset h) = lo" "lo = slab_start (classes a) (fst (slab_of h)) (snd (slab_of h))"
    "hi = lo + unat (SlabSize (classes a ! fst (slab_of h)))" "hi \<le> length (amem a)" "0 < lo"
    using b(1) by auto
  fix s assume "s \<in> live a"
  moreover have "pools a' = (pools a)[ci := \<lparr>free = butlast (free (pools a ! ci)),
      liveSeq = (liveSeq (pools a ! ci))[unat (last (free (pools a ! ci))) := nextSeq a]\<rparr>]"
    "slab_of h = (ci, unat (last (free (pools a ! ci))))" "slab_of h \<notin> live a"
    using Alloc_cases [OF inv b(1) _ b(3)] sel b(2) ok by auto
  ultimately show "liveSeq (pools a' ! fst s) ! snd s = liveSeq (pools a ! fst s) ! snd s"
    using SelectClass_True sel b(2) inv
    by (cases s; cases "fst s = ci") (auto simp: arena_inv_def nth_list_update_eq, metis nth_list_update_neq)
qed

lemma valid_handle_index:
  assumes "arena_inv a" "valid_handle a h"
  shows "slab_id (classes a) (unat (h_class h)) (unat (h_index h))" "Sequence h \<noteq> 0"
    "locate a h = Some (unat (h_class h))"
  using assms live_slab_id [of "unat (h_class h)" "unat (h_index h)" a]
  by (auto simp: valid_handle_def slab_of_def live_def locate_def arena_inv_def slab_id_def word_le_nat_alt)

lemma locate_Some:
  "arena_inv a \<Longrightarrow> locate a h = Some ci \<Longrightarrow>
     ci = unat (h_class h) \<and> slab_id (classes a) ci (unat (h_index h)) \<and>
     unat (h_index h) < length (liveSeq (pools a ! ci))"
  by (auto simp: locate_def arena_inv_def slab_id_def pool_ok_def word_le_nat_alt not_le split: if_splits)

lemma Free_valid:
  assumes inv: "arena_inv a" and v: "valid_handle a h"
  shows "\<exists>a'. Free a h = Ok a' \<and> arena_inv a' \<and> same_frame a a' \<and> live a' = live a - {slab_of h} \<and>
    nextSeq a' = nextSeq a \<and>
    pools a' = (pools a)[fst (slab_of h) := \<lparr>free = free (pools a ! fst (slab_of h)) @ [h_index h],
       liveSeq = (liveSeq (pools a ! fst (slab_of h)))[snd (slab_of h) := 0]\<rparr>]"
proof -
  let ?ci = "unat (h_class h)" and ?j = "unat (h_index h)"
  let ?p = "pools a ! ?ci" and ?c = "classes a ! ?ci"
  note ix = valid_handle_index [OF inv v]
  have i: "pool_ok ?ci ?c ?p" "nextSeq a \<noteq> 0" "occupancy a = sum (slab_bytes (classes a)) (live a)"
    "?j < unat (SlabCount ?c)"
    using inv ix(1) by (auto simp: arena_inv_def slab_id_def)
  have vl: "(?ci, ?j) \<in> live a" "liveSeq ?p ! ?j = Sequence h" "h_owner h = a_id a" "h_Generation h = a_generation a"
    using v by (auto simp: valid_handle_def slab_of_def)
  define a' where "a' = a\<lparr>pools := (pools a)[?ci := \<lparr>free = free ?p @ [h_index h], liveSeq = (liveSeq ?p)[?j := 0]\<rparr>],
      nextSeq := nextSeq a, occupancy := occupancy a + NOT (ucast (SlabSize ?c) - 1)\<rparr>"
  have live': "live a' = live a - {(?ci, ?j)}"
    using live_update [OF inv ix(1), of a' "free ?p @ [h_index h]" 0] by (simp add: a'_def)
  have "occupancy a + NOT (ucast (SlabSize ?c) - 1) = occupancy a - ucast (SlabSize ?c)"
    by (simp add: not_eq_complement)
  also have "\<dots> = sum (slab_bytes (classes a)) (live a')"
    unfolding live' i(3) using vl(1) by (subst sum.remove [of "live a" "(?ci, ?j)"]) (simp_all add: slab_bytes_def)
  finally have "arena_inv a'"
    using pool_ok_free [OF i(1,4)] vl(2) ix(2) i(2)
    by (intro arena_inv_pool_update [OF inv ix(1) a'_def]) simp_all
  moreover have "Free a h = Ok a'"
    using vl ix(2,3) locate_Some [OF inv ix(3)] by (simp add: Free_def Let_def a'_def)
  ultimately show ?thesis
    using live' by (intro exI [of _ a']) (auto simp: same_frame_def a'_def slab_of_def)
qed

lemma Free_invalid:
  assumes "arena_inv a" "\<not> valid_handle a h"
  shows "Free a h = Err ErrInvalidFree"
  using assms locate_Some [OF assms(1), of h]
  by (auto simp: Free_def Let_def valid_handle_def slab_of_def live_def slab_id_def split: option.splits)

section \<open>Construction\<close>

lemma mintArenaID_nonzero: "fst (mintArenaID seq) \<noteq> 0 \<and> snd (mintArenaID seq) = fst (mintArenaID seq)"
  by (induction seq rule: mintArenaID.induct) (subst (1 2 3) mintArenaID.simps, simp add: Let_def)

lemma newClassState_ok:
  "pool_ok ci c (newClassState c (ci = 0))" if "SlabCount c \<noteq> 0"
proof -
  define first where "first = (if ci = 0 then 1 else 0 :: nat)"
  let ?n = "unat (SlabCount c)"
  have un: "unat (of_nat j :: u32) = j" if "j < ?n" for j
    using that unat_u32_less [of "SlabCount c"] by (simp add: unat_of_nat)
  have fr: "free (newClassState c (ci = 0)) = map of_nat (rev [first..<?n])"
    and lv: "liveSeq (newClassState c (ci = 0)) = replicate ?n 0"
    by (simp_all add: newClassState_def first_def)
  have "unat ` set (map of_nat (rev [first..<?n]) :: u32 list) = {first..<?n}"
    using un by (force simp: image_image)
  also have "\<dots> = {j. j < ?n \<and> replicate ?n (0 :: u64) ! j = 0 \<and> allocatable ci j}"
    by (auto simp: first_def allocatable_def)
  finally have "unat ` set (free (newClassState c (ci = 0))) =
      {j. j < ?n \<and> liveSeq (newClassState c (ci = 0)) ! j = 0 \<and> allocatable ci j}"
    by (simp only: fr lv)
  moreover have "inj_on (of_nat :: nat \<Rightarrow> u32) {first..<?n}"
    using un by (metis atLeastLessThan_iff inj_onI)
  then have "distinct (free (newClassState c (ci = 0)))"
    by (simp add: fr distinct_map)
  moreover have "0 < ?n" using that by (simp add: unat_gt_0)
  then have "liveSeq (newClassState c (ci = 0)) ! 0 = 0" by (simp only: lv nth_replicate)
  moreover have "length (liveSeq (newClassState c (ci = 0))) = ?n" by (simp only: lv length_replicate)
  ultimately show ?thesis unfolding pool_ok_def by blast
qed

lemma unat_class_end:
  "unat (ucast (ClassBaseOffset c) + ucast (SlabSize c) * ucast (SlabCount c) :: u64)
     = unat (ClassBaseOffset c) + extent c"
proof -
  have "unat (SlabSize c) * unat (SlabCount c) \<le> 4294967295 * 4294967295"
    using unat_u32_less [of "SlabSize c"] unat_u32_less [of "SlabCount c"] by (intro mult_le_mono) simp_all
  then show ?thesis
    using unat_u32_less [of "ClassBaseOffset c"] unat_extent [of c]
    by (simp add: unat_word_ariths extent_def)
qed

lemma maxSlabExtentFrom_le:
  "unat m \<le> n \<Longrightarrow> \<forall>c \<in> set cs. unat (ClassBaseOffset c) + extent c \<le> n \<Longrightarrow> unat (maxSlabExtentFrom m cs) \<le> n"
  by (induction m cs rule: maxSlabExtentFrom.induct) (auto simp: Let_def unat_class_end)

lemma maxSlabExtent_le:
  assumes "geometry_ok cs n"
  shows "unat (maxSlabExtent cs) \<le> n"
proof -
  have "unat (ClassBaseOffset c) + extent c \<le> n" if "c \<in> set cs" for c
  proof -
    from that obtain i where i: "i < length cs" "c = cs ! i" by (auto simp: in_set_conv_nth)
    have "class_total (take (Suc i) cs) \<le> class_total cs"
      using class_total_take_mono [of "Suc i" "length cs" cs] i by simp
    with geometry_base [OF assms i(1)] class_total_take_Suc [OF i(1)] assms i(2) show ?thesis
      by (simp add: geometry_ok_def)
  qed
  then show ?thesis by (simp add: maxSlabExtent_def maxSlabExtentFrom_le)
qed

lemma New_Ok:
  assumes g: "geometry_ok cs (length m)"
  shows "\<exists>a seq'. New seq m cs gen = Ok (a, seq') \<and> arena_inv a \<and> live a = {} \<and> a_id a \<noteq> 0 \<and>
    classes a = cs \<and> amem a = m"
proof -
  have c: "cs \<noteq> []" "\<forall>c \<in> set cs. SlabCount c \<noteq> 0" using g by (auto simp: geometry_ok_def classes_ok_def)
  obtain i where i: "mintArenaID seq = (i, i)" "i \<noteq> 0"
    using mintArenaID_nonzero [of seq] by (cases "mintArenaID seq") auto
  define a where "a = \<lparr>amem = m, classes = cs,
     pools = map2 (\<lambda>c k. newClassState c (k = 0)) cs [0..<length cs],
     a_generation = Truncated gen, nextSeq = 1, a_id = i, occupancy = 0\<rparr>"
  have pool: "pools a ! k = newClassState (cs ! k) (k = 0)" if "k < length cs" for k
    using that by (simp add: a_def)
  have "live a = {}"
    using pool by (auto simp: live_def newClassState_def Let_def) (auto simp: a_def newClassState_def Let_def)
  moreover have "arena_inv a"
    using g c pool newClassState_ok \<open>live a = {}\<close> unfolding arena_inv_def by (auto simp: a_def)
  moreover have "New seq m cs gen = Ok (a, i)"
    using c i maxSlabExtent_le [OF g] by (auto simp: New_def a_def)
  ultimately show ?thesis using i(2) by (auto simp: a_def)
qed

section \<open>The allocator interface\<close>

text \<open>
  What the writer relies on when it stages and reclaims payloads through the Go interface
  \<^verbatim>\<open>payloadArena\<close>: an allocation takes a slab nobody holds, a handle stays valid until it is freed,
  and a handle that is not valid is refused.
\<close>

datatype arena_op = AllocOp u32 | FreeOp nat

text \<open>
  A client that keeps the handles it was given: an allocation appends one, a free returns the one at
  a position. Refused allocations leave the client as it was.
\<close>

fun arena_drive :: "('a \<Rightarrow> u32 \<Rightarrow> (arena_error, (SlabHandle \<times> nat \<times> nat) \<times> 'a) outcome) \<Rightarrow>
    ('a \<Rightarrow> SlabHandle \<Rightarrow> (arena_error, 'a) outcome) \<Rightarrow> 'a \<Rightarrow> SlabHandle list \<Rightarrow> arena_op list \<Rightarrow>
    (arena_error, SlabHandle list \<times> 'a) outcome" where
  "arena_drive alloc fre a held [] = Ok (held, a)"
| "arena_drive alloc fre a held (AllocOp n # ops) =
     (case alloc a n of
        Ok ((h, _), a') \<Rightarrow> arena_drive alloc fre a' (held @ [h]) ops
      | Err _ \<Rightarrow> arena_drive alloc fre a held ops
      | Panic \<Rightarrow> Panic)"
| "arena_drive alloc fre a held (FreeOp k # ops) =
     (if k < length held
      then andThen (fre a (held ! k)) (\<lambda>a'. arena_drive alloc fre a' (take k held @ drop (Suc k) held) ops)
      else arena_drive alloc fre a held ops)"

locale payload_arena =
  fixes alloc :: "'a \<Rightarrow> u32 \<Rightarrow> (arena_error, (SlabHandle \<times> nat \<times> nat) \<times> 'a) outcome"
    and fre :: "'a \<Rightarrow> SlabHandle \<Rightarrow> (arena_error, 'a) outcome"
    and inv :: "'a \<Rightarrow> bool"
    and occupied :: "'a \<Rightarrow> (nat \<times> nat) set"
    and valid :: "'a \<Rightarrow> SlabHandle \<Rightarrow> bool"
  assumes alloc_total: "inv a \<Longrightarrow> alloc a n \<noteq> Panic"
    and alloc_ok: "inv a \<Longrightarrow> alloc a n = Ok ((h, r), a') \<Longrightarrow>
        inv a' \<and> valid a' h \<and> slab_of h \<notin> occupied a \<and> occupied a' = insert (slab_of h) (occupied a) \<and>
        Length h = n \<and> n \<noteq> 0 \<and> Offset h \<noteq> 0"
    and alloc_keeps: "inv a \<Longrightarrow> alloc a n = Ok ((h, r), a') \<Longrightarrow> valid a h' \<Longrightarrow> valid a' h'"
    and valid_occupied: "inv a \<Longrightarrow> valid a h \<Longrightarrow> slab_of h \<in> occupied a"
    and free_ok: "inv a \<Longrightarrow> valid a h \<Longrightarrow>
        \<exists>a'. fre a h = Ok a' \<and> inv a' \<and> occupied a' = occupied a - {slab_of h} \<and>
          (\<forall>h'. valid a h' \<and> slab_of h' \<noteq> slab_of h \<longrightarrow> valid a' h')"
    and free_refused: "inv a \<Longrightarrow> \<not> valid a h \<Longrightarrow> fre a h = Err ErrInvalidFree"
begin

text \<open>A client that holds exactly the valid handles: one per occupied slab.\<close>

definition holds_all :: "'a \<Rightarrow> SlabHandle list \<Rightarrow> bool" where
  "holds_all a hs \<longleftrightarrow> list_all (valid a) hs \<and> distinct (map slab_of hs) \<and> occupied a = slab_of ` set hs"

lemma holds_all_alloc:
  assumes "inv a" "holds_all a hs" "alloc a n = Ok ((h, r), a')"
  shows "holds_all a' (hs @ [h])"
  using alloc_ok [OF assms(1,3)] alloc_keeps [OF assms(1,3)] assms(2)
  by (auto simp: holds_all_def list_all_iff)

lemma holds_all_free:
  assumes "inv a" "holds_all a hs" "k < length hs"
  shows "\<exists>a'. fre a (hs ! k) = Ok a' \<and> inv a' \<and> holds_all a' (take k hs @ drop (Suc k) hs)"
proof -
  define us vs where "us = take k hs" and "vs = drop (Suc k) hs"
  define x where "x = hs ! k"
  have hs: "hs = us @ x # vs" unfolding us_def vs_def x_def using assms(3) by (rule id_take_nth_drop)
  have v: "valid a x" and va: "list_all (valid a) (us @ vs)" and d: "distinct (map slab_of (us @ vs))"
    and nx: "slab_of x \<notin> slab_of ` set (us @ vs)" and occ: "occupied a = insert (slab_of x) (slab_of ` set (us @ vs))"
    using assms(2) by (auto simp: holds_all_def hs)
  from free_ok [OF assms(1) v] obtain a' where a': "fre a x = Ok a'" "inv a'"
    "occupied a' = occupied a - {slab_of x}" "\<forall>h'. valid a h' \<and> slab_of h' \<noteq> slab_of x \<longrightarrow> valid a' h'" by blast
  have "list_all (valid a') (us @ vs)"
    using a'(4) va nx unfolding list_all_iff by (metis imageI)
  moreover have "occupied a' = slab_of ` set (us @ vs)"
    using a'(3) occ nx by auto
  ultimately show ?thesis
    using a' d unfolding holds_all_def x_def us_def vs_def by blast
qed

lemma drive_holds_all:
  "inv a \<Longrightarrow> holds_all a hs \<Longrightarrow>
     \<exists>hs' a'. arena_drive alloc fre a hs ops = Ok (hs', a') \<and> inv a' \<and> holds_all a' hs'"
proof (induction ops arbitrary: a hs)
  case Nil
  then show ?case by simp
next
  case (Cons op ops)
  show ?case
  proof (cases op)
    case (AllocOp n)
    show ?thesis
    proof (cases "alloc a n")
      case (Ok x)
      then obtain h r a' where x: "alloc a n = Ok ((h, r), a')" by (metis prod.collapse)
      with Cons.IH [of a' "hs @ [h]"] Cons.prems alloc_ok [OF Cons.prems(1) x] holds_all_alloc [OF Cons.prems x]
      show ?thesis by (auto simp: AllocOp)
    next
      case (Err e)
      with Cons AllocOp show ?thesis by simp
    next
      case Panic
      with alloc_total [OF Cons.prems(1)] show ?thesis by simp
    qed
  next
    case (FreeOp k)
    with Cons holds_all_free [OF Cons.prems, of k] show ?thesis
      by (cases "k < length hs") auto
  qed
qed

end

lemma valid_handle_mono:
  assumes "valid_handle a h'" "same_frame a a'" "slab_of h' \<in> live a'"
    "liveSeq (pools a' ! fst (slab_of h')) ! snd (slab_of h') = liveSeq (pools a ! fst (slab_of h')) ! snd (slab_of h')"
  shows "valid_handle a' h'"
  using assms by (simp add: valid_handle_def same_frame_def)

interpretation slabs: payload_arena Alloc Free arena_inv live valid_handle
proof unfold_locales
  fix a n h r a' h'
  assume inv: "arena_inv a"
  show "Alloc a n \<noteq> Panic" by (rule Alloc_not_Ok(4) [OF inv])
  { assume ok: "Alloc a n = Ok ((h, r), a')"
    obtain lo hi where r: "r = (lo, hi)" by (cases r)
    note A = Alloc_Ok [OF inv ok [unfolded r]]
    from A show "arena_inv a' \<and> valid_handle a' h \<and> slab_of h \<notin> live a \<and> live a' = insert (slab_of h) (live a) \<and>
        Length h = n \<and> n \<noteq> 0 \<and> Offset h \<noteq> 0" by auto
    { assume v: "valid_handle a h'"
      then have "slab_of h' \<in> live a" by (simp add: valid_handle_def)
      with A(4) A(14) [OF this] valid_handle_mono [OF v A(2)] show "valid_handle a' h'" by simp } }
  { assume "valid_handle a h" then show "slab_of h \<in> live a" by (simp add: valid_handle_def) }
  { assume v: "valid_handle a h"
    from Free_valid [OF inv v] obtain b where b: "Free a h = Ok b" "arena_inv b" "same_frame a b"
      "live b = live a - {slab_of h}"
      "pools b = (pools a)[fst (slab_of h) := \<lparr>free = free (pools a ! fst (slab_of h)) @ [h_index h],
         liveSeq = (liveSeq (pools a ! fst (slab_of h)))[snd (slab_of h) := 0]\<rparr>]" by blast
    have "valid_handle b h2" if v2: "valid_handle a h2" "slab_of h2 \<noteq> slab_of h" for h2
    proof (rule valid_handle_mono [OF v2(1) b(3)])
      show "slab_of h2 \<in> live b" using v2 b(4) by (simp add: valid_handle_def)
      show "liveSeq (pools b ! fst (slab_of h2)) ! snd (slab_of h2) = liveSeq (pools a ! fst (slab_of h2)) ! snd (slab_of h2)"
        using v2(2) b(5) by (cases "fst (slab_of h2) = fst (slab_of h)"; cases "fst (slab_of h) < length (pools a)")
          (auto simp: prod_eq_iff list_update_beyond not_less)
    qed
    with b show "\<exists>a'. Free a h = Ok a' \<and> arena_inv a' \<and> live a' = live a - {slab_of h} \<and>
        (\<forall>h'. valid_handle a h' \<and> slab_of h' \<noteq> slab_of h \<longrightarrow> valid_handle a' h')" by blast }
  { assume "\<not> valid_handle a h" then show "Free a h = Err ErrInvalidFree" by (rule Free_invalid [OF inv]) }
qed

section \<open>Properties\<close>

lemma Validate_iff:
  assumes "arena_inv a"
  shows "Validate a h = (if valid_handle a h then Ok () else Err ErrStaleHandle)"
proof (cases "locate a h")
  case None
  then have "\<not> valid_handle a h" using valid_handle_index(3) [OF assms, of h] by auto
  with None show ?thesis by (simp add: Validate_def)
next
  case (Some ci)
  from locate_Some [OF assms this] have "ci = unat (h_class h)" "slab_id (classes a) ci (unat (h_index h))"
    "unat (h_index h) < length (liveSeq (pools a ! ci))" by auto
  with Some show ?thesis
    by (auto simp: Validate_def valid_handle_def slab_of_def live_def slab_id_def)
qed

lemma alloc_free_restores:
  assumes inv: "arena_inv a" and ok: "Alloc a sz = Ok ((g, r), b)"
  shows "\<exists>b'. Free b g = Ok b' \<and> pools b' = pools a \<and> occupancy b' = occupancy a"
proof -
  obtain lo hi where r: "r = (lo, hi)" by (cases r)
  note A = Alloc_Ok [OF inv ok [unfolded r]]
  obtain ci where sel: "SelectClass (classes a) sz = (ci, True)" "sz \<noteq> 0" using A(6,8) by auto
  let ?p = "pools a ! ci"
  have ne: "free ?p \<noteq> []" using Alloc_not_Ok(3) [OF inv, of sz] ok sel by auto
  have ci: "ci < length (pools a)" using SelectClass_True [OF sel(1)] inv by (simp add: arena_inv_def)
  have P: "pools b = (pools a)[ci := \<lparr>free = butlast (free ?p), liveSeq = (liveSeq ?p)[unat (last (free ?p)) := nextSeq a]\<rparr>]"
    and sl: "slab_of g = (ci, unat (last (free ?p)))"
    using Alloc_cases [OF inv sel(2,1) ne] ok by auto
  then have idx: "h_index g = last (free ?p)" by (simp add: slab_of_def unat_inject)
  have z: "liveSeq ?p ! unat (last (free ?p)) = 0"
    using pool_ok_alloc(2) [OF _ ne, of ci "classes a ! ci" 1] inv ci by (simp add: arena_inv_def)
  from Free_valid [OF A(1,5)] obtain b' where b': "Free b g = Ok b'" "arena_inv b'" "same_frame b b'"
    "live b' = live b - {slab_of g}"
    "pools b' = (pools b)[ci := \<lparr>free = free (pools b ! ci) @ [h_index g], liveSeq = (liveSeq (pools b ! ci))[unat (last (free ?p)) := 0]\<rparr>]"
    using sl by auto
  have "pools b' = (pools a)[ci := \<lparr>free = free ?p, liveSeq = liveSeq ?p\<rparr>]"
    using b'(5) P ci idx ne z by simp (metis list_update_id)
  moreover have "\<lparr>free = free ?p, liveSeq = liveSeq ?p\<rparr> = ?p" by simp
  ultimately have "pools b' = pools a" by (simp only: list_update_id)
  moreover have "occupancy b' = occupancy a"
    using inv b'(2-4) A(2-4) by (simp add: arena_inv_def same_frame_def)
  ultimately show ?thesis using b'(1) by blast
qed

text \<open>The byte range a handle's slab occupies in the arena.\<close>

definition handle_range :: "Arena \<Rightarrow> SlabHandle \<Rightarrow> nat \<times> nat" where
  "handle_range a h = (let (i, j) = slab_of h; lo = slab_start (classes a) i j in (lo, lo + unat (SlabSize (classes a ! i))))"

definition ranges_disjoint :: "nat \<times> nat \<Rightarrow> nat \<times> nat \<Rightarrow> bool" where
  "ranges_disjoint r q \<longleftrightarrow> snd r \<le> fst q \<or> snd q \<le> fst r"

lemma valid_ranges_disjoint:
  assumes "arena_inv a" "valid_handle a h" "valid_handle a h'" "slab_of h \<noteq> slab_of h'"
  shows "ranges_disjoint (handle_range a h) (handle_range a h')" "snd (handle_range a h) \<le> length (amem a)"
proof -
  have g: "geometry_ok (classes a) (length (amem a))" using assms(1) by (simp add: arena_inv_def)
  have id: "slab_id (classes a) (fst (slab_of h)) (snd (slab_of h))"
    "slab_id (classes a) (fst (slab_of h')) (snd (slab_of h'))"
    using assms(2,3) live_slab_id by (auto simp: valid_handle_def)
  show "ranges_disjoint (handle_range a h) (handle_range a h')"
    using slabs_disjoint [OF g id] assms(4)
    by (auto simp: ranges_disjoint_def handle_range_def Let_def split_beta prod_eq_iff)
  show "snd (handle_range a h) \<le> length (amem a)"
    using slab_in_bounds [OF g id(1)] by (simp add: handle_range_def Let_def split_beta)
qed

lemma occupancy_held:
  assumes "arena_inv a" "slabs.holds_all a hs"
  shows "occupancy a = sum_list (map (\<lambda>h. ucast (SlabSize (classes a ! fst (slab_of h)))) hs)"
proof -
  have d: "distinct (map slab_of hs)" and l: "live a = set (map slab_of hs)"
    using assms(2) by (auto simp: slabs.holds_all_def)
  have "occupancy a = sum (slab_bytes (classes a)) (set (map slab_of hs))"
    using assms(1) l by (simp add: arena_inv_def)
  also have "\<dots> = sum_list (map (slab_bytes (classes a)) (map slab_of hs))"
    using d by (rule sum_list_distinct_conv_sum_set [symmetric])
  finally show ?thesis by (simp add: comp_def slab_bytes_def)
qed

lemma Alloc_frame: "Alloc a n = Ok ((h, r), a') \<Longrightarrow> same_frame a a'"
  by (auto simp: Alloc_def same_frame_def nextAllocSeq_def Let_def split: prod.splits bool.splits if_splits)

lemma Free_frame: "Free a h = Ok a' \<Longrightarrow> same_frame a a'"
  by (auto simp: Free_def same_frame_def Let_def split: if_splits option.splits)

lemma same_frame_trans: "same_frame a b \<Longrightarrow> same_frame b c \<Longrightarrow> same_frame a c"
  by (simp add: same_frame_def)

lemma arena_drive_frame: "arena_drive Alloc Free a hs ops = Ok (hs', a') \<Longrightarrow> same_frame a a'"
proof (induction ops arbitrary: a hs)
  case Nil
  then show ?case by (simp add: same_frame_def)
next
  case (Cons op ops)
  then show ?case
    by (cases op)
      (auto simp: outcome_simps dest!: Alloc_frame Free_frame intro: same_frame_trans
        split: outcome.splits if_splits)
qed


definition sample_classes :: "SizeClass list" where
  "sample_classes = [\<lparr>SlabSize = 64, SlabCount = 3, ClassBaseOffset = 0\<rparr>,
     \<lparr>SlabSize = 4096, SlabCount = 2, ClassBaseOffset = 192\<rparr>]"

lemma sample_geometry: "geometry_ok sample_classes (length (replicate 8384 (0 :: byte)))"
  by (simp add: geometry_ok_def sample_classes_def classes_ok_def class_total_def extent_def)

lemma sample_arena:
  obtains a seq' where "New 0 (replicate 8384 0) sample_classes 7 = Ok (a, seq')" "arena_inv a" "live a = {}"
    "classes a = sample_classes" "a_id a \<noteq> 0"
  using New_Ok [OF sample_geometry, of 0 7] that by blast


text \<open>an allocation answers each request in one way: zero length and oversized requests are refused, a
  request whose smallest fitting class is used up is refused without touching other classes, and
  otherwise it hands out a slab of that class that nobody holds, whole and in bounds, never the one
  at offset zero, adding exactly its size to the occupancy.\<close>

theorem alloc_outcomes:
  assumes "arena_inv a"
  shows "case Alloc a sz of
      Err e \<Rightarrow> e = ErrZeroLength \<and> sz = 0 \<or>
        e = ErrTooLarge \<and> sz \<noteq> 0 \<and> (\<forall>c \<in> set (classes a). SlabSize c < sz) \<or>
        e = ErrExhausted \<and> sz \<noteq> 0 \<and>
          (\<exists>ci. ServingClass a sz = (ci, True) \<and>
             (\<forall>j. slab_id (classes a) ci j \<and> allocatable ci j \<longrightarrow> (ci, j) \<in> live a))
    | Ok ((h, lo, hi), a') \<Rightarrow> arena_inv a' \<and> slab_of h \<notin> live a \<and> live a' = insert (slab_of h) (live a) \<and>
        ServingClass a sz = (fst (slab_of h), True) \<and> unat (Offset h) = lo \<and> 0 < lo \<and> lo + unat sz \<le> hi \<and>
        handle_range a h = (lo, hi) \<and> hi \<le> length (amem a) \<and>
        OccupancyBytes a' = OccupancyBytes a + ucast (SlabSize (classes a ! fst (slab_of h)))
    | Panic \<Rightarrow> False"
proof (cases "Alloc a sz")
  case (Ok x)
  obtain h lo hi a' where x: "x = ((h, lo, hi), a')" by (metis prod.collapse)
  note A = Alloc_Ok [OF assms Ok [unfolded x]]
  have "sz \<le> SlabSize (classes a ! fst (slab_of h))" using SelectClass_True [OF A(8)] by simp
  then have "lo + unat sz \<le> hi" using A(11) by (simp add: word_le_nat_alt)
  moreover have "OccupancyBytes a' = OccupancyBytes a + ucast (SlabSize (classes a ! fst (slab_of h)))"
    using assms A(1-4) by (simp add: arena_inv_def OccupancyBytes_def same_frame_def slab_bytes_def add.commute)
  moreover have "handle_range a h = (lo, hi)" using A(10,11) by (simp add: handle_range_def Let_def split_beta)
  ultimately show ?thesis using A by (simp add: Ok x ServingClass_def)
next
  case (Err e)
  have full: "(ci, j) \<in> live a"
    if "SelectClass (classes a) sz = (ci, True)" "free (pools a ! ci) = []" "slab_id (classes a) ci j" "allocatable ci j" for ci j
    using assms that SelectClass_True [OF that(1)]
    by (fastforce simp: arena_inv_def pool_ok_def live_def slab_id_def)
  have "e = ErrZeroLength \<or> e = ErrTooLarge \<or> e = ErrExhausted"
    using Err by (auto simp: Alloc_def Let_def split: prod.splits bool.splits if_splits)
  with Err Alloc_not_Ok [OF assms, of sz] full show ?thesis by (auto simp: ServingClass_def)
next
  case Panic
  with Alloc_not_Ok(4) [OF assms] show ?thesis by simp
qed

theorem alloc_outcomes_witness:
  "\<exists>a h lo hi a'. arena_inv a \<and> Alloc a 10 = Ok ((h, lo, hi), a') \<and> 0 < lo \<and> arena_inv a'"
proof -
  obtain a seq' where a: "New 0 (replicate 8384 0) sample_classes 7 = Ok (a, seq')" "arena_inv a" "live a = {}"
    "classes a = sample_classes" by (rule sample_arena)
  have "SelectClass (classes a) 10 = (0, True)" by (simp add: a(4) sample_classes_def SelectClass_def)
  moreover have "slab_id (classes a) 0 1 \<and> allocatable 0 1"
    by (simp add: a(4) sample_classes_def slab_id_def allocatable_def)
  ultimately show ?thesis
    using alloc_outcomes [OF a(2), of 10] a(2,3)
    by (cases "Alloc a 10") (auto simp: ServingClass_def a(4) sample_classes_def)
qed

text \<open>Free accepts a handle exactly when it names a live slab of this arena with the sequence stamped at
  its allocation, as Validate reports it; otherwise the arena stays as it was. Freeing what was just
  allocated restores the free lists and the occupancy.\<close>

theorem free_outcomes:
  assumes "arena_inv a"
  shows "(if Validate a h = Ok ()
      then \<exists>a'. Free a h = Ok a' \<and> arena_inv a' \<and> live a' = live a - {slab_of h} \<and> slab_of h \<in> live a \<and>
             Free a' h = Err ErrInvalidFree
      else Free a h = Err ErrInvalidFree) \<and>
    (Alloc a sz = Ok ((g, r), b) \<longrightarrow>
       (\<exists>b'. Free b g = Ok b' \<and> pools b' = pools a \<and> OccupancyBytes b' = OccupancyBytes a))"
proof (intro conjI impI)
  show "if Validate a h = Ok ()
      then \<exists>a'. Free a h = Ok a' \<and> arena_inv a' \<and> live a' = live a - {slab_of h} \<and> slab_of h \<in> live a \<and>
             Free a' h = Err ErrInvalidFree
      else Free a h = Err ErrInvalidFree"
  proof (cases "valid_handle a h")
    case True
    from Free_valid [OF assms True] obtain a' where
      a': "Free a h = Ok a'" "arena_inv a'" "live a' = live a - {slab_of h}" by blast
    then have "\<not> valid_handle a' h" by (simp add: valid_handle_def)
    then have "Free a' h = Err ErrInvalidFree" by (rule Free_invalid [OF a'(2)])
    moreover have "slab_of h \<in> live a" using True by (simp add: valid_handle_def)
    ultimately show ?thesis using a' True Validate_iff [OF assms, of h] by simp
  next
    case False
    then show ?thesis using Free_invalid [OF assms] Validate_iff [OF assms, of h] by simp
  qed
next
  assume ok: "Alloc a sz = Ok ((g, r), b)"
  show "\<exists>b'. Free b g = Ok b' \<and> pools b' = pools a \<and> OccupancyBytes b' = OccupancyBytes a"
    using alloc_free_restores [OF assms ok] by (simp add: OccupancyBytes_def)
qed

theorem free_outcomes_witness:
  "\<exists>a. arena_inv a \<and> Validate a \<lparr>Offset = 64, Length = 1, h_Generation = 7, Sequence = 1, h_class = 0, h_index = 1,
      h_owner = 0\<rparr> \<noteq> Ok () \<and>
     Free a \<lparr>Offset = 64, Length = 1, h_Generation = 7, Sequence = 1, h_class = 0, h_index = 1, h_owner = 0\<rparr>
       = Err ErrInvalidFree"
proof -
  obtain a seq' where a: "New 0 (replicate 8384 0) sample_classes 7 = Ok (a, seq')" "arena_inv a" "a_id a \<noteq> 0"
    by (rule sample_arena)
  let ?h = "\<lparr>Offset = 64, Length = 1, h_Generation = 7, Sequence = 1, h_class = 0, h_index = 1, h_owner = 0\<rparr>"
  have "Validate a ?h \<noteq> Ok ()" using a(3) by (simp add: Validate_def)
  with free_outcomes [OF a(2), of ?h] a(2) show ?thesis by auto
qed

end
