(* ===== verification/Recovery.thy ===== *)
theory Recovery
  imports Descriptor Layout Poison
begin

text \<open>
  Generations across restarts and the two escalation rules of
  \<^verbatim>\<open>src/internal/transport/shm/recovery.go\<close>. Times and durations are nanosecond counts.
\<close>

section \<open>Generations\<close>

definition bumpGeneration :: "u64 \<Rightarrow> u64 option" where
  "bumpGeneration current = (if current = - 1 then None else Some (current + 1))"

definition discardIfStale :: "Descriptor \<Rightarrow> u64 \<Rightarrow> bool" where
  "discardIfStale d current = Stale current (DescGeneration d)"

definition truncatedGenerationDelta :: "u64 \<Rightarrow> u32 \<Rightarrow> int" where
  "truncatedGenerationDelta current stamp = sint (Truncated current - stamp)"

definition detectLateWrite :: "Descriptor \<Rightarrow> u64 \<Rightarrow> bool \<times> bool" where
  "detectLateWrite d current =
     (let delta = truncatedGenerationDelta current (DescGeneration d) in
      if delta > 0 then (True, False) else if delta < 0 then (False, True) else (False, False))"

section \<open>The escalation policy\<close>

abbreviation (input) DefaultGraceWindow :: int where "DefaultGraceWindow \<equiv> 5000000000"
abbreviation (input) DefaultSustainedRateWindow :: int where "DefaultSustainedRateWindow \<equiv> 1000000000"
abbreviation (input) DefaultSustainedRateThreshold :: int where "DefaultSustainedRateThreshold \<equiv> 20"
abbreviation (input) DefaultConsumeFaultRunThreshold :: int where "DefaultConsumeFaultRunThreshold \<equiv> 1024"

record EscalationConfig =
  GraceWindow :: int
  RateWindow :: int
  RateThreshold :: int
  ConsumeFaultRunThreshold :: int

record EscalationPolicy =
  ep_cfg :: EscalationConfig
  bumpedAt :: int
  recent :: "int list"
  consumeFaultRun :: u64

definition NewEscalationPolicy :: "EscalationConfig \<Rightarrow> int \<Rightarrow> EscalationPolicy" where
  "NewEscalationPolicy cfg at' =
     (let cfg = (if GraceWindow cfg \<le> 0 then cfg\<lparr>GraceWindow := DefaultGraceWindow\<rparr> else cfg);
          cfg = (if RateWindow cfg \<le> 0 then cfg\<lparr>RateWindow := DefaultSustainedRateWindow\<rparr> else cfg);
          cfg = (if RateThreshold cfg \<le> 0 then cfg\<lparr>RateThreshold := DefaultSustainedRateThreshold\<rparr> else cfg);
          cfg = (if ConsumeFaultRunThreshold cfg = 0
                 then cfg\<lparr>ConsumeFaultRunThreshold := DefaultConsumeFaultRunThreshold\<rparr> else cfg) in
      \<lparr>ep_cfg = cfg, bumpedAt = at', recent = [], consumeFaultRun = 0\<rparr>)"

fun evictBefore :: "int list \<Rightarrow> int \<Rightarrow> int list" where
  "evictBefore [] cutoff = []"
| "evictBefore (e # es) cutoff = (if e < cutoff then evictBefore es cutoff else e # es)"

definition Observe ::
  "EscalationPolicy \<Rightarrow> sync \<Rightarrow> int \<Rightarrow> u32 \<Rightarrow> u64 \<Rightarrow> (err, EscalationPolicy \<times> sync) outcome" where
  "Observe p s now stamp current =
     (let delta = truncatedGenerationDelta current stamp in
      if delta = 0 then Ok (p, s)
      else if delta < 0 \<or> delta \<ge> 2
      then andThen (Set s PoisonPeerCrash) (\<lambda>(_, s'). Ok (p, s'))
      else if now - bumpedAt p \<ge> GraceWindow (ep_cfg p) then
        let kept = evictBefore (recent p @ [now]) (now - RateWindow (ep_cfg p));
            p' = p\<lparr>recent := kept\<rparr> in
        if int (length kept) \<ge> RateThreshold (ep_cfg p)
        then andThen (Set s PoisonPeerCrash) (\<lambda>(_, s'). Ok (p', s'))
        else Ok (p', s)
      else Ok (p, s))"

definition ObserveConsumeFault ::
  "EscalationPolicy \<Rightarrow> sync \<Rightarrow> int \<Rightarrow> (err, EscalationPolicy \<times> sync) outcome" where
  "ObserveConsumeFault p s now =
     (if ConsumeFaultRunThreshold (ep_cfg p) < 0 then Ok (p, s)
      else let run = consumeFaultRun p + 1; p' = p\<lparr>consumeFaultRun := run\<rparr> in
        if run < word_of_int (ConsumeFaultRunThreshold (ep_cfg p)) then Ok (p', s)
        else if now - bumpedAt p \<ge> GraceWindow (ep_cfg p)
        then andThen (Set s PoisonGeneric) (\<lambda>(_, s'). Ok (p', s'))
        else Ok (p', s))"

definition ObserveConsumeSuccess :: "EscalationPolicy \<Rightarrow> EscalationPolicy" where
  "ObserveConsumeSuccess p = (if consumeFaultRun p \<noteq> 0 then p\<lparr>consumeFaultRun := 0\<rparr> else p)"

text \<open>A history of the events one consumer feeds to its policy.\<close>

datatype esc_event = Discard int u32 | ConsumeFaultAt int | Delivered

fun policy_step ::
  "u64 \<Rightarrow> EscalationPolicy \<times> sync \<Rightarrow> esc_event \<Rightarrow> (err, EscalationPolicy \<times> sync) outcome" where
  "policy_step current (p, s) (Discard now stamp) = Observe p s now stamp current"
| "policy_step current (p, s) (ConsumeFaultAt now) = ObserveConsumeFault p s now"
| "policy_step current (p, s) Delivered = Ok (ObserveConsumeSuccess p, s)"

fun policy_run ::
  "u64 \<Rightarrow> EscalationPolicy \<times> sync \<Rightarrow> esc_event list \<Rightarrow> (err, EscalationPolicy \<times> sync) outcome" where
  "policy_run current st [] = Ok st"
| "policy_run current st (e # es) = andThen (policy_step current st e) (\<lambda>st'. policy_run current st' es)"

section \<open>The documented rule table, over whole histories\<close>

text \<open>
  The reference reads the complete history: the one-behind discards after the grace window, and the
  consume faults since the last delivery. It keeps no window and no counter.
\<close>

fun late_time :: "EscalationConfig \<Rightarrow> int \<Rightarrow> u64 \<Rightarrow> esc_event \<Rightarrow> int list" where
  "late_time cfg at' current (Discard now stamp) =
     (if truncatedGenerationDelta current stamp = 1 \<and> now - at' \<ge> GraceWindow cfg then [now] else [])"
| "late_time cfg at' current _ = []"

definition late_times :: "EscalationConfig \<Rightarrow> int \<Rightarrow> u64 \<Rightarrow> esc_event list \<Rightarrow> int list" where
  "late_times cfg at' current es = concat (map (late_time cfg at' current) es)"

fun is_fault :: "esc_event \<Rightarrow> bool" where
  "is_fault (ConsumeFaultAt _) = True"
| "is_fault _ = False"

definition fault_run :: "esc_event list \<Rightarrow> nat" where
  "fault_run es = length (filter is_fault (takeWhile (\<lambda>e. e \<noteq> Delivered) (rev es)))"

fun alarm :: "EscalationConfig \<Rightarrow> int \<Rightarrow> u64 \<Rightarrow> esc_event list \<Rightarrow> esc_event \<Rightarrow> PoisonCause" where
  "alarm cfg at' current before (Discard now stamp) =
     (let delta = truncatedGenerationDelta current stamp;
          late = late_times cfg at' current (before @ [Discard now stamp]) in
      if delta < 0 \<or> delta \<ge> 2 then PoisonPeerCrash
      else if delta = 1 \<and> now - at' \<ge> GraceWindow cfg
              \<and> int (length (filter (\<lambda>t. now - RateWindow cfg \<le> t) late)) \<ge> RateThreshold cfg
      then PoisonPeerCrash else PoisonNone)"
| "alarm cfg at' current before (ConsumeFaultAt now) =
     (if ConsumeFaultRunThreshold cfg \<ge> 0 \<and> now - at' \<ge> GraceWindow cfg
         \<and> int (fault_run (before @ [ConsumeFaultAt now])) \<ge> ConsumeFaultRunThreshold cfg
      then PoisonGeneric else PoisonNone)"
| "alarm cfg at' current before Delivered = PoisonNone"

fun verdict :: "EscalationConfig \<Rightarrow> int \<Rightarrow> u64 \<Rightarrow> esc_event list \<Rightarrow> esc_event list \<Rightarrow> PoisonCause" where
  "verdict cfg at' current before [] = PoisonNone"
| "verdict cfg at' current before (e # es) =
     (let a = alarm cfg at' current before e in
      if a \<noteq> PoisonNone then a else verdict cfg at' current (before @ [e]) es)"

definition discard_times :: "esc_event list \<Rightarrow> int list" where
  "discard_times es = concat (map (\<lambda>e. case e of Discard t _ \<Rightarrow> [t] | _ \<Rightarrow> []) es)"

section \<open>Facts\<close>

lemma Set_escalate [simp]:
  "Set s PoisonPeerCrash = Ok (s_poison s = 0, wakeBoth (if s_poison s = 0 then s\<lparr>s_poison := PoisonPeerCrash\<rparr> else s))"
  "Set s PoisonGeneric = Ok (s_poison s = 0, wakeBoth (if s_poison s = 0 then s\<lparr>s_poison := PoisonGeneric\<rparr> else s))"
  by (simp_all add: Set_def Let_def)

lemma wakeBoth_poison [simp]: "s_poison (wakeBoth s) = s_poison s"
  by (simp add: wakeBoth_def)

lemma evictBefore_sorted:
  "sorted es \<Longrightarrow> evictBefore es cutoff = filter (\<lambda>e. cutoff \<le> e) es"
proof (induction es cutoff rule: evictBefore.induct)
  case (2 e es cutoff)
  have "filter (\<lambda>x. cutoff \<le> x) es = es" if "cutoff \<le> e"
    using 2(2) that by (auto intro!: filter_True)
  with 2 show ?case by auto
qed simp

lemma late_times_simps [simp]:
  "late_times cfg at' current [] = []"
  "late_times cfg at' current (es @ [e]) = late_times cfg at' current es @ late_time cfg at' current e"
  by (simp_all add: late_times_def)

lemma fault_run_simps [simp]:
  "fault_run [] = 0"
  "fault_run (es @ [ConsumeFaultAt t]) = Suc (fault_run es)"
  "fault_run (es @ [Discard t st]) = fault_run es"
  "fault_run (es @ [Delivered]) = 0"
  by (simp_all add: fault_run_def)

lemma fault_run_le: "fault_run es \<le> length es"
  unfolding fault_run_def
  by (metis length_filter_le length_rev length_takeWhile_le order_trans)

lemma discard_times_simps [simp]:
  "discard_times [] = []"
  "discard_times (es @ [Discard t st]) = discard_times es @ [t]"
  "discard_times (es @ [ConsumeFaultAt t]) = discard_times es"
  "discard_times (es @ [Delivered]) = discard_times es"
  by (simp_all add: discard_times_def)

lemma late_times_sub: "set (late_times cfg at' current es) \<subseteq> set (discard_times es)"
proof (induction es rule: rev_induct)
  case (snoc e es)
  then show ?case by (cases e) auto
qed simp

lemma late_times_sorted:
  "sorted (discard_times es) \<Longrightarrow> sorted (late_times cfg at' current es)"
proof (induction es rule: rev_induct)
  case (snoc e es)
  then show ?case
    using late_times_sub [of cfg at' current es] by (cases e) (auto simp: sorted_append)
qed simp

section \<open>The policy's state against the history\<close>

definition tracks :: "EscalationConfig \<Rightarrow> int \<Rightarrow> u64 \<Rightarrow> esc_event list \<Rightarrow> EscalationPolicy \<Rightarrow> bool" where
  "tracks cfg at' current es p \<longleftrightarrow>
     ep_cfg p = cfg \<and> bumpedAt p = at'
     \<and> (let l = late_times cfg at' current es in
        recent p = filter (\<lambda>t. last l - RateWindow cfg \<le> t) l)
     \<and> (ConsumeFaultRunThreshold cfg \<ge> 0 \<longrightarrow> consumeFaultRun p = of_nat (fault_run es))"

lemma sliding_window:
  assumes "sorted (l @ [now])" "0 < w"
  shows "evictBefore (filter (\<lambda>t. last l - w \<le> t) l @ [now]) (now - w) = filter (\<lambda>t. now - w \<le> t) (l @ [now])"
proof -
  have "sorted (filter (\<lambda>t. last l - w \<le> t) l @ [now])"
    using assms(1) by (auto simp: sorted_append intro: sorted_wrt_filter)
  moreover have "filter (\<lambda>t. now - w \<le> t \<and> last l - w \<le> t) l = filter (\<lambda>t. now - w \<le> t) l"
  proof (rule filter_cong [OF refl])
    fix t assume "t \<in> set l"
    then have "last l \<in> set l" by (cases l rule: rev_cases) auto
    then show "(now - w \<le> t \<and> last l - w \<le> t) = (now - w \<le> t)"
      using assms(1) by (auto simp: sorted_append)
  qed
  ultimately show ?thesis by (simp add: evictBefore_sorted conj_commute)
qed

lemma run_compare:
  assumes "n < 2 ^ 64 - 1" "0 \<le> thr" "thr < 2 ^ 63"
  shows "((of_nat n :: u64) + 1 < word_of_int thr) = (int (Suc n) < thr)"
proof -
  have "(of_nat n :: u64) + 1 = of_nat (Suc n)" by simp
  moreover have "uint (of_nat (Suc n) :: u64) = int (Suc n)"
    using assms(1) by (simp add: unsigned_of_nat take_bit_nat_eq_self del: of_nat_Suc)
  moreover have "uint (word_of_int thr :: u64) = thr"
    using assms(2,3) by (simp add: unsigned_of_int take_bit_int_eq_self)
  ultimately show ?thesis
    by (simp add: word_less_def flip: of_nat_Suc)
qed

lemma discard_step:
  assumes t: "tracks cfg at' current pre p" and "0 < RateWindow cfg"
    and srt: "sorted (discard_times (pre @ [Discard now stamp]))"
  shows "\<exists>p' s'. Observe p s now stamp current = Ok (p', s')
           \<and> tracks cfg at' current (pre @ [Discard now stamp]) p'
           \<and> s_poison s' = (if s_poison s \<noteq> 0 then s_poison s
                            else alarm cfg at' current pre (Discard now stamp))"
proof -
  let ?l = "late_times cfg at' current pre"
  have "sorted (?l @ [now])"
    using late_times_sorted [of pre cfg at' current] late_times_sub [of cfg at' current pre] srt
    by (auto simp: sorted_append)
  note sliding_window [OF this assms(2)]
  with t show ?thesis
    by (simp add: Observe_def tracks_def Let_def)
qed

lemma fault_step:
  assumes t: "tracks cfg at' current pre p"
    and "ConsumeFaultRunThreshold cfg < 2 ^ 63" "length pre < 2 ^ 64 - 1"
  shows "\<exists>p' s'. ObserveConsumeFault p s now = Ok (p', s')
           \<and> tracks cfg at' current (pre @ [ConsumeFaultAt now]) p'
           \<and> s_poison s' = (if s_poison s \<noteq> 0 then s_poison s
                            else alarm cfg at' current pre (ConsumeFaultAt now))"
proof -
  have "fault_run pre < 2 ^ 64 - 1" using fault_run_le [of pre] assms(3) by linarith
  note run_compare [OF this _ assms(2)]
  with t show ?thesis
    by (cases "ConsumeFaultRunThreshold cfg < 0")
      (simp_all add: ObserveConsumeFault_def tracks_def Let_def not_less not_le del: of_nat_Suc, simp_all add: algebra_simps)
qed

lemma discard_times_append: "discard_times (xs @ ys) = discard_times xs @ discard_times ys"
  by (simp add: discard_times_def)

lemma alarm_at_step:
  assumes "tracks cfg at' current pre p" "0 < RateWindow cfg"
    and "ConsumeFaultRunThreshold cfg < 2 ^ 63" "length pre < 2 ^ 64 - 1"
    and "sorted (discard_times (pre @ [e]))"
  shows "\<exists>p' s'. policy_step current (p, s) e = Ok (p', s') \<and> tracks cfg at' current (pre @ [e]) p'
           \<and> s_poison s' = (if s_poison s \<noteq> 0 then s_poison s else alarm cfg at' current pre e)"
proof (cases e)
  case (Discard now stamp)
  then show ?thesis
    using discard_step [OF assms(1,2)] assms(5) by (simp only: policy_step.simps)
next
  case (ConsumeFaultAt now)
  then show ?thesis
    using fault_step [OF assms(1,3,4)] by (simp only: policy_step.simps)
next
  case Delivered
  then show ?thesis
    using assms(1) by (auto simp: ObserveConsumeSuccess_def tracks_def Let_def)
qed

lemma run_verdict:
  assumes "tracks cfg at' current pre p" "0 < RateWindow cfg"
    and "ConsumeFaultRunThreshold cfg < 2 ^ 63" "length pre + length es < 2 ^ 64"
    and "sorted (discard_times (pre @ es))"
  shows "\<exists>p' s'. policy_run current (p, s) es = Ok (p', s')
           \<and> s_poison s' = (if s_poison s \<noteq> 0 then s_poison s else verdict cfg at' current pre es)"
  using assms
proof (induction es arbitrary: pre p s)
  case (Cons e es)
  have "sorted (discard_times (pre @ [e]))"
    using Cons.prems(5) discard_times_append [of "pre @ [e]" es] by (simp add: sorted_append)
  then obtain p' s' where st: "policy_step current (p, s) e = Ok (p', s')"
    and tr: "tracks cfg at' current (pre @ [e]) p'"
    and po: "s_poison s' = (if s_poison s \<noteq> 0 then s_poison s else alarm cfg at' current pre e)"
    using alarm_at_step [OF Cons.prems(1-3)] Cons.prems(4) by fastforce
  have "length (pre @ [e]) + length es < 2 ^ 64" "sorted (discard_times ((pre @ [e]) @ es))"
    using Cons.prems(4,5) by simp_all
  note Cons.IH [OF tr Cons.prems(2,3) this, of s']
  then obtain p'' s'' where "policy_run current (p', s') es = Ok (p'', s'')"
    and "s_poison s'' = (if s_poison s' \<noteq> 0 then s_poison s' else verdict cfg at' current (pre @ [e]) es)"
    by blast
  with st po show ?case by (simp add: Let_def del: alarm.simps)
qed simp

lemma new_policy_tracks:
  "tracks (ep_cfg (NewEscalationPolicy cfg at')) at' current [] (NewEscalationPolicy cfg at')"
  by (simp add: NewEscalationPolicy_def tracks_def Let_def)

lemma new_policy_cfg:
  "0 < RateWindow (ep_cfg (NewEscalationPolicy cfg at'))"
  "ConsumeFaultRunThreshold cfg < 2 ^ 63 \<Longrightarrow>
     ConsumeFaultRunThreshold (ep_cfg (NewEscalationPolicy cfg at')) < 2 ^ 63"
  by (simp_all add: NewEscalationPolicy_def Let_def)

lemma take_bit_inner: "take_bit 32 (take_bit 64 a + b) = take_bit 32 (a + b :: int)"
  using take_bit_add [of 32 "take_bit 64 a" b] take_bit_add [of 32 a b] by simp

lemma truncated_add: "Truncated (g + of_nat k) = Truncated g + of_nat k"
  unfolding Truncated_def by transfer (simp add: take_bit_inner)

lemma sint_small: "k < 2 ^ 31 \<Longrightarrow> sint (of_nat k :: u32) = int k"
  using int_word_sint [of "int k", where 'a = 32] by simp

section \<open>Properties\<close>

text \<open>C28: the escalation policy, fed any interleaving of stale discards, consume faults and deliveries in
  time order, poisons exactly as the documented rule table says of the whole history: the cause is that of
  the first alarming event, never alarms on discards one generation behind within the grace window, and
  the sliding window and the run counter of the code compute the table's counts. The two streams do not
  influence each other.\<close>

theorem escalation_verdict:
  assumes "s_poison s = PoisonNone"
    and "ConsumeFaultRunThreshold cfg < 2 ^ 63" and "length es < 2 ^ 64" and "sorted (discard_times es)"
  shows "\<exists>p' s'. policy_run current (NewEscalationPolicy cfg at', s) es = Ok (p', s')
           \<and> s_poison s' = verdict (ep_cfg (NewEscalationPolicy cfg at')) at' current [] es"
  using run_verdict [OF new_policy_tracks new_policy_cfg(1) new_policy_cfg(2), of cfg es current at' s] assms
  by simp

theorem escalation_verdict_witness:
  "\<exists>p' s'. policy_run 7 (NewEscalationPolicy \<lparr>GraceWindow = 0, RateWindow = 0, RateThreshold = 2,
        ConsumeFaultRunThreshold = 2\<rparr> 0, \<lparr>s_poison = 0, s_shutdown = 0, hpEFD = 0, phEFD = 0\<rparr>)
        [Discard 1 6, Discard 2 6, ConsumeFaultAt 6000000000, Delivered, ConsumeFaultAt 6000000001,
         Discard 6000000002 6, Discard 6500000000 6] = Ok (p', s')
     \<and> s_poison s' = PoisonPeerCrash"
proof -
  let ?es = "[Discard 1 6, Discard 2 6, ConsumeFaultAt 6000000000, Delivered, ConsumeFaultAt 6000000001,
         Discard 6000000002 6, Discard 6500000000 6]"
  let ?cfg = "\<lparr>GraceWindow = 0, RateWindow = 0, RateThreshold = 2, ConsumeFaultRunThreshold = 2\<rparr>"
  have "verdict (ep_cfg (NewEscalationPolicy ?cfg 0)) 0 7 [] ?es = PoisonPeerCrash"
    by (simp add: NewEscalationPolicy_def Let_def truncatedGenerationDelta_def Truncated_def late_times_def
        fault_run_def)
  moreover have "sorted (discard_times ?es)" by (simp add: discard_times_def)
  ultimately show ?thesis
    using escalation_verdict [of "\<lparr>s_poison = 0, s_shutdown = 0, hpEFD = 0, phEFD = 0\<rparr>" ?cfg ?es 7 0]
    by simp
qed

text \<open>after \<open>k\<close> restarts, \<open>0 < k < 2 ^ 31\<close>, a descriptor stamped under the old generation is stale, is
  told to be a late write and counts as exactly \<open>k\<close> behind; a descriptor of the new generation seen under
  the old one is stale and a violation from the future. Both hold across the wrap of the truncated
  32-bit stamp.\<close>

theorem restart_stamps:
  assumes "0 < k" "k < 2 ^ 31" "DescGeneration old = Truncated g" "DescGeneration new = Truncated (g + of_nat k)"
  shows "discardIfStale old (g + of_nat k) \<and> detectLateWrite old (g + of_nat k) = (True, False)
         \<and> truncatedGenerationDelta (g + of_nat k) (DescGeneration old) = int k
         \<and> discardIfStale new g \<and> detectLateWrite new g = (False, True)"
proof -
  have d: "truncatedGenerationDelta (g + of_nat k) (DescGeneration old) = int k"
    using assms by (simp add: truncatedGenerationDelta_def truncated_add sint_small)
  have "(of_nat k :: u32) \<noteq> 0"
    using assms(1,2) sint_small [of k] by auto
  moreover have "sint (- (of_nat k :: u32)) = - int k"
    using int_word_sint [of "- int k", where 'a = 32] assms(1,2) by simp
  ultimately show ?thesis
    using assms d
    by (simp add: discardIfStale_def Stale_def truncated_add detectLateWrite_def Let_def
        truncatedGenerationDelta_def)
qed

theorem restart_stamps_witness:
  "let old = SetGeneration zeroDescriptor (Truncated 0xFFFFFFFF);
       new = SetGeneration zeroDescriptor (Truncated 0x100000000) in
   discardIfStale old 0x100000000 \<and> detectLateWrite old 0x100000000 = (True, False)
   \<and> truncatedGenerationDelta 0x100000000 (DescGeneration old) = 1
   \<and> discardIfStale new 0xFFFFFFFF \<and> detectLateWrite new 0xFFFFFFFF = (False, True)"
proof -
  have "DescGeneration (SetGeneration zeroDescriptor g) = g" for g
    by (simp add: get_of_fields fields_set_simps)
  then show ?thesis
    using restart_stamps [where k = 1 and old = "SetGeneration zeroDescriptor (Truncated 0xFFFFFFFF)"
        and g = "0xFFFFFFFF" and new = "SetGeneration zeroDescriptor (Truncated 0x100000000)"]
    by (simp add: Let_def)
qed

end
