(* ===== verification/Admission.thy ===== *)
theory Admission
  imports Arena Recovery
begin

text \<open>
  Startup admission of \<^verbatim>\<open>src/internal/transport/shm/admission.go\<close>: which negotiated configurations a
  region's geometry may run under.
\<close>

datatype admission_error = ErrCapacity | ErrStrictCapacity | ErrChunkingSendClamp

record Config =
  MaxInflight :: int
  MaxPayload :: u32
  DataQueueDepth :: int
  LifecycleQueueDepth :: int
  Checksum :: bool
  ChunkingActive :: bool
  Escalation :: EscalationConfig

abbreviation (input) crc32TrailerLen :: nat where "crc32TrailerLen \<equiv> 4"

definition ValidateChunkingClamp :: "Config \<Rightarrow> (admission_error, unit) outcome" where
  "ValidateChunkingClamp cfg =
     (if ChunkingActive cfg \<and> MaxPayload cfg \<noteq> 0 then Err ErrChunkingSendClamp else Ok ())"

definition slabSizeLast :: "ArenaGeometry \<Rightarrow> (admission_error, u32) outcome" where
  "slabSizeLast a = (if Classes a = [] then Panic else Ok (SlabSize (last (Classes a))))"

fun eachDir :: "('a \<Rightarrow> ('e, unit) outcome) \<Rightarrow> 'a dirs \<Rightarrow> ('e, unit) outcome" where
  "eachDir f (Dirs hp ph) = andThen (f hp) (\<lambda>_. f ph)"

definition validateCapacityInvariant :: "Config \<Rightarrow> Layout \<Rightarrow> (admission_error, unit) outcome" where
  "validateCapacityInvariant cfg layout =
     (if MaxInflight cfg \<le> 0 then Err ErrCapacity
      else if DataQueueDepth cfg \<le> 0 then Err ErrCapacity
      else if LifecycleQueueDepth cfg \<le> 0 then Err ErrCapacity
      else let dataBudget = uint (RingCapacity layout) - uint (LifecycleReserve layout) in
        if MaxInflight cfg > dataBudget then Err ErrCapacity
        else let overhead = (if Checksum cfg then 4 else 0 :: u64);
                 stored = ucast (MaxPayload cfg) + overhead in
          eachDir (\<lambda>a. andThen (slabSizeLast a)
                     (\<lambda>slab. if stored > ucast slab then Err ErrCapacity else Ok ()))
            (Arenas layout))"

definition usableSlabs :: "SizeClass \<Rightarrow> nat \<Rightarrow> int" where
  "usableSlabs c classIndex = (let usable = uint (SlabCount c) in if classIndex = 0 then usable - 1 else usable)"

text \<open>The minimum over the classes and the class that attains it first, as the loop keeps them.\<close>

fun bindFrom :: "nat \<Rightarrow> nat \<times> int \<Rightarrow> SizeClass list \<Rightarrow> nat \<times> int" where
  "bindFrom ci b [] = b"
| "bindFrom ci (bindClass, bindUsable) (c # cs) =
     (let u = usableSlabs c ci in bindFrom (Suc ci) (if u < bindUsable then (ci, u) else (bindClass, bindUsable)) cs)"

definition strictDirection :: "int \<Rightarrow> ArenaGeometry \<Rightarrow> (admission_error, unit) outcome" where
  "strictDirection maxInflight a =
     (case Classes a of
        [] \<Rightarrow> Panic
      | c # cs \<Rightarrow>
          let (bindClass, bindUsable) = bindFrom 1 (0, usableSlabs c 0) cs in
          if maxInflight > bindUsable then Err ErrStrictCapacity else Ok ())"

definition ValidateStartupCapacity :: "Layout \<Rightarrow> int \<Rightarrow> bool \<Rightarrow> bool \<Rightarrow> (admission_error, unit) outcome" where
  "ValidateStartupCapacity layout maxInflight checksum strict =
     (if maxInflight \<le> 0 then Err ErrCapacity
      else andThen (eachDir (\<lambda>a. if Classes a = [] then Err ErrCapacity else Ok ()) (Arenas layout)) (\<lambda>_.
        let budget = uint (RingCapacity layout) - uint (LifecycleReserve layout) in
        if maxInflight > budget then Err ErrCapacity
        else let overhead = (if checksum then crc32TrailerLen else 0) in
          andThen (eachDir (\<lambda>a. andThen (slabSizeLast a)
                      (\<lambda>slab. if unat slab \<le> overhead then Err ErrCapacity else Ok ())) (Arenas layout)) (\<lambda>_.
          if \<not> strict then Ok () else eachDir (strictDirection maxInflight) (Arenas layout))))"

section \<open>What the checks decide\<close>

lemma eachDir_Ok: "eachDir f ds = Ok () \<longleftrightarrow> (\<forall>d. f (at ds d) = Ok ())"
proof (cases ds)
  case (Dirs hp ph)
  have "(\<forall>d. f (at ds d) = Ok ()) \<longleftrightarrow> f (at ds HostToPlugin) = Ok () \<and> f (at ds PluginToHost) = Ok ()"
    by (metis Direction.exhaust)
  then show ?thesis using Dirs by (simp add: outcome_simps)
qed

lemma bindFrom_min:
  "snd (bindFrom ci b cs) \<le> snd b \<and> (\<forall>j < length cs. snd (bindFrom ci b cs) \<le> usableSlabs (cs ! j) (ci + j))
   \<and> (snd (bindFrom ci b cs) = snd b \<or> (\<exists>j < length cs. snd (bindFrom ci b cs) = usableSlabs (cs ! j) (ci + j)))"
proof (induction ci b cs rule: bindFrom.induct)
  case (2 ci bc bu c cs)
  let ?b = "if usableSlabs c ci < bu then (ci, usableSlabs c ci) else (bc, bu)"
  let ?m = "snd (bindFrom (Suc ci) ?b cs)"
  have ih: "?m \<le> snd ?b" "\<forall>j < length cs. ?m \<le> usableSlabs (cs ! j) (Suc ci + j)"
    "?m = snd ?b \<or> (\<exists>j < length cs. ?m = usableSlabs (cs ! j) (Suc ci + j))"
    using 2 [OF refl] by auto
  then have "\<forall>j < Suc (length cs). ?m \<le> usableSlabs ((c # cs) ! j) (ci + j)" "?m \<le> bu"
    by (auto simp: All_less_Suc2 split: if_splits)
  moreover have "?m = bu \<or> (\<exists>j < Suc (length cs). ?m = usableSlabs ((c # cs) ! j) (ci + j))"
    using ih(3) unfolding Ex_less_Suc2 by (cases "usableSlabs c ci < bu") (simp_all, blast)
  ultimately show ?case by (simp add: Let_def)
qed auto

lemma strictDirection_Ok:
  assumes "Classes a \<noteq> []"
  shows "strictDirection n a = Ok () \<longleftrightarrow> (\<forall>j < length (Classes a). n \<le> usableSlabs (Classes a ! j) j)"
proof -
  obtain c cs where c: "Classes a = c # cs" using assms by (cases "Classes a") auto
  let ?m = "snd (bindFrom 1 (0, usableSlabs c 0) cs)"
  have "strictDirection n a = Ok () \<longleftrightarrow> n \<le> ?m"
    by (simp add: strictDirection_def c split: prod.split)
  moreover have "n \<le> ?m \<longleftrightarrow> n \<le> usableSlabs c 0 \<and> (\<forall>j < length cs. n \<le> usableSlabs (cs ! j) (1 + j))"
    using bindFrom_min [of 1 "(0, usableSlabs c 0)" cs] by (auto intro: order_trans)
  ultimately show ?thesis by (simp add: c All_less_Suc2)
qed

lemma slabSizeLast_simps [simp]: "Classes a \<noteq> [] \<Longrightarrow> slabSizeLast a = Ok (SlabSize (last (Classes a)))"
  by (simp add: slabSizeLast_def)

lemma ValidateStartupCapacity_Ok:
  "ValidateStartupCapacity l n crc strict = Ok () \<longleftrightarrow>
     0 < n \<and> n \<le> uint (RingCapacity l) - uint (LifecycleReserve l)
     \<and> (\<forall>d. let cs = Classes (at (Arenas l) d) in
         cs \<noteq> [] \<and> (if crc then 4 else 0) < unat (SlabSize (last cs))
         \<and> (strict \<longrightarrow> (\<forall>j < length cs. n \<le> usableSlabs (cs ! j) j)))"
proof (cases "\<forall>d. Classes (at (Arenas l) d) \<noteq> []")
  case True
  then show ?thesis
    by (auto simp: ValidateStartupCapacity_def outcome_simps eachDir_Ok strictDirection_Ok Let_def not_le
        split: if_splits)
next
  case False
  then have "eachDir (\<lambda>a. if Classes a = [] then Err ErrCapacity else Ok ()) (Arenas l) \<noteq> Ok ()"
    by (simp add: eachDir_Ok)
  then have "ValidateStartupCapacity l n crc strict \<noteq> Ok ()"
    by (simp add: ValidateStartupCapacity_def andThen_Ok)
  with False show ?thesis by (auto simp: Let_def)
qed

lemma stored_word: "unat (ucast (p :: u32) + (if crc then 4 else 0) :: u64) = unat p + (if crc then 4 else 0)"
  using unat_u32_less [of p] by (simp add: unat_word_ariths)

lemma validateCapacityInvariant_Ok:
  assumes "\<forall>d. Classes (at (Arenas l) d) \<noteq> []"
  shows "validateCapacityInvariant cfg l = Ok () \<longleftrightarrow>
     0 < MaxInflight cfg \<and> 0 < DataQueueDepth cfg \<and> 0 < LifecycleQueueDepth cfg
     \<and> MaxInflight cfg \<le> uint (RingCapacity l) - uint (LifecycleReserve l)
     \<and> (\<forall>d. unat (MaxPayload cfg) + (if Checksum cfg then 4 else 0)
            \<le> unat (SlabSize (last (Classes (at (Arenas l) d)))))"
proof -
  let ?st = "ucast (MaxPayload cfg) + (if Checksum cfg then 4 else 0) :: u64"
  have "validateCapacityInvariant cfg l = Ok () \<longleftrightarrow>
     0 < MaxInflight cfg \<and> 0 < DataQueueDepth cfg \<and> 0 < LifecycleQueueDepth cfg
     \<and> MaxInflight cfg \<le> uint (RingCapacity l) - uint (LifecycleReserve l)
     \<and> (\<forall>d. ?st \<le> ucast (SlabSize (last (Classes (at (Arenas l) d)))))"
    using assms unfolding validateCapacityInvariant_def Let_def
    by (auto simp add: eachDir_Ok not_le not_less split: if_splits)
  moreover have "(?st \<le> ucast s) = (unat (MaxPayload cfg) + (if Checksum cfg then 4 else 0) \<le> unat s)" for s :: u32
    unfolding word_le_nat_alt stored_word by simp
  ultimately show ?thesis by simp
qed

section \<open>Exhausted classes\<close>

lemma exhausted_class_live:
  assumes "arena_inv a" "ci < length (classes a)" "free (pools a ! ci) = []"
  shows "usableSlabs (classes a ! ci) ci \<le> int (card (live a))"
proof -
  let ?n = "unat (SlabCount (classes a ! ci))"
  have "pool_ok ci (classes a ! ci) (pools a ! ci)" using assms by (simp add: arena_inv_def)
  then have "j < ?n \<Longrightarrow> allocatable ci j \<Longrightarrow> liveSeq (pools a ! ci) ! j \<noteq> 0" for j
    using assms(3) by (auto simp: pool_ok_def)
  then have "Pair ci ` {(if ci = 0 then 1 else 0)..<?n} \<subseteq> live a"
    using assms(2) by (auto simp: live_def allocatable_def split: if_splits)
  then have "card (Pair ci ` {(if ci = 0 then 1 else 0 :: nat)..<?n}) \<le> card (live a)"
    by (rule card_mono [OF finite_live])
  then have "card {(if ci = 0 then 1 else 0 :: nat)..<?n} \<le> card (live a)"
    by (subst (asm) card_image) (simp_all add: inj_on_def)
  then have "?n \<le> card (live a) + (if ci = 0 then 1 else 0)" by simp
  moreover have "uint (SlabCount (classes a ! ci)) = int ?n" by simp
  ultimately show ?thesis
    unfolding usableSlabs_def Let_def by (simp only: split: if_splits) linarith+
qed

section \<open>Properties\<close>

text \<open>C27: strict certification means what it promises: when the startup check passes in strict mode, an arena of
  either direction with fewer live slabs than the admitted number of frames never reports exhaustion, whatever
  the size asked for.\<close>

theorem strict_capacity_no_exhaustion:
  assumes "ValidateStartupCapacity l n crc True = Ok ()"
    and "classes a = Classes (at (Arenas l) d)" "arena_inv a" "int (card (live a)) < n"
  shows "Alloc a sz \<noteq> Err ErrExhausted"
proof
  assume "Alloc a sz = Err ErrExhausted"
  then obtain ci where "SelectClass (classes a) sz = (ci, True)" and e: "free (pools a ! ci) = []"
    using Alloc_not_Ok(3) [OF assms(3)] by auto
  then have ci: "ci < length (classes a)" using SelectClass_True by blast
  then have "n \<le> usableSlabs (classes a ! ci) ci"
    using assms(1,2) by (simp add: ValidateStartupCapacity_Ok Let_def)
  with exhausted_class_live [OF assms(3) ci e] assms(4) show False by simp
qed

definition admission_layout :: Layout where
  "admission_layout = \<lparr>Magic = layoutMagic, LayoutVersion = 1, HeaderFlags = 0, Generation = 7, RegionSize = 0,
     RingCapacity = 64, LifecycleReserve = 8, SyncPageOffset = 4096, Rings = Dirs \<lparr>ringOffset = 8192\<rparr> \<lparr>ringOffset = 12288\<rparr>,
     Arenas = Dirs \<lparr>arenaOffset = 0, arenaBytes = 0, ClassTableOffset = 0, Classes = sample_classes\<rparr>
                   \<lparr>arenaOffset = 0, arenaBytes = 0, ClassTableOffset = 0, Classes = sample_classes\<rparr>\<rparr>"

lemma admission_layout_classes: "Classes (at (Arenas admission_layout) d) = sample_classes"
  by (cases d) (simp_all add: admission_layout_def)

theorem strict_capacity_no_exhaustion_witness:
  "\<exists>a seq'. New 0 (replicate 8384 0) sample_classes 7 = Ok (a, seq')
     \<and> ValidateStartupCapacity admission_layout 2 True True = Ok () \<and> Alloc a 4096 \<noteq> Err ErrExhausted"
proof -
  obtain a seq' where a: "New 0 (replicate 8384 0) sample_classes 7 = Ok (a, seq')" "arena_inv a" "live a = {}"
    "classes a = sample_classes" by (rule sample_arena)
  have v: "ValidateStartupCapacity admission_layout 2 True True = Ok ()"
    by (simp add: ValidateStartupCapacity_Ok admission_layout_classes Let_def)
      (simp add: admission_layout_def sample_classes_def usableSlabs_def All_less_Suc2)
  have "Alloc a 4096 \<noteq> Err ErrExhausted"
    by (rule strict_capacity_no_exhaustion [OF v, of a HostToPlugin])
      (simp_all add: a admission_layout_classes)
  with a(1) v show ?thesis by blast
qed

text \<open>a configuration the startup invariant accepts leaves room in the ring for the lifecycle reserve beside
  every admitted data frame, and every payload up to the configured maximum, with its checksum trailer, has
  a serving class in both directions; its stored length does not wrap in 32 bits.\<close>

theorem admitted_config_fits:
  assumes "validateCapacityInvariant cfg l = Ok ()" "\<forall>d. Classes (at (Arenas l) d) \<noteq> []"
    and "classes a = Classes (at (Arenas l) d)" "arena_inv a" "len \<le> MaxPayload cfg"
  shows "nat (MaxInflight cfg) + unat (LifecycleReserve l) \<le> unat (RingCapacity l)
         \<and> (let stored = len + (if Checksum cfg then 4 else 0) in
            unat stored = unat len + (if Checksum cfg then 4 else 0) \<and> Alloc a stored \<noteq> Err ErrTooLarge)"
proof -
  let ?o = "if Checksum cfg then 4 else 0 :: nat" and ?last = "SlabSize (last (classes a))"
  have c: "MaxInflight cfg \<le> uint (RingCapacity l) - uint (LifecycleReserve l)" "0 < MaxInflight cfg"
    "unat (MaxPayload cfg) + ?o \<le> unat ?last"
    using assms(1,3) validateCapacityInvariant_Ok [OF assms(2)] by auto
  have le: "unat len + ?o \<le> unat ?last" using c(3) assms(5) by (simp add: word_le_nat_alt)
  then have st: "unat (len + (if Checksum cfg then 4 else 0)) = unat len + ?o"
    using unat_u32_less [of ?last] by (cases "Checksum cfg") (simp_all add: unat_word_ariths)
  have "last (classes a) \<in> set (classes a)" using assms(2,3) by simp
  moreover have "\<not> ?last < len + (if Checksum cfg then 4 else 0)"
    unfolding word_less_nat_alt st using le by (simp only: not_less)
  ultimately have "Alloc a (len + (if Checksum cfg then 4 else 0)) \<noteq> Err ErrTooLarge"
    using Alloc_not_Ok(2) [OF assms(4)] by blast
  moreover have "nat (MaxInflight cfg) + unat (LifecycleReserve l) \<le> unat (RingCapacity l)"
    using c(1,2) by (simp add: nat_le_iff flip: of_nat_le_iff [where 'a = int])
  ultimately show ?thesis using st by (simp only: Let_def simp_thms)
qed

theorem admitted_config_fits_witness:
  "\<exists>a seq' cfg. New 0 (replicate 8384 0) sample_classes 7 = Ok (a, seq') \<and> MaxPayload cfg = 4092
     \<and> validateCapacityInvariant cfg admission_layout = Ok ()
     \<and> unat (4092 + (if Checksum cfg then 4 else 0) :: u32) = 4092 + (if Checksum cfg then 4 else 0)
     \<and> Alloc a (4092 + (if Checksum cfg then 4 else 0)) \<noteq> Err ErrTooLarge"
proof -
  define cfg where "cfg = \<lparr>MaxInflight = 56, MaxPayload = 4092, DataQueueDepth = 8, LifecycleQueueDepth = 8,
    Checksum = True, ChunkingActive = False, Escalation = \<lparr>GraceWindow = 0, RateWindow = 0, RateThreshold = 0,
    ConsumeFaultRunThreshold = 0\<rparr>\<rparr>"
  obtain a seq' where a: "New 0 (replicate 8384 0) sample_classes 7 = Ok (a, seq')" "arena_inv a" "live a = {}"
    "classes a = sample_classes" by (rule sample_arena)
  have ne: "\<forall>d. Classes (at (Arenas admission_layout) d) \<noteq> []"
    by (simp add: admission_layout_classes sample_classes_def)
  have v: "validateCapacityInvariant cfg admission_layout = Ok ()"
    unfolding validateCapacityInvariant_Ok [OF ne] admission_layout_classes
    by (simp add: admission_layout_def sample_classes_def cfg_def)
  have "let stored = 4092 + (if Checksum cfg then 4 else 0) in
      unat stored = unat (4092 :: u32) + (if Checksum cfg then 4 else 0) \<and> Alloc a stored \<noteq> Err ErrTooLarge"
    by (rule admitted_config_fits [OF v ne, of a HostToPlugin, THEN conjunct2])
      (simp_all add: a admission_layout_classes cfg_def)
  with a(1) v show ?thesis
    by (intro exI [of _ a] exI [of _ seq'] exI [of _ cfg]) (simp add: cfg_def)
qed

end
