(* ===== verification/Crc32c.thy ===== *)
theory Crc32c
  imports Prelude
begin

text \<open>
  The CRC32C checksum the shared-memory transport stores behind a payload
  (\<^verbatim>\<open>crc32.Checksum\<close> with \<^verbatim>\<open>crc32.MakeTable(crc32.Castagnoli)\<close>), bit by bit in the reflected form, and
  what it detects.
\<close>

definition crcStep :: "u32 \<Rightarrow> u32" where
  "crcStep c = (if bit c 0 then drop_bit 1 c XOR 0x82F63B78 else drop_bit 1 c)"

definition crcByte :: "u32 \<Rightarrow> byte \<Rightarrow> u32" where
  "crcByte c b = (crcStep ^^ 8) (c XOR ucast b)"

definition crc32c :: "byte list \<Rightarrow> u32" where
  "crc32c bs = NOT (foldl crcByte (- 1) bs)"

text \<open>The check value of the Castagnoli polynomial, over the digits one to nine.\<close>

lemma crcByte_unfold:
  "crcByte c b = crcStep (crcStep (crcStep (crcStep (crcStep (crcStep (crcStep (crcStep (c XOR ucast b))))))))"
  by (simp add: crcByte_def numeral_eq_Suc)

lemma crc32c_check_value: "crc32c [49, 50, 51, 52, 53, 54, 55, 56, 57] = 0xE3069283"
  by (simp add: crc32c_def crcByte_unfold crcStep_def drop_bit_eq_div bit_iff_odd)

section \<open>Detection\<close>

text \<open>
  The polynomial has its top bit set, so a step can be undone: the top bit of the result is the bit that
  was shifted out.
\<close>

lemma crcStep_bits: "n < 32 \<Longrightarrow> bit (crcStep c) n = ((n < 31 \<and> bit c (Suc n)) \<noteq> (bit c 0 \<and> bit (0x82F63B78 :: u32) n))"
  using bit_imp_le_length [of c "Suc n"]
  by (cases "n = 31") (auto simp: crcStep_def bit_simps)

lemma crcStep_inj: "crcStep c = crcStep c' \<longleftrightarrow> c = c'"
proof
  assume eq: "crcStep c = crcStep c'"
  have "bit (0x82F63B78 :: u32) 31" by simp
  then have b0: "bit c 0 = bit c' 0"
    using crcStep_bits [of 31 c] crcStep_bits [of 31 c'] eq by auto
  have "bit c n = bit c' n" if "n < 32" for n
  proof (cases n)
    case (Suc m)
    then show ?thesis using crcStep_bits [of m c] crcStep_bits [of m c'] eq b0 that by auto
  qed (use b0 in simp)
  then show "c = c'" by (intro bit_word_eqI) simp
qed simp

lemma crcSteps_inj: "(crcStep ^^ n) c = (crcStep ^^ n) c' \<longleftrightarrow> c = c'"
  by (induction n) (simp_all add: crcStep_inj)

lemma xor_cancel: "(x :: 'a::len word) XOR z = y XOR z \<longleftrightarrow> x = y" "z XOR x = z XOR y \<longleftrightarrow> x = y"
  by (metis xor.assoc xor_self_eq xor.right_neutral, metis xor.assoc xor_self_eq xor.left_neutral)

lemma crcByte_inj: "crcByte c b = crcByte c' b \<longleftrightarrow> c = c'"
  by (simp add: crcByte_def crcSteps_inj xor_cancel)

lemma unat_ucast8: "unat (ucast (b :: byte) :: u32) = unat b"
  using unsigned_less [of b, where 'a=nat] by (simp add: unsigned_ucast_eq take_bit_nat_eq_self)

lemma crcByte_inj_byte: "crcByte c b = crcByte c b' \<longleftrightarrow> b = b'"
proof
  assume "crcByte c b = crcByte c b'"
  then have "(ucast b :: u32) = ucast b'" by (simp add: crcByte_def crcSteps_inj xor_cancel)
  then show "b = b'" 
    by (metis word_unat_eq_iff unat_ucast8)
qed simp

lemma foldl_crcByte_inj: "foldl crcByte c bs = foldl crcByte c' bs \<longleftrightarrow> c = c'"
  by (induction bs arbitrary: c c') (simp_all add: crcByte_inj)

lemma crc32c_one_byte:
  assumes "b \<noteq> b'"
  shows "crc32c (xs @ b # ys) \<noteq> crc32c (xs @ b' # ys)"
  using assms by (simp add: crc32c_def foldl_crcByte_inj crcByte_inj_byte)

lemma crc32c_update:
  assumes "i < length bs" "bs ! i \<noteq> b"
  shows "crc32c (bs[i := b]) \<noteq> crc32c bs"
  using crc32c_one_byte [of b "bs ! i" "take i bs" "drop (Suc i) bs"] assms
  by (simp add: upd_conv_take_nth_drop id_take_nth_drop [symmetric])

end
