(* ===== verification/Consumer.thy ===== *)
theory Consumer
  imports Admission Ring Frames Crc32c
begin

text \<open>
  The receiving half of the shared-memory transport, \<^verbatim>\<open>src/internal/transport/shm/transport.go\<close>: from
  the waiter's wake to the delivered frame. The inbound ring, the inbound arena and the sync words are
  shared with the peer process, which may store to them between any two of this side's steps; those
  stores are explicit arguments of the operations they interleave with.
\<close>

section \<open>State\<close>

text \<open>
  The fields of the transport that its receive path reads and writes. \<open>t_reserved\<close> counts the calls of
  the caller's reserve hook and \<open>t_progress\<close> the hints given to this side's writer.
\<close>

record Transport =
  inboundRing :: Ring
  inboundArenaBytes :: "byte list"
  inboundClasses :: "SizeClass list"
  t_sync :: sync
  t_escalation :: EscalationPolicy
  t_gen :: u64
  t_checksum :: bool
  t_chunkingActive :: bool
  maxRecvPayload :: u32
  lastSeen :: u64
  staleDiscarded :: u64
  consumeFaults :: u64
  framesReceived :: u64
  bytesReceived :: u64
  t_closed :: bool
  t_reserved :: nat
  t_progress :: nat

text \<open>A store of the peer to the shared memory, of any value.\<close>

datatype peer_act =
    PeerPoison u32 | PeerShutdown u32 | PeerArena nat byte | PeerSlot nat Descriptor | PeerTail u64 | PeerHead u64

fun peer :: "Transport \<Rightarrow> peer_act \<Rightarrow> Transport" where
  "peer t (PeerPoison c) = t\<lparr>t_sync := (t_sync t)\<lparr>s_poison := c\<rparr>\<rparr>"
| "peer t (PeerShutdown w) = t\<lparr>t_sync := (t_sync t)\<lparr>s_shutdown := w\<rparr>\<rparr>"
| "peer t (PeerArena i b) = t\<lparr>inboundArenaBytes := (inboundArenaBytes t)[i := b]\<rparr>"
| "peer t (PeerSlot i d) = t\<lparr>inboundRing := (inboundRing t)\<lparr>slots := (slots (inboundRing t))[i := d]\<rparr>\<rparr>"
| "peer t (PeerTail w) = t\<lparr>inboundRing := (inboundRing t)\<lparr>tail := w\<rparr>\<rparr>"
| "peer t (PeerHead w) = t\<lparr>inboundRing := (inboundRing t)\<lparr>head := w\<rparr>\<rparr>"

definition peers :: "peer_act list \<Rightarrow> Transport \<Rightarrow> Transport" where
  "peers acts t = foldl peer t acts"

section \<open>Validation of a descriptor\<close>

abbreviation (input) flagCRC32CPresent :: u16 where "flagCRC32CPresent \<equiv> 4"

definition classify :: "Transport \<Rightarrow> Descriptor \<Rightarrow> (err, byte \<times> bool) outcome" where
  "classify t d =
     (let allowed = (if t_checksum t then flagCRC32CPresent else 0) in
      if Flags d AND NOT allowed \<noteq> 0 then Err {errBadFrame}
      else if drop_bit 8 (KindWord d) \<noteq> 0 then Err {errBadFrame}
      else case unmapKind (Kind d) (t_chunkingActive t) of
          None \<Rightarrow> Err {errBadFrame}
        | Some (tk, descriptorOnly) \<Rightarrow>
            if BudgetNS d < 0 then Err {errBadFrame}
            else if descriptorOnly \<and>
                (Flags d \<noteq> 0 \<or> PayloadOffset d \<noteq> 0 \<or> PayloadLength d \<noteq> 0 \<or> AllocSeq d \<noteq> 0)
              then Err {errBadFrame}
            else Ok (tk, descriptorOnly))"

definition servingClass :: "SizeClass list \<Rightarrow> u64 \<Rightarrow> nat \<times> bool" where
  "servingClass cs storedLen = (if storedLen > 0xFFFFFFFF then (0, False) else SelectClass cs (ucast storedLen))"

definition slabInClass :: "SizeClass list \<Rightarrow> u64 \<Rightarrow> u64 \<Rightarrow> (err, bool) outcome" where
  "slabInClass cs off storedLen =
     (case servingClass cs storedLen of
        (_, False) \<Rightarrow> Ok False
      | (ci, True) \<Rightarrow>
          if ci \<ge> length cs then Panic
          else let c = cs ! ci; base = ucast (ClassBaseOffset c) in
            if off < base then Ok False
            else let rel = off - base in
              if SlabSize c = 0 then Panic
              else if rel mod ucast (SlabSize c) \<noteq> 0 then Ok False
              else let idx = rel div ucast (SlabSize c) in
                if idx \<ge> ucast (SlabCount c) then Ok False
                else if ci = 0 \<and> idx = 0 then Ok False
                else Ok True)"

text \<open>
  The bytes of a payload are a private copy, or the span of the inbound arena they lie in, which is read
  when they are used.
\<close>

datatype span = Private "byte list" | Alias nat nat

definition payloadBytes :: "Transport \<Rightarrow> Descriptor \<Rightarrow> bool \<Rightarrow> (err, span) outcome" where
  "payloadBytes t d viewWanted =
     (let off = ucast (PayloadOffset d) :: u64;
          plen = ucast (PayloadLength d) :: u64;
          hasCRC = (Flags d AND flagCRC32CPresent \<noteq> 0);
          crcTrailer = (if hasCRC then 4 else 0);
          storedLen = plen + crcTrailer in
      if storedLen = 0 then
        (if PayloadOffset d \<noteq> 0 \<or> AllocSeq d \<noteq> 0 then Err {errBadFrame} else Ok (Private []))
      else if PayloadOffset d = 0 \<or> AllocSeq d = 0 then Err {errBadFrame}
      else if plen > ucast (maxRecvPayload t) then Err {errBadFrame}
      else andThen (slabInClass (inboundClasses t) off storedLen) (\<lambda>inClass.
        if \<not> inClass then Err {errBadFrame}
        else andThen (slice (inboundArenaBytes t) (unat off) (unat (off + plen))) (\<lambda>payload.
          if hasCRC then
            andThen (slice (inboundArenaBytes t) (unat (off + plen)) (unat (off + plen + crcTrailer))) (\<lambda>trailer.
              if crc32c payload \<noteq> le_decode trailer then Err {errChecksum} else Ok (Private payload))
          else if \<not> viewWanted then Ok (Private payload)
          else Ok (Alias (unat off) (unat (off + plen))))))"

fun spanBytes :: "Transport \<Rightarrow> span \<Rightarrow> (err, byte list) outcome" where
  "spanBytes t (Private bs) = Ok bs"
| "spanBytes t (Alias a b) = slice (inboundArenaBytes t) a b"

section \<open>Building and consuming the frame\<close>

definition descriptorOnlyFrame :: "Descriptor \<Rightarrow> byte \<Rightarrow> Frame" where
  "descriptorOnlyFrame d tk = zeroFrame\<lparr>fr_CallID := CallID d, fr_Kind := tk, fr_Control := Reserved d\<rparr>"

definition decodedFrame :: "Descriptor \<Rightarrow> byte \<Rightarrow> byte list \<Rightarrow> (err, Frame) outcome" where
  "decodedFrame d tk payload =
     (let f = zeroFrame\<lparr>fr_CallID := CallID d, fr_Kind := tk, fr_Service := ServiceID d, fr_Method := MethodID d,
                        fr_Budget := BudgetNS d, fr_Control := Reserved d\<rparr> in
      if CarriesStatusBody tk
      then andThen (DecodeStatus payload) (\<lambda>status. Ok (f\<lparr>fr_Status := Some status\<rparr>))
      else Ok (f\<lparr>fr_Payload := payload\<rparr>))"

datatype consumeFault = consumeNone | consumeMalformed | consumeFaulted

text \<open>
  A panic of the frame's own construction becomes a fault of this side; the span is read inside the
  barrier.
\<close>

definition protectedConsume ::
  "Transport \<Rightarrow> Descriptor \<Rightarrow> byte \<Rightarrow> bool \<Rightarrow> span \<Rightarrow> (Frame \<Rightarrow> callback) option \<Rightarrow> Frame \<times> consumeFault \<times> err" where
  "protectedConsume t d tk descriptorOnly sp consume =
     (case (if descriptorOnly then Ok (descriptorOnlyFrame d tk)
            else andThen (spanBytes t sp) (decodedFrame d tk)) of
        Panic \<Rightarrow> (zeroFrame, consumeFaulted, {ErrConsumeFault})
      | Err e \<Rightarrow> (zeroFrame, consumeMalformed, {errBadFrame})
      | Ok f \<Rightarrow>
          (case consume of
             None \<Rightarrow> (f, consumeNone, {})
           | Some cb \<Rightarrow>
               (case ProtectedConsume f cb of
                  (ConsumeMalformed, r) \<Rightarrow> (zeroFrame, consumeMalformed, {errBadFrame} \<union> fst (the r))
                | (ConsumeFaulted, r) \<Rightarrow> (zeroFrame, consumeFaulted, fst (the r))
                | (ConsumeAccepted, r) \<Rightarrow> (f, consumeNone, {}))))"

definition advanceHead :: "Transport \<Rightarrow> Transport" where
  "advanceHead t = t\<lparr>inboundRing := Advance (inboundRing t), lastSeen := lastSeen t + 1\<rparr>"

definition teardownError :: "Transport \<Rightarrow> err option" where
  "teardownError t = map_option fst (TeardownError (t_sync t))"

text \<open>
  The clock's reading, what the peer stores before the gate that precedes a peek, and what it stores
  between the payload check and the final gate.
\<close>

record turn =
  now :: int
  before_peek :: "peer_act list"
  before_gate :: "peer_act list"

text \<open>Feeding the escalation policy updates it and the shared words.\<close>

definition escalate :: "(err, EscalationPolicy \<times> sync) outcome \<Rightarrow> Transport \<Rightarrow> (err, Transport) outcome" where
  "escalate r t = andThen r (\<lambda>(p, s). Ok (t\<lparr>t_escalation := p, t_sync := s\<rparr>))"

definition delivered ::
  "bool \<Rightarrow> (Frame \<Rightarrow> callback) option \<Rightarrow> Descriptor \<Rightarrow> Transport \<Rightarrow> Transport" where
  "delivered reserve consume d t =
     (let t = (if reserve \<and> consume = None then t\<lparr>t_reserved := t_reserved t + 1\<rparr> else t);
          t = advanceHead t in
      t\<lparr>framesReceived := framesReceived t + 1,
        bytesReceived := bytesReceived t + (64 + ucast (PayloadLength d)),
        t_escalation := ObserveConsumeSuccess (t_escalation t),
        t_progress := t_progress t + 1\<rparr>)"

definition validate :: "Transport \<Rightarrow> Descriptor \<Rightarrow> bool \<Rightarrow> (err, byte \<times> bool \<times> span) outcome" where
  "validate t d viewWanted =
     andThen (classify t d) (\<lambda>(tk, descriptorOnly).
       if descriptorOnly then Ok (tk, True, Private [])
       else andThen (payloadBytes t d viewWanted) (\<lambda>sp. Ok (tk, False, sp)))"

text \<open>The part of \<open>consumeDescriptor\<close> behind the final gate.\<close>

definition dispatch ::
  "turn \<Rightarrow> bool \<Rightarrow> (Frame \<Rightarrow> callback) option \<Rightarrow> Descriptor \<Rightarrow> byte \<Rightarrow> bool \<Rightarrow> span \<Rightarrow> Transport
     \<Rightarrow> Transport \<times> (err, Frame \<times> bool) outcome" where
  "dispatch turn reserve consume d tk descriptorOnly sp t =
     (case protectedConsume t d tk descriptorOnly sp consume of
        (f, consumeMalformed, e) \<Rightarrow> (t, Err e)
      | (f, consumeFaulted, e) \<Rightarrow>
          (case escalate (ObserveConsumeFault (t_escalation t) (t_sync t) (now turn))
                  (t\<lparr>consumeFaults := consumeFaults t + 1\<rparr>) of
             Ok t' \<Rightarrow> (advanceHead t', Err e)
           | Err e' \<Rightarrow> (t, Err e')
           | Panic \<Rightarrow> (t, Panic))
      | (f, consumeNone, _) \<Rightarrow>
          (delivered reserve consume d t, Ok (if consume \<noteq> None then zeroFrame else f, True)))"

definition consumeDescriptor ::
  "turn \<Rightarrow> bool \<Rightarrow> (Frame \<Rightarrow> callback) option \<Rightarrow> Descriptor \<Rightarrow> Transport \<Rightarrow> Transport \<times> (err, Frame \<times> bool) outcome" where
  "consumeDescriptor turn reserve consume d t =
     (if discardIfStale d (t_gen t) then
        let t = t\<lparr>staleDiscarded := staleDiscarded t + 1\<rparr> in
        (case escalate (Observe (t_escalation t) (t_sync t) (now turn) (DescGeneration d) (t_gen t)) t of
           Ok t' \<Rightarrow> (advanceHead t', Ok (zeroFrame, False))
         | Err e \<Rightarrow> (t, Err e)
         | Panic \<Rightarrow> (t, Panic))
      else case validate t d (consume \<noteq> None) of
          Err e \<Rightarrow> (t, Err e)
        | Panic \<Rightarrow> (t, Panic)
        | Ok (tk, descriptorOnly, sp) \<Rightarrow>
            let t = peers (before_gate turn) t in
            (case teardownError t of
               Some e \<Rightarrow> (t, Err e)
             | None \<Rightarrow>
                 dispatch turn reserve consume d tk descriptorOnly sp
                   (if reserve \<and> consume \<noteq> None then t\<lparr>t_reserved := t_reserved t + 1\<rparr> else t)))"

text \<open>
  The drain loop. Nothing in its text bounds it, so it is a partial function whose \<open>None\<close> is not
  returning; \<open>env k\<close> is the environment's part of iteration \<open>k\<close>.
\<close>

partial_function (option) drain ::
  "(nat \<Rightarrow> turn) \<Rightarrow> nat \<Rightarrow> bool \<Rightarrow> (Frame \<Rightarrow> callback) option \<Rightarrow> u64 \<Rightarrow> Transport
     \<Rightarrow> (Transport \<times> (err, Frame \<times> bool) outcome) option" where
  "drain env k reserve consume newTail t =
     (if lastSeen t = newTail then Some (t, Ok (zeroFrame, False))
      else let t = peers (before_peek (env k)) t in
        (case teardownError t of
           Some e \<Rightarrow> Some (t, Err e)
         | None \<Rightarrow>
             (case Peek (inboundRing t) of
                Ok (d, PeekCorrupt) \<Rightarrow> Some (t, Err {errRingCorrupt})
              | Ok (d, PeekEmpty) \<Rightarrow> Some (t, Ok (zeroFrame, False))
              | Ok (d, PeekOK) \<Rightarrow>
                  (case consumeDescriptor (env k) reserve consume d t of
                     (t', Ok (f, deliver)) \<Rightarrow>
                       if deliver then Some (t', Ok (f, True)) else drain env (Suc k) reserve consume newTail t'
                   | (t', Err e) \<Rightarrow> Some (t', Err e)
                   | (t', Panic) \<Rightarrow> Some (t', Panic))
              | Err e \<Rightarrow> Some (t, Panic)
              | Panic \<Rightarrow> Some (t, Panic))))"

definition poisonOnConformanceFault :: "Transport \<Rightarrow> err \<Rightarrow> Transport \<times> (err, 'a) outcome" where
  "poisonOnConformanceFault t e =
     (case faultToPoisonCause e of
        (cause, False) \<Rightarrow> (t, Err e)
      | (cause, True) \<Rightarrow>
          (case Set (t_sync t) cause of
             Ok (won, s) \<Rightarrow> (t\<lparr>t_sync := s\<rparr>, Err (markPoisoned e))
           | Err e' \<Rightarrow> (t, Err e')
           | Panic \<Rightarrow> (t, Panic)))"

text \<open>
  What a call of the waiter comes back with: work, with the peer's stores up to then; the shutdown word
  set; or the caller's context. The waiter only reports work when the tail differs from the cursor.
\<close>

datatype waited = Woken "peer_act list" "nat \<Rightarrow> turn" | WokenShutdown "peer_act list" | WaitFailed err

fun recvCore ::
  "waited list \<Rightarrow> bool \<Rightarrow> (Frame \<Rightarrow> callback) option \<Rightarrow> Transport \<Rightarrow> Transport \<times> (err, Frame) outcome option" where
  "recvCore [] reserve consume t = (t, if t_closed t then Some (Err {TransportErrClosed}) else None)"
| "recvCore (w # ws) reserve consume t =
     (if t_closed t then (t, Some (Err {TransportErrClosed}))
      else case w of
          WaitFailed e \<Rightarrow> (t, Some (Err e))
        | WokenShutdown as \<Rightarrow>
            let t = peers as t in
            (t, (case teardownError t of None \<Rightarrow> Some (Ok zeroFrame) | Some e \<Rightarrow> Some (Err e)))
        | Woken as env \<Rightarrow>
            let t = peers as t; newTail = Tail (inboundRing t) in
            if newTail = lastSeen t then recvCore ws reserve consume t
            else (case drain env 0 reserve consume newTail t of
                    None \<Rightarrow> (t, None)
                  | Some (t', Ok (f, ok)) \<Rightarrow> if ok then (t', Some (Ok f)) else recvCore ws reserve consume t'
                  | Some (t', Err e) \<Rightarrow> (case poisonOnConformanceFault t' e of (t'', r) \<Rightarrow> (t'', Some r))
                  | Some (t', Panic) \<Rightarrow> (t', Some Panic)))"

section \<open>Geometry of an accepted payload\<close>

lemma unat_ucast_u64 [simp]: "unat (ucast (x :: u32) :: u64) = unat x"
  using unsigned_less [of x, where 'a=nat] by (simp add: unsigned_ucast_eq take_bit_nat_eq_self)

lemma slabInClass_spec:
  assumes geo: "geometry_ok cs n"
  shows "(slabInClass cs off L = Ok False \<or> slabInClass cs off L = Ok True) \<and>
    (slabInClass cs off L = Ok True \<longleftrightarrow>
       (\<exists>i j. servingClass cs L = (i, True) \<and> slab_id cs i j \<and> (i, j) \<noteq> (0, 0) \<and> unat off = slab_start cs i j))"
proof (cases "servingClass cs L")
  case (Pair ci ok)
  show ?thesis
  proof (cases ok)
    case True
    let ?c = "cs ! ci"
    let ?S = "unat (SlabSize ?c)" and ?B = "unat (ClassBaseOffset ?c)"
    have ci: "ci < length cs"
      using Pair True SelectClass_True [of cs "ucast L" ci] by (auto simp: servingClass_def split: if_splits)
    have S: "SlabSize ?c \<noteq> 0" "0 < ?S"
      using geo nth_mem [OF ci] by (auto simp: geometry_ok_def classes_ok_def unat_gt_0 word_gt_0)
    have start: "(\<exists>j. slab_id cs ci j \<and> (ci, j) \<noteq> (0, 0) \<and> unat off = slab_start cs ci j) \<longleftrightarrow>
        ?B \<le> unat off \<and> (unat off - ?B) mod ?S = 0 \<and> (unat off - ?B) div ?S < unat (SlabCount ?c) \<and>
        \<not> (ci = 0 \<and> (unat off - ?B) div ?S = 0)" (is "?L \<longleftrightarrow> ?R")
    proof
      assume ?R
      then show ?L using ci S
        by (intro exI [of _ "(unat off - ?B) div ?S"]) (auto simp: slab_id_def slab_start_def mod_eq_0_iff_dvd)
    qed (use S in \<open>auto simp: slab_id_def slab_start_def\<close>)
    have le: "off < ucast (ClassBaseOffset ?c) \<longleftrightarrow> unat off < ?B" by (simp add: word_less_nat_alt)
    have m: "(off - ucast (ClassBaseOffset ?c)) mod ucast (SlabSize ?c) = 0 \<longleftrightarrow> (unat off - ?B) mod ?S = 0"
      "(off - ucast (ClassBaseOffset ?c)) div ucast (SlabSize ?c) \<ge> ucast (SlabCount ?c) \<longleftrightarrow> unat (SlabCount ?c) \<le> (unat off - ?B) div ?S"
      "(off - ucast (ClassBaseOffset ?c)) div ucast (SlabSize ?c) = 0 \<longleftrightarrow> (unat off - ?B) div ?S = 0"
      if "?B \<le> unat off"
      using that by (simp_all add: unat_mod unat_div word_le_nat_alt unat_sub_if' word_unat_eq_iff)
    show ?thesis
      using Pair True ci S(1) start le m by (auto simp: slabInClass_def Let_def not_le not_less)
  qed (auto simp: slabInClass_def Pair)
qed

text \<open>What is transferred: the payload, followed by the trailer when the flag announces one.\<close>

definition stored_length :: "Descriptor \<Rightarrow> nat" where
  "stored_length d = unat (PayloadLength d) + (if Flags d AND flagCRC32CPresent \<noteq> 0 then 4 else 0)"

definition arena_payload :: "Transport \<Rightarrow> Descriptor \<Rightarrow> byte list" where
  "arena_payload t d = take (unat (PayloadLength d)) (drop (unat (PayloadOffset d)) (inboundArenaBytes t))"

definition arena_trailer :: "Transport \<Rightarrow> Descriptor \<Rightarrow> byte list" where
  "arena_trailer t d =
     take 4 (drop (unat (PayloadOffset d) + unat (PayloadLength d)) (inboundArenaBytes t))"

text \<open>
  The descriptors whose payload claim is consistent: no slab and no stamp for an empty one, and
  otherwise a whole allocatable slab of the class that serves the stored length.
\<close>

definition payload_ok :: "Transport \<Rightarrow> Descriptor \<Rightarrow> bool" where
  "payload_ok t d \<longleftrightarrow>
     (if stored_length d = 0 then PayloadOffset d = 0 \<and> AllocSeq d = 0
      else PayloadOffset d \<noteq> 0 \<and> AllocSeq d \<noteq> 0 \<and> PayloadLength d \<le> maxRecvPayload t \<and>
        (\<exists>i j. servingClass (inboundClasses t) (of_nat (stored_length d)) = (i, True) \<and>
               slab_id (inboundClasses t) i j \<and> (i, j) \<noteq> (0, 0) \<and>
               unat (PayloadOffset d) = slab_start (inboundClasses t) i j))"

lemma stored_length_word:
  "(ucast (PayloadLength d) :: u64) + (if Flags d AND flagCRC32CPresent \<noteq> 0 then 4 else 0) = of_nat (stored_length d)"
  "unat (of_nat (stored_length d) :: u64) = stored_length d"
proof -
  have "stored_length d < 2 ^ 32 + 4"
    using unsigned_less [of "PayloadLength d", where 'a=nat] by (simp add: stored_length_def)
  then show u: "unat (of_nat (stored_length d) :: u64) = stored_length d"
    by (simp add: unsigned_of_nat take_bit_nat_eq_self)
  show "(ucast (PayloadLength d) :: u64) + (if Flags d AND flagCRC32CPresent \<noteq> 0 then 4 else 0) = of_nat (stored_length d)"
    by (simp add: stored_length_def)
qed

lemma payload_ok_bounds:
  assumes "geometry_ok (inboundClasses t) (length (inboundArenaBytes t))" "payload_ok t d" "stored_length d \<noteq> 0"
  obtains i j where "slab_id (inboundClasses t) i j" "(i, j) \<noteq> (0, 0)"
    "unat (PayloadOffset d) = slab_start (inboundClasses t) i j"
    "stored_length d \<le> unat (SlabSize (inboundClasses t ! i))"
    "unat (PayloadOffset d) + stored_length d \<le> length (inboundArenaBytes t)"
proof -
  obtain i j where ij: "servingClass (inboundClasses t) (of_nat (stored_length d)) = (i, True)"
      "slab_id (inboundClasses t) i j" "(i, j) \<noteq> (0, 0)"
      "unat (PayloadOffset d) = slab_start (inboundClasses t) i j"
    using assms(2,3) by (auto simp: payload_ok_def)
  have le: "(of_nat (stored_length d) :: u64) \<le> 0xFFFFFFFF"
    and sel: "SelectClass (inboundClasses t) (ucast (of_nat (stored_length d) :: u64)) = (i, True)"
    using ij(1) by (auto simp: servingClass_def not_less split: if_splits)
  have "stored_length d < 2 ^ 32"
    using le stored_length_word(2) [of d] by (simp add: word_le_nat_alt)
  then have "unat (ucast (of_nat (stored_length d) :: u64) :: u32) = stored_length d"
    by (simp add: unsigned_ucast_eq stored_length_word(2) take_bit_nat_eq_self)
  then have "stored_length d \<le> unat (SlabSize (inboundClasses t ! i))"
    using SelectClass_True [OF sel] by (simp add: word_le_nat_alt)
  then show thesis
    using that ij(2-4) slab_in_bounds [OF assms(1) ij(2)] by fastforce
qed

lemma payload_ok_end:
  assumes "geometry_ok (inboundClasses t) (length (inboundArenaBytes t))" "payload_ok t d" "stored_length d \<noteq> 0"
  shows "unat (PayloadOffset d) + stored_length d \<le> length (inboundArenaBytes t)"
  using assms by (rule payload_ok_bounds)

lemma payloadBytes_spec:
  assumes geo: "geometry_ok (inboundClasses t) (length (inboundArenaBytes t))"
  shows "payloadBytes t d v =
    (if \<not> payload_ok t d then Err {errBadFrame}
     else if stored_length d = 0 then Ok (Private [])
     else if Flags d AND flagCRC32CPresent \<noteq> 0 then
       (if crc32c (arena_payload t d) \<noteq> le_decode (arena_trailer t d) then Err {errChecksum}
        else Ok (Private (arena_payload t d)))
     else if v then Ok (Alias (unat (PayloadOffset d)) (unat (PayloadOffset d) + unat (PayloadLength d)))
     else Ok (Private (arena_payload t d)))"
proof -
  let ?off = "ucast (PayloadOffset d) :: u64" and ?plen = "ucast (PayloadLength d) :: u64"
  let ?sic = "slabInClass (inboundClasses t) ?off (of_nat (stored_length d))"
  have z: "of_nat (stored_length d) = (0 :: u64) \<longleftrightarrow> stored_length d = 0"
    using stored_length_word(2) [of d] by (cases "stored_length d = 0") auto
  note spec = slabInClass_spec [OF geo, of ?off "of_nat (stored_length d)", unfolded unat_ucast_u64]
  have sic: "?sic = Ok False \<or> ?sic = Ok True"
    "?sic = Ok True \<longleftrightarrow> (\<exists>i j. servingClass (inboundClasses t) (of_nat (stored_length d)) = (i, True) \<and>
               slab_id (inboundClasses t) i j \<and> (i, j) \<noteq> (0, 0) \<and>
               unat (PayloadOffset d) = slab_start (inboundClasses t) i j)"
    by (rule conjunct1 [OF spec], rule conjunct2 [OF spec])
  have lt: "unat (PayloadOffset d) < 2 ^ 32" "unat (PayloadLength d) < 2 ^ 32"
    using unsigned_less [of "PayloadOffset d", where 'a=nat] unsigned_less [of "PayloadLength d", where 'a=nat] by auto
  then have u: "unat (?off + ?plen) = unat (PayloadOffset d) + unat (PayloadLength d)"
    "unat (?off + ?plen + 4) = unat (PayloadOffset d) + unat (PayloadLength d) + 4"
    by (simp_all add: unat_word_ariths)
  have cap: "?plen > ucast (maxRecvPayload t) \<longleftrightarrow> \<not> PayloadLength d \<le> maxRecvPayload t"
    by (simp add: word_less_nat_alt word_le_nat_alt not_le)
  have unfold: "payloadBytes t d v =
     (if stored_length d = 0 then
        (if PayloadOffset d \<noteq> 0 \<or> AllocSeq d \<noteq> 0 then Err {errBadFrame} else Ok (Private []))
      else if PayloadOffset d = 0 \<or> AllocSeq d = 0 then Err {errBadFrame}
      else if \<not> PayloadLength d \<le> maxRecvPayload t then Err {errBadFrame}
      else if ?sic = Ok False then Err {errBadFrame}
      else andThen (slice (inboundArenaBytes t) (unat (?off)) (unat (?off + ?plen))) (\<lambda>payload.
          if Flags d AND flagCRC32CPresent \<noteq> 0 then
            andThen (slice (inboundArenaBytes t) (unat (?off + ?plen)) (unat (?off + ?plen + 4))) (\<lambda>trailer.
              if crc32c payload \<noteq> le_decode trailer then Err {errChecksum} else Ok (Private payload))
          else if \<not> v then Ok (Private payload)
          else Ok (Alias (unat ?off) (unat (?off + ?plen)))))"
    unfolding payloadBytes_def Let_def stored_length_word(1) z cap
    using sic(1) by (cases "Flags d AND flagCRC32CPresent = 0") auto
  show ?thesis
  proof (cases "payload_ok t d \<and> stored_length d \<noteq> 0")
    case True
    then have "unat (PayloadOffset d) + stored_length d \<le> length (inboundArenaBytes t)"
      using payload_ok_end [OF geo] by blast
    then have b: "unat (PayloadOffset d) + unat (PayloadLength d) \<le> length (inboundArenaBytes t)"
      "Flags d AND flagCRC32CPresent \<noteq> 0 \<Longrightarrow>
         unat (PayloadOffset d) + unat (PayloadLength d) + 4 \<le> length (inboundArenaBytes t)"
      by (auto simp: stored_length_def split: if_splits)
    have "?sic = Ok True" using True unfolding payload_ok_def sic(2) [symmetric] by simp
    then show ?thesis
      using True b unfolding unfold u unat_ucast_u64 payload_ok_def sic(2) [symmetric]
      by (simp add: arena_payload_def arena_trailer_def)
  next
    case False
    then show ?thesis
      using sic(1) unfolding unfold payload_ok_def sic(2) [symmetric] by (cases "stored_length d = 0") auto
  qed
qed

section \<open>What one descriptor does to the state\<close>

text \<open>
  The invariant of an attached transport: the arena holds the geometry of its class table and the ring
  has the shape its constructor checked. No value the peer stores can break it.
\<close>

definition recv_inv :: "Transport \<Rightarrow> bool" where
  "recv_inv t \<longleftrightarrow> geometry_ok (inboundClasses t) (length (inboundArenaBytes t)) \<and> ring_shape (inboundRing t)"

lemma peer_frame:
  "lastSeen (peer t a) = lastSeen t" "staleDiscarded (peer t a) = staleDiscarded t"
  "consumeFaults (peer t a) = consumeFaults t" "framesReceived (peer t a) = framesReceived t"
  "t_reserved (peer t a) = t_reserved t" "inboundClasses (peer t a) = inboundClasses t" "t_gen (peer t a) = t_gen t"
  "recv_inv (peer t a) = recv_inv t" "t_closed (peer t a) = t_closed t"
  "length (inboundArenaBytes (peer t a)) = length (inboundArenaBytes t)"
  by (cases a; simp add: recv_inv_def ring_shape_def)+

lemma peers_frame [simp]:
  "lastSeen (peers as t) = lastSeen t" "staleDiscarded (peers as t) = staleDiscarded t"
  "consumeFaults (peers as t) = consumeFaults t" "framesReceived (peers as t) = framesReceived t"
  "t_reserved (peers as t) = t_reserved t" "inboundClasses (peers as t) = inboundClasses t" "t_gen (peers as t) = t_gen t"
  "recv_inv (peers as t) = recv_inv t" "t_closed (peers as t) = t_closed t"
  "length (inboundArenaBytes (peers as t)) = length (inboundArenaBytes t)"
  unfolding peers_def by (induction as arbitrary: t; simp add: peer_frame)+

text \<open>A peer that leaves the head word alone: only the consumer may store to it.\<close>

definition keeps_head :: "peer_act list \<Rightarrow> bool" where
  "keeps_head as \<longleftrightarrow> (\<forall>a \<in> set as. \<not> (\<exists>w. a = PeerHead w))"

lemma peers_head: "keeps_head as \<Longrightarrow> head (inboundRing (peers as t)) = head (inboundRing t)"
proof (induction as arbitrary: t)
  case (Cons a as)
  moreover have "head (inboundRing (peer t a)) = head (inboundRing t)" using Cons(2) by (cases a) (auto simp: keeps_head_def)
  ultimately show ?case by (simp add: peers_def keeps_head_def)
qed (simp add: peers_def)

lemma escalate_Ok:
  "\<exists>p s. escalate (Observe e y n g c) t = Ok (t\<lparr>t_escalation := p, t_sync := s\<rparr>)"
  "\<exists>p s. escalate (ObserveConsumeFault e y n) t = Ok (t\<lparr>t_escalation := p, t_sync := s\<rparr>)"
  by (auto simp: escalate_def Observe_def ObserveConsumeFault_def Let_def)

text \<open>
  The counters and the drain cursor move together: \<open>s\<close> stale descriptors, \<open>c\<close> faulted ones and \<open>f\<close>
  delivered ones.
\<close>

definition moved :: "Transport \<Rightarrow> Transport \<Rightarrow> u64 \<Rightarrow> u64 \<Rightarrow> u64 \<Rightarrow> bool" where
  "moved t t' s c f \<longleftrightarrow> lastSeen t' = lastSeen t + (s + c + f) \<and> staleDiscarded t' = staleDiscarded t + s \<and>
     consumeFaults t' = consumeFaults t + c \<and> framesReceived t' = framesReceived t + f \<and>
     t_gen t' = t_gen t \<and> t_closed t' = t_closed t \<and> recv_inv t' = recv_inv t"

lemma moved_trans: "moved t u s c f \<Longrightarrow> moved u v s' c' f' \<Longrightarrow> moved t v (s + s') (c + c') (f + f')"
  by (simp add: moved_def algebra_simps)

lemma moved_peers: "moved t (peers as t) 0 0 0"
  by (simp add: moved_def)

definition fault_err :: "err \<Rightarrow> bool" where
  "fault_err e \<longleftrightarrow> ErrConsumeFault \<in> e"

lemma classify_cases: "classify t d = Err {errBadFrame} \<or> (\<exists>x. classify t d = Ok x)"
  by (auto simp: classify_def Let_def split: option.splits)

lemma payloadBytes_cases:
  assumes "recv_inv t"
  shows "payloadBytes t d v = Err {errBadFrame} \<or> payloadBytes t d v = Err {errChecksum} \<or> (\<exists>sp. payloadBytes t d v = Ok sp)"
  using payloadBytes_spec [of t d v] assms by (simp add: recv_inv_def)

lemma spanBytes_Ok:
  assumes "recv_inv t" "payloadBytes t d v = Ok sp"
  shows "\<exists>bs. spanBytes (peers as t) sp = Ok bs"
proof (cases sp)
  case (Alias a b)
  then have p: "payload_ok t d" "stored_length d \<noteq> 0" "a = unat (PayloadOffset d)" "b = a + unat (PayloadLength d)"
    "stored_length d = unat (PayloadLength d)"
    using payloadBytes_spec [of t d v] assms by (auto simp: recv_inv_def stored_length_def split: if_splits)
  then show ?thesis
    using Alias payload_ok_end [of t d] assms(1) by (simp add: recv_inv_def)
qed simp

lemma ProtectedConsume_cases:
  "ProtectedConsume f cb = (ConsumeAccepted, None) \<or>
   ProtectedConsume f cb = (ConsumeMalformed, Some ({ErrPayloadMalformed}, None)) \<or>
   (\<exists>x. ProtectedConsume f cb = (ConsumeFaulted, Some ({ErrConsumeFault}, Some x)))"
  by (auto simp: ProtectedConsume_def Let_def split: callback.splits)

lemma decodedFrame_not_Panic: "decodedFrame d tk bs \<noteq> Panic"
  using DecodeStatus_cases [of bs] by (auto simp: decodedFrame_def Let_def)

lemma protectedConsume_cases:
  assumes "descriptorOnly \<or> (\<exists>bs. spanBytes t sp = Ok bs)"
  shows "(\<exists>f. protectedConsume t d tk descriptorOnly sp consume = (f, consumeNone, {}) \<and>
            (if descriptorOnly then f = descriptorOnlyFrame d tk else andThen (spanBytes t sp) (decodedFrame d tk) = Ok f)) \<or>
    (\<exists>e. protectedConsume t d tk descriptorOnly sp consume = (zeroFrame, consumeMalformed, e) \<and>
         (e = {errBadFrame} \<or> e = {errBadFrame, ErrPayloadMalformed})) \<or>
    (protectedConsume t d tk descriptorOnly sp consume = (zeroFrame, consumeFaulted, {ErrConsumeFault}) \<and> consume \<noteq> None)"
proof -
  let ?x = "if descriptorOnly then Ok (descriptorOnlyFrame d tk) else andThen (spanBytes t sp) (decodedFrame d tk)"
  have np: "?x \<noteq> Panic" using assms decodedFrame_not_Panic by auto
  show ?thesis
  proof (cases ?x)
    case (Ok f)
    then show ?thesis
      using ProtectedConsume_cases [of f "the consume"]
      by (cases consume) (auto simp: protectedConsume_def split: if_splits)
  qed (use np in \<open>auto simp: protectedConsume_def\<close>)
qed

lemma validate_cases:
  assumes "recv_inv t"
  shows "validate t d v = Err {errBadFrame} \<or> validate t d v = Err {errChecksum} \<or>
    (\<exists>tk descriptorOnly sp. validate t d v = Ok (tk, descriptorOnly, sp) \<and>
       (\<forall>as. descriptorOnly \<or> (\<exists>bs. spanBytes (peers as t) sp = Ok bs)))"
proof (cases "classify t d")
  case (Ok x)
  obtain tk dO where x: "x = (tk, dO)" by fastforce
  show ?thesis
    using payloadBytes_cases [OF assms, of d v] spanBytes_Ok [OF assms, of d v] Ok x
    by (auto simp: validate_def)
qed (use classify_cases [of t d] in \<open>auto simp: validate_def\<close>)

text \<open>
  The four ends of \<open>consumeDescriptor\<close>: a discard, a refusal that moves nothing, a fault of this side
  that releases the slot, and a delivery past the final gate.
\<close>

inductive disposition ::
  "turn \<Rightarrow> bool \<Rightarrow> (Frame \<Rightarrow> callback) option \<Rightarrow> Descriptor \<Rightarrow> Transport \<Rightarrow> Transport \<Rightarrow> (err, Frame \<times> bool) outcome \<Rightarrow> bool"
  for turn reserve consume d t where
  stale: "disposition turn reserve consume d t t' (Ok (zeroFrame, False))"
    if "discardIfStale d (t_gen t)" "moved t t' 1 0 0" "inboundRing t' = Advance (inboundRing t)"
      "t_reserved t' = t_reserved t"
| refused: "disposition turn reserve consume d t t' (Err e)"
    if "\<not> discardIfStale d (t_gen t)" "moved t t' 0 0 0"
      "inboundRing t' = inboundRing t \<or> inboundRing t' = inboundRing (peers (before_gate turn) t)"
      "e \<in> {{errBadFrame}, {errChecksum}, {errBadFrame, ErrPayloadMalformed}} \<or> teardownError t' = Some e"
| faulted: "disposition turn reserve consume d t t' (Err {ErrConsumeFault})"
    if "\<not> discardIfStale d (t_gen t)" "moved t t' 0 1 0" "consume \<noteq> None"
      "inboundRing t' = Advance (inboundRing (peers (before_gate turn) t))"
      "teardownError (peers (before_gate turn) t) = None"
| delivery: "disposition turn reserve consume d t t' (Ok (if consume \<noteq> None then zeroFrame else f, True))"
    if "\<not> discardIfStale d (t_gen t)" "moved t t' 0 0 1"
      "inboundRing t' = Advance (inboundRing (peers (before_gate turn) t))"
      "teardownError (peers (before_gate turn) t) = None"
      "t_reserved t' = t_reserved t + (if reserve then 1 else 0)"
      "validate t d (consume \<noteq> None) = Ok (tk, descriptorOnly, sp)"
      "if descriptorOnly then f = descriptorOnlyFrame d tk
       else andThen (spanBytes (peers (before_gate turn) t) sp) (decodedFrame d tk) = Ok f"

lemma moved_advance:
  "recv_inv (advanceHead t) = recv_inv t"
  by (simp add: recv_inv_def advanceHead_def Advance_def ring_shape_def)

lemma recv_inv_update [simp]:
  "recv_inv (t\<lparr>staleDiscarded := a\<rparr>) = recv_inv t" "recv_inv (t\<lparr>t_escalation := p, t_sync := s\<rparr>) = recv_inv t"
  "recv_inv (t\<lparr>t_reserved := n\<rparr>) = recv_inv t" "recv_inv (t\<lparr>consumeFaults := a\<rparr>) = recv_inv t"
  "recv_inv (t\<lparr>framesReceived := a, bytesReceived := b, t_escalation := p, t_progress := m\<rparr>) = recv_inv t"
  by (simp_all add: recv_inv_def)

lemma spanBytes_reserved [simp]: "spanBytes (t\<lparr>t_reserved := n\<rparr>) sp = spanBytes t sp"
  by (cases sp) simp_all

lemma consumeDescriptor_valid:
  assumes inv: "recv_inv t" and fresh: "\<not> discardIfStale d (t_gen t)"
    and run: "consumeDescriptor turn reserve consume d t = (t', r)"
    and val: "validate t d (consume \<noteq> None) = Ok (tk, dO, sp)"
    and sp: "\<forall>as. dO \<or> (\<exists>bs. spanBytes (peers as t) sp = Ok bs)"
  shows "disposition turn reserve consume d t t' r"
proof (cases "teardownError (peers (before_gate turn) t)")
  case (Some e)
  with fresh run val show ?thesis
    by (auto simp: consumeDescriptor_def Let_def moved_def intro!: disposition.refused)
next
  case None
  let ?t = "peers (before_gate turn) t"
  define u where "u = (if reserve \<and> consume \<noteq> None then ?t\<lparr>t_reserved := t_reserved ?t + 1\<rparr> else ?t)"
  have u: "inboundRing u = inboundRing ?t" "moved t u 0 0 0" "spanBytes u sp = spanBytes ?t sp"
    "t_reserved u = t_reserved t + (if reserve \<and> consume \<noteq> None then 1 else 0)"
    by (auto simp: u_def moved_def)
  have run': "(t', r) = dispatch turn reserve consume d tk dO sp u"
    using fresh run val None by (simp add: consumeDescriptor_def Let_def u_def)
  obtain p s where esc: "escalate (ObserveConsumeFault (t_escalation u) (t_sync u) (now turn)) (u\<lparr>consumeFaults := consumeFaults u + 1\<rparr>)
      = Ok (u\<lparr>consumeFaults := consumeFaults u + 1, t_escalation := p, t_sync := s\<rparr>)"
    using escalate_Ok(2) by fastforce
  have "dO \<or> (\<exists>bs. spanBytes u sp = Ok bs)" using sp u(3) by auto
  from protectedConsume_cases [OF this, of d tk consume] show ?thesis
  proof (elim disjE exE conjE)
    fix f assume p: "protectedConsume u d tk dO sp consume = (f, consumeNone, {})"
      and f: "if dO then f = descriptorOnlyFrame d tk else andThen (spanBytes u sp) (decodedFrame d tk) = Ok f"
    have "moved u (delivered reserve consume d u) 0 0 1"
      by (simp add: moved_def delivered_def Let_def moved_advance) (simp add: advanceHead_def)
    then have "moved t (delivered reserve consume d u) 0 0 1"
      using moved_trans [OF u(2)] by fastforce
    then have "disposition turn reserve consume d t (delivered reserve consume d u) (Ok (if consume \<noteq> None then zeroFrame else f, True))"
      by (rule disposition.delivery [OF fresh _ _ None _ val])
        (use u f in \<open>auto simp: delivered_def Let_def advanceHead_def\<close>)
    then show ?thesis using run' p by (simp add: dispatch_def)
  next
    fix e assume "protectedConsume u d tk dO sp consume = (zeroFrame, consumeMalformed, e)"
      "e = {errBadFrame}"
    then show ?thesis using run' u fresh by (auto simp: dispatch_def intro!: disposition.refused)
  next
    fix e assume "protectedConsume u d tk dO sp consume = (zeroFrame, consumeMalformed, e)"
      "e = {errBadFrame, ErrPayloadMalformed}"
    then show ?thesis using run' u fresh by (auto simp: dispatch_def intro!: disposition.refused)
  next
    assume c: "protectedConsume u d tk dO sp consume = (zeroFrame, consumeFaulted, {ErrConsumeFault})" "consume \<noteq> None"
    let ?v = "advanceHead (u\<lparr>consumeFaults := consumeFaults u + 1, t_escalation := p, t_sync := s\<rparr>)"
    have "moved u ?v 0 1 0"
      by (simp add: moved_def moved_advance) (simp add: advanceHead_def recv_inv_def)
    then have "moved t ?v 0 1 0" using moved_trans [OF u(2)] by fastforce
    then have "disposition turn reserve consume d t ?v (Err {ErrConsumeFault})"
      by (rule disposition.faulted [OF fresh _ c(2) _ None]) (use u in \<open>simp add: advanceHead_def\<close>)
    then show ?thesis using run' c esc by (simp add: dispatch_def)
  qed
qed

lemma consumeDescriptor_disposition:
  assumes inv: "recv_inv t" and run: "consumeDescriptor turn reserve consume d t = (t', r)"
  shows "disposition turn reserve consume d t t' r"
proof (cases "discardIfStale d (t_gen t)")
  case True
  let ?t = "t\<lparr>staleDiscarded := staleDiscarded t + 1\<rparr>"
  obtain p s where "escalate (Observe (t_escalation t) (t_sync t) (now turn) (DescGeneration d) (t_gen t)) ?t = Ok (?t\<lparr>t_escalation := p, t_sync := s\<rparr>)"
    using escalate_Ok(1) by blast
  then have "t' = advanceHead (?t\<lparr>t_escalation := p, t_sync := s\<rparr>)" "r = Ok (zeroFrame, False)"
    using run True by (auto simp: consumeDescriptor_def Let_def)
  with True show ?thesis
    by (auto intro!: disposition.stale simp: moved_def moved_advance) (simp_all add: advanceHead_def)
next
  case False
  consider (bad) "validate t d (consume \<noteq> None) \<in> {Err {errBadFrame}, Err {errChecksum}}"
    | (good) tk dO sp where "validate t d (consume \<noteq> None) = Ok (tk, dO, sp)"
        "\<forall>as. dO \<or> (\<exists>bs. spanBytes (peers as t) sp = Ok bs)"
    using validate_cases [OF inv, of d "consume \<noteq> None"] by auto
  then show ?thesis
  proof cases
    case bad
    with False run show ?thesis
      by (auto simp: consumeDescriptor_def moved_def intro!: disposition.refused)
  next
    case good
    with inv False run show ?thesis by (rule consumeDescriptor_valid)
  qed
qed

section \<open>The drain loop and the receive call\<close>

text \<open>The errors a drain ends with: the conformance faults, this side's fault, and the teardown error.\<close>

definition drain_err :: "Transport \<Rightarrow> err \<Rightarrow> bool" where
  "drain_err t e \<longleftrightarrow> e \<in> {{errRingCorrupt}, {errBadFrame}, {errChecksum}, {errBadFrame, ErrPayloadMalformed}, {ErrConsumeFault}} \<or>
     teardownError t = Some e"

lemma teardownError_cases: "teardownError t = Some e \<Longrightarrow> e = ErrPoisoned \<or> e = {TransportErrClosed}"
  by (auto simp: teardownError_def TeardownError_def Check_def Let_def split: if_splits)

lemma teardown_not_fault: "teardownError t = Some e \<Longrightarrow> e \<noteq> {ErrConsumeFault}"
  using teardownError_cases [of t e] by (auto simp: ErrPoisoned_def)

definition fault_count :: "(err, 'a) outcome \<Rightarrow> u64" where
  "fault_count r = (case r of Err e \<Rightarrow> if ErrConsumeFault \<in> e then 1 else 0 | _ \<Rightarrow> 0)"

definition frame_count :: "(err, Frame \<times> bool) outcome \<Rightarrow> u64" where
  "frame_count r = (case r of Ok (f, True) \<Rightarrow> 1 | _ \<Rightarrow> 0)"

lemma fault_count_teardown: "teardownError t = Some e \<Longrightarrow> fault_count (Err e) = 0"
  using teardownError_cases [of t e] by (auto simp: fault_count_def ErrPoisoned_def)

lemma disposition_moved:
  assumes "disposition turn reserve consume d t t' r"
  shows "r \<noteq> Panic \<and> (\<exists>s. moved t t' s (fault_count r) (frame_count r) \<and> (\<forall>f. r = Ok (f, False) \<longrightarrow> s = 1)) \<and>
    (\<forall>e. r = Err e \<longrightarrow> drain_err t' e) \<and> lastSeen t' \<in> {lastSeen t, lastSeen t + 1}"
  using assms
proof cases
  case (refused e)
  then show ?thesis
    by (intro conjI exI [of _ 0]) (auto simp: frame_count_def drain_err_def fault_count_def dest: fault_count_teardown
        teardownError_cases simp: ErrPoisoned_def moved_def)
qed (auto simp: fault_count_def frame_count_def drain_err_def moved_def)

lemma Peek_status_cases:
  assumes "ring_shape r"
  shows "\<exists>d st. Peek r = Ok (d, st)"
  using slot_in_range [OF assms, of "head r"] by (auto simp: Peek_def Let_def)

lemma unat_pred_less:
  assumes "(x :: u64) \<noteq> y"
  shows "unat (y - (x + 1)) < unat (y - x)"
proof -
  have "y - x \<noteq> 0" using assms by simp
  then have "unat (y - x - 1) = unat (y - x) - 1" "0 < unat (y - x)" by (simp_all add: unat_minus_one unat_gt_0)
  then show ?thesis by (simp add: diff_diff_eq)
qed

lemma drain_spec:
  assumes "recv_inv t"
  shows "\<exists>t' r. drain env k reserve consume newTail t = Some (t', r) \<and> r \<noteq> Panic \<and>
    (\<exists>s. moved t t' s (fault_count r) (frame_count r)) \<and> (\<forall>e. r = Err e \<longrightarrow> drain_err t' e) \<and>
    unat (newTail - lastSeen t') \<le> unat (newTail - lastSeen t)"
  using assms
proof (induction "unat (newTail - lastSeen t)" arbitrary: k t rule: less_induct)
  case less
  let ?t = "peers (before_peek (env k)) t"
  have inv: "recv_inv ?t" using less(2) by simp
  obtain d st where pk: "Peek (inboundRing ?t) = Ok (d, st)"
    using Peek_status_cases inv unfolding recv_inv_def by blast
  have mv: "moved t ?t 0 0 0" by (rule moved_peers)
  show ?case
  proof (cases "lastSeen t = newTail \<or> teardownError ?t \<noteq> None \<or> st \<noteq> PeekOK")
    case True
    then have "\<exists>t' r. drain env k reserve consume newTail t = Some (t', r) \<and> r \<noteq> Panic \<and> frame_count r = 0 \<and>
        fault_count r = 0 \<and> (t' = t \<or> t' = ?t) \<and> (\<forall>e. r = Err e \<longrightarrow> drain_err t' e)"
      using pk fault_count_teardown [of ?t]
      by (cases st) (auto simp: drain.simps [of env k] Let_def frame_count_def fault_count_def drain_err_def split: option.splits)
    moreover have "moved t t 0 0 0" by (simp add: moved_def)
    ultimately show ?thesis using mv by (metis peers_frame(1) order_refl)
  next
    case False
    obtain u r where c: "consumeDescriptor (env k) reserve consume d ?t = (u, r)" by fastforce
    have disp: "r \<noteq> Panic" "\<exists>s. moved ?t u s (fault_count r) (frame_count r) \<and> (\<forall>f. r = Ok (f, False) \<longrightarrow> s = 1)"
      "\<forall>e. r = Err e \<longrightarrow> drain_err u e" "lastSeen u \<in> {lastSeen t, lastSeen t + 1}"
      using disposition_moved [OF consumeDescriptor_disposition [OF inv c]] by auto
    then obtain s where s: "moved t u s (fault_count r) (frame_count r)" "\<forall>f. r = Ok (f, False) \<longrightarrow> s = 1"
      using moved_trans [OF mv] by fastforce
    have le: "unat (newTail - lastSeen u) \<le> unat (newTail - lastSeen t)"
      using False disp(4) unat_pred_less [of "lastSeen t" newTail] by auto
    have step: "drain env k reserve consume newTail t =
        (if \<exists>f. r = Ok (f, False) then drain env (Suc k) reserve consume newTail u else Some (u, r))"
      using False pk c disp(1) by (cases r) (auto simp: drain.simps [of env k] Let_def split: prod.splits)
    show ?thesis
    proof (cases "\<exists>f. r = Ok (f, False)")
      case True
      then have z: "fault_count r = 0" "frame_count r = 0" "s = 1"
        using s(2) by (auto simp: fault_count_def frame_count_def)
      then have m1: "moved t u 1 0 0" using s(1) by simp
      then have lt: "unat (newTail - lastSeen u) < unat (newTail - lastSeen t)" and inv': "recv_inv u"
        using False unat_pred_less [of "lastSeen t" newTail] less(2) by (auto simp: moved_def)
      from less(1) [OF lt inv', of "Suc k"] obtain t' r' s' where
        ih: "drain env (Suc k) reserve consume newTail u = Some (t', r')" "r' \<noteq> Panic"
          "moved u t' s' (fault_count r') (frame_count r')" "\<forall>e. r' = Err e \<longrightarrow> drain_err t' e"
          "unat (newTail - lastSeen t') \<le> unat (newTail - lastSeen u)" by blast
      have "moved t t' (1 + s') (fault_count r') (frame_count r')"
        using moved_trans [OF m1 ih(3)] by simp
      moreover have "drain env k reserve consume newTail t = Some (t', r')" using step True ih(1) by simp
      ultimately show ?thesis using ih(2,4) order_trans [OF ih(5) le] by blast
    next
      case False
      then show ?thesis using step s(1) disp(1,3) le by auto
    qed
  qed
qed

lemma faultToPoisonCause_valid: "faultToPoisonCause e = (c, True) \<Longrightarrow> valid_cause c"
  by (auto simp: faultToPoisonCause_def valid_cause_iff split: if_splits)

lemma poisonOnConformanceFault_spec:
  "\<exists>s. poisonOnConformanceFault t e =
     (if snd (faultToPoisonCause e) then (t\<lparr>t_sync := s\<rparr>, Err (markPoisoned e)) else (t, Err e)) \<and>
     (snd (faultToPoisonCause e) \<longrightarrow> s_poison s \<noteq> 0)"
proof (cases "faultToPoisonCause e")
  case (Pair c b)
  then show ?thesis
    using Set_valid [of c "t_sync t"] faultToPoisonCause_valid [of e c]
    by (cases b) (auto simp: poisonOnConformanceFault_def valid_cause_iff)
qed

text \<open>
  What the waiter promises: the shutdown word it saw set is still set, and its own errors are the
  context's.
\<close>

definition waits_ok :: "waited list \<Rightarrow> bool" where
  "waits_ok ws \<longleftrightarrow> (\<forall>w \<in> set ws. case w of
       WokenShutdown as \<Rightarrow> as \<noteq> [] \<and> (\<exists>v. last as = PeerShutdown v \<and> v \<noteq> 0)
     | WaitFailed e \<Rightarrow> e = {CtxCanceled} \<or> e = {CtxDeadlineExceeded}
     | Woken as env \<Rightarrow> True)"

lemma peers_shutdown:
  assumes "as \<noteq> []" "last as = PeerShutdown v" "v \<noteq> 0"
  shows "teardownError (peers as t) \<noteq> None"
proof -
  have "as = butlast as @ [PeerShutdown v]" using assms append_butlast_last_id [of as] by simp
  then have "peers as t = peer (peers (butlast as) t) (PeerShutdown v)"
    by (metis peers_def foldl_append foldl_Cons foldl_Nil)
  then show ?thesis using assms(3)
    by (simp add: teardownError_def TeardownError_def Check_def Let_def)
qed

definition recv_fault :: "(err, Frame) outcome option \<Rightarrow> bool" where
  "recv_fault r \<longleftrightarrow> (\<exists>e. r = Some (Err e) \<and> ErrConsumeFault \<in> e)"

definition recv_frame :: "(err, Frame) outcome option \<Rightarrow> bool" where
  "recv_frame r \<longleftrightarrow> (\<exists>f. r = Some (Ok f))"

lemma moved_sync [simp]: "moved t (u\<lparr>t_sync := s\<rparr>) a b c = moved t u a b c"
  by (simp add: moved_def recv_inv_def)

lemma recvCore_drained:
  assumes "moved t u s (fault_count (Err e)) 0" "poisonOnConformanceFault u e = (t', q)" "r = Some q"
  shows "r \<noteq> Some Panic \<and> (\<exists>s. moved t t' s (of_bool (recv_fault r)) (of_bool (recv_frame r)))"
  using assms poisonOnConformanceFault_spec [where 'a = Frame, of u e]
  by (auto simp: recv_fault_def recv_frame_def fault_count_def markPoisoned_def split: if_splits)

lemma recvCore_spec:
  assumes "recv_inv t" "waits_ok ws" "recvCore ws reserve consume t = (t', r)"
  shows "r \<noteq> Some Panic \<and> (\<exists>s. moved t t' s (of_bool (recv_fault r)) (of_bool (recv_frame r)))"
  using assms
proof (induction ws arbitrary: t)
  case Nil
  then show ?case by (auto simp: recv_fault_def recv_frame_def moved_def split: if_splits)
next
  case (Cons w ws)
  have refl: "moved t t 0 0 0" by (simp add: moved_def)
  show ?case
  proof (cases "t_closed t")
    case True
    then show ?thesis using Cons(4) refl by (auto simp: recv_fault_def recv_frame_def)
  next
    case open': False
    show ?thesis
    proof (cases w)
      case (WaitFailed e)
      then show ?thesis using Cons(3,4) open' refl by (auto simp: recv_fault_def recv_frame_def waits_ok_def)
    next
      case (WokenShutdown as)
      then obtain e where e: "teardownError (peers as t) = Some e"
        using Cons(3) peers_shutdown [of as _ t] by (fastforce simp: waits_ok_def)
      then show ?thesis
        using Cons(4) open' WokenShutdown moved_peers [of t as] teardownError_cases [OF e]
        by (auto simp: recv_fault_def recv_frame_def ErrPoisoned_def Let_def)
    next
      case (Woken as env)
      let ?t = "peers as t"
      have inv: "recv_inv ?t" and ws: "waits_ok ws" using Cons(2,3) by (auto simp: waits_ok_def)
      obtain u q s where d: "drain env 0 reserve consume (Tail (inboundRing ?t)) ?t = Some (u, q)" "q \<noteq> Panic"
          "moved ?t u s (fault_count q) (frame_count q)" "\<forall>e. q = Err e \<longrightarrow> drain_err u e"
        using drain_spec [OF inv, of env 0 reserve consume "Tail (inboundRing ?t)"] by blast
      have m: "moved t u s (fault_count q) (frame_count q)"
        using moved_trans [OF moved_peers d(3)] by simp
      have again: "r \<noteq> Some Panic \<and> (\<exists>s. moved t t' s (of_bool (recv_fault r)) (of_bool (recv_frame r)))"
        if "moved t v n 0 0" "recvCore ws reserve consume v = (t', r)" "recv_inv v" for v n
        using Cons.IH [OF that(3) ws that(2)] moved_trans [OF that(1)] by fastforce
      show ?thesis
      proof (cases "Tail (inboundRing ?t) = lastSeen ?t")
        case True
        then show ?thesis using again [OF moved_peers _ inv] Cons(4) open' Woken by (simp add: Let_def)
      next
        case False
        then have run: "(t', r) = (case q of Ok (f, ok) \<Rightarrow> if ok then (u, Some (Ok f)) else recvCore ws reserve consume u
            | Err e \<Rightarrow> (case poisonOnConformanceFault u e of (t'', r) \<Rightarrow> (t'', Some r)) | Panic \<Rightarrow> (u, Some Panic))"
          using Cons(4) open' Woken d(1) by (simp add: Let_def)
        have inv': "recv_inv u" using d(3) inv by (simp add: moved_def)
        show ?thesis
        proof (cases q)
          case (Ok x)
          then obtain f ok where x: "q = Ok (f, ok)" by (cases x) auto
          then show ?thesis
            using run m again [of u s] inv'
            by (cases ok) (simp_all add: fault_count_def frame_count_def recv_fault_def recv_frame_def, blast)
        next
          case (Err e)
          then have "moved t u s (fault_count (Err e :: (err, Frame \<times> bool) outcome)) 0" using m by (simp add: frame_count_def)
          then show ?thesis
            using run Err recvCore_drained [of t u s e t'] by (auto simp: fault_count_def split: prod.splits)
        qed (use d(2) in simp)
      qed
    qed
  qed
qed

section \<open>Poison is permanent\<close>

definition keeps_poison :: "peer_act list \<Rightarrow> bool" where
  "keeps_poison as \<longleftrightarrow> (\<forall>a \<in> set as. \<not> (\<exists>c. a = PeerPoison c))"

definition keeps_poison_waits :: "waited list \<Rightarrow> bool" where
  "keeps_poison_waits ws \<longleftrightarrow> (\<forall>w \<in> set ws. case w of
       Woken as env \<Rightarrow> keeps_poison as \<and> (\<forall>k. keeps_poison (before_peek (env k)))
     | WokenShutdown as \<Rightarrow> keeps_poison as
     | WaitFailed e \<Rightarrow> True)"

lemma peers_poison: "keeps_poison as \<Longrightarrow> s_poison (t_sync (peers as t)) = s_poison (t_sync t)"
proof (induction as arbitrary: t)
  case (Cons a as)
  moreover have "s_poison (t_sync (peer t a)) = s_poison (t_sync t)" using Cons(2) by (cases a) (auto simp: keeps_poison_def)
  ultimately show ?case by (simp add: peers_def keeps_poison_def)
qed (simp add: peers_def)

lemma teardown_poisoned: "s_poison (t_sync t) \<noteq> 0 \<Longrightarrow> teardownError t = Some ErrPoisoned"
  by (simp add: teardownError_def TeardownError_def Check_def Let_def)

lemma drain_poisoned:
  assumes "s_poison (t_sync t) \<noteq> 0" "keeps_poison (before_peek (env k))" "lastSeen t \<noteq> newTail"
  shows "drain env k reserve consume newTail t = Some (peers (before_peek (env k)) t, Err ErrPoisoned)"
  using assms teardown_poisoned [of "peers (before_peek (env k)) t"]
  by (simp add: drain.simps [of env k] peers_poison Let_def)

lemma recvCore_poisoned:
  assumes "s_poison (t_sync t) \<noteq> 0" "keeps_poison_waits ws" "recvCore ws reserve consume t = (t', r)"
  shows "moved t t' 0 0 0 \<and> \<not> recv_frame r \<and> s_poison (t_sync t') = s_poison (t_sync t)"
  using assms
proof (induction ws arbitrary: t)
  case Nil
  then show ?case by (auto simp: moved_def recv_frame_def split: if_splits)
next
  case (Cons w ws)
  have ws: "keeps_poison_waits ws" using Cons(3) by (simp add: keeps_poison_waits_def)
  show ?case
  proof (cases "t_closed t")
    case False
    show ?thesis
    proof (cases w)
      case (Woken as env)
      let ?t = "peers as t"
      have p: "s_poison (t_sync ?t) = s_poison (t_sync t)" and k: "keeps_poison (before_peek (env 0))"
        using Cons(3) Woken by (auto simp: keeps_poison_waits_def peers_poison)
      have np: "faultToPoisonCause ErrPoisoned = (PoisonNone, False)" by (simp add: faultToPoisonCause_def ErrPoisoned_def)
      show ?thesis
      proof (cases "Tail (inboundRing ?t) = lastSeen ?t")
        case True
        then have "recvCore ws reserve consume ?t = (t', r)" using Cons(4) False Woken by (simp add: Let_def)
        from Cons.IH [OF _ ws this] show ?thesis
          using Cons(2) p moved_trans [OF moved_peers, of as t t' 0 0 0] by simp
      next
        case ne: False
        then have "drain env 0 reserve consume (Tail (inboundRing ?t)) ?t = Some (peers (before_peek (env 0)) ?t, Err ErrPoisoned)"
          using Cons(2) p k by (intro drain_poisoned) auto
        then have "t' = peers (before_peek (env 0)) ?t \<and> r = Some (Err ErrPoisoned)"
          using Cons(4) False Woken ne np by (auto simp: Let_def poisonOnConformanceFault_def)
        then show ?thesis using p k by (simp add: moved_def recv_frame_def peers_poison)
      qed
    next
      case (WokenShutdown as)
      then have "keeps_poison as" using Cons(3) by (simp add: keeps_poison_waits_def)
      then show ?thesis
        using Cons(2,4) False WokenShutdown teardown_poisoned [of "peers as t"]
        by (auto simp: moved_def recv_frame_def peers_poison Let_def)
    next
      case (WaitFailed e)
      then show ?thesis using Cons(4) False by (auto simp: moved_def recv_frame_def)
    qed
  qed (use Cons(4) in \<open>auto simp: moved_def recv_frame_def\<close>)
qed

text \<open>An error of a receive that names a conformance fault was raised by the drain, and poisoned the region.\<close>

definition conformance_err :: "err \<Rightarrow> bool" where
  "conformance_err e \<longleftrightarrow> errRingCorrupt \<in> e \<or> errBadFrame \<in> e \<or> errChecksum \<in> e"

lemma recvCore_conformance:
  assumes "waits_ok ws" "recvCore ws reserve consume t = (t', Some (Err e))" "conformance_err e"
  shows "TransportErrPoisoned \<in> e \<and> s_poison (t_sync t') \<noteq> 0"
  using assms
proof (induction ws arbitrary: t)
  case (Cons w ws)
  have ws: "waits_ok ws" using Cons(2) by (simp add: waits_ok_def)
  show ?case
  proof (cases w)
    case (Woken as env)
    let ?d = "drain env 0 reserve consume (Tail (inboundRing (peers as t))) (peers as t)"
    show ?thesis
    proof (cases "Tail (inboundRing (peers as t)) \<noteq> lastSeen (peers as t) \<and> (\<exists>u e'. ?d = Some (u, Err e'))")
      case True
      then obtain u e' where d: "?d = Some (u, Err e')" by blast
      then have p: "poisonOnConformanceFault u e' = (t', (Err e :: (err, Frame) outcome))"
        using Cons(3,4) Woken True by (auto simp: Let_def conformance_err_def split: if_splits prod.splits)
      then have "snd (faultToPoisonCause e')"
        using Cons(4) poisonOnConformanceFault_spec [where 'a = Frame, of u e']
        by (auto simp: conformance_err_def faultToPoisonCause_def split: if_splits)
      then show ?thesis
        using p poisonOnConformanceFault_spec [where 'a = Frame, of u e'] by (auto simp: markPoisoned_def)
    next
      case False
      then show ?thesis
        using Cons.IH [OF ws _ Cons(4)] Cons(3,4) Woken
        by (auto simp: Let_def conformance_err_def split: if_splits option.splits prod.splits outcome.splits)
    qed
  next
    case (WokenShutdown as)
    then show ?thesis using Cons(3,4) teardownError_cases [of "peers as t" e]
      by (auto simp: Let_def conformance_err_def ErrPoisoned_def split: if_splits option.splits)
  next
    case (WaitFailed e')
    then show ?thesis using Cons(2-4) by (auto simp: conformance_err_def waits_ok_def split: if_splits)
  qed
qed (auto simp: conformance_err_def split: if_splits)

section \<open>A concrete region\<close>

definition sample_payload :: "byte list" where
  "sample_payload = [1, 2, 3]"

definition sample_desc :: Descriptor where
  "sample_desc = SetFlags (SetGeneration (SetAllocSeq (SetPayloadLength (SetPayloadOffset zeroDescriptor 64) 3) 1) 7) 4"

definition sample_recv :: "byte list \<Rightarrow> Transport" where
  "sample_recv payload =
     \<lparr>inboundRing = \<lparr>slots = sample_desc # replicate 63 zeroDescriptor, head = 0, tail = 1, rmask = 63, capacity = 64\<rparr>,
      inboundArenaBytes = replicate 64 0 @ payload @ le_encode 4 (crc32c sample_payload) @ replicate (8316 - length payload) 0,
      inboundClasses = sample_classes, t_sync = \<lparr>s_poison = 0, s_shutdown = 0, hpEFD = 0, phEFD = 0\<rparr>,
      t_escalation = NewEscalationPolicy \<lparr>GraceWindow = 0, RateWindow = 0, RateThreshold = 0, ConsumeFaultRunThreshold = 0\<rparr> 0,
      t_gen = 7, t_checksum = True, t_chunkingActive = False, maxRecvPayload = 4092, lastSeen = 0,
      staleDiscarded = 0, consumeFaults = 0, framesReceived = 0, bytesReceived = 0, t_closed = False,
      t_reserved = 0, t_progress = 0\<rparr>"

definition quiet :: turn where
  "quiet = \<lparr>now = 0, before_peek = [], before_gate = []\<rparr>"

lemma sample_desc_fields [simp]:
  "PayloadOffset sample_desc = 64" "PayloadLength sample_desc = 3" "AllocSeq sample_desc = 1" "Flags sample_desc = 4"
  "DescGeneration sample_desc = 7" "KindWord sample_desc = 0" "Kind sample_desc = 0" "BudgetNS sample_desc = 0"
  by (simp_all add: Kind_KindWord BudgetNS_def sample_desc_def get_of_fields fields_set_simps fields_zero)

lemma sample_recv_inv: "length payload = 3 \<Longrightarrow> recv_inv (sample_recv payload)"
  using sample_geometry by (simp add: recv_inv_def sample_recv_def ring_shape_def exI [of _ 6])

lemma sample_fresh [simp]: "\<not> discardIfStale sample_desc (t_gen (sample_recv payload))"
  by (simp add: discardIfStale_def Stale_def Truncated_def sample_recv_def)

lemma sample_classify [simp]: "classify (sample_recv payload) sample_desc = Ok (FrameUnaryReq, False)"
  by (simp add: classify_def sample_recv_def unmapKind_def)

lemma sample_stored [simp]: "stored_length sample_desc = 7"
  by (simp add: stored_length_def)

lemma sample_payload_ok [simp]: "payload_ok (sample_recv payload) sample_desc"
  by (simp add: payload_ok_def sample_recv_def servingClass_def sample_classes_def SelectClass_def slab_id_def
      slab_start_def Ex_less_Suc2 exI [of _ 1])

lemma sample_arena_payload [simp]:
  "length payload = 3 \<Longrightarrow> arena_payload (sample_recv payload) sample_desc = payload"
  "length payload = 3 \<Longrightarrow> le_decode (arena_trailer (sample_recv payload) sample_desc) = crc32c sample_payload"
  by (simp_all add: arena_payload_def arena_trailer_def sample_recv_def le_decode_encode)

lemma sample_recv_sel [simp]:
  "lastSeen (sample_recv payload) = 0" "Peek (inboundRing (sample_recv payload)) = Ok (sample_desc, PeekOK)"
  "teardownError (sample_recv payload) = None" "Tail (inboundRing (sample_recv payload)) = 1"
  "t_closed (sample_recv payload) = False" "framesReceived (sample_recv payload) = 0"
  by (simp_all add: sample_recv_def Peek_def teardownError_def TeardownError_def Check_def Tail_def)

section \<open>Properties\<close>



text \<open>C25: the consume path of one descriptor ends in exactly one of four ways. A stale descriptor is
  discarded and its slot released. A conformance fault, bytes the callback calls malformed, and a teardown seen at
  the final gate release nothing and count nothing. A fault of this side's callback releases the slot and
  counts the fault. A delivery happens only past the final gate, releases the slot once, and fires the
  reservation exactly once.\<close>

theorem consume_dispositions:
  assumes "recv_inv t" "consumeDescriptor turn reserve consume d t = (t', r)"
  shows "disposition turn reserve consume d t t' r"
  by (rule consumeDescriptor_disposition [OF assms])

theorem consume_dispositions_witness:
  "\<exists>t' r. consumeDescriptor quiet True None sample_desc (sample_recv sample_payload) = (t', r) \<and>
     disposition quiet True None sample_desc (sample_recv sample_payload) t' r"
proof -
  obtain t' r where run: "consumeDescriptor quiet True None sample_desc (sample_recv sample_payload) = (t', r)" by fastforce
  have "recv_inv (sample_recv sample_payload)" by (rule sample_recv_inv) (simp add: sample_payload_def)
  from consume_dispositions [OF this run] run show ?thesis by blast
qed

text \<open>on a frame with a checksum trailer, a payload that differs in any one byte from the one the producer
  checksummed is refused: nothing is delivered, no slot is released, and the receive path sees a checksum
  fault.\<close>

theorem corrupted_payload_refused:
  assumes "recv_inv t" "\<not> discardIfStale d (t_gen t)" "classify t d = Ok (tk, False)" "payload_ok t d"
    and "Flags d AND flagCRC32CPresent \<noteq> 0"
    and "le_decode (arena_trailer t d) = crc32c sent"
    and "arena_payload t d = sent[i := b]" "i < length sent" "sent ! i \<noteq> b"
  shows "consumeDescriptor turn reserve consume d t = (t, Err {errChecksum})"
proof -
  have "stored_length d \<noteq> 0" using assms(5) by (simp add: stored_length_def)
  then have "payloadBytes t d (consume \<noteq> None) = Err {errChecksum}"
    using payloadBytes_spec [of t d "consume \<noteq> None"] assms(1,4-7) crc32c_update [OF assms(8,9)]
    by (simp add: recv_inv_def)
  then show ?thesis using assms(2,3) by (simp add: consumeDescriptor_def validate_def)
qed

theorem corrupted_payload_refused_witness:
  "consumeDescriptor quiet True None sample_desc (sample_recv [1, 9, 3]) = (sample_recv [1, 9, 3], Err {errChecksum})"
  by (rule corrupted_payload_refused [where tk = FrameUnaryReq and sent = sample_payload and i = 1 and b = 9])
    (simp_all add: sample_recv_inv sample_payload_def)

text \<open>C38: the drain loop always returns, whatever the peer does during it, without panicking, and never moves its
  cursor past the tail it was given.\<close>

theorem drain_returns:
  assumes "recv_inv t"
  shows "\<exists>t' r. drain env k reserve consume newTail t = Some (t', r) \<and> r \<noteq> Panic \<and>
    unat (newTail - lastSeen t') \<le> unat (newTail - lastSeen t)"
  using drain_spec [OF assms, of env k reserve consume newTail] by blast

theorem drain_returns_witness:
  "\<exists>t' r. drain (\<lambda>_. quiet) 0 True None 1 (sample_recv sample_payload) = Some (t', r) \<and> r \<noteq> Panic"
proof -
  have "recv_inv (sample_recv sample_payload)" by (rule sample_recv_inv) (simp add: sample_payload_def)
  from drain_returns [OF this, of "\<lambda>_. quiet" 0 True None 1] show ?thesis by blast
qed

text \<open>over a whole receive call, under any stores of the peer, every slot the cursor passes is accounted for
  exactly once: as a stale discard, as the consume fault the call reports, or as the frame it returns.\<close>

theorem recv_accounting:
  assumes "recv_inv t" "waits_ok ws" "recvCore ws reserve consume t = (t', r)"
  shows "r \<noteq> Some Panic \<and> recv_inv t' \<and>
    framesReceived t' - framesReceived t = of_bool (\<exists>f. r = Some (Ok f)) \<and>
    consumeFaults t' - consumeFaults t = of_bool (\<exists>e. r = Some (Err e) \<and> ErrConsumeFault \<in> e) \<and>
    lastSeen t' - lastSeen t = (staleDiscarded t' - staleDiscarded t) +
      (consumeFaults t' - consumeFaults t) + (framesReceived t' - framesReceived t)"
  using recvCore_spec [OF assms] assms(1)
  by (auto simp: moved_def recv_fault_def recv_frame_def)

theorem recv_accounting_witness:
  "\<exists>t' r. recvCore [Woken [] (\<lambda>_. quiet)] True None (sample_recv sample_payload) = (t', r) \<and> r \<noteq> Some Panic \<and>
     framesReceived t' = of_bool (\<exists>f. r = Some (Ok f))"
proof -
  obtain t' r where run: "recvCore [Woken [] (\<lambda>_. quiet)] True None (sample_recv sample_payload) = (t', r)" by fastforce
  have "recv_inv (sample_recv sample_payload)" by (rule sample_recv_inv) (simp add: sample_payload_def)
  from recv_accounting [OF this _ run] run show ?thesis by (simp add: waits_ok_def)
qed

text \<open>C24: a receive that ends in a conformance fault leaves the region poisoned and its error marked as a
  poison; from then on, as long as nobody clears the poison word, no receive returns a frame or moves the
  cursor.\<close>

theorem recv_fails_closed:
  assumes "waits_ok ws" "recvCore ws reserve consume t = (t', Some (Err e))" "conformance_err e"
    and "keeps_poison_waits ws'" "recvCore ws' reserve' consume' t' = (t'', r)"
  shows "TransportErrPoisoned \<in> e \<and> s_poison (t_sync t') \<noteq> 0 \<and>
    \<not> (\<exists>f. r = Some (Ok f)) \<and> moved t' t'' 0 0 0 \<and> s_poison (t_sync t'') \<noteq> 0"
  using recvCore_conformance [OF assms(1-3)] recvCore_poisoned [OF _ assms(4,5)] by (auto simp: recv_frame_def)

theorem recv_fails_closed_witness:
  "\<exists>t' t'' e r. recvCore [Woken [] (\<lambda>_. quiet)] True None (sample_recv [1, 9, 3]) = (t', Some (Err e)) \<and>
     recvCore [Woken [] (\<lambda>_. quiet)] True None t' = (t'', r) \<and> s_poison (t_sync t') \<noteq> 0 \<and> moved t' t'' 0 0 0"
proof -
  let ?t = "sample_recv [1, 9, 3]"
  have c: "consumeDescriptor quiet True None sample_desc ?t = (?t, Err {errChecksum})"
    using payloadBytes_spec [of ?t sample_desc False] sample_recv_inv [of "[1, 9, 3]"]
      crc32c_update [of 1 sample_payload 9]
    by (simp add: consumeDescriptor_def validate_def recv_inv_def sample_payload_def)
  have "drain (\<lambda>_. quiet) 0 True None 1 ?t = Some (?t, Err {errChecksum})"
    using c by (simp add: drain.simps quiet_def peers_def)
  then have r: "recvCore [Woken [] (\<lambda>_. quiet)] True None ?t
      = (fst (poisonOnConformanceFault ?t {errChecksum} :: Transport \<times> (err, Frame) outcome), Some (Err (markPoisoned {errChecksum})))"
    by (simp add: peers_def poisonOnConformanceFault_def faultToPoisonCause_def Set_def Let_def)
  obtain t'' q where r2: "recvCore [Woken [] (\<lambda>_. quiet)] True None
      (fst (poisonOnConformanceFault ?t {errChecksum} :: Transport \<times> (err, Frame) outcome)) = (t'', q)" by fastforce
  from recv_fails_closed [OF _ r _ _ r2] r r2 show ?thesis
    by (simp add: waits_ok_def conformance_err_def markPoisoned_def keeps_poison_waits_def keeps_poison_def quiet_def)
qed

end
