(* ===== verification/Writer.thy ===== *)
theory Writer
  imports Consumer
begin

text \<open>
  The producing half of the shared-memory transport: the single writer goroutine of
  \<^verbatim>\<open>src/internal/transport/shm/writer.go\<close> and the intents of \<^verbatim>\<open>intent.go\<close> it serves, with a region
  attached (the nil handle table and nil poison of the isolated tests are left out). The consumer's
  head word, the sync words and a cancelling caller change under the writer's feet; what they do at
  each point is an argument.
\<close>

section \<open>Intents\<close>

datatype lane = laneData | laneLifecycle | laneOther

datatype fill_state = fillPending | fillFilling | fillAbandoned

text \<open>
  The callback of a fill intent gets the payload window and leaves new bytes in it, fails, or panics.
\<close>

record payloadFill =
  pf_size :: int
  pf_fn :: "byte list \<Rightarrow> (err, byte list) outcome"

text \<open>The identity of an intent stands for its completion channel and its handshake word.\<close>

record intent =
  i_id :: nat
  i_frame :: Frame
  i_lane :: lane
  i_wire :: "byte list option"
  i_fill :: "payloadFill option"

record slabRef =
  ref_h :: SlabHandle
  present :: bool

definition noHandle :: SlabHandle where
  "noHandle = \<lparr>Offset = 0, Length = 0, h_Generation = 0, Sequence = 0, h_class = 0, h_index = 0, h_owner = 0\<rparr>"

definition noRef :: slabRef where
  "noRef = \<lparr>ref_h = noHandle, present = False\<rparr>"

record carry =
  c_i :: intent
  c_d :: Descriptor
  built :: bool
  c_h :: SlabHandle
  hasSlab :: bool
  parked :: bool
  parkedClass :: nat

record classStall =
  slabSize :: u32
  setAside :: u64
  resumed :: u64

section \<open>The writer\<close>

text \<open>
  \<open>w_reports\<close> is the log of completions: an intent's identity and the error, if any. \<open>w_panicked\<close> says
  that the goroutine has panicked.
\<close>

record writer =
  w_ring :: Ring
  w_arena :: Arena
  w_sig :: producerSignal
  framesSent :: u64
  bytesSent :: u64
  dataQueue :: "intent list"
  lifecycleQueue :: "intent list"
  w_gen :: u32
  w_checksum :: bool
  w_chunkingActive :: bool
  maxStored :: u32
  handleTable :: "slabRef list"
  handleMask :: u64
  lastReclaimed :: u64
  pendingSlab :: slabRef
  classStalls :: "classStall list"
  exhaustedClass :: int
  w_fills :: "nat \<Rightarrow> fill_state"
  w_reports :: "(nat \<times> err option) list"
  w_panicked :: bool

datatype emitResult = emitDone | emitStuck

datatype buildStatus = buildOK Descriptor | buildStuck | buildFailed

abbreviation (input) noClass :: int where "noClass \<equiv> -1"

text \<open>
  What happens concurrently: the consumer stores its head or its park word, a side poisons the region or
  shuts it down, a caller whose context fired abandons its fill intent.
\<close>

datatype wact = ConsumerHead u64 | ConsumerPark u32 | SetPoison u32 | SetShutdown u32 | Abandon nat

definition abandon :: "writer \<Rightarrow> nat \<Rightarrow> writer \<times> bool" where
  "abandon w i = (if w_fills w i = fillPending then (w\<lparr>w_fills := (w_fills w)(i := fillAbandoned)\<rparr>, True) else (w, False))"

definition claim :: "writer \<Rightarrow> nat \<Rightarrow> writer \<times> bool" where
  "claim w i = (if w_fills w i = fillPending then (w\<lparr>w_fills := (w_fills w)(i := fillFilling)\<rparr>, True) else (w, False))"

definition abandoned :: "writer \<Rightarrow> nat \<Rightarrow> bool" where
  "abandoned w i \<longleftrightarrow> w_fills w i = fillAbandoned"

definition w_sync :: "writer \<Rightarrow> sync" where
  "w_sync w = ps_sync (w_sig w)"

definition set_sync :: "writer \<Rightarrow> sync \<Rightarrow> writer" where
  "set_sync w s = w\<lparr>w_sig := (w_sig w)\<lparr>ps_sync := s\<rparr>\<rparr>"

fun env_act :: "writer \<Rightarrow> wact \<Rightarrow> writer" where
  "env_act w (ConsumerHead h) = w\<lparr>w_ring := (w_ring w)\<lparr>head := h\<rparr>\<rparr>"
| "env_act w (ConsumerPark p) = w\<lparr>w_sig := (w_sig w)\<lparr>ps_park := \<lparr>word = p\<rparr>\<rparr>\<rparr>"
| "env_act w (SetPoison c) = (if c = 0 then w else set_sync w ((w_sync w)\<lparr>s_poison := c\<rparr>))"
| "env_act w (SetShutdown c) = set_sync w ((w_sync w)\<lparr>s_shutdown := c\<rparr>)"
| "env_act w (Abandon i) = fst (abandon w i)"

definition env_acts :: "wact list \<Rightarrow> writer \<Rightarrow> writer" where
  "env_acts as w = foldl env_act w as"

text \<open>The points of one placement at which the environment acts, and whether the eventfd write succeeds.\<close>

record wturn =
  at_build :: "wact list"
  at_claim :: "wact list"
  at_gate :: "wact list"
  at_push :: "wact list"
  at_published :: "wact list"
  wakeOk :: bool

section \<open>Reports, rollback and poison\<close>

definition report :: "intent \<Rightarrow> err option \<Rightarrow> writer \<Rightarrow> writer" where
  "report i e w = w\<lparr>w_reports := w_reports w @ [(i_id i, e)]\<rparr>"

text \<open>The error of a free is dropped, as the source drops it.\<close>

definition freeSlab :: "SlabHandle \<Rightarrow> writer \<Rightarrow> writer" where
  "freeSlab h w =
     (case Free (w_arena w) h of
        Ok a \<Rightarrow> w\<lparr>w_arena := a\<rparr>
      | Err e \<Rightarrow> w
      | Panic \<Rightarrow> w\<lparr>w_panicked := True\<rparr>)"

definition poisonRingCorrupt :: "writer \<Rightarrow> writer" where
  "poisonRingCorrupt w =
     (case Set (w_sync w) PoisonRingCorrupt of
        Ok (won, s) \<Rightarrow> set_sync w s
      | _ \<Rightarrow> w\<lparr>w_panicked := True\<rparr>)"

definition prePublishFault :: "writer \<Rightarrow> err option" where
  "prePublishFault w = map_option fst (TeardownError (w_sync w))"

definition publishSeq :: "writer \<Rightarrow> u64" where
  "publishSeq w = Tail (w_ring w)"

section \<open>Reclaim\<close>

definition w_capacity :: "writer \<Rightarrow> u64" where
  "w_capacity w = of_nat (length (handleTable w))"

definition reclaimOne :: "writer \<Rightarrow> writer" where
  "reclaimOne w =
     (let slot = unat (lastReclaimed w AND handleMask w) in
      if slot \<ge> length (handleTable w) then w\<lparr>w_panicked := True\<rparr>
      else let ref = handleTable w ! slot in
        if present ref then (freeSlab (ref_h ref) w)\<lparr>handleTable := (handleTable w)[slot := noRef]\<rparr> else w)"

function reclaimTo :: "u64 \<Rightarrow> writer \<Rightarrow> writer" where
  "reclaimTo hw w =
     (if lastReclaimed w = hw then w
      else reclaimTo hw ((reclaimOne w)\<lparr>lastReclaimed := lastReclaimed w + 1\<rparr>))"
  by pat_completeness auto
termination
  by (relation "measure (\<lambda>(hw, w). unat (hw - lastReclaimed w))") (auto intro: unat_pred_less)

declare reclaimTo.simps [simp del]

definition reclaim :: "u64 \<Rightarrow> writer \<Rightarrow> writer" where
  "reclaim maxReconcile w =
     (let depth = Len (w_ring w) in
      if depth > w_capacity w then poisonRingCorrupt w
      else let hw = Tail (w_ring w) - depth; steps = hw - lastReclaimed w in
        if steps > maxReconcile then poisonRingCorrupt w else reclaimTo hw w)"

section \<open>Building a descriptor\<close>

definition payloadOf :: "intent \<Rightarrow> byte list \<times> int" where
  "payloadOf i =
     (case i_fill i of
        Some pf \<Rightarrow> ([], pf_size pf)
      | None \<Rightarrow>
          let wire = (case i_wire i of Some bs \<Rightarrow> bs | None \<Rightarrow> wirePayload (i_frame i)) in (wire, int (length wire)))"

definition stalledClassFor :: "writer \<Rightarrow> u32 \<Rightarrow> int" where
  "stalledClassFor w sz = (case ServingClass (w_arena w) sz of (ci, True) \<Rightarrow> int ci | (_, False) \<Rightarrow> noClass)"

text \<open>Stores bytes into the slab at an offset of the arena.\<close>

definition storeSlab :: "nat \<Rightarrow> byte list \<Rightarrow> writer \<Rightarrow> writer" where
  "storeSlab lo bs w = w\<lparr>w_arena := (w_arena w)\<lparr>amem := put_bytes (amem (w_arena w)) lo bs\<rparr>\<rparr>"

text \<open>The window has a fixed size: a callback cannot leave more or fewer bytes in it.\<close>

definition runFill :: "payloadFill \<Rightarrow> byte list \<Rightarrow> (err, byte list) outcome" where
  "runFill pf window =
     (case pf_fn pf window of
        Ok bs \<Rightarrow> Ok (take (length window) (bs @ drop (length bs) window))
      | Err e \<Rightarrow> Err e
      | Panic \<Rightarrow> Err {errFillPanic})"

definition fillSlab :: "wturn \<Rightarrow> intent \<Rightarrow> payloadFill \<Rightarrow> SlabHandle \<Rightarrow> nat \<Rightarrow> nat \<Rightarrow> writer \<Rightarrow> writer \<times> bool" where
  "fillSlab t i pf h lo n w =
     (let (w, won) = claim (env_acts (at_claim t) w) (i_id i) in
      if \<not> won then (report i (Some {errSendAbandoned}) (freeSlab h w), False)
      else if n = 0 then (w, True)
      else case runFill pf (take n (drop lo (amem (w_arena w)))) of
          Ok bs \<Rightarrow> (storeSlab lo bs w, True)
        | Err e \<Rightarrow> (report i (Some ({ErrPayloadFillFailed} \<union> e)) (freeSlab h w), False)
        | Panic \<Rightarrow> (w\<lparr>w_panicked := True\<rparr>, False))"

definition sealSlab :: "SlabHandle \<Rightarrow> nat \<Rightarrow> nat \<Rightarrow> Descriptor \<Rightarrow> writer \<Rightarrow> writer \<times> buildStatus" where
  "sealSlab h lo n d w =
     (let w = (if w_checksum w
               then storeSlab (lo + n) (le_encode 4 (crc32c (take n (drop lo (amem (w_arena w)))))) w else w);
          d = (if w_checksum w then SetFlags d (Flags d OR flagCRC32CPresent) else d);
          d = SetPayloadOffset d (Offset h);
          d = SetPayloadLength d (of_nat n);
          d = SetGeneration d (h_Generation h);
          d = SetAllocSeq d (Sequence h) in
      (w\<lparr>pendingSlab := \<lparr>ref_h = h, present = True\<rparr>\<rparr>, buildOK d))"

definition stampPayload :: "wturn \<Rightarrow> intent \<Rightarrow> Descriptor \<Rightarrow> byte list \<Rightarrow> int \<Rightarrow> writer \<Rightarrow> writer \<times> buildStatus" where
  "stampPayload t i d wire msgLen w =
     (let crcTrailer = (if w_checksum w then 4 else 0);
          maxMsg = (if maxStored w \<noteq> 0 then uint (maxStored w) - crcTrailer else int MaxFrameSize) in
      if msgLen < 0 \<or> msgLen > maxMsg then (report i (Some {ErrPayloadTooLarge}) w, buildFailed)
      else let n = nat msgLen; storedLen = word_of_int (msgLen + crcTrailer) :: u32; w = reclaim (w_capacity w) w in
        case Alloc (w_arena w) storedLen of
          Err ErrExhausted \<Rightarrow> (w\<lparr>exhaustedClass := stalledClassFor w storedLen\<rparr>, buildStuck)
        | Err ErrTooLarge \<Rightarrow> (report i (Some {ErrPayloadTooLarge}) w, buildFailed)
        | Err e \<Rightarrow> (report i (Some {ErrOther}) w, buildFailed)
        | Panic \<Rightarrow> (w\<lparr>w_panicked := True\<rparr>, buildFailed)
        | Ok ((h, lo, hi), a) \<Rightarrow>
            let w = w\<lparr>w_arena := a\<rparr> in
            if w_gen w \<noteq> 0 \<and> h_Generation h \<noteq> w_gen w
            then (report i (Some {errGenerationMismatch}) (freeSlab h w), buildFailed)
            else if lo + nat (msgLen + crcTrailer) > hi then (w\<lparr>w_panicked := True\<rparr>, buildFailed)
            else case i_fill i of
                None \<Rightarrow> sealSlab h lo n d (storeSlab lo (take n wire) w)
              | Some pf \<Rightarrow>
                  (case fillSlab t i pf h lo n w of
                     (w', False) \<Rightarrow> (w', buildFailed)
                   | (w', True) \<Rightarrow> sealSlab h lo n d w'))"

definition build :: "wturn \<Rightarrow> intent \<Rightarrow> writer \<Rightarrow> writer \<times> buildStatus" where
  "build t i w =
     (let w = w\<lparr>pendingSlab := noRef\<rparr> in
      if i_lane i \<noteq> laneData \<and> i_lane i \<noteq> laneLifecycle then (report i (Some {errUnknownLane}) w, buildFailed)
      else case mapKind (fr_Kind (i_frame i)) (w_chunkingActive w) of
          Err e \<Rightarrow> (report i (Some e) w, buildFailed)
        | Panic \<Rightarrow> (w\<lparr>w_panicked := True\<rparr>, buildFailed)
        | Ok (rk, descriptorOnly) \<Rightarrow>
            if descriptorOnly \<noteq> (i_lane i = laneLifecycle) then (report i (Some {errLaneKindMismatch}) w, buildFailed)
            else let f = i_frame i;
                     d = SetReserved (SetGeneration (SetCallID (SetKind zeroDescriptor rk) (fr_CallID f)) (w_gen w)) (fr_Control f) in
              if descriptorOnly then
                (if i_fill i \<noteq> None then (report i (Some {errFillOnDescriptorOnlyKind}) w, buildFailed) else (w, buildOK d))
              else let d = SetBudgetNS (SetMethodID (SetServiceID d (fr_Service f)) (fr_Method f)) (fr_Budget f);
                       (wire, msgLen) = payloadOf i in
                if msgLen = 0 \<and> \<not> w_checksum w then
                  (if i_fill i \<noteq> None then
                     (case claim (env_acts (at_claim t) w) (i_id i) of
                        (w', True) \<Rightarrow> (w', buildOK d)
                      | (w', False) \<Rightarrow> (report i (Some {errSendAbandoned}) w', buildFailed))
                   else (w, buildOK d))
                else stampPayload t i d wire msgLen w)"

section \<open>Stall accounting\<close>

definition noteArenaSetAside :: "carry \<Rightarrow> writer \<Rightarrow> carry \<times> writer" where
  "noteArenaSetAside c w =
     (let ci = exhaustedClass w in
      if parked c \<or> classStalls w = [] then (c, w)
      else if ci < 0 \<or> ci \<ge> int (length (classStalls w)) then (c, w)
      else let s = classStalls w ! nat ci in
        (c\<lparr>parked := True, parkedClass := nat ci\<rparr>,
         w\<lparr>classStalls := (classStalls w)[nat ci := s\<lparr>setAside := setAside s + 1\<rparr>]\<rparr>))"

definition noteArenaResume :: "carry \<Rightarrow> writer \<Rightarrow> carry \<times> writer" where
  "noteArenaResume c w =
     (if \<not> parked c then (c, w)
      else if parkedClass c \<ge> length (classStalls w) then (c, w\<lparr>w_panicked := True\<rparr>)
      else let s = classStalls w ! parkedClass c in
        (c\<lparr>parked := False\<rparr>,
         w\<lparr>classStalls := (classStalls w)[parkedClass c := s\<lparr>resumed := resumed s + 1\<rparr>]\<rparr>))"

section \<open>Publishing\<close>

definition signalConsumer :: "bool \<Rightarrow> writer \<Rightarrow> writer" where
  "signalConsumer ok w = (case signal ok (w_sig w) of Ok s \<Rightarrow> w\<lparr>w_sig := s\<rparr> | _ \<Rightarrow> w\<lparr>w_panicked := True\<rparr>)"

definition recordRef :: "u64 \<Rightarrow> slabRef \<Rightarrow> writer \<Rightarrow> writer" where
  "recordRef seq ref w =
     (let slot = unat (seq AND handleMask w) in
      if slot \<ge> length (handleTable w) then w\<lparr>w_panicked := True\<rparr>
      else if present ref \<and> lastReclaimed w = seq + 1
      then (freeSlab (ref_h ref) w)\<lparr>handleTable := (handleTable w)[slot := noRef]\<rparr>
      else w\<lparr>handleTable := (handleTable w)[slot := ref]\<rparr>)"

definition published :: "bool \<Rightarrow> u64 \<Rightarrow> slabRef \<Rightarrow> u32 \<Rightarrow> writer \<Rightarrow> writer" where
  "published ok seq ref payloadLen w =
     (let w = w\<lparr>framesSent := framesSent w + 1, bytesSent := bytesSent w + (64 + ucast payloadLen)\<rparr>;
          w = reclaim (w_capacity w + 1) w in
      signalConsumer ok (recordRef seq ref w))"

definition dropSlab :: "carry \<Rightarrow> writer \<Rightarrow> carry \<times> writer" where
  "dropSlab c w = (if hasSlab c then (c\<lparr>hasSlab := False\<rparr>, freeSlab (c_h c) w) else (c, w))"

text \<open>Frees what the carry holds and reports the error: the shared end of every abort of \<open>place\<close>.\<close>

definition abort :: "err \<Rightarrow> carry \<Rightarrow> writer \<Rightarrow> writer \<times> carry \<times> emitResult" where
  "abort e c w = (let (c, w) = dropSlab c w in (report (c_i c) (Some e) w, c, emitDone))"

definition pushCarry :: "wturn \<Rightarrow> carry \<Rightarrow> writer \<Rightarrow> writer \<times> carry \<times> emitResult" where
  "pushCarry t c w =
     (case prePublishFault w of
        Some e \<Rightarrow> abort e c w
      | None \<Rightarrow>
          let w = env_acts (at_push t) w; seq = publishSeq w in
          (case Push (w_ring w) (c_d c) of
             Err ErrFull \<Rightarrow> (w, c, emitStuck)
           | Err ErrCorrupt \<Rightarrow> abort (markPoisoned {ErrOther}) c (poisonRingCorrupt w)
           | Err ErrBadConfig \<Rightarrow> abort {ErrOther} c w
           | Panic \<Rightarrow> (w\<lparr>w_panicked := True\<rparr>, c, emitDone)
           | Ok r \<Rightarrow>
               let w = env_acts (at_published t) (w\<lparr>w_ring := r\<rparr>) in
               (report (c_i c) None
                  (published (wakeOk t) seq \<lparr>ref_h = c_h c, present = hasSlab c\<rparr> (PayloadLength (c_d c)) w), c, emitDone)))"

definition place :: "wturn \<Rightarrow> carry \<Rightarrow> writer \<Rightarrow> writer \<times> carry \<times> emitResult" where
  "place t c w =
     (let w = env_acts (at_build t) w in
      if i_fill (c_i c) \<noteq> None \<and> abandoned w (i_id (c_i c)) then abort {errSendAbandoned} c w
      else if built c then pushCarry t c (env_acts (at_gate t) w)
      else case build t (c_i c) w of
          (w, buildFailed) \<Rightarrow> (w, c, emitDone)
        | (w, buildStuck) \<Rightarrow> (case noteArenaSetAside c w of (c, w) \<Rightarrow> (w, c, emitStuck))
        | (w, buildOK d) \<Rightarrow>
            (case noteArenaResume (c\<lparr>c_d := d, built := True, c_h := ref_h (pendingSlab w), hasSlab := present (pendingSlab w)\<rparr>) w of
               (c, w) \<Rightarrow> pushCarry t c (env_acts (at_gate t) w)))"

definition newCarry :: "intent \<Rightarrow> carry" where
  "newCarry i = \<lparr>c_i = i, c_d = zeroDescriptor, built = False, c_h = noHandle, hasSlab = False, parked = False, parkedClass = 0\<rparr>"

definition emit :: "wturn \<Rightarrow> intent \<Rightarrow> writer \<Rightarrow> writer \<times> carry option" where
  "emit t i w = (case place t (newCarry i) w of (w, c, emitStuck) \<Rightarrow> (w, Some c) | (w, c, emitDone) \<Rightarrow> (w, None))"

definition emitLifecycle :: "wturn \<Rightarrow> intent \<Rightarrow> writer \<Rightarrow> writer" where
  "emitLifecycle t i w =
     (case build t i (env_acts (at_build t) w) of
        (w, buildOK d) \<Rightarrow>
          let w = env_acts (at_gate t) w in
          (case prePublishFault w of
             Some e \<Rightarrow> report i (Some e) w
           | None \<Rightarrow>
               let w = env_acts (at_push t) w; seq = publishSeq w in
               (case Push (w_ring w) d of
                  Err ErrCorrupt \<Rightarrow> report i (Some (markPoisoned {ErrOther})) (poisonRingCorrupt w)
                | Err e \<Rightarrow> report i (Some {ErrOther}) w
                | Panic \<Rightarrow> w\<lparr>w_panicked := True\<rparr>
                | Ok r \<Rightarrow>
                    report i None (published (wakeOk t) seq noRef (PayloadLength d) (env_acts (at_published t) (w\<lparr>w_ring := r\<rparr>)))))
      | (w, st) \<Rightarrow> w)"

section \<open>The run loop\<close>

abbreviation (input) lifecycleBurstBound :: nat where "lifecycleBurstBound \<equiv> 4"
abbreviation (input) retryInitialInterval :: int where "retryInitialInterval \<equiv> 100000"
abbreviation (input) retryMaxInterval :: int where "retryMaxInterval \<equiv> 5000000"

record retryTimer =
  armed :: bool
  interval :: int

definition arm :: "retryTimer \<Rightarrow> retryTimer" where
  "arm r = \<lparr>armed = True, interval = retryInitialInterval\<rparr>"

definition backoff :: "retryTimer \<Rightarrow> retryTimer" where
  "backoff r = r\<lparr>interval := min (interval r * 2) retryMaxInterval\<rparr>"

definition disarm :: "retryTimer \<Rightarrow> retryTimer" where
  "disarm r = r\<lparr>armed := False\<rparr>"

text \<open>The local variables of the loop beside the writer itself.\<close>

record runner =
  r_w :: writer
  r_stuck :: "carry option"
  r_staged :: "intent option"
  r_timerFired :: bool
  r_retry :: retryTimer
  r_stopped :: bool

text \<open>Step 1: the bounded lifecycle burst; \<open>ts n\<close> is the environment of the \<open>n\<close>-th publish of the turn.\<close>

function lifecycleBurst :: "(nat \<Rightarrow> wturn) \<Rightarrow> nat \<Rightarrow> writer \<Rightarrow> writer" where
  "lifecycleBurst ts burst w =
     (if burst < lifecycleBurstBound
      then (case lifecycleQueue w of
              [] \<Rightarrow> w
            | i # q \<Rightarrow> lifecycleBurst ts (Suc burst) (emitLifecycle (ts burst) i (w\<lparr>lifecycleQueue := q\<rparr>)))
      else w)"
  by pat_completeness auto
termination
  by (relation "measure (\<lambda>(ts, burst, w). lifecycleBurstBound - burst)") auto

declare lifecycleBurst.simps [simp del]

definition burstStep :: "(nat \<Rightarrow> wturn) \<Rightarrow> runner \<Rightarrow> runner" where
  "burstStep ts r =
     (case r_staged r of
        Some i \<Rightarrow> r\<lparr>r_w := lifecycleBurst ts 1 (emitLifecycle (ts 0) i (r_w r)), r_staged := None\<rparr>
      | None \<Rightarrow> r\<lparr>r_w := lifecycleBurst ts 0 (r_w r)\<rparr>)"

definition emitStep :: "wturn \<Rightarrow> runner \<Rightarrow> runner" where
  "emitStep t r =
     (case dataQueue (r_w r) of
        [] \<Rightarrow> r
      | i # q \<Rightarrow>
          (case emit t i ((r_w r)\<lparr>dataQueue := q\<rparr>) of
             (w, Some c) \<Rightarrow> r\<lparr>r_w := w, r_stuck := Some c, r_retry := arm (r_retry r)\<rparr>
           | (w, None) \<Rightarrow> r\<lparr>r_w := w\<rparr>))"

text \<open>Step 2: one data attempt.\<close>

definition dataStep :: "wturn \<Rightarrow> runner \<Rightarrow> runner" where
  "dataStep t r =
     (case r_stuck r of
        Some c \<Rightarrow>
          (case place t c (r_w r) of
             (w, c', emitDone) \<Rightarrow> r\<lparr>r_w := w, r_stuck := None, r_retry := disarm (r_retry r), r_timerFired := False\<rparr>
           | (w, c', emitStuck) \<Rightarrow>
               r\<lparr>r_w := w, r_stuck := Some c', r_retry := (if r_timerFired r then backoff (r_retry r) else r_retry r),
                 r_timerFired := False\<rparr>)
      | None \<Rightarrow> emitStep t r)"

text \<open>\<open>picks\<close> says which queue the draining select takes from while both have intents.\<close>

function drainQueues :: "bool list \<Rightarrow> writer \<Rightarrow> writer" where
  "drainQueues picks w =
     (case (lifecycleQueue w, dataQueue w) of
        ([], []) \<Rightarrow> w
      | (i # q, []) \<Rightarrow> drainQueues (tl picks) (report i (Some {TransportErrClosed}) (w\<lparr>lifecycleQueue := q\<rparr>))
      | ([], i # q) \<Rightarrow> drainQueues (tl picks) (report i (Some {TransportErrClosed}) (w\<lparr>dataQueue := q\<rparr>))
      | (i # q, j # p) \<Rightarrow>
          if picks \<noteq> [] \<and> List.hd picks
          then drainQueues (tl picks) (report j (Some {TransportErrClosed}) (w\<lparr>dataQueue := p\<rparr>))
          else drainQueues (tl picks) (report i (Some {TransportErrClosed}) (w\<lparr>lifecycleQueue := q\<rparr>)))"
  by pat_completeness auto
termination
  by (relation "measure (\<lambda>(picks, w). length (lifecycleQueue w) + length (dataQueue w))")
    (auto simp: report_def, (metis length_Cons lessI)+)

declare drainQueues.simps [simp del]

definition drainAndStop :: "bool list \<Rightarrow> carry option \<Rightarrow> writer \<Rightarrow> writer" where
  "drainAndStop picks stuck w =
     drainQueues picks
       (case stuck of
          None \<Rightarrow> w
        | Some c \<Rightarrow> (case dropSlab c w of (c, w) \<Rightarrow> report (c_i c) (Some {TransportErrClosed}) w))"

datatype wake = WakeLifecycle | WakeData | WakeTimer | WakeRetry | WakeShutdown "bool list"

text \<open>
  What one turn of the loop meets: the environments of its publishes, the intents that callers enqueue by the time it
  blocks, and the arm of the blocking select that fires.
\<close>

record loop_event =
  e_burst :: "nat \<Rightarrow> wturn"
  e_data :: wturn
  e_wake_data :: wturn
  new_lifecycle :: "intent list"
  new_data :: "intent list"
  e_wake :: wake

definition stopStep :: "bool list \<Rightarrow> runner \<Rightarrow> runner" where
  "stopStep picks r =
     r\<lparr>r_w := drainAndStop picks (r_stuck r) (r_w r), r_stuck := None, r_retry := disarm (r_retry r), r_stopped := True\<rparr>"

definition stageStep :: "runner \<Rightarrow> runner" where
  "stageStep r =
     (case lifecycleQueue (r_w r) of
        [] \<Rightarrow> r
      | i # q \<Rightarrow> r\<lparr>r_w := (r_w r)\<lparr>lifecycleQueue := q\<rparr>, r_staged := Some i\<rparr>)"

definition arrive :: "loop_event \<Rightarrow> runner \<Rightarrow> runner" where
  "arrive e r =
     r\<lparr>r_w := (r_w r)\<lparr>lifecycleQueue := lifecycleQueue (r_w r) @ new_lifecycle e,
                      dataQueue := dataQueue (r_w r) @ new_data e\<rparr>\<rparr>"

text \<open>Step 3, and the two blocking selects. A select whose chosen arm is not ready stays blocked.\<close>

definition blockStep :: "loop_event \<Rightarrow> runner \<Rightarrow> runner" where
  "blockStep e r =
     (if lifecycleQueue (r_w r) \<noteq> [] then arrive e r
      else let r = arrive e r in
        case e_wake e of
          WakeLifecycle \<Rightarrow> stageStep r
        | WakeShutdown picks \<Rightarrow> stopStep picks r
        | WakeTimer \<Rightarrow> if r_stuck r \<noteq> None \<and> armed (r_retry r) then r\<lparr>r_timerFired := True\<rparr> else r
        | WakeRetry \<Rightarrow> r
        | WakeData \<Rightarrow> if r_stuck r = None then emitStep (e_wake_data e) r else r)"

definition runTurn :: "loop_event \<Rightarrow> runner \<Rightarrow> runner" where
  "runTurn e r = (if r_stopped r then r else blockStep e (dataStep (e_data e) (burstStep (e_burst e) r)))"

fun run :: "loop_event list \<Rightarrow> runner \<Rightarrow> runner" where
  "run [] r = r"
| "run (e # es) r = run es (runTurn e r)"

section \<open>Construction\<close>

definition wireClassStalls :: "Arena \<Rightarrow> classStall list" where
  "wireClassStalls a = map (\<lambda>sz. \<lparr>slabSize = sz, setAside = 0, resumed = 0\<rparr>) (ClassSlabSizes a)"

definition newRegionWriter :: "Ring \<Rightarrow> Arena \<Rightarrow> Config \<Rightarrow> u32 \<Rightarrow> u64 \<Rightarrow> producerSignal \<Rightarrow> u32 \<Rightarrow> (err, writer) outcome" where
  "newRegionWriter r a cfg gen cap sg stored =
     (if DataQueueDepth cfg \<le> 0 \<or> LifecycleQueueDepth cfg \<le> 0 then Panic
      else Ok \<lparr>w_ring = r, w_arena = a, w_sig = sg, framesSent = 0, bytesSent = 0, dataQueue = [], lifecycleQueue = [],
        w_gen = gen, w_checksum = Checksum cfg, w_chunkingActive = ChunkingActive cfg, maxStored = stored,
        handleTable = replicate (unat cap) noRef, handleMask = cap - 1, lastReclaimed = 0, pendingSlab = noRef,
        classStalls = wireClassStalls a, exhaustedClass = noClass, w_fills = (\<lambda>_. fillPending), w_reports = [],
        w_panicked = False\<rparr>)"

definition start :: "writer \<Rightarrow> runner" where
  "start w = \<lparr>r_w = w, r_stuck = None, r_staged = None, r_timerFired = False,
     r_retry = \<lparr>armed = False, interval = 0\<rparr>, r_stopped = False\<rparr>"

end
