(* ===== verification/Writer_Ledger.thy ===== *)
theory Writer_Ledger
  imports Writer "HOL-Library.Multiset"
begin

text \<open>
  Who owns the slabs: at every moment the live slabs of the writer's arena are exactly those referenced
  by published frames the consumer has not released yet and the one held by the intent in hand. The
  ledger is kept through every operation of the writer, for any head word the peer stores.
\<close>

section \<open>The ledger of an arena\<close>

definition ledger :: "Arena \<Rightarrow> SlabHandle multiset \<Rightarrow> bool" where
  "ledger a M \<longleftrightarrow> arena_inv a \<and> (\<exists>hs. mset hs = M \<and> slabs.holds_all a hs)"

lemma ledger_alloc:
  assumes "ledger a M" "Alloc a n = Ok ((h, r), a')"
  shows "ledger a' (add_mset h M)"
proof -
  obtain hs where hs: "mset hs = M" "slabs.holds_all a hs" and inv: "arena_inv a"
    using assms(1) by (auto simp: ledger_def)
  have "slabs.holds_all a' (hs @ [h])" by (rule slabs.holds_all_alloc [OF inv hs(2) assms(2)])
  moreover have "arena_inv a'" using slabs.alloc_ok [OF inv assms(2)] by blast
  ultimately show ?thesis using hs(1) unfolding ledger_def by (intro conjI exI [of _ "hs @ [h]"]) auto
qed

lemma ledger_free:
  assumes "ledger a (add_mset h M)"
  shows "\<exists>a'. Free a h = Ok a' \<and> ledger a' M"
proof -
  obtain hs where hs: "mset hs = add_mset h M" "slabs.holds_all a hs" and inv: "arena_inv a"
    using assms by (auto simp: ledger_def)
  have "h \<in> set hs" using hs(1) by (metis set_mset_mset union_single_eq_member)
  then obtain k where k: "k < length hs" "hs ! k = h" by (auto simp: in_set_conv_nth)
  then have "hs = take k hs @ h # drop (Suc k) hs"
    using id_take_nth_drop [of k hs] by simp
  then have "mset (take k hs @ drop (Suc k) hs) = M"
    using hs(1) by (metis add_mset_add_mset_same_iff mset.simps(2) mset_append union_mset_add_mset_right)
  then show ?thesis
    using slabs.holds_all_free [OF inv hs(2) k(1)] k(2) unfolding ledger_def by blast
qed

lemma ledger_live:
  assumes "ledger a M"
  shows "live a = slab_of ` set_mset M" "size M = card (live a)" "\<And>h. h \<in># M \<Longrightarrow> valid_handle a h"
proof -
  obtain hs where hs: "mset hs = M" "slabs.holds_all a hs" using assms by (auto simp: ledger_def)
  then show "live a = slab_of ` set_mset M" "\<And>h. h \<in># M \<Longrightarrow> valid_handle a h"
    by (auto simp: slabs.holds_all_def list_all_iff)
  have "distinct (map slab_of hs)" "live a = set (map slab_of hs)" using hs(2) by (auto simp: slabs.holds_all_def)
  then have "card (live a) = length hs" by (metis distinct_card length_map)
  then show "size M = card (live a)" using hs(1) by (metis size_mset)
qed

lemma ledger_inv: "ledger a M \<Longrightarrow> arena_inv a"
  by (simp add: ledger_def)

text \<open>Storing into the arena's memory does not touch its bookkeeping.\<close>

lemma amem_update:
  assumes "length m = length (amem a)"
  shows "arena_inv (a\<lparr>amem := m\<rparr>) = arena_inv a" "ledger (a\<lparr>amem := m\<rparr>) M = ledger a M" "live (a\<lparr>amem := m\<rparr>) = live a"
proof -
  have l: "live (a\<lparr>amem := m\<rparr>) = live a" by (simp add: live_def)
  then show i: "arena_inv (a\<lparr>amem := m\<rparr>) = arena_inv a" using assms by (simp add: arena_inv_def)
  show "live (a\<lparr>amem := m\<rparr>) = live a" by (rule l)
  have "valid_handle (a\<lparr>amem := m\<rparr>) = valid_handle a" by (simp add: valid_handle_def l fun_eq_iff)
  then show "ledger (a\<lparr>amem := m\<rparr>) M = ledger a M" by (simp add: ledger_def i slabs.holds_all_def l)
qed

lemma Free_inv: "arena_inv a \<Longrightarrow> (\<exists>a'. Free a h = Ok a' \<and> arena_inv a') \<or> Free a h = Err ErrInvalidFree"
  using Free_valid [of a h] Free_invalid [of a h] by blast

section \<open>The writer's invariant\<close>

text \<open>The slabs referenced by the handle table, and those the carry in hand holds.\<close>

definition table_slabs :: "writer \<Rightarrow> SlabHandle multiset" where
  "table_slabs w = image_mset ref_h (filter_mset present (mset (handleTable w)))"

definition carry_slabs :: "carry option \<Rightarrow> SlabHandle multiset" where
  "carry_slabs c = (case c of Some c \<Rightarrow> if hasSlab c then {#c_h c#} else {#} | None \<Rightarrow> {#})"

definition slot :: "writer \<Rightarrow> u64 \<Rightarrow> nat" where
  "slot w s = unat (s AND handleMask w)"

text \<open>
  The table only holds references for sequences from \<open>lastReclaimed\<close> up to \<open>e\<close>, at most one turn of the
  ring.
\<close>

definition window :: "u64 \<Rightarrow> writer \<Rightarrow> bool" where
  "window e w \<longleftrightarrow> unat (e - lastReclaimed w) \<le> length (handleTable w) \<and>
     (\<forall>j < length (handleTable w). present (handleTable w ! slot w (lastReclaimed w + of_nat j)) \<longrightarrow>
        j < unat (e - lastReclaimed w))"

definition wbase :: "writer \<Rightarrow> bool" where
  "wbase w \<longleftrightarrow> arena_inv (w_arena w) \<and> ring_shape (w_ring w) \<and>
     length (handleTable w) = length (slots (w_ring w)) \<and> handleMask w = rmask (w_ring w) \<and> \<not> w_panicked w"

definition poisoned :: "writer \<Rightarrow> bool" where
  "poisoned w \<longleftrightarrow> s_poison (w_sync w) \<noteq> 0"

definition wledger :: "u64 \<Rightarrow> SlabHandle multiset \<Rightarrow> writer \<Rightarrow> bool" where
  "wledger e M w \<longleftrightarrow> wbase w \<and> (\<not> poisoned w \<longrightarrow> window e w \<and> ledger (w_arena w) (table_slabs w + M))"

lemma wbase_shape:
  assumes "wbase w"
  obtains k where "6 \<le> k" "k \<le> 20" "length (handleTable w) = 2 ^ k" "handleMask w = 2 ^ k - 1"
    "unat (w_capacity w) = 2 ^ k" "w_capacity w = capacity (w_ring w)"
proof -
  have "ring_shape (w_ring w)" using assms by (simp add: wbase_def)
  then obtain k where k: "6 \<le> k" "k \<le> 20" "capacity (w_ring w) = 2 ^ k" "rmask (w_ring w) = 2 ^ k - 1"
    "length (slots (w_ring w)) = 2 ^ k" "unat (capacity (w_ring w)) = 2 ^ k" by (rule ring_shapeE)
  moreover have "w_capacity w = capacity (w_ring w)" using assms k by (simp add: wbase_def w_capacity_def)
  ultimately show thesis using assms that [of k] by (simp add: wbase_def)
qed

lemma slot_less: "wbase w \<Longrightarrow> slot w s < length (handleTable w)"
  using slot_in_range [of "w_ring w" s] by (simp add: slot_def wbase_def)

lemma slot_distinct:
  assumes "wbase w" "i < j" "j < i + length (handleTable w)"
  shows "slot w (l + of_nat i) \<noteq> slot w (l + of_nat j)"
  using slot_at_window [of "w_ring w" i j l] assms by (simp add: slot_def wbase_def)

lemma slot_period:
  assumes "wbase w"
  shows "slot w (l + of_nat (length (handleTable w))) = slot w l"
proof -
  obtain k where k: "k \<le> 20" "length (handleTable w) = 2 ^ k" "handleMask w = 2 ^ k - 1"
    using assms by (rule wbase_shape)
  then show ?thesis
    using unat_slot [of k l "2 ^ k"] unat_slot [of k l 0] by (simp add: slot_def)
qed

lemma slot_onto:
  assumes "wbase w" "i < length (handleTable w)"
  shows "\<exists>j < length (handleTable w). i = slot w (l + of_nat j)"
proof -
  let ?C = "length (handleTable w)" and ?f = "\<lambda>j. slot w (l + of_nat j)"
  have "inj_on ?f {..<?C}"
    by (rule linorder_inj_onI') (use slot_distinct [OF assms(1)] in auto)
  moreover have "?f ` {..<?C} \<subseteq> {..<?C}" using slot_less [OF assms(1)] by auto
  ultimately have eq: "?f ` {..<?C} = {..<?C}" by (simp add: card_image card_subset_eq)
  have "i \<in> ?f ` {..<?C}" unfolding eq using assms(2) by simp
  then show ?thesis by (elim imageE) auto
qed

lemma table_update:
  assumes "i < length (handleTable w)"
  shows "table_slabs (w\<lparr>handleTable := (handleTable w)[i := r]\<rparr>) + (if present (handleTable w ! i) then {#ref_h (handleTable w ! i)#} else {#})
    = table_slabs w + (if present r then {#ref_h r#} else {#})"
proof -
  define X where "X = mset (handleTable w) - {#handleTable w ! i#}"
  have "mset (handleTable w) = add_mset (handleTable w ! i) X" "mset ((handleTable w)[i := r]) = add_mset r X"
    using assms by (simp_all add: X_def mset_update)
  then show ?thesis by (simp add: table_slabs_def)
qed

section \<open>What does not touch the ledger\<close>

lemma wledger_cong:
  assumes "wledger e M w" "w_arena w' = w_arena w" "handleTable w' = handleTable w" "handleMask w' = handleMask w"
    "lastReclaimed w' = lastReclaimed w" "w_panicked w' = w_panicked w" "ring_shape (w_ring w') = ring_shape (w_ring w)"
    "length (slots (w_ring w')) = length (slots (w_ring w))" "rmask (w_ring w') = rmask (w_ring w)"
    "poisoned w \<Longrightarrow> poisoned w'"
  shows "wledger e M w'"
  using assms by (auto simp: wledger_def wbase_def window_def slot_def table_slabs_def)

lemma wledger_simps [simp]:
  "wledger e M (report i x w) = wledger e M w"
  "wledger e M (w\<lparr>pendingSlab := r\<rparr>) = wledger e M w"
  "wledger e M (w\<lparr>exhaustedClass := n\<rparr>) = wledger e M w"
  "wledger e M (w\<lparr>classStalls := cs\<rparr>) = wledger e M w"
  "wledger e M (w\<lparr>w_fills := fs\<rparr>) = wledger e M w"
  "wledger e M (w\<lparr>framesSent := a, bytesSent := b\<rparr>) = wledger e M w"
  by (simp_all add: wledger_def wbase_def window_def slot_def table_slabs_def poisoned_def w_sync_def report_def)

lemma env_act_wledger: "wledger e M w \<Longrightarrow> wledger e M (env_act w a)"
  by (cases a; erule wledger_cong)
    (auto simp: abandon_def set_sync_def poisoned_def w_sync_def ring_shape_def)

lemma env_acts_wledger: "wledger e M w \<Longrightarrow> wledger e M (env_acts as w)"
  unfolding env_acts_def by (induction as arbitrary: w) (auto intro: env_act_wledger)

lemma env_act_frame:
  "tail (w_ring (env_act w a)) = tail (w_ring w)" "pendingSlab (env_act w a) = pendingSlab w"
  "w_reports (env_act w a) = w_reports w" "classStalls (env_act w a) = classStalls w"
  "w_panicked (env_act w a) = w_panicked w" "lastReclaimed (env_act w a) = lastReclaimed w"
  "w_checksum (env_act w a) = w_checksum w" "w_arena (env_act w a) = w_arena w" "handleTable (env_act w a) = handleTable w"
  by (cases a; simp add: abandon_def set_sync_def)+

lemma env_acts_frame [simp]:
  "tail (w_ring (env_acts as w)) = tail (w_ring w)" "pendingSlab (env_acts as w) = pendingSlab w"
  "w_reports (env_acts as w) = w_reports w" "classStalls (env_acts as w) = classStalls w"
  "w_panicked (env_acts as w) = w_panicked w" "lastReclaimed (env_acts as w) = lastReclaimed w"
  "w_checksum (env_acts as w) = w_checksum w" "w_arena (env_acts as w) = w_arena w" "handleTable (env_acts as w) = handleTable w"
  unfolding env_acts_def by (induction as arbitrary: w; simp add: env_act_frame)+

lemma poisonRingCorrupt_spec: "poisonRingCorrupt w = set_sync w (wakeBoth (if s_poison (w_sync w) = 0 then (w_sync w)\<lparr>s_poison := PoisonRingCorrupt\<rparr> else w_sync w))"
  by (simp add: poisonRingCorrupt_def Set_def Let_def)

lemma poisonRingCorrupt_poisoned: "poisoned (poisonRingCorrupt w)"
  by (simp add: poisonRingCorrupt_spec poisoned_def set_sync_def w_sync_def)

lemma poisonRingCorrupt_frame [simp]:
  "w_ring (poisonRingCorrupt w) = w_ring w" "pendingSlab (poisonRingCorrupt w) = pendingSlab w"
  "w_reports (poisonRingCorrupt w) = w_reports w" "classStalls (poisonRingCorrupt w) = classStalls w"
  "w_checksum (poisonRingCorrupt w) = w_checksum w" "w_fills (poisonRingCorrupt w) = w_fills w"
  "w_arena (poisonRingCorrupt w) = w_arena w" "handleTable (poisonRingCorrupt w) = handleTable w"
  "handleMask (poisonRingCorrupt w) = handleMask w" "w_panicked (poisonRingCorrupt w) = w_panicked w"
  by (simp_all add: poisonRingCorrupt_spec set_sync_def)

lemma poisonRingCorrupt_wledger: "wbase w \<Longrightarrow> wledger e M (poisonRingCorrupt w)"
  using poisonRingCorrupt_poisoned [of w] by (simp add: wledger_def wbase_def)

section \<open>Freeing\<close>

lemma freeSlab_wbase: "wbase w \<Longrightarrow> wbase (freeSlab h w)"
  using Free_inv [of "w_arena w" h] by (auto simp: wbase_def freeSlab_def)

lemma freeSlab_frame [simp]:
  "w_ring (freeSlab h w) = w_ring w" "pendingSlab (freeSlab h w) = pendingSlab w" "w_sig (freeSlab h w) = w_sig w"
  "w_reports (freeSlab h w) = w_reports w" "classStalls (freeSlab h w) = classStalls w"
  "w_checksum (freeSlab h w) = w_checksum w" "w_fills (freeSlab h w) = w_fills w"
  "handleTable (freeSlab h w) = handleTable w" "handleMask (freeSlab h w) = handleMask w"
  "lastReclaimed (freeSlab h w) = lastReclaimed w"
  by (simp_all add: freeSlab_def split: outcome.splits)

lemma freeSlab_ledger:
  "ledger (w_arena w) (add_mset h M) \<Longrightarrow> ledger (w_arena (freeSlab h w)) M"
  using ledger_free [of "w_arena w" h M] by (auto simp: freeSlab_def)

lemma freeSlab_wledger:
  assumes "wledger e (add_mset h M) w"
  shows "wledger e M (freeSlab h w)"
  using assms freeSlab_wbase [of w h] freeSlab_ledger [of w h "table_slabs w + M"]
  by (auto simp: wledger_def window_def slot_def table_slabs_def poisoned_def w_sync_def)

section \<open>Reclaim\<close>

definition reclaimStep :: "writer \<Rightarrow> writer" where
  "reclaimStep w = (reclaimOne w)\<lparr>lastReclaimed := lastReclaimed w + 1\<rparr>"

lemma reclaimTo_step:
  "reclaimTo hw w = (if lastReclaimed w = hw then w else reclaimTo hw (reclaimStep w))"
  by (subst reclaimTo.simps) (simp add: reclaimStep_def)

lemma reclaimStep_frame [simp]:
  "w_ring (reclaimStep w) = w_ring w" "pendingSlab (reclaimStep w) = pendingSlab w" "w_sig (reclaimStep w) = w_sig w"
  "w_reports (reclaimStep w) = w_reports w" "classStalls (reclaimStep w) = classStalls w"
  "w_checksum (reclaimStep w) = w_checksum w" "w_fills (reclaimStep w) = w_fills w"
  "handleMask (reclaimStep w) = handleMask w" "lastReclaimed (reclaimStep w) = lastReclaimed w + 1"
  "length (handleTable (reclaimStep w)) = length (handleTable w)" "poisoned (reclaimStep w) = poisoned w"
  by (simp_all add: reclaimStep_def reclaimOne_def Let_def poisoned_def w_sync_def)

lemma reclaimStep_unfold:
  assumes "wbase w"
  shows "handleTable (reclaimStep w) = (if present (handleTable w ! slot w (lastReclaimed w))
      then (handleTable w)[slot w (lastReclaimed w) := noRef] else handleTable w)"
    "w_arena (reclaimStep w) = (if present (handleTable w ! slot w (lastReclaimed w))
      then w_arena (freeSlab (ref_h (handleTable w ! slot w (lastReclaimed w))) w) else w_arena w)"
  using slot_less [OF assms, of "lastReclaimed w"]
  by (auto simp: reclaimStep_def reclaimOne_def Let_def slot_def)

lemma reclaimStep_wbase:
  assumes "wbase w"
  shows "wbase (reclaimStep w)"
proof -
  have "\<not> w_panicked (reclaimStep w)"
    using assms slot_less [OF assms, of "lastReclaimed w"] freeSlab_wbase [OF assms]
    by (auto simp: reclaimStep_def reclaimOne_def Let_def slot_def wbase_def)
  moreover have "arena_inv (w_arena (reclaimStep w))"
    using reclaimStep_unfold(2) [OF assms] freeSlab_wbase [OF assms] assms by (auto simp: wbase_def)
  ultimately show ?thesis using assms by (simp add: wbase_def)
qed

lemma reclaimStep_ledger:
  assumes "wbase w" "ledger (w_arena w) (table_slabs w + M)"
  shows "ledger (w_arena (reclaimStep w)) (table_slabs (reclaimStep w) + M)"
proof (cases "present (handleTable w ! slot w (lastReclaimed w))")
  case True
  let ?i = "slot w (lastReclaimed w)"
  have "table_slabs (w\<lparr>handleTable := (handleTable w)[?i := noRef]\<rparr>) + {#ref_h (handleTable w ! ?i)#} = table_slabs w"
    using table_update [OF slot_less [OF assms(1)], of "lastReclaimed w" noRef] True by (simp add: noRef_def)
  moreover have "table_slabs (reclaimStep w) = table_slabs (w\<lparr>handleTable := (handleTable w)[?i := noRef]\<rparr>)"
    using reclaimStep_unfold(1) [OF assms(1)] True by (simp add: table_slabs_def)
  ultimately have "table_slabs w + M = add_mset (ref_h (handleTable w ! ?i)) (table_slabs (reclaimStep w) + M)" by (metis add_mset_add_single union_mset_add_mset_left)
  then show ?thesis
    using freeSlab_ledger [of w "ref_h (handleTable w ! ?i)"] assms(2) reclaimStep_unfold(2) [OF assms(1)] True by simp
next
  case False
  then show ?thesis using assms reclaimStep_unfold [OF assms(1)] by (simp add: table_slabs_def)
qed

lemma unat_sub_Suc:
  assumes "(x :: u64) \<noteq> y"
  shows "unat (y - (x + 1)) = unat (y - x) - 1" "0 < unat (y - x)"
proof -
  have "y - x \<noteq> 0" using assms by simp
  then show "0 < unat (y - x)" "unat (y - (x + 1)) = unat (y - x) - 1"
    using unat_minus_one [of "y - x"] by (simp_all add: unat_gt_0 diff_diff_eq)
qed

lemma reclaimStep_window:
  assumes b: "wbase w" and win: "window e w" and ne: "lastReclaimed w \<noteq> e"
  shows "window e (reclaimStep w)"
proof -
  let ?L = "lastReclaimed w" and ?C = "length (handleTable w)" and ?T = "handleTable w"
  have n: "unat (e - (?L + 1)) = unat (e - ?L) - 1" "0 < unat (e - ?L)" using unat_sub_Suc [OF ne] by auto
  have "j < unat (e - (?L + 1))"
    if j: "j < ?C" and p: "present (handleTable (reclaimStep w) ! slot w (?L + 1 + of_nat j))" for j
  proof -
    have sh: "?L + 1 + of_nat j = ?L + of_nat (Suc j)" by simp
    have last: "j \<noteq> ?C - 1"
    proof
      assume "j = ?C - 1"
      then have "slot w (?L + of_nat (Suc j)) = slot w ?L" using slot_period [OF b, of ?L] j by simp
      then show False using p slot_less [OF b, of ?L] reclaimStep_unfold(1) [OF b] by (auto simp: sh noRef_def split: if_splits)
    qed
    then have sj: "Suc j < ?C" using j by simp
    then have "slot w (?L + of_nat 0) \<noteq> slot w (?L + of_nat (Suc j))" by (intro slot_distinct [OF b]) auto
    then have "present (?T ! slot w (?L + of_nat (Suc j)))"
      using p reclaimStep_unfold(1) [OF b] by (auto simp: sh split: if_splits)
    then have "Suc j < unat (e - ?L)" using win sj by (simp add: window_def)
    then show ?thesis using n by simp
  qed
  then show ?thesis using win n by (auto simp: window_def slot_def)
qed

text \<open>
  Between a push and the recording of its reference, the reclaim may pass the pushed sequence \<open>e\<close> itself.
\<close>

definition drained :: "u64 \<Rightarrow> writer \<Rightarrow> bool" where
  "drained e w \<longleftrightarrow> lastReclaimed w = e + 1 \<and> (\<forall>i < length (handleTable w). \<not> present (handleTable w ! i))"

lemma window_empty:
  assumes "wbase w" "window e w" "lastReclaimed w = e" "i < length (handleTable w)"
  shows "\<not> present (handleTable w ! i)"
  using slot_onto [OF assms(1,4), of "lastReclaimed w"] assms(2,3) by (auto simp: window_def)

lemma reclaimStep_drained:
  assumes "wbase w" "window e w" "lastReclaimed w = e"
  shows "drained e (reclaimStep w)"
proof -
  have "handleTable (reclaimStep w) = handleTable w"
    using reclaimStep_unfold(1) [OF assms(1)] window_empty [OF assms slot_less [OF assms(1)]] by simp
  then show ?thesis using window_empty [OF assms] assms(3) by (simp add: drained_def)
qed

lemma reclaimTo_frame [simp]:
  "w_ring (reclaimTo hw w) = w_ring w" "pendingSlab (reclaimTo hw w) = pendingSlab w"
  "w_sig (reclaimTo hw w) = w_sig w" "w_reports (reclaimTo hw w) = w_reports w"
  "classStalls (reclaimTo hw w) = classStalls w" "w_checksum (reclaimTo hw w) = w_checksum w"
  "w_fills (reclaimTo hw w) = w_fills w" "handleMask (reclaimTo hw w) = handleMask w"
  "length (handleTable (reclaimTo hw w)) = length (handleTable w)" "lastReclaimed (reclaimTo hw w) = hw"
  by (induction hw w rule: reclaimTo.induct; subst reclaimTo_step; simp add: reclaimStep_def [symmetric])+

lemma reclaimTo_spec:
  assumes "wbase w" "\<not> poisoned w \<Longrightarrow> ledger (w_arena w) (table_slabs w + M) \<and>
      (window e w \<and> unat (hw - lastReclaimed w) \<le> Suc (unat (e - lastReclaimed w)) \<or> drained e w \<and> hw = lastReclaimed w)"
  shows "wbase (reclaimTo hw w) \<and> (\<not> poisoned w \<longrightarrow> ledger (w_arena (reclaimTo hw w)) (table_slabs (reclaimTo hw w) + M) \<and>
      (window e (reclaimTo hw w) \<or> drained e (reclaimTo hw w)))"
  using assms
proof (induction hw w rule: reclaimTo.induct)
  case (1 hw w)
  show ?case
  proof (cases "lastReclaimed w = hw")
    case True
    then show ?thesis using 1(2,3) by (simp add: reclaimTo_step [of hw w])
  next
    case False
    have s: "unat (hw - lastReclaimed (reclaimStep w)) = unat (hw - lastReclaimed w) - 1" "0 < unat (hw - lastReclaimed w)"
      using unat_sub_Suc [OF False] by simp_all
    have "ledger (w_arena (reclaimStep w)) (table_slabs (reclaimStep w) + M) \<and>
      (window e (reclaimStep w) \<and> unat (hw - lastReclaimed (reclaimStep w)) \<le> Suc (unat (e - lastReclaimed (reclaimStep w))) \<or>
       drained e (reclaimStep w) \<and> hw = lastReclaimed (reclaimStep w))" if "\<not> poisoned w"
    proof -
      have h: "ledger (w_arena w) (table_slabs w + M)" "window e w" "unat (hw - lastReclaimed w) \<le> Suc (unat (e - lastReclaimed w))"
        using 1(3) [OF that] False by auto
      have "drained e (reclaimStep w) \<and> hw = lastReclaimed (reclaimStep w)" if e: "lastReclaimed w = e"
      proof -
        have "unat (hw - lastReclaimed (reclaimStep w)) = 0" using s h(3) e by simp
        then have "hw - lastReclaimed (reclaimStep w) = 0" by (simp only: unat_eq_0)
        then show ?thesis using reclaimStep_drained [OF 1(2) h(2) e] by (simp del: reclaimStep_frame)
      qed
      moreover have "window e (reclaimStep w) \<and> unat (hw - lastReclaimed (reclaimStep w)) \<le> Suc (unat (e - lastReclaimed (reclaimStep w)))"
        if e: "lastReclaimed w \<noteq> e"
        using reclaimStep_window [OF 1(2) h(2) e] s h(3) unat_sub_Suc [OF e] by simp
      ultimately show ?thesis using reclaimStep_ledger [OF 1(2) h(1)] by blast
    qed
    then show ?thesis
      using 1(1) [OF False] reclaimStep_wbase [OF 1(2)] False
      by (simp add: reclaimTo_step [of hw w] reclaimStep_def [symmetric])
  qed
qed

lemma reclaim_frame [simp]:
  "w_ring (reclaim m w) = w_ring w" "pendingSlab (reclaim m w) = pendingSlab w"
  "w_reports (reclaim m w) = w_reports w" "classStalls (reclaim m w) = classStalls w"
  "w_checksum (reclaim m w) = w_checksum w" "w_fills (reclaim m w) = w_fills w" "handleMask (reclaim m w) = handleMask w"
  "length (handleTable (reclaim m w)) = length (handleTable w)"
  by (simp_all add: reclaim_def Let_def)

text \<open>
  The two bounds the reclaim checks leave only heads between \<open>lastReclaimed\<close> and the tail, whatever value the
  peer stored.
\<close>

lemma reclaim_bounds:
  assumes "wbase w" "unat (tail (w_ring w) - lastReclaimed w) \<le> Suc (length (handleTable w))"
    "Len (w_ring w) \<le> w_capacity w" "hw = Tail (w_ring w) - Len (w_ring w)"
    "unat (hw - lastReclaimed w) \<le> Suc (length (handleTable w))"
  shows "unat (hw - lastReclaimed w) + unat (Len (w_ring w)) = unat (tail (w_ring w) - lastReclaimed w)"
proof -
  obtain k where k: "k \<le> 20" "length (handleTable w) = 2 ^ k" "unat (w_capacity w) = 2 ^ k"
    using assms(1) by (rule wbase_shape)
  have "(2 :: nat) ^ k \<le> 2 ^ 20" using k(1) by (rule power_increasing) simp
  then have "unat (hw - lastReclaimed w) + unat (Len (w_ring w)) < 2 ^ 64"
    using assms(3,5) k(2,3) by (simp add: word_le_nat_alt)
  then have "unat ((hw - lastReclaimed w) + Len (w_ring w)) = unat (hw - lastReclaimed w) + unat (Len (w_ring w))"
    by (subst unat_add_lem [symmetric]) simp
  moreover have "(hw - lastReclaimed w) + Len (w_ring w) = tail (w_ring w) - lastReclaimed w"
    using assms(4) by (simp add: Tail_def)
  ultimately show ?thesis by simp
qed

lemma unat_max_u64: "unat (- 1 :: u64) = 18446744073709551615"
  by (simp add: unsigned_minus_1_eq_mask mask_eq_exp_minus_1)

lemma unat_Suc_u64: "unat (x :: u64) < 18446744073709551615 \<Longrightarrow> unat (x + 1) = Suc (unat x)"
  by (simp add: unat_word_ariths)

lemma reclaim_leading:
  assumes "wledger (tail (w_ring w)) M w"
  shows "wledger (tail (w_ring w)) M (reclaim (w_capacity w) w)"
proof -
  let ?e = "tail (w_ring w)" and ?hw = "Tail (w_ring w) - Len (w_ring w)"
  have b: "wbase w" using assms by (simp add: wledger_def)
  show ?thesis
  proof (cases "Len (w_ring w) > w_capacity w \<or> ?hw - lastReclaimed w > w_capacity w")
    case True
    then show ?thesis using poisonRingCorrupt_wledger [OF b] by (auto simp: reclaim_def Let_def)
  next
    case False
    then have r: "reclaim (w_capacity w) w = reclaimTo ?hw w" by (auto simp: reclaim_def Let_def)
    obtain k where k: "k \<le> 20" "length (handleTable w) = 2 ^ k" "unat (w_capacity w) = 2 ^ k" using b by (rule wbase_shape)
    have st: "unat (?hw - lastReclaimed w) \<le> length (handleTable w)"
      using False k(2,3) by (simp add: not_less word_le_nat_alt)
    have bd: "unat (?hw - lastReclaimed w) \<le> Suc (unat (?e - lastReclaimed w))" if "\<not> poisoned w"
    proof -
      have "unat (?e - lastReclaimed w) \<le> Suc (length (handleTable w))"
        using assms that by (auto simp: wledger_def window_def)
      then show ?thesis using reclaim_bounds [OF b _ _ refl] False st by (simp add: not_less)
    qed
    have nd: "\<not> drained ?e (reclaimTo ?hw w)"
    proof
      assume "drained ?e (reclaimTo ?hw w)"
      then have "?hw = ?e + 1" by (simp add: drained_def)
      then have l: "Len (w_ring w) = - 1" by (simp add: Tail_def algebra_simps eq_neg_iff_add_eq_0)
      have "unat (Len (w_ring w)) \<le> 2 ^ k" using False k(3) by (simp add: not_less word_le_nat_alt)
      moreover have "(2 :: nat) ^ k \<le> 2 ^ 20" using k(1) by (rule power_increasing) simp
      ultimately show False unfolding l by (simp add: unat_max_u64)
    qed
    show ?thesis
      using reclaimTo_spec [OF b, of M ?e ?hw] assms bd nd unfolding r
      by (auto simp: wledger_def poisoned_def w_sync_def)
  qed
qed

lemma reclaim_post:
  assumes b: "wbase w" and l: "\<not> poisoned w \<Longrightarrow> ledger (w_arena w) (table_slabs w + M) \<and> window e w"
    and t: "tail (w_ring w) = e + 1"
  defines "w' \<equiv> reclaim (w_capacity w + 1) w"
  shows "wbase w' \<and> (\<not> poisoned w' \<longrightarrow> ledger (w_arena w') (table_slabs w' + M) \<and>
    (window e w' \<and> lastReclaimed w' \<noteq> e + 1 \<and> unat (e + 1 - lastReclaimed w') \<le> length (handleTable w') \<or> drained e w'))"
proof -
  let ?hw = "Tail (w_ring w) - Len (w_ring w)"
  obtain k where k: "k \<le> 20" "length (handleTable w) = 2 ^ k" "unat (w_capacity w) = 2 ^ k" using b by (rule wbase_shape)
  have p: "(2 :: nat) ^ k \<le> 2 ^ 20" using k(1) by (rule power_increasing) simp
  then have c1: "unat (w_capacity w + 1) = Suc (2 ^ k)" using k(3) by (simp add: unat_word_ariths)
  show ?thesis
  proof (cases "Len (w_ring w) > w_capacity w \<or> ?hw - lastReclaimed w > w_capacity w + 1")
    case True
    then have "w' = poisonRingCorrupt w" by (auto simp: w'_def reclaim_def Let_def)
    then show ?thesis using poisonRingCorrupt_wledger [OF b, of e M] poisonRingCorrupt_poisoned [of w] by (simp add: wledger_def)
  next
    case False
    then have r: "w' = reclaimTo ?hw w" by (auto simp: w'_def reclaim_def Let_def)
    have st: "unat (?hw - lastReclaimed w) \<le> Suc (length (handleTable w))" and d: "unat (Len (w_ring w)) \<le> 2 ^ k"
      using False k(2,3) c1 by (simp_all add: not_less word_le_nat_alt)
    have bd: "unat (?hw - lastReclaimed w) \<le> Suc (unat (e - lastReclaimed w))" if np: "\<not> poisoned w"
    proof -
      have w: "unat (e - lastReclaimed w) \<le> length (handleTable w)" using l [OF np] by (simp add: window_def)
      have "unat (e + 1 - lastReclaimed w) = Suc (unat (e - lastReclaimed w))"
      proof -
        have "unat (e - lastReclaimed w) < 18446744073709551615" using w k(2) p by simp
        then show ?thesis using unat_Suc_u64 [of "e - lastReclaimed w"] by (simp add: algebra_simps)
      qed
      then show ?thesis using reclaim_bounds [OF b _ _ refl st] w False t by (simp add: not_less)
    qed
    have L: "lastReclaimed w' = ?hw" "length (handleTable w') = length (handleTable w)" by (simp_all add: r)
    have n: "e + 1 - lastReclaimed w' = Len (w_ring w)" using t by (simp add: L Tail_def)
    then have "unat (e + 1 - lastReclaimed w') \<le> length (handleTable w')" using d k(2) L(2) by simp
    moreover have "poisoned w' = poisoned w" by (simp add: r poisoned_def w_sync_def)
    moreover have "drained e w'" if "lastReclaimed w' = e + 1" "\<not> poisoned w" "window e w'"
    proof -
      have "unat (e - lastReclaimed w') \<le> 2 ^ k" using that(3) k(2) L(2) by (simp add: window_def)
      moreover have "e - lastReclaimed w' = - 1" using that(1) by simp
      ultimately show ?thesis using p by (simp add: unat_max_u64)
    qed
    ultimately show ?thesis using reclaimTo_spec [OF b, of M e ?hw] l bd r by (metis (no_types, lifting))
  qed
qed

section \<open>Publishing\<close>

definition ref_slabs :: "slabRef \<Rightarrow> SlabHandle multiset" where
  "ref_slabs r = (if present r then {#ref_h r#} else {#})"

lemma wbase_table: "wbase w \<Longrightarrow> length t = length (handleTable w) \<Longrightarrow> wbase (w\<lparr>handleTable := t\<rparr>)"
  by (simp add: wbase_def)

lemma recordRef_poisoned [simp]: "poisoned (recordRef e ref w) = poisoned w"
  by (simp add: recordRef_def Let_def poisoned_def w_sync_def)

lemma recordRef_wbase:
  assumes "wbase w"
  shows "wbase (recordRef e ref w)"
  using assms slot_less [OF assms, of e] freeSlab_wbase [OF assms, of "ref_h ref"]
  by (auto simp: recordRef_def Let_def slot_def intro: wbase_table)

lemma window_single:
  assumes b: "wbase w" and win: "window e w" and ne: "lastReclaimed w \<noteq> e + 1" and le: "unat (e + 1 - lastReclaimed w) \<le> length (handleTable w)"
  shows "\<not> present (handleTable w ! slot w e)" "window (e + 1) (w\<lparr>handleTable := (handleTable w)[slot w e := ref]\<rparr>)"
proof -
  let ?L = "lastReclaimed w" and ?C = "length (handleTable w)"
  have n: "unat (e - ?L) = unat (e + 1 - ?L) - 1" "0 < unat (e + 1 - ?L)"
    using unat_sub_Suc [of ?L "e + 1"] ne by (simp_all add: algebra_simps)
  have e: "?L + of_nat (unat (e - ?L)) = e" by simp
  have m: "unat (e - ?L) < ?C" using n le by simp
  show "\<not> present (handleTable w ! slot w e)"
  proof
    assume "present (handleTable w ! slot w e)"
    then have "unat (e - ?L) < unat (e - ?L)" using win e m unfolding window_def by (metis (no_types))
    then show False by simp
  qed
  have "j < unat (e + 1 - ?L)"
    if j: "j < ?C" and p: "present ((handleTable w)[slot w e := ref] ! slot w (?L + of_nat j))" for j
  proof (cases "j = unat (e - ?L)")
    case False
    have ne': "slot w e \<noteq> slot w (?L + of_nat j)"
      using slot_distinct [OF b, of j "unat (e - ?L)" ?L] slot_distinct [OF b, of "unat (e - ?L)" j ?L] False j m
      unfolding e by (cases "j < unat (e - ?L)") auto
    then have "present (handleTable w ! slot w (?L + of_nat j))" using p by simp
    then show ?thesis using win j n by (auto simp: window_def)
  qed (use n in simp)
  then show "window (e + 1) (w\<lparr>handleTable := (handleTable w)[slot w e := ref]\<rparr>)"
    using le by (auto simp: window_def slot_def)
qed

lemma recordRef_wledger:
  assumes b: "wbase w" and l: "\<not> poisoned w \<Longrightarrow> ledger (w_arena w) (table_slabs w + (ref_slabs ref + M)) \<and>
    (window e w \<and> lastReclaimed w \<noteq> e + 1 \<and> unat (e + 1 - lastReclaimed w) \<le> length (handleTable w) \<or> drained e w)"
  shows "wledger (e + 1) M (recordRef e ref w)"
proof (cases "poisoned w")
  case True
  then show ?thesis using recordRef_wbase [OF b] by (simp add: wledger_def)
next
  case False
  note L = l [OF False]
  have sl: "slot w e < length (handleTable w)" by (rule slot_less [OF b])
  show ?thesis
  proof (cases "present ref \<and> lastReclaimed w = e + 1")
    case True
    then have dr: "drained e w" using L by auto
    then have same: "(handleTable w)[slot w e := noRef] = handleTable w \<or> \<not> present (handleTable w ! slot w e)" using sl by (auto simp: drained_def)
    have w': "recordRef e ref w = (freeSlab (ref_h ref) w)\<lparr>handleTable := (handleTable w)[slot w e := noRef]\<rparr>"
      using True sl by (simp add: recordRef_def Let_def slot_def)
    have ts: "table_slabs (recordRef e ref w) = table_slabs w"
      using table_update [OF sl, of noRef] dr sl by (simp add: w' table_slabs_def noRef_def drained_def)
    have "ledger (w_arena (recordRef e ref w)) (table_slabs (recordRef e ref w) + M)"
      using L True freeSlab_ledger [of w "ref_h ref" "table_slabs w + M"] unfolding ts by (simp add: w' ref_slabs_def)
    moreover have "window (e + 1) (recordRef e ref w)"
      using dr sl by (auto simp: w' window_def drained_def slot_def nth_list_update noRef_def slot_less [OF b, unfolded slot_def])
    ultimately show ?thesis using recordRef_wbase [OF b] by (simp add: wledger_def)
  next
    case keep: False
    then have w': "recordRef e ref w = w\<lparr>handleTable := (handleTable w)[slot w e := ref]\<rparr>"
      using sl by (auto simp: recordRef_def Let_def slot_def)
    have "\<not> present (handleTable w ! slot w e) \<and> window (e + 1) (recordRef e ref w)"
    proof (cases "drained e w")
      case True
      then show ?thesis
        using keep sl by (auto simp: w' window_def drained_def slot_def nth_list_update slot_less [OF b, unfolded slot_def])
    next
      case False
      then show ?thesis using L window_single(1) [OF b, of e] window_single(2) [OF b, of e ref] by (simp add: w')
    qed
    moreover from this have "table_slabs (recordRef e ref w) = table_slabs w + ref_slabs ref"
      using table_update [OF sl, of ref] by (simp add: w' ref_slabs_def)
    ultimately show ?thesis using L recordRef_wbase [OF b, of e ref] by (simp add: wledger_def w' algebra_simps)
  qed
qed

lemma signalConsumer_spec: "\<exists>s. signalConsumer ok w = w\<lparr>w_sig := s\<rparr> \<and> (poisoned w \<longrightarrow> s_poison (ps_sync s) \<noteq> 0)"
proof -
  have "\<exists>s. signal ok (w_sig w) = Ok s \<and> (s_poison (ps_sync (w_sig w)) \<noteq> 0 \<longrightarrow> s_poison (ps_sync s) \<noteq> 0)"
    by (auto simp: signal_def Set_def Let_def)
  then obtain s where "signal ok (w_sig w) = Ok s" "s_poison (ps_sync (w_sig w)) \<noteq> 0 \<longrightarrow> s_poison (ps_sync s) \<noteq> 0" by blast
  then show ?thesis by (intro exI [of _ s]) (simp add: signalConsumer_def poisoned_def w_sync_def)
qed

lemma published_wledger:
  assumes "wledger e (ref_slabs ref + M) w" "tail (w_ring w) = e + 1"
  shows "wledger (e + 1) M (published ok e ref plen w)"
proof -
  define u where "u = w\<lparr>framesSent := framesSent w + 1, bytesSent := bytesSent w + (64 + ucast plen)\<rparr>"
  have u: "wledger e (ref_slabs ref + M) u" "tail (w_ring u) = e + 1" using assms by (simp_all add: u_def)
  define v where "v = reclaim (w_capacity u + 1) u"
  have "wledger (e + 1) M (recordRef e ref v)"
  proof -
    have "wbase u" and "\<not> poisoned u \<Longrightarrow> ledger (w_arena u) (table_slabs u + (ref_slabs ref + M)) \<and> window e u"
      using u(1) by (auto simp: wledger_def)
    from reclaim_post [OF this u(2)] show ?thesis unfolding v_def by (intro recordRef_wledger) auto
  qed
  moreover obtain s where s: "signalConsumer ok (recordRef e ref v) = (recordRef e ref v)\<lparr>w_sig := s\<rparr>"
      "poisoned (recordRef e ref v) \<longrightarrow> s_poison (ps_sync s) \<noteq> 0" using signalConsumer_spec by blast
  ultimately have "wledger (e + 1) M (signalConsumer ok (recordRef e ref v))"
    by (elim wledger_cong) (auto simp: poisoned_def w_sync_def)
  then show ?thesis by (simp add: published_def Let_def u_def v_def)
qed

section \<open>Building\<close>

text \<open>
  A build that fails has reported once and holds nothing; one that is stuck or succeeds has reported nothing, and
  a success holds the slab it announces.
\<close>

definition built_ok :: "intent \<Rightarrow> SlabHandle multiset \<Rightarrow> writer \<Rightarrow> writer \<times> buildStatus \<Rightarrow> bool" where
  "built_ok i M w r \<longleftrightarrow> (case r of (w', st) \<Rightarrow>
     tail (w_ring w') = tail (w_ring w) \<and> length (classStalls w') = length (classStalls w) \<and>
     (case st of
        buildOK d \<Rightarrow> wledger (tail (w_ring w)) (ref_slabs (pendingSlab w') + M) w' \<and> w_reports w' = w_reports w
      | buildStuck \<Rightarrow> wledger (tail (w_ring w)) M w' \<and> w_reports w' = w_reports w
      | buildFailed \<Rightarrow> wledger (tail (w_ring w)) M w' \<and> (\<exists>e. w_reports w' = w_reports w @ [(i_id i, Some e)])))"

lemma report_frame [simp]:
  "w_ring (report i e w) = w_ring w" "classStalls (report i e w) = classStalls w"
  "w_reports (report i e w) = w_reports w @ [(i_id i, e)]" "pendingSlab (report i e w) = pendingSlab w"
  "w_fills (report i e w) = w_fills w" "w_checksum (report i e w) = w_checksum w"
  by (simp_all add: report_def)

lemma storeSlab_frame [simp]:
  "w_ring (storeSlab lo bs w) = w_ring w" "classStalls (storeSlab lo bs w) = classStalls w"
  "w_reports (storeSlab lo bs w) = w_reports w" "pendingSlab (storeSlab lo bs w) = pendingSlab w"
  "w_checksum (storeSlab lo bs w) = w_checksum w" "w_fills (storeSlab lo bs w) = w_fills w"
  "lo + length bs \<le> length (amem (w_arena w)) \<Longrightarrow> length (amem (w_arena (storeSlab lo bs w))) = length (amem (w_arena w))"
  by (simp_all add: storeSlab_def)

lemma storeSlab_wledger:
  assumes "wledger e M w" "lo + length bs \<le> length (amem (w_arena w))"
  shows "wledger e M (storeSlab lo bs w)"
  using assms amem_update [of "put_bytes (amem (w_arena w)) lo bs" "w_arena w"]
  by (auto simp: wledger_def wbase_def storeSlab_def window_def slot_def table_slabs_def poisoned_def w_sync_def)

lemma alloc_wledger:
  assumes "wledger e M w" "Alloc (w_arena w) n = Ok ((h, lo, hi), a)"
  shows "wledger e (add_mset h M) (w\<lparr>w_arena := a\<rparr>)" "unat n \<le> hi - lo" "lo < hi" "hi \<le> length (amem a)" "lo = unat (Offset h)"
proof -
  have inv: "arena_inv (w_arena w)" using assms(1) by (simp add: wledger_def wbase_def)
  note A = Alloc_Ok [OF inv assms(2)]
  show "wledger e (add_mset h M) (w\<lparr>w_arena := a\<rparr>)"
    using assms(1) A(1) ledger_alloc [OF _ assms(2), of "table_slabs w + M"]
    by (auto simp: wledger_def wbase_def window_def slot_def table_slabs_def poisoned_def w_sync_def)
  have "n \<le> SlabSize (classes (w_arena w) ! fst (slab_of h))" using SelectClass_True [OF A(8)] by simp
  then show "unat n \<le> hi - lo" using A(11) by (simp add: word_le_nat_alt)
  moreover have "0 < unat n" using A(6) by (simp add: unat_gt_0)
  ultimately show "lo < hi" by simp
  show "hi \<le> length (amem a)" using A(2,12) by (simp add: same_frame_def)
  show "lo = unat (Offset h)" using A(9) by simp
qed

lemma sealSlab_ok:
  assumes "wledger (tail (w_ring w)) (add_mset h M) w" "lo + n + (if w_checksum w then 4 else 0) \<le> length (amem (w_arena w))"
  shows "built_ok i M w (sealSlab h lo n d w)"
  using assms storeSlab_wledger [of "tail (w_ring w)" "add_mset h M" w "lo + n" "le_encode 4 x" for x]
  by (auto simp: sealSlab_def built_ok_def Let_def ref_slabs_def)

lemma claim_cases:
  "(\<exists>fs. claim w i = (w\<lparr>w_fills := fs\<rparr>, True)) \<or> claim w i = (w, False)"
  by (auto simp: claim_def)

lemma runFill_cases: "(\<exists>bs. runFill pf win = Ok bs \<and> length bs = length win) \<or> (\<exists>e. runFill pf win = Err e)"
  by (auto simp: runFill_def split: outcome.splits)

lemma fillSlab_ok:
  assumes l: "wledger (tail (w_ring w)) (add_mset h M) w" and n: "lo + n \<le> length (amem (w_arena w))"
    and r: "fillSlab t i pf h lo n w = (w', ok)"
  shows "tail (w_ring w') = tail (w_ring w) \<and> classStalls w' = classStalls w \<and> w_checksum w' = w_checksum w \<and>
    (if ok then wledger (tail (w_ring w)) (add_mset h M) w' \<and> w_reports w' = w_reports w \<and>
         length (amem (w_arena w')) = length (amem (w_arena w))
     else wledger (tail (w_ring w)) M w' \<and> (\<exists>e. w_reports w' = w_reports w @ [(i_id i, Some e)]))"
proof -
  let ?w = "env_acts (at_claim t) w"
  have l': "wledger (tail (w_ring w)) (add_mset h M) ?w" using env_acts_wledger [OF l] .
  consider (won) fs where "claim ?w (i_id i) = (?w\<lparr>w_fills := fs\<rparr>, True)" | (lost) "claim ?w (i_id i) = (?w, False)"
    using claim_cases by blast
  then show ?thesis
  proof cases
    case won
    let ?v = "?w\<lparr>w_fills := fs\<rparr>"
    have v: "wledger (tail (w_ring w)) (add_mset h M) ?v" using l' by simp
    show ?thesis
    proof (cases "n = 0")
      case True
      then show ?thesis using r won v by (auto simp: fillSlab_def Let_def)
    next
      case False
      consider (fine) bs where "runFill pf (take n (drop lo (amem (w_arena ?v)))) = Ok bs" "length bs = n"
        | (bad) e where "runFill pf (take n (drop lo (amem (w_arena ?v)))) = Err e"
        using runFill_cases [of pf "take n (drop lo (amem (w_arena ?v)))"] n by fastforce
      then show ?thesis
      proof cases
        case fine
        then show ?thesis
          using r won False v n storeSlab_wledger [OF v, of lo bs] by (auto simp: fillSlab_def)
      next
        case bad
        then show ?thesis using r won False freeSlab_wledger [OF v] by (auto simp: fillSlab_def)
      qed
    qed
  next
    case lost
    then show ?thesis using r freeSlab_wledger [OF l'] by (auto simp: fillSlab_def)
  qed
qed

lemma stored_fits:
  fixes m c :: int and ms :: u32
  assumes "0 \<le> m" "m \<le> (if ms \<noteq> 0 then uint ms - c else int MaxFrameSize)" "c \<in> {0, 4}"
  shows "unat (word_of_int (m + c) :: u32) = nat (m + c)"
proof -
  have "uint ms < 2 ^ 32" using uint_lt2p [of ms] by simp
  then have "0 \<le> m + c" "m + c < 2 ^ 32" using assms by (auto split: if_splits)
  then have "uint (word_of_int (m + c) :: u32) = m + c"
    by (simp add: uint_word_of_int del: of_int_add)
  then show ?thesis by (metis unat_eq_nat_uint)
qed

lemma built_ok_alloc:
  assumes "tail (w_ring w') = tail (w_ring w)" "classStalls w' = classStalls w" "w_reports w' = w_reports w"
  shows "built_ok i M w' r = built_ok i M w r"
  unfolding built_ok_def assms by (rule refl)

lemma stampPayload_alloc_ok:
  assumes l: "wledger (tail (w_ring w)) (add_mset h M) w" and c: "c = (if w_checksum w then 4 else 0)"
    and n: "lo + (n + c) \<le> length (amem (w_arena w))" "length (take n wire) \<le> n"
  shows "built_ok i M w (case i_fill i of
       None \<Rightarrow> sealSlab h lo n d (storeSlab lo (take n wire) w)
     | Some pf \<Rightarrow> (case fillSlab t i pf h lo n w of (w', False) \<Rightarrow> (w', buildFailed) | (w', True) \<Rightarrow> sealSlab h lo n d w'))"
proof (cases "i_fill i")
  case None
  let ?v = "storeSlab lo (take n wire) w"
  have bs: "lo + length (take n wire) \<le> length (amem (w_arena w))" using n by simp
  have "wledger (tail (w_ring ?v)) (add_mset h M) ?v" using storeSlab_wledger [OF l bs] by simp
  then have "built_ok i M ?v (sealSlab h lo n d ?v)"
    using n(1) c bs by (intro sealSlab_ok) (auto simp: add.assoc)
  then show ?thesis using None built_ok_alloc [of ?v w] by simp
next
  case (Some pf)
  obtain w' ok where f: "fillSlab t i pf h lo n w = (w', ok)" by fastforce
  have lo: "lo + n \<le> length (amem (w_arena w))" using n(1) by simp
  note F = fillSlab_ok [OF l lo f]
  show ?thesis
  proof (cases ok)
    case True
    then have "built_ok i M w' (sealSlab h lo n d w')"
      using F n(1) c by (intro sealSlab_ok) (auto simp: add.assoc)
    then show ?thesis using Some f True F built_ok_alloc [of w' w] by simp
  next
    case False
    then show ?thesis using Some f F by (auto simp: built_ok_def)
  qed
qed

lemma stampPayload_ok:
  assumes l: "wledger (tail (w_ring w)) M w"
  shows "built_ok i M w (stampPayload t i d wire msgLen w)"
proof -
  let ?c = "if w_checksum w then 4 else 0 :: int"
  let ?max = "if maxStored w \<noteq> 0 then uint (maxStored w) - ?c else int MaxFrameSize"
  let ?v = "reclaim (w_capacity w) w" and ?sl = "word_of_int (msgLen + ?c) :: u32"
  show ?thesis
  proof (cases "msgLen < 0 \<or> msgLen > ?max")
    case True
    then show ?thesis using l by (auto simp: stampPayload_def Let_def built_ok_def)
  next
    case False
    have v: "wledger (tail (w_ring ?v)) M ?v" using reclaim_leading [OF l] by simp
    have sl: "unat ?sl = nat (msgLen + ?c)" using False by (intro stored_fits [of msgLen "maxStored w" ?c]) auto
    have np: "Alloc (w_arena ?v) ?sl \<noteq> Panic" using v by (intro slabs.alloc_total) (simp add: wledger_def wbase_def)
    show ?thesis
    proof (cases "Alloc (w_arena ?v) ?sl")
      case (Ok x)
      then obtain h lo hi a where a: "Alloc (w_arena ?v) ?sl = Ok ((h, lo, hi), a)" by (metis prod.collapse)
      let ?u = "?v\<lparr>w_arena := a\<rparr>"
      note A = alloc_wledger [OF v a]
      have fits: "lo + nat (msgLen + ?c) \<le> hi" using A(2,3) sl by simp
      have n: "nat (msgLen + ?c) = nat msgLen + (if w_checksum ?u then 4 else 0)" using False by (simp add: nat_add_distrib)
      have "built_ok i M ?u (case i_fill i of
           None \<Rightarrow> sealSlab h lo (nat msgLen) d (storeSlab lo (take (nat msgLen) wire) ?u)
         | Some pf \<Rightarrow> (case fillSlab t i pf h lo (nat msgLen) ?u of (w', False) \<Rightarrow> (w', buildFailed) | (w', True) \<Rightarrow> sealSlab h lo (nat msgLen) d w'))"
        using A(1,4) fits n by (intro stampPayload_alloc_ok) auto
      then have ok: "built_ok i M w (case i_fill i of
           None \<Rightarrow> sealSlab h lo (nat msgLen) d (storeSlab lo (take (nat msgLen) wire) ?u)
         | Some pf \<Rightarrow> (case fillSlab t i pf h lo (nat msgLen) ?u of (w', False) \<Rightarrow> (w', buildFailed) | (w', True) \<Rightarrow> sealSlab h lo (nat msgLen) d w'))"
        using built_ok_alloc [of ?u w] by simp
      have gen: "built_ok i M w (report i (Some {errGenerationMismatch}) (freeSlab h ?u), buildFailed)"
        using freeSlab_wledger [OF A(1)] by (simp add: built_ok_def)
      show ?thesis
        using False a ok gen fits unfolding stampPayload_def Let_def by (simp split: if_splits)
    next
      case (Err e)
      then show ?thesis using False v by (cases e) (auto simp: stampPayload_def Let_def built_ok_def)
    qed (use np in simp)
  qed
qed

lemma mapKind_not_Panic: "mapKind k b \<noteq> Panic"
  by (simp add: mapKind_def)

lemma build_ok:
  assumes "wledger (tail (w_ring w)) M w"
  shows "built_ok i M w (build t i w)"
proof -
  let ?w = "w\<lparr>pendingSlab := noRef\<rparr>"
  have w: "wledger (tail (w_ring ?w)) M ?w" using assms by simp
  have e: "wledger (tail (w_ring ?w)) M (env_acts (at_claim t) ?w)" by (rule env_acts_wledger [OF w])
  have fail: "built_ok i M w (report i (Some x) ?w, buildFailed)" for x
    using assms by (simp add: built_ok_def)
  have empty: "built_ok i M w (case claim (env_acts (at_claim t) ?w) (i_id i) of
        (w', True) \<Rightarrow> (w', buildOK d) | (w', False) \<Rightarrow> (report i (Some {errSendAbandoned}) w', buildFailed))" for d
    using claim_cases [of "env_acts (at_claim t) ?w" "i_id i"] e
    by (auto simp: built_ok_def ref_slabs_def noRef_def)
  have plain: "built_ok i M w (?w, buildOK d)" for d
    using assms by (simp add: built_ok_def ref_slabs_def noRef_def)
  have stamp: "built_ok i M w (stampPayload t i d wire n ?w)" for d wire n
    using stampPayload_ok [OF w, of i t d wire n] built_ok_alloc [of ?w w] by simp
  show ?thesis
    using fail empty plain stamp mapKind_not_Panic [of "fr_Kind (i_frame i)" "w_chunkingActive w"]
    by (simp add: build_def Let_def split: outcome.splits prod.splits)
qed

section \<open>Placing\<close>

definition carry_ok :: "carry \<Rightarrow> writer \<Rightarrow> bool" where
  "carry_ok c w \<longleftrightarrow> (hasSlab c \<longrightarrow> built c) \<and> (parked c \<longrightarrow> parkedClass c < length (classStalls w))"

text \<open>
  A placement that leaves its intent stuck reports nothing and leaves the carry with what it holds; one that is
  done has reported exactly once and holds nothing.
\<close>

definition placed :: "intent \<Rightarrow> SlabHandle multiset \<Rightarrow> writer \<Rightarrow> writer \<times> carry \<times> emitResult \<Rightarrow> bool" where
  "placed i M w r \<longleftrightarrow> (case r of (w', c', res) \<Rightarrow>
     c_i c' = i \<and> length (classStalls w') = length (classStalls w) \<and> carry_ok c' w' \<and>
     (if res = emitStuck then wledger (tail (w_ring w')) (carry_slabs (Some c') + M) w' \<and> w_reports w' = w_reports w
      else wledger (tail (w_ring w')) M w' \<and> (\<exists>e. w_reports w' = w_reports w @ [(i_id i, e)])))"

lemma placed_cong:
  assumes "length (classStalls w') = length (classStalls w)" "w_reports w' = w_reports w"
  shows "placed i M w' r = placed i M w r"
  unfolding placed_def assms by (rule refl)

lemma abort_placed:
  assumes "wledger (tail (w_ring w)) (carry_slabs (Some c) + M) w" "carry_ok c w"
  shows "placed (c_i c) M w (abort e c w)"
  using assms freeSlab_wledger [of "tail (w_ring w)" "c_h c" M w]
  by (auto simp: abort_def dropSlab_def placed_def carry_ok_def carry_slabs_def)

lemma push_wledger:
  assumes "wledger e M w" "Push (w_ring w) d = Ok r"
  shows "wledger e M (w\<lparr>w_ring := r\<rparr>)" "tail r = tail (w_ring w) + 1"
proof -
  have sh: "ring_shape (w_ring w)" using assms(1) by (simp add: wledger_def wbase_def)
  show "tail r = tail (w_ring w) + 1" using Push_Ok_iff [OF sh, of d r] assms(2) by simp
  show "wledger e M (w\<lparr>w_ring := r\<rparr>)"
    using assms(1) by (rule wledger_cong) (use Push_Ok_iff [OF sh, of d r] assms(2) Push_shape [OF sh assms(2)] sh in
      \<open>auto simp: poisoned_def w_sync_def\<close>)
qed

lemma published_frame [simp]:
  "w_reports (published ok s r n w) = w_reports w" "classStalls (published ok s r n w) = classStalls w"
  "w_ring (published ok s r n w) = w_ring w" "w_fills (published ok s r n w) = w_fills w"
  by (simp_all add: published_def signalConsumer_def recordRef_def Let_def split: outcome.splits)

lemma Push_not_Panic: "ring_shape r \<Longrightarrow> Push r d \<noteq> Panic"
  using slot_in_range [of r "tail r"] by (auto simp: Push_def Let_def)

lemma pushCarry_placed:
  assumes l: "wledger (tail (w_ring w)) (carry_slabs (Some c) + M) w" and c: "carry_ok c w"
  shows "placed (c_i c) M w (pushCarry t c w)"
proof (cases "prePublishFault w")
  case (Some e)
  then show ?thesis using abort_placed [OF l c] by (simp add: pushCarry_def)
next
  case None
  let ?w = "env_acts (at_push t) w"
  have w: "wledger (tail (w_ring ?w)) (carry_slabs (Some c) + M) ?w" using env_acts_wledger [OF l] by simp
  have c': "carry_ok c ?w" using c by (simp add: carry_ok_def)
  have b: "wbase ?w" using w by (simp add: wledger_def)
  then have np: "Push (w_ring ?w) (c_d c) \<noteq> Panic" by (intro Push_not_Panic) (simp add: wbase_def)
  have cong: "placed (c_i c) M ?w r = placed (c_i c) M w r" for r by (rule placed_cong) simp_all
  show ?thesis
  proof (cases "Push (w_ring ?w) (c_d c)")
    case (Ok r)
    note P = push_wledger [OF w Ok]
    let ?v = "env_acts (at_published t) (?w\<lparr>w_ring := r\<rparr>)"
    have r: "carry_slabs (Some c) = ref_slabs \<lparr>ref_h = c_h c, present = hasSlab c\<rparr>" by (simp add: carry_slabs_def ref_slabs_def)
    have v: "wledger (tail (w_ring ?w)) (ref_slabs \<lparr>ref_h = c_h c, present = hasSlab c\<rparr> + M) ?v"
      using env_acts_wledger [OF P(1)] by (simp add: r)
    have "wledger (tail (w_ring ?w) + 1) M (published (wakeOk t) (tail (w_ring ?w)) \<lparr>ref_h = c_h c, present = hasSlab c\<rparr> (PayloadLength (c_d c)) ?v)"
      using P(2) by (intro published_wledger [OF v]) simp
    then show ?thesis
      using Ok None P(2) c by (simp add: pushCarry_def Let_def placed_def publishSeq_def Tail_def carry_ok_def)
  next
    case (Err e)
    have p: "wledger (tail (w_ring (poisonRingCorrupt ?w))) (carry_slabs (Some c) + M) (poisonRingCorrupt ?w)"
      using poisonRingCorrupt_wledger [OF b] by simp
    have a: "placed (c_i c) M w (abort x c (poisonRingCorrupt ?w))" for x
      using abort_placed [OF p, of x] c placed_cong [of "poisonRingCorrupt ?w" w] by (simp add: carry_ok_def)
    have a2: "placed (c_i c) M w (abort x c ?w)" for x using abort_placed [OF w c', of x] cong by simp
    show ?thesis
    proof (cases e)
      case ErrFull
      then show ?thesis using Err None w c' by (simp add: pushCarry_def Let_def placed_def)
    qed (use Err None a a2 in \<open>simp_all add: pushCarry_def Let_def\<close>)
  qed (use np in simp)
qed

lemma noteArenaSetAside_ok:
  assumes "noteArenaSetAside c w = (c', w')" "carry_ok c w"
  shows "c_i c' = c_i c \<and> length (classStalls w') = length (classStalls w) \<and> carry_ok c' w' \<and> carry_slabs (Some c') = carry_slabs (Some c) \<and>
    wledger e M w' = wledger e M w \<and> w_ring w' = w_ring w \<and> w_reports w' = w_reports w"
  using assms by (auto simp: noteArenaSetAside_def Let_def carry_ok_def carry_slabs_def split: if_splits)

lemma noteArenaResume_ok:
  assumes "noteArenaResume c w = (c', w')" "carry_ok c w"
  shows "c_i c' = c_i c \<and> length (classStalls w') = length (classStalls w) \<and> carry_ok c' w' \<and> carry_slabs (Some c') = carry_slabs (Some c) \<and>
    wledger e M w' = wledger e M w \<and> w_ring w' = w_ring w \<and> w_reports w' = w_reports w"
  using assms by (auto simp: noteArenaResume_def Let_def carry_ok_def carry_slabs_def split: if_splits)

lemma place_placed:
  assumes l: "wledger (tail (w_ring w)) (carry_slabs (Some c) + M) w" and c: "carry_ok c w"
  shows "placed (c_i c) M w (place t c w)"
proof -
  let ?w = "env_acts (at_build t) w"
  have w: "wledger (tail (w_ring ?w)) (carry_slabs (Some c) + M) ?w" using env_acts_wledger [OF l] by simp
  have c': "carry_ok c ?w" using c by (simp add: carry_ok_def)
  have cong: "placed (c_i c) M ?w r = placed (c_i c) M w r" for r by (rule placed_cong) simp_all
  consider (abandoned) "i_fill (c_i c) \<noteq> None \<and> abandoned ?w (i_id (c_i c))"
    | (built) "\<not> (i_fill (c_i c) \<noteq> None \<and> abandoned ?w (i_id (c_i c)))" "built c"
    | (fresh) "\<not> (i_fill (c_i c) \<noteq> None \<and> abandoned ?w (i_id (c_i c)))" "\<not> built c" by blast
  then show ?thesis
  proof cases
    case abandoned
    then show ?thesis using abort_placed [OF w c'] cong by (simp add: place_def Let_def)
  next
    case built
    let ?v = "env_acts (at_gate t) ?w"
    have "wledger (tail (w_ring ?v)) (carry_slabs (Some c) + M) ?v" using env_acts_wledger [OF w] by simp
    then have "placed (c_i c) M ?v (pushCarry t c ?v)" using c by (intro pushCarry_placed) (simp_all add: carry_ok_def)
    then show ?thesis using built placed_cong [of ?v w] by (auto simp: place_def Let_def)
  next
    case fresh
    then have h: "\<not> hasSlab c" using c by (simp add: carry_ok_def)
    then have w0: "wledger (tail (w_ring ?w)) M ?w" using w by (simp add: carry_slabs_def)
    obtain u st where b: "build t (c_i c) ?w = (u, st)" by fastforce
    have B: "built_ok (c_i c) M ?w (u, st)" using build_ok [OF w0, of "c_i c" t] b by simp
    show ?thesis
    proof (cases st)
      case (buildOK d)
      let ?c = "c\<lparr>c_d := d, built := True, c_h := ref_h (pendingSlab u), hasSlab := present (pendingSlab u)\<rparr>"
      obtain c2 w2 where n: "noteArenaResume ?c u = (c2, w2)" by fastforce
      have ck: "carry_ok ?c u" using c B by (simp add: carry_ok_def built_ok_def)
      note N = noteArenaResume_ok [OF n ck]
      have cs: "carry_slabs (Some ?c) = ref_slabs (pendingSlab u)" by (simp add: carry_slabs_def ref_slabs_def)
      let ?v = "env_acts (at_gate t) w2"
      have "wledger (tail (w_ring w2)) (carry_slabs (Some c2) + M) w2"
        using B N [of "tail (w_ring ?w)" "ref_slabs (pendingSlab u) + M"] cs by (simp add: built_ok_def buildOK)
      then have "wledger (tail (w_ring ?v)) (carry_slabs (Some c2) + M) ?v" using env_acts_wledger by simp
      moreover have "carry_ok c2 w2" using N [of 0 "{#}"] by blast
      then have "carry_ok c2 ?v" by (simp add: carry_ok_def)
      ultimately have "placed (c_i c2) M ?v (pushCarry t c2 ?v)" by (intro pushCarry_placed)
      moreover have "c_i c2 = c_i c" "w_reports ?v = w_reports w" "length (classStalls ?v) = length (classStalls w)"
        using N [of 0 "{#}"] B by (simp_all add: built_ok_def buildOK)
      ultimately show ?thesis
        using fresh b n placed_cong [of ?v w] by (auto simp: place_def Let_def buildOK)
    next
      case buildStuck
      obtain c2 w2 where n: "noteArenaSetAside c u = (c2, w2)" by fastforce
      have ck: "carry_ok c u" using c B by (simp add: carry_ok_def built_ok_def)
      note N = noteArenaSetAside_ok [OF n ck]
      show ?thesis
        using fresh b n N [of "tail (w_ring ?w)" M] B h by (auto simp: place_def Let_def buildStuck placed_def built_ok_def carry_slabs_def)
    next
      case buildFailed
      then show ?thesis using fresh b B c by (auto simp: place_def Let_def placed_def built_ok_def carry_ok_def)
    qed
  qed
qed

end
