(* ===== verification/Writer_Run.thy ===== *)
theory Writer_Run
  imports Writer_Ledger
begin

text \<open>
  The writer goroutine over whole runs: every accepted intent is reported exactly once, no slab leaks, the
  lifecycle burst is bounded, and the handshake of a fill intent has exactly one winner.
\<close>

section \<open>The queues are the loop's alone\<close>

definition queues :: "writer \<Rightarrow> intent list \<times> intent list" where
  "queues w = (lifecycleQueue w, dataQueue w)"

named_theorems queue_simps

lemma queues_basic [queue_simps]:
  "queues (report i e w) = queues w" "queues (set_sync w s) = queues w" "queues (storeSlab lo bs w) = queues w"
  "queues (freeSlab h w) = queues w" "queues (poisonRingCorrupt w) = queues w" "queues (signalConsumer ok w) = queues w"
  "queues (recordRef sq ref w) = queues w" "queues (reclaimStep w) = queues w"
  by (auto simp: queues_def report_def set_sync_def storeSlab_def freeSlab_def poisonRingCorrupt_def signalConsumer_def
      recordRef_def reclaimStep_def reclaimOne_def Let_def split: outcome.splits)

lemma queues_env_act: "queues (env_act w a) = queues w"
  by (cases a) (simp_all add: queues_def abandon_def set_sync_def)

lemma queues_env_acts [queue_simps]: "queues (env_acts as w) = queues w"
  unfolding env_acts_def by (induction as arbitrary: w) (simp_all add: queues_env_act)

lemma queues_reclaimTo [queue_simps]: "queues (reclaimTo hw w) = queues w"
  by (induction hw w rule: reclaimTo.induct) (subst reclaimTo_step, simp add: reclaimStep_def [symmetric] queue_simps)

lemma queues_reclaim [queue_simps]: "queues (reclaim m w) = queues w"
  by (simp add: reclaim_def Let_def queue_simps)

lemma queues_upd [queue_simps]:
  "queues (w\<lparr>pendingSlab := r\<rparr>) = queues w" "queues (w\<lparr>exhaustedClass := n\<rparr>) = queues w" "queues (w\<lparr>w_arena := a\<rparr>) = queues w"
  "queues (w\<lparr>w_panicked := b\<rparr>) = queues w" "queues (w\<lparr>w_fills := fs\<rparr>) = queues w" "queues (w\<lparr>w_ring := rg\<rparr>) = queues w"
  "queues (w\<lparr>classStalls := cs\<rparr>) = queues w" "queues (w\<lparr>framesSent := x, bytesSent := y\<rparr>) = queues w"
  by (simp_all add: queues_def)

lemma queues_claim [queue_simps]: "queues (fst (claim w i)) = queues w"
  by (simp add: claim_def queue_simps)

lemma queues_claimD: "claim w j = (x, b) \<Longrightarrow> queues x = queues w"
  using queues_claim [of w j] by simp

lemma queues_fillSlab [queue_simps]: "queues (fst (fillSlab t i pf h lo n w)) = queues w"
  by (auto simp: fillSlab_def Let_def queue_simps dest!: queues_claimD split: prod.splits outcome.splits)

lemma queues_sealSlab [queue_simps]: "queues (fst (sealSlab h lo n d w)) = queues w"
  by (simp add: sealSlab_def Let_def queue_simps)

lemma queues_stampPayload [queue_simps]: "queues (fst (stampPayload t i d wire n w)) = queues w"
proof -
  have f: "fillSlab t i pf h lo m v = (x, b) \<Longrightarrow> queues x = queues v" for pf h lo m v x b
    using queues_fillSlab [of t i pf h lo m v] by simp
  have fin: "queues (fst (case i_fill i of
        None \<Rightarrow> sealSlab h lo m d (storeSlab lo bs u)
      | Some pf \<Rightarrow> (case fillSlab t i pf h lo m u of (w', False) \<Rightarrow> (w', buildFailed) | (w', True) \<Rightarrow> sealSlab h lo m d w')))
      = queues u" for h lo m bs u
    by (auto simp: queue_simps dest!: f split: option.splits prod.splits bool.splits)
  let ?sl = "word_of_int (n + (if w_checksum w then 4 else 0)) :: u32"
  show ?thesis
  proof (cases "Alloc (w_arena (reclaim (w_capacity w) w)) ?sl")
    case (Ok x)
    then obtain h lo hi a where "Alloc (w_arena (reclaim (w_capacity w) w)) ?sl = Ok ((h, lo, hi), a)"
      by (metis prod.collapse)
    then show ?thesis unfolding stampPayload_def Let_def by (simp add: queue_simps fin)
  next
    case (Err e)
    then show ?thesis unfolding stampPayload_def Let_def by (cases e) (simp_all add: queue_simps)
  next
    case Panic
    then show ?thesis unfolding stampPayload_def Let_def by (simp add: queue_simps)
  qed
qed

lemma queues_build [queue_simps]: "queues (fst (build t i w)) = queues w"
  by (auto simp: build_def Let_def queue_simps dest!: queues_claimD split: outcome.splits prod.splits bool.splits)

lemma queues_published [queue_simps]: "queues (published ok sq ref n w) = queues w"
  by (simp add: published_def Let_def queue_simps)

lemma queues_pushCarry [queue_simps]: "queues (fst (pushCarry t c w)) = queues w"
  by (simp add: pushCarry_def abort_def dropSlab_def Let_def queue_simps split: option.splits outcome.splits ring_error.splits)

lemma queues_place [queue_simps]: "queues (fst (place t c w)) = queues w"
proof -
  have b: "build t i v = (x, st) \<Longrightarrow> queues x = queues v" for i v x st using queues_build [of t i v] by simp
  have s: "noteArenaSetAside k v = (k', x) \<Longrightarrow> queues x = queues v" for k v k' x
    by (auto simp: noteArenaSetAside_def Let_def queue_simps split: if_splits)
  have r: "noteArenaResume k v = (k', x) \<Longrightarrow> queues x = queues v" for k v k' x
    by (auto simp: noteArenaResume_def Let_def queue_simps split: if_splits)
  show ?thesis
    by (auto simp: place_def Let_def abort_def dropSlab_def queue_simps dest!: b s r split: prod.splits buildStatus.splits)
qed

lemma queues_emitLifecycle [queue_simps]: "queues (emitLifecycle t i w) = queues w"
proof -
  have b: "build t i v = (x, st) \<Longrightarrow> queues x = queues v" for v x st using queues_build [of t i v] by simp
  show ?thesis
    by (auto simp: emitLifecycle_def Let_def queue_simps dest!: b
        split: prod.splits buildStatus.splits option.splits outcome.splits ring_error.splits)
qed

section \<open>The loop\<close>

definition lifecycle_ok :: "writer \<Rightarrow> bool" where
  "lifecycle_ok w \<longleftrightarrow> (\<forall>i \<in> set (lifecycleQueue w). i_lane i = laneLifecycle)"

lemma build_lifecycle:
  assumes "i_lane i = laneLifecycle" "build t i w = (w', st)"
  shows "st \<noteq> buildStuck \<and> (\<forall>d. st = buildOK d \<longrightarrow> w' = w\<lparr>pendingSlab := noRef\<rparr>)"
  using assms
  by (auto simp: build_def Let_def split: outcome.splits prod.splits if_splits)

text \<open>The part of \<open>emitLifecycle\<close> behind the build.\<close>

lemma emitLifecycle_push:
  fixes i :: intent and t :: wturn
  assumes w: "wledger (tail (w_ring w)) M w" and p: "Push (w_ring w) d = r"
  defines "w' \<equiv> (case r of
        Err ErrCorrupt \<Rightarrow> report i (Some (markPoisoned {ErrOther})) (poisonRingCorrupt w)
      | Err e \<Rightarrow> report i (Some {ErrOther}) w
      | Panic \<Rightarrow> w\<lparr>w_panicked := True\<rparr>
      | Ok q \<Rightarrow> report i None (published (wakeOk t) (publishSeq w) noRef (PayloadLength d) (env_acts (at_published t) (w\<lparr>w_ring := q\<rparr>))))"
  shows "wledger (tail (w_ring w')) M w' \<and> length (classStalls w') = length (classStalls w) \<and>
    (\<exists>e. w_reports w' = w_reports w @ [(i_id i, e)])"
proof (cases r)
  case (Ok q)
  note P = push_wledger [OF w p [unfolded Ok]]
  let ?v = "env_acts (at_published t) (w\<lparr>w_ring := q\<rparr>)"
  have v: "wledger (tail (w_ring w)) (ref_slabs noRef + M) ?v"
    using env_acts_wledger [OF P(1)] by (simp add: ref_slabs_def noRef_def)
  have "wledger (tail (w_ring w) + 1) M (published (wakeOk t) (tail (w_ring w)) noRef (PayloadLength d) ?v)"
    using P(2) by (intro published_wledger [OF v]) simp
  then show ?thesis using Ok P(2) by (simp add: w'_def publishSeq_def Tail_def)
next
  case (Err e)
  have "wbase w" using w by (simp add: wledger_def)
  then show ?thesis
    using Err w poisonRingCorrupt_wledger [of w "tail (w_ring w)" M] by (cases e) (auto simp: w'_def)
next
  case Panic
  then show ?thesis using w p Push_not_Panic [of "w_ring w" d] by (simp add: wledger_def wbase_def)
qed

lemma emitLifecycle_ok:
  assumes l: "wledger (tail (w_ring w)) M w" and i: "i_lane i = laneLifecycle"
  shows "wledger (tail (w_ring (emitLifecycle t i w))) M (emitLifecycle t i w) \<and>
    length (classStalls (emitLifecycle t i w)) = length (classStalls w) \<and>
    (\<exists>e. w_reports (emitLifecycle t i w) = w_reports w @ [(i_id i, e)])"
proof -
  let ?w = "env_acts (at_build t) w"
  obtain u st where b: "build t i ?w = (u, st)" by fastforce
  have w: "wledger (tail (w_ring ?w)) M ?w" using env_acts_wledger [OF l] by simp
  have B: "built_ok i M ?w (u, st)" using build_ok [OF w, of i t] b by simp
  show ?thesis
  proof (cases st)
    case (buildOK d)
    then have u: "u = ?w\<lparr>pendingSlab := noRef\<rparr>" using build_lifecycle [OF i b] by simp
    let ?v = "env_acts (at_gate t) u"
    let ?x = "env_acts (at_push t) ?v"
    have v: "wledger (tail (w_ring ?v)) M ?v" using env_acts_wledger [of _ M u] w by (simp add: u)
    have x: "wledger (tail (w_ring ?x)) M ?x" using env_acts_wledger [OF v] by simp
    have f: "length (classStalls ?x) = length (classStalls w)" "w_reports ?x = w_reports w"
      "length (classStalls ?v) = length (classStalls w)" "w_reports ?v = w_reports w" by (simp_all add: u)
    show ?thesis
    proof (cases "prePublishFault ?v")
      case None
      then have "emitLifecycle t i w = (case Push (w_ring ?x) d of
        Err ErrCorrupt \<Rightarrow> report i (Some (markPoisoned {ErrOther})) (poisonRingCorrupt ?x)
      | Err e \<Rightarrow> report i (Some {ErrOther}) ?x
      | Panic \<Rightarrow> ?x\<lparr>w_panicked := True\<rparr>
      | Ok q \<Rightarrow> report i None (published (wakeOk t) (publishSeq ?x) noRef (PayloadLength d) (env_acts (at_published t) (?x\<lparr>w_ring := q\<rparr>))))"
        by (simp add: emitLifecycle_def b buildOK Let_def)
      then show ?thesis
        using emitLifecycle_push [OF x refl, where i = i and t = t and d = d] f by (simp only:)
    next
      case (Some e)
      then show ?thesis using v f by (simp add: emitLifecycle_def b buildOK Let_def)
    qed
  qed (use b B build_lifecycle [OF i b] in \<open>auto simp: emitLifecycle_def built_ok_def\<close>)
qed

definition ids :: "intent list \<Rightarrow> nat multiset" where
  "ids is = mset (map i_id is)"

definition reported :: "writer \<Rightarrow> nat multiset" where
  "reported w = mset (map fst (w_reports w))"

definition pending :: "runner \<Rightarrow> nat multiset" where
  "pending r = ids (lifecycleQueue (r_w r)) + ids (dataQueue (r_w r)) +
     (case r_staged r of Some i \<Rightarrow> {#i_id i#} | None \<Rightarrow> {#}) + (case r_stuck r of Some c \<Rightarrow> {#i_id (c_i c)#} | None \<Rightarrow> {#})"

definition rinv :: "runner \<Rightarrow> bool" where
  "rinv r \<longleftrightarrow> wledger (tail (w_ring (r_w r))) (carry_slabs (r_stuck r)) (r_w r) \<and>
     (\<forall>c. r_stuck r = Some c \<longrightarrow> carry_ok c (r_w r)) \<and> lifecycle_ok (r_w r) \<and>
     (\<forall>i. r_staged r = Some i \<longrightarrow> i_lane i = laneLifecycle)"

text \<open>A step that keeps the invariant and neither loses nor duplicates an intent.\<close>

definition keeps :: "runner \<Rightarrow> runner \<Rightarrow> bool" where
  "keeps r r' \<longleftrightarrow> rinv r' \<and> reported (r_w r') + pending r' = reported (r_w r) + pending r"

lemma keeps_trans: "keeps r s \<Longrightarrow> keeps s t \<Longrightarrow> keeps r t"
  by (simp add: keeps_def)

lemma keeps_refl: "rinv r \<Longrightarrow> keeps r r"
  by (simp add: keeps_def)

lemma ids_simps [simp]: "ids [] = {#}" "ids (i # is) = add_mset (i_id i) (ids is)" "ids (is @ js) = ids is + ids js"
  by (simp_all add: ids_def)

lemma reported_snoc: "w_reports w' = w_reports w @ [(n, e)] \<Longrightarrow> reported w' = add_mset n (reported w)"
  by (simp add: reported_def)

lemma queues_sel:
  assumes "queues w' = queues w"
  shows "lifecycleQueue w' = lifecycleQueue w" "dataQueue w' = dataQueue w" "lifecycle_ok w' = lifecycle_ok w"
  using assms by (simp_all add: queues_def lifecycle_ok_def)

lemma wledger_queues [simp]:
  "wledger e M (w\<lparr>lifecycleQueue := q\<rparr>) = wledger e M w" "wledger e M (w\<lparr>dataQueue := q\<rparr>) = wledger e M w"
  "wledger e M (w\<lparr>lifecycleQueue := q, dataQueue := p\<rparr>) = wledger e M w"
  by (simp_all add: wledger_def wbase_def window_def slot_def table_slabs_def poisoned_def w_sync_def)

lemma emitLifecycle_step:
  assumes "wledger (tail (w_ring w)) M w" "i_lane i = laneLifecycle"
  shows "wledger (tail (w_ring (emitLifecycle t i w))) M (emitLifecycle t i w)"
    "length (classStalls (emitLifecycle t i w)) = length (classStalls w)"
    "reported (emitLifecycle t i w) = add_mset (i_id i) (reported w)"
    "lifecycleQueue (emitLifecycle t i w) = lifecycleQueue w" "dataQueue (emitLifecycle t i w) = dataQueue w"
  using emitLifecycle_ok [OF assms, of t] queues_sel [OF queues_emitLifecycle, of t i w]
  by (auto dest: reported_snoc)

lemma lifecycleBurst_keeps:
  assumes "wledger (tail (w_ring w)) M w" "lifecycle_ok w"
  shows "wledger (tail (w_ring (lifecycleBurst ts n w))) M (lifecycleBurst ts n w) \<and> lifecycle_ok (lifecycleBurst ts n w) \<and>
    length (classStalls (lifecycleBurst ts n w)) = length (classStalls w) \<and> dataQueue (lifecycleBurst ts n w) = dataQueue w \<and>
    reported (lifecycleBurst ts n w) + ids (lifecycleQueue (lifecycleBurst ts n w)) = reported w + ids (lifecycleQueue w)"
  using assms
proof (induction ts n w rule: lifecycleBurst.induct)
  case (1 ts n w)
  show ?case
  proof (cases "n < lifecycleBurstBound \<and> lifecycleQueue w \<noteq> []")
    case True
    then obtain i q where q: "lifecycleQueue w = i # q" by (cases "lifecycleQueue w") auto
    let ?v = "w\<lparr>lifecycleQueue := q\<rparr>"
    let ?u = "emitLifecycle (ts n) i ?v"
    have i: "i_lane i = laneLifecycle" using 1(3) q by (simp add: lifecycle_ok_def)
    have v: "wledger (tail (w_ring ?v)) M ?v" using 1(2) by simp
    note E = emitLifecycle_step [OF v i, of "ts n"]
    have "lifecycle_ok ?u" using 1(3) q E(4) by (simp add: lifecycle_ok_def)
    with 1(1) [of i q] True q E have ih: "wledger (tail (w_ring (lifecycleBurst ts (Suc n) ?u))) M (lifecycleBurst ts (Suc n) ?u) \<and>
        lifecycle_ok (lifecycleBurst ts (Suc n) ?u) \<and>
        length (classStalls (lifecycleBurst ts (Suc n) ?u)) = length (classStalls ?u) \<and> dataQueue (lifecycleBurst ts (Suc n) ?u) = dataQueue ?u \<and>
        reported (lifecycleBurst ts (Suc n) ?u) + ids (lifecycleQueue (lifecycleBurst ts (Suc n) ?u)) = reported ?u + ids (lifecycleQueue ?u)"
      by blast
    have r: "reported ?v = reported w" by (simp add: reported_def)
    have "lifecycleBurst ts n w = lifecycleBurst ts (Suc n) ?u" using True q by (simp add: lifecycleBurst.simps [of ts n])
    then show ?thesis using ih E q r by simp
  next
    case False
    then have "lifecycleBurst ts n w = w" by (subst lifecycleBurst.simps) (auto split: list.splits)
    then show ?thesis using 1(2,3) by simp
  qed
qed

lemma burstStep_keeps:
  assumes "rinv r"
  shows "keeps r (burstStep ts r)"
proof (cases "r_staged r")
  case None
  then show ?thesis
    using assms lifecycleBurst_keeps [of "r_w r" "carry_slabs (r_stuck r)" ts 0]
    by (auto simp: keeps_def rinv_def burstStep_def pending_def carry_ok_def algebra_simps)
next
  case (Some i)
  have w: "wledger (tail (w_ring (r_w r))) (carry_slabs (r_stuck r)) (r_w r)" and i: "i_lane i = laneLifecycle"
    using assms Some by (auto simp: rinv_def)
  note E = emitLifecycle_step [OF w i, of "ts 0"]
  have "lifecycle_ok (emitLifecycle (ts 0) i (r_w r))" using assms E(4) by (simp add: rinv_def lifecycle_ok_def)
  note B = lifecycleBurst_keeps [OF E(1) this, of ts 1]
  show ?thesis
    using assms B E Some by (auto simp: keeps_def rinv_def burstStep_def pending_def carry_ok_def algebra_simps)
qed

lemma place_step:
  assumes "place t c w = (w', c', res)" "wledger (tail (w_ring w)) (carry_slabs (Some c)) w" "carry_ok c w"
  shows "c_i c' = c_i c" "length (classStalls w') = length (classStalls w)" "carry_ok c' w'"
    "lifecycleQueue w' = lifecycleQueue w" "dataQueue w' = dataQueue w" "lifecycle_ok w' = lifecycle_ok w"
    "res = emitStuck \<Longrightarrow> wledger (tail (w_ring w')) (carry_slabs (Some c')) w' \<and> reported w' = reported w"
    "res = emitDone \<Longrightarrow> wledger (tail (w_ring w')) {#} w' \<and> reported w' = add_mset (i_id (c_i c)) (reported w)"
proof -
  have p: "placed (c_i c) {#} w (w', c', res)" using place_placed [of w c "{#}" t] assms by simp
  then show "c_i c' = c_i c" "length (classStalls w') = length (classStalls w)" "carry_ok c' w'" by (simp_all add: placed_def)
  have "queues w' = queues w" using queues_place [of t c w] assms(1) by simp
  then show "lifecycleQueue w' = lifecycleQueue w" "dataQueue w' = dataQueue w" "lifecycle_ok w' = lifecycle_ok w"
    by (rule queues_sel)+
  show "res = emitStuck \<Longrightarrow> wledger (tail (w_ring w')) (carry_slabs (Some c')) w' \<and> reported w' = reported w"
    using p by (simp add: placed_def reported_def)
  show "res = emitDone \<Longrightarrow> wledger (tail (w_ring w')) {#} w' \<and> reported w' = add_mset (i_id (c_i c)) (reported w)"
    using p by (auto simp: placed_def dest: reported_snoc)
qed

lemma emitStep_keeps:
  assumes "rinv r" "r_stuck r = None"
  shows "keeps r (emitStep t r)"
proof (cases "dataQueue (r_w r)")
  case Nil
  then show ?thesis using assms keeps_refl by (simp add: emitStep_def)
next
  case (Cons i q)
  let ?w = "(r_w r)\<lparr>dataQueue := q\<rparr>" and ?c = "newCarry i"
  obtain w c res where p: "place t ?c ?w = (w, c, res)" by (metis prod_cases3)
  have w: "wledger (tail (w_ring ?w)) (carry_slabs (Some ?c)) ?w" and c: "carry_ok ?c ?w"
    using assms by (simp_all add: rinv_def carry_slabs_def newCarry_def carry_ok_def)
  note P = place_step [OF p w c]
  have i: "c_i ?c = i" by (simp add: newCarry_def)
  have lo: "lifecycle_ok ?w = lifecycle_ok (r_w r)" and rp: "reported ?w = reported (r_w r)"
    by (simp_all add: lifecycle_ok_def reported_def)
  show ?thesis
    using assms P Cons p i lo rp
    by (cases res) (auto simp: keeps_def rinv_def emitStep_def emit_def pending_def carry_slabs_def)
qed

lemma dataStep_keeps:
  assumes "rinv r"
  shows "keeps r (dataStep t r)"
proof (cases "r_stuck r")
  case None
  then show ?thesis using emitStep_keeps [OF assms] by (simp add: dataStep_def)
next
  case (Some c)
  obtain w c' res where p: "place t c (r_w r) = (w, c', res)" by (metis prod_cases3)
  have w: "wledger (tail (w_ring (r_w r))) (carry_slabs (Some c)) (r_w r)" and c: "carry_ok c (r_w r)"
    using assms Some by (simp_all add: rinv_def)
  note P = place_step [OF p w c]
  show ?thesis
  proof (cases res)
    case emitDone
    then show ?thesis
      using assms P p Some by (simp add: keeps_def rinv_def dataStep_def pending_def carry_slabs_def)
  next
    case emitStuck
    then show ?thesis
      using assms P p Some by (simp add: keeps_def rinv_def dataStep_def pending_def)
  qed
qed

lemma drainQueues_spec:
  "wledger e M (drainQueues picks w) = wledger e M w \<and> w_ring (drainQueues picks w) = w_ring w \<and>
   lifecycleQueue (drainQueues picks w) = [] \<and> dataQueue (drainQueues picks w) = [] \<and>
   reported (drainQueues picks w) = reported w + ids (lifecycleQueue w) + ids (dataQueue w)"
proof (induction picks w rule: drainQueues.induct)
  case (1 picks w)
  have r: "reported (report i x v) = add_mset (i_id i) (reported v)" for i x v by (simp add: reported_def)
  have q: "lifecycleQueue (report i x v) = lifecycleQueue v" "dataQueue (report i x v) = dataQueue v" for i x v
    by (simp_all add: report_def)
  have u: "reported (v\<lparr>lifecycleQueue := p\<rparr>) = reported v" "reported (v\<lparr>dataQueue := p\<rparr>) = reported v" for v p
    by (simp_all add: reported_def)
  show ?case
  proof (cases "lifecycleQueue w"; cases "dataQueue w")
    fix i p j p' assume "lifecycleQueue w = i # p" "dataQueue w = j # p'"
    then show ?thesis
      using 1(3,4) [of "lifecycleQueue w" "dataQueue w" i p j p'] by (subst (1 2 3 4 5) drainQueues.simps) (simp add: r q u)
  qed (use 1(1,2) in \<open>subst (1 2 3 4 5) drainQueues.simps, simp add: r q u\<close>)+
qed

lemma stopStep_keeps:
  assumes "rinv r"
  shows "keeps r (stopStep picks r) \<or> r_staged r \<noteq> None"
    "rinv (stopStep picks r)" "reported (r_w (stopStep picks r)) + pending (stopStep picks r) = reported (r_w r) + pending r"
    "r_staged r = None \<Longrightarrow> pending (stopStep picks r) = {#}" "r_stuck (stopStep picks r) = None"
proof -
  have w: "wledger (tail (w_ring (r_w r))) (carry_slabs (r_stuck r)) (r_w r)" using assms by (simp add: rinv_def)
  define v where "v = (case r_stuck r of None \<Rightarrow> r_w r
      | Some c \<Rightarrow> (case dropSlab c (r_w r) of (c, w) \<Rightarrow> report (c_i c) (Some {TransportErrClosed}) w))"
  have q: "queues v = queues (r_w r)" by (auto simp: v_def dropSlab_def queue_simps split: option.splits)
  have led: "wledger (tail (w_ring v)) {#} v"
    using w freeSlab_wledger [of "tail (w_ring (r_w r))" _ "{#}" "r_w r"]
    by (auto simp: v_def dropSlab_def carry_slabs_def split: option.splits if_splits)
  have rp: "reported v = reported (r_w r) + (case r_stuck r of Some c \<Rightarrow> {#i_id (c_i c)#} | None \<Rightarrow> {#})"
    by (auto simp: v_def dropSlab_def reported_def split: option.splits)
  have s: "stopStep picks r = r\<lparr>r_w := drainQueues picks v, r_stuck := None, r_retry := disarm (r_retry r), r_stopped := True\<rparr>"
    by (simp add: stopStep_def drainAndStop_def v_def)
  note D = drainQueues_spec [of _ _ picks v]
  show inv: "rinv (stopStep picks r)"
    using assms D led by (simp add: s rinv_def carry_slabs_def lifecycle_ok_def)
  show eq: "reported (r_w (stopStep picks r)) + pending (stopStep picks r) = reported (r_w r) + pending r"
    using D rp queues_sel [OF q] by (simp add: s pending_def)
  show "keeps r (stopStep picks r) \<or> r_staged r \<noteq> None" using inv eq by (simp add: keeps_def)
  show "r_staged r = None \<Longrightarrow> pending (stopStep picks r) = {#}" using D by (simp add: s pending_def)
  show "r_stuck (stopStep picks r) = None" by (simp add: s)
qed

lemma stageStep_keeps: "rinv r \<Longrightarrow> r_staged r = None \<Longrightarrow> keeps r (stageStep r)"
  by (cases "lifecycleQueue (r_w r)")
    (auto simp: stageStep_def keeps_def rinv_def pending_def lifecycle_ok_def carry_ok_def reported_def)

definition arrivals :: "loop_event \<Rightarrow> nat multiset" where
  "arrivals e = ids (new_lifecycle e) + ids (new_data e)"

definition lanes_ok :: "loop_event \<Rightarrow> bool" where
  "lanes_ok e \<longleftrightarrow> (\<forall>i \<in> set (new_lifecycle e). i_lane i = laneLifecycle)"

lemma arrive_keeps:
  assumes "rinv r" "lanes_ok e"
  shows "rinv (arrive e r)" "reported (r_w (arrive e r)) + pending (arrive e r) = reported (r_w r) + pending r + arrivals e"
    "r_staged (arrive e r) = r_staged r" "r_stuck (arrive e r) = r_stuck r"
  using assms by (auto simp: arrive_def rinv_def lifecycle_ok_def lanes_ok_def carry_ok_def pending_def arrivals_def reported_def)

lemma blockStep_keeps:
  assumes "rinv r" "r_staged r = None" "lanes_ok e"
  shows "rinv (blockStep e r) \<and> reported (r_w (blockStep e r)) + pending (blockStep e r) = reported (r_w r) + pending r + arrivals e"
proof -
  note A = arrive_keeps [OF assms(1,3)]
  have st: "r_staged (arrive e r) = None" using A(3) assms(2) by simp
  have t: "rinv ((arrive e r)\<lparr>r_timerFired := b\<rparr>) = rinv (arrive e r)"
    "pending ((arrive e r)\<lparr>r_timerFired := b\<rparr>) = pending (arrive e r)" for b by (simp_all add: rinv_def pending_def)
  show ?thesis
    using A(1,2) t stageStep_keeps [OF A(1) st] stopStep_keeps(2,3) [OF A(1)] emitStep_keeps [OF A(1)]
    by (auto simp: blockStep_def Let_def keeps_def split: wake.splits)
qed

lemma staged_burst [simp]: "r_staged (burstStep ts r) = None"
  by (simp add: burstStep_def split: option.splits)

lemma staged_data [simp]: "r_staged (dataStep t r) = r_staged r"
  by (simp add: dataStep_def emitStep_def split: option.splits list.splits prod.splits emitResult.splits)

lemma runTurn_keeps:
  assumes "rinv r" "lanes_ok e"
  shows "rinv (runTurn e r)" "reported (r_w (runTurn e r)) + pending (runTurn e r) =
    reported (r_w r) + pending r + (if r_stopped r then {#} else arrivals e)"
proof -
  have B: "keeps r (burstStep (e_burst e) r)" by (rule burstStep_keeps [OF assms(1)])
  then have D: "keeps r (dataStep (e_data e) (burstStep (e_burst e) r))"
    using dataStep_keeps keeps_trans by (metis keeps_def)
  then have "rinv (dataStep (e_data e) (burstStep (e_burst e) r))" by (simp add: keeps_def)
  from blockStep_keeps [OF this _ assms(2)] D show "rinv (runTurn e r)" "reported (r_w (runTurn e r)) + pending (runTurn e r) =
    reported (r_w r) + pending r + (if r_stopped r then {#} else arrivals e)"
    using assms(1) by (auto simp: runTurn_def keeps_def)
qed

text \<open>A stopped loop has an empty queue behind it.\<close>

definition quiesced :: "runner \<Rightarrow> bool" where
  "quiesced r \<longleftrightarrow> (r_stopped r \<longrightarrow> pending r = {#})"

lemma stopped_data [simp]: "r_stopped (dataStep t r) = r_stopped r" "r_stopped (burstStep ts r) = r_stopped r"
  "r_stopped (emitStep t r) = r_stopped r" "r_stopped (arrive e r) = r_stopped r" "r_stopped (stageStep r) = r_stopped r"
  by (simp_all add: dataStep_def emitStep_def burstStep_def arrive_def stageStep_def split: option.splits list.splits prod.splits emitResult.splits)

lemma runTurn_quiesced:
  assumes "rinv r" "lanes_ok e" "quiesced r"
  shows "quiesced (runTurn e r)"
proof (cases "r_stopped r")
  case False
  let ?r = "dataStep (e_data e) (burstStep (e_burst e) r)"
  have "rinv ?r" using burstStep_keeps [OF assms(1)] dataStep_keeps by (metis keeps_def)
  note A = arrive_keeps [OF this assms(2)]
  have st: "r_staged (arrive e ?r) = None" using A(3) by simp
  show ?thesis
    using False stopStep_keeps(4) [OF A(1) st]
    by (auto simp: runTurn_def blockStep_def Let_def quiesced_def split: wake.splits)
qed (use assms in \<open>simp add: runTurn_def\<close>)

fun arrived :: "loop_event list \<Rightarrow> runner \<Rightarrow> nat multiset" where
  "arrived [] r = {#}"
| "arrived (e # es) r = (if r_stopped r then {#} else arrivals e) + arrived es (runTurn e r)"

lemma run_keeps:
  assumes "rinv r" "quiesced r" "list_all lanes_ok es"
  shows "rinv (run es r) \<and> quiesced (run es r) \<and>
    reported (r_w (run es r)) + pending (run es r) = reported (r_w r) + pending r + arrived es r"
  using assms
proof (induction es arbitrary: r)
  case (Cons e es)
  then have l: "lanes_ok e" by simp
  note R = runTurn_keeps [OF Cons(2) l]
  show ?case using Cons.IH [OF R(1) runTurn_quiesced [OF Cons(2) l Cons(3)]] Cons(4) R(2) by (simp add: union_assoc)
qed simp

section \<open>A fresh writer\<close>

text \<open>What attaching a region gives: a ring and an arena of the region, both unused.\<close>

definition fresh_writer :: "writer \<Rightarrow> bool" where
  "fresh_writer w \<longleftrightarrow> (\<exists>ss cap cs m seq gen seq' r a cfg sg stored.
     Ring.New ss (Some 0) (Some 0) cap = Ok r \<and> geometry_ok cs (length m) \<and> Arena.New seq m cs gen = Ok (a, seq') \<and>
     newRegionWriter r a cfg (Truncated gen) cap sg stored = Ok w)"

lemma fresh_rinv:
  assumes "fresh_writer w"
  shows "rinv (start w)" "quiesced (start w)" "reported w = {#}" "pending (start w) = {#}" "poisoned w \<or> live (w_arena w) = {}"
proof -
  obtain ss cap cs m seq gen seq' r a cfg sg stored where
    r: "Ring.New ss (Some 0) (Some 0) cap = Ok r" and g: "geometry_ok cs (length m)"
    and a: "Arena.New seq m cs gen = Ok (a, seq')" and w: "newRegionWriter r a cfg (Truncated gen) cap sg stored = Ok w"
    using assms by (auto simp: fresh_writer_def)
  have W: "w_ring w = r" "w_arena w = a" "handleTable w = replicate (unat cap) noRef" "handleMask w = cap - 1" "lastReclaimed w = 0"
    "\<not> w_panicked w" "lifecycleQueue w = []" "dataQueue w = []" "w_reports w = []"
    using w by (auto simp: newRegionWriter_def split: if_splits)
  have R: "ring_shape r" "slots r = ss" "rmask r = cap - 1" "tail r = 0" "length ss = unat cap"
    using r New_shape [OF r] by (auto simp: Ring.New_def split: if_splits)
  have A: "arena_inv a" "live a = {}" using New_Ok [OF g, of seq gen] a by auto
  have b: "wbase w" using W R A by (simp add: wbase_def)
  have "slabs.holds_all a []" using A by (simp add: slabs.holds_all_def)
  then have "ledger a {#}" using A by (auto simp: ledger_def)
  moreover have "table_slabs w = {#}" by (simp add: table_slabs_def W noRef_def)
  moreover have "window 0 w" using slot_less [OF b] by (auto simp: window_def W noRef_def)
  ultimately have "wledger 0 {#} w" using b W by (simp add: wledger_def)
  then show "rinv (start w)" using W R by (simp add: rinv_def start_def carry_slabs_def lifecycle_ok_def)
  show "quiesced (start w)" by (simp add: quiesced_def start_def)
  show "reported w = {#}" "pending (start w) = {#}" by (simp_all add: reported_def pending_def start_def W)
  show "poisoned w \<or> live (w_arena w) = {}" using A W by simp
qed

definition sample_config :: Config where
  "sample_config = \<lparr>MaxInflight = 4, MaxPayload = 0, DataQueueDepth = 1, LifecycleQueueDepth = 1, Checksum = True,
     ChunkingActive = False,
     Escalation = \<lparr>GraceWindow = 0, RateWindow = 0, RateThreshold = 0, ConsumeFaultRunThreshold = 0\<rparr>\<rparr>"

definition sample_signal :: producerSignal where
  "sample_signal = \<lparr>ps_park = \<lparr>word = 0\<rparr>, ps_efd = 0,
     ps_sync = \<lparr>s_poison = 0, s_shutdown = 0, hpEFD = 0, phEFD = 0\<rparr>, badSync = False, lostWake = False\<rparr>"

definition sample_ring :: Ring where
  "sample_ring = \<lparr>slots = replicate 64 zeroDescriptor, head = 0, tail = 0, rmask = 63, capacity = 64\<rparr>"

lemma sample_writer:
  obtains w where "fresh_writer w" "lifecycleQueue w = []" "dataQueue w = []"
proof -
  obtain a seq' where a: "Arena.New 0 (replicate 8384 0) sample_classes 7 = Ok (a, seq')" by (rule sample_arena)
  have r: "Ring.New (replicate 64 zeroDescriptor) (Some 0) (Some 0) 64 = Ok sample_ring" by (simp add: Ring.New_def sample_ring_def)
  obtain w where w: "newRegionWriter sample_ring a sample_config (Truncated 7) 64 sample_signal 4096 = Ok w"
      "lifecycleQueue w = []" "dataQueue w = []"
    by (simp add: newRegionWriter_def sample_config_def)
  have "fresh_writer w" unfolding fresh_writer_def using a r w(1) sample_geometry by blast
  then show thesis using that w by blast
qed

definition sample_intent :: intent where
  "sample_intent = \<lparr>i_id = 7, i_frame = zeroFrame, i_lane = laneData, i_wire = None, i_fill = None\<rparr>"

definition calm :: wturn where
  "calm = \<lparr>at_build = [], at_claim = [], at_gate = [], at_push = [], at_published = [], wakeOk = True\<rparr>"

definition stop_event :: loop_event where
  "stop_event = \<lparr>e_burst = (\<lambda>_. calm), e_data = calm, e_wake_data = calm, new_lifecycle = [], new_data = [sample_intent],
     e_wake = WakeShutdown []\<rparr>"

lemma run_stop_event:
  assumes "lifecycleQueue w = []" "dataQueue w = []"
  shows "r_stopped (run [stop_event] (start w))"
  using assms
  by (simp add: runTurn_def start_def burstStep_def lifecycleBurst.simps [of _ 0] dataStep_def emitStep_def blockStep_def
      stop_event_def stopStep_def Let_def)

section \<open>Properties of whole runs\<close>

text \<open>C4: over any run of the writer goroutine on a fresh region, for any head word, sync words, wakes and abandonments it
  meets, the goroutine never panics, and as long as the region is not poisoned the live slabs of its arena are
  exactly those referenced by published frames it has not reclaimed and the one a set-aside intent holds, each
  once: no slab leaks and none is freed twice.\<close>

theorem writer_slab_ledger:
  assumes "fresh_writer w" "list_all lanes_ok es" "r = run es (start w)"
  shows "\<not> w_panicked (r_w r) \<and>
    (s_poison (w_sync (r_w r)) = 0 \<longrightarrow>
       live (w_arena (r_w r)) = slab_of ` set_mset (table_slabs (r_w r) + carry_slabs (r_stuck r)) \<and>
       size (table_slabs (r_w r) + carry_slabs (r_stuck r)) = card (live (w_arena (r_w r))))"
proof -
  have "rinv r" using run_keeps [OF fresh_rinv(1,2) [OF assms(1)] assms(2)] assms(3) by simp
  then have l: "wledger (tail (w_ring (r_w r))) (carry_slabs (r_stuck r)) (r_w r)" by (simp add: rinv_def)
  then show ?thesis
    using ledger_live(1,2) [of "w_arena (r_w r)" "table_slabs (r_w r) + carry_slabs (r_stuck r)"]
    by (auto simp: wledger_def wbase_def poisoned_def)
qed

theorem writer_slab_ledger_witness:
  "\<exists>w. fresh_writer w \<and> \<not> w_panicked (r_w (run [stop_event] (start w)))"
proof -
  obtain w where w: "fresh_writer w" by (rule sample_writer)
  from writer_slab_ledger [OF w _ refl, of "[stop_event]"] w show ?thesis by (auto simp: lanes_ok_def stop_event_def)
qed

text \<open>C7: over any run, the completions reported so far and the intents still queued, staged or set aside are together
  exactly the intents accepted, each once; so when the loop has stopped, every accepted intent has been
  reported exactly once.\<close>

theorem every_intent_reported_once:
  assumes "fresh_writer w" "list_all lanes_ok es" "r = run es (start w)"
  shows "mset (map fst (w_reports (r_w r))) + pending r = arrived es (start w) \<and>
    (r_stopped r \<longrightarrow> mset (map fst (w_reports (r_w r))) = arrived es (start w))"
proof -
  have "quiesced r \<and> reported (r_w r) + pending r = arrived es (start w)"
    using run_keeps [OF fresh_rinv(1,2) [OF assms(1)] assms(2)] fresh_rinv(3,4) [OF assms(1)] assms(3)
    by (simp add: start_def)
  then show ?thesis by (auto simp: reported_def quiesced_def)
qed

theorem every_intent_reported_once_witness:
  "\<exists>w. fresh_writer w \<and> mset (map fst (w_reports (r_w (run [stop_event] (start w))))) = {#7#}"
proof -
  obtain w where w: "fresh_writer w" "lifecycleQueue w = []" "dataQueue w = []" by (rule sample_writer)
  have "arrived [stop_event] (start w) = {#7#}" by (simp add: start_def arrivals_def stop_event_def sample_intent_def)
  with every_intent_reported_once [OF w(1) _ refl, of "[stop_event]"] run_stop_event [OF w(2,3)] w(1) show ?thesis
    by (auto simp: lanes_ok_def stop_event_def)
qed

section \<open>Fairness of a turn\<close>

lemma lifecycleBurst_bound:
  assumes "wledger (tail (w_ring w)) M w" "lifecycle_ok w"
  shows "size (reported (lifecycleBurst ts n w)) \<le> size (reported w) + (4 - n) \<and>
    (lifecycleQueue (lifecycleBurst ts n w) \<noteq> [] \<longrightarrow> size (reported (lifecycleBurst ts n w)) = size (reported w) + (4 - n))"
  using assms
proof (induction ts n w rule: lifecycleBurst.induct)
  case (1 ts n w)
  show ?case
  proof (cases "n < lifecycleBurstBound \<and> lifecycleQueue w \<noteq> []")
    case True
    then obtain i q where q: "lifecycleQueue w = i # q" by (cases "lifecycleQueue w") auto
    let ?v = "w\<lparr>lifecycleQueue := q\<rparr>"
    let ?u = "emitLifecycle (ts n) i ?v"
    have i: "i_lane i = laneLifecycle" using 1(3) q by (simp add: lifecycle_ok_def)
    have v: "wledger (tail (w_ring ?v)) M ?v" using 1(2) by simp
    note E = emitLifecycle_step [OF v i, of "ts n"]
    have "lifecycle_ok ?u" using 1(3) q E(4) by (simp add: lifecycle_ok_def)
    moreover have r: "size (reported ?u) = Suc (size (reported w))" using E(3) by (simp add: reported_def)
    moreover have "lifecycleBurst ts n w = lifecycleBurst ts (Suc n) ?u" using True q by (simp add: lifecycleBurst.simps [of ts n])
    ultimately show ?thesis using 1(1) [of i q] True q E(1) by auto
  next
    case False
    then have "lifecycleBurst ts n w = w" by (subst lifecycleBurst.simps) (auto split: list.splits)
    then show ?thesis using False by auto
  qed
qed

lemma dataStep_takes:
  assumes "r_stuck r = None" "dataQueue (r_w r) = i # q"
  shows "dataQueue (r_w (dataStep t r)) = q"
proof -
  obtain w c res where p: "place t (newCarry i) ((r_w r)\<lparr>dataQueue := q\<rparr>) = (w, c, res)" by (metis prod_cases3)
  then have "queues w = queues ((r_w r)\<lparr>dataQueue := q\<rparr>)" using queues_place [of t "newCarry i" "(r_w r)\<lparr>dataQueue := q\<rparr>"] by simp
  then show ?thesis using assms p by (cases res) (auto simp: dataStep_def emitStep_def emit_def queues_def)
qed

text \<open>in a turn of the loop, at most four lifecycle intents are published before the one data attempt, a staged one
  included, and fewer only when the lifecycle queue has run empty; and the data attempt takes the oldest queued data intent
  whenever none is set aside. So neither lane starves the other.\<close>

theorem burst_bounded:
  assumes "rinv r" "r' = burstStep ts r"
  shows "size (reported (r_w r')) \<le> size (reported (r_w r)) + 4 \<and>
    (lifecycleQueue (r_w r') \<noteq> [] \<longrightarrow> size (reported (r_w r')) = size (reported (r_w r)) + 4) \<and>
    (\<forall>i q. r_stuck r' = None \<and> dataQueue (r_w r') = i # q \<longrightarrow> dataQueue (r_w (dataStep t r')) = q)"
proof (cases "r_staged r")
  case None
  then have r': "r' = r\<lparr>r_w := lifecycleBurst ts 0 (r_w r)\<rparr>" using assms(2) by (simp add: burstStep_def)
  have "wledger (tail (w_ring (r_w r))) (carry_slabs (r_stuck r)) (r_w r)" "lifecycle_ok (r_w r)" using assms(1) by (simp_all add: rinv_def)
  from lifecycleBurst_bound [OF this, of ts 0] show ?thesis using dataStep_takes [of r'] by (auto simp: r')
next
  case (Some i)
  then have r': "r' = r\<lparr>r_w := lifecycleBurst ts 1 (emitLifecycle (ts 0) i (r_w r)), r_staged := None\<rparr>"
    using assms(2) by (simp add: burstStep_def)
  have w: "wledger (tail (w_ring (r_w r))) (carry_slabs (r_stuck r)) (r_w r)" and i: "i_lane i = laneLifecycle"
    and l: "lifecycle_ok (r_w r)" using assms(1) Some by (simp_all add: rinv_def)
  note E = emitLifecycle_step [OF w i, of "ts 0"]
  have "lifecycle_ok (emitLifecycle (ts 0) i (r_w r))" using l E(4) by (simp add: lifecycle_ok_def)
  from lifecycleBurst_bound [OF E(1) this, of ts 1] show ?thesis using dataStep_takes [of r'] E(3) by (auto simp: r')
qed

theorem burst_bounded_witness:
  "\<exists>w. fresh_writer w \<and> size (reported (r_w (burstStep (\<lambda>_. calm) (start w)))) \<le> 4"
proof -
  obtain w where w: "fresh_writer w" by (rule sample_writer)
  from burst_bounded [OF fresh_rinv(1) [OF w] refl, of "\<lambda>_. calm" calm] fresh_rinv(3) [OF w] w show ?thesis
    by (auto simp: start_def)
qed

end
