(* ===== verification/Credit.thy ===== *)
theory Credit
  imports Prelude
begin

text \<open>
  Per-direction credit accounting of a stream, \<^verbatim>\<open>src/internal/rpcruntime/credit.go\<close>: every method is
  one critical section of the counter's mutex, so each is one function on the counter. The counters are
  the 64-bit words of the source; the window laws below hold as long as a direction has admitted fewer
  than \<open>2 ^ 64 - 1\<close> messages.
\<close>

section \<open>The counter\<close>

record creditCounter =
  granted :: u64
  cc_sent :: u64
  cc_acked :: u64
  consumed :: u64
  ackedOut :: u64
  ackThresh :: u64

definition ceilHalf :: "u32 \<Rightarrow> u32" where
  "ceilHalf n = (let a = (n + 1) div 2 in if a = 0 then 1 else a)"

definition newCreditCounter :: "u32 \<Rightarrow> creditCounter" where
  "newCreditCounter initial =
     \<lparr>granted = ucast initial, cc_sent = 0, cc_acked = 0, consumed = 0, ackedOut = 0,
      ackThresh = ucast (ceilHalf initial)\<rparr>"

definition reserve :: "creditCounter \<Rightarrow> creditCounter \<times> bool" where
  "reserve c = (if granted c - (cc_sent c - cc_acked c) = 0 then (c, False) else (c\<lparr>cc_sent := cc_sent c + 1\<rparr>, True))"

definition release :: "creditCounter \<Rightarrow> creditCounter" where
  "release c = (if cc_sent c > 0 then c\<lparr>cc_sent := cc_sent c - 1\<rparr> else c)"

definition replenish :: "u64 \<Rightarrow> creditCounter \<Rightarrow> creditCounter" where
  "replenish cumulative c = (if cumulative > cc_acked c then c\<lparr>cc_acked := cumulative\<rparr> else c)"

definition replenishStrict :: "u64 \<Rightarrow> creditCounter \<Rightarrow> creditCounter \<times> bool" where
  "replenishStrict v c = (if v \<le> cc_acked c then (c, False) else (c\<lparr>cc_acked := v\<rparr>, True))"

definition sentCount :: "creditCounter \<Rightarrow> u64" where
  "sentCount c = cc_sent c"

definition consume :: "creditCounter \<Rightarrow> creditCounter \<times> u64 \<times> bool" where
  "consume c =
     (let c = c\<lparr>consumed := consumed c + 1\<rparr> in (c, consumed c, consumed c - ackedOut c \<ge> ackThresh c))"

definition pending :: "creditCounter \<Rightarrow> bool" where
  "pending c \<longleftrightarrow> consumed c > ackedOut c"

definition consumedCount :: "creditCounter \<Rightarrow> u64" where
  "consumedCount c = consumed c"

definition advanceAckedOut :: "u64 \<Rightarrow> creditCounter \<Rightarrow> creditCounter" where
  "advanceAckedOut v c = (if v > ackedOut c then c\<lparr>ackedOut := v\<rparr> else c)"

section \<open>The window\<close>

text \<open>
  \<open>outstanding\<close> is what the sender has admitted and not seen acknowledged. The window is sound when it is
  at most the grant, counted without wrap-around.
\<close>

definition outstanding :: "creditCounter \<Rightarrow> nat" where
  "outstanding c = unat (cc_sent c) - unat (cc_acked c)"

definition window_ok :: "creditCounter \<Rightarrow> bool" where
  "window_ok c \<longleftrightarrow> cc_acked c \<le> cc_sent c \<and> outstanding c \<le> unat (granted c)"

definition owing_ok :: "creditCounter \<Rightarrow> bool" where
  "owing_ok c \<longleftrightarrow> ackedOut c \<le> consumed c"

lemma unat_Suc_word:
  fixes x :: "'a::len word"
  assumes "Suc (unat x) < 2 ^ LENGTH('a)"
  shows "unat (x + 1) = Suc (unat x)"
  using assms by (simp add: unat_word_ariths)

lemma ceilHalf_bounds:
  assumes "0 < n" "n < 2 ^ 31"
  shows "unat (ceilHalf n) = (unat n + 1) div 2" "0 < ceilHalf n" "ceilHalf n \<le> n"
proof -
  have n: "unat n < 2 ^ 31" "0 < unat n"
    using assms by (simp_all add: word_less_nat_alt unat_gt_0)
  have s: "unat (n + 1) = Suc (unat n)"
    using n by (intro unat_Suc_word) simp
  have a: "unat ((n + 1) div 2) = (unat n + 1) div 2"
    by (simp add: unat_div s)
  have nz: "(n + 1) div 2 \<noteq> 0"
    using a n by (auto dest: arg_cong [where f = unat])
  then show "unat (ceilHalf n) = (unat n + 1) div 2" "0 < ceilHalf n"
    using a by (auto simp: ceilHalf_def Let_def word_gt_0)
  then show "ceilHalf n \<le> n"
    using n by (simp add: word_le_nat_alt)
qed

lemma available_nat:
  assumes "window_ok c"
  shows "unat (granted c - (cc_sent c - cc_acked c)) = unat (granted c) - outstanding c"
  using assms unfolding window_ok_def outstanding_def
  by (metis unat_sub word_le_nat_alt)

lemma reserve_window:
  assumes "window_ok c" "Suc (unat (cc_sent c)) < 2 ^ 64" "reserve c = (c', ok)"
  shows "window_ok c'" "ok \<longleftrightarrow> outstanding c < unat (granted c)"
    "ok \<Longrightarrow> outstanding c' = Suc (outstanding c)" "\<not> ok \<Longrightarrow> c' = c"
proof -
  have iff: "granted c - (cc_sent c - cc_acked c) = 0 \<longleftrightarrow> \<not> outstanding c < unat (granted c)"
    using available_nat [OF assms(1)] assms(1)
    by (metis diff_is_0_eq not_less unat_eq_zero window_ok_def)
  then show "ok \<longleftrightarrow> outstanding c < unat (granted c)" "\<not> ok \<Longrightarrow> c' = c"
    using assms(3) by (auto simp: reserve_def split: if_splits)
  have s: "unat (cc_sent c + 1) = Suc (unat (cc_sent c))"
    using assms(2) by (intro unat_Suc_word) simp
  have le: "unat (cc_acked c) \<le> unat (cc_sent c)"
    using assms(1) by (simp add: window_ok_def word_le_nat_alt)
  show "ok \<Longrightarrow> outstanding c' = Suc (outstanding c)"
    using assms(3) s le by (auto simp: reserve_def outstanding_def split: if_splits)
  show "window_ok c'"
  proof (cases ok)
    case True
    then have "c' = c\<lparr>cc_sent := cc_sent c + 1\<rparr>" "outstanding c < unat (granted c)"
      using assms(3) iff by (auto simp: reserve_def split: if_splits)
    then show ?thesis
      using s le by (simp add: window_ok_def outstanding_def word_le_nat_alt)
  next
    case False
    then show ?thesis
      using assms by (auto simp: reserve_def split: if_splits)
  qed
qed

lemma replenishStrict_window:
  assumes "window_ok c" "v \<le> sentCount c" "replenishStrict v c = (c', ok)"
  shows "window_ok c'" "ok \<longleftrightarrow> cc_acked c < v" "outstanding c' \<le> outstanding c"
    "ok \<Longrightarrow> outstanding c' = unat (cc_sent c) - unat v"
  using assms
  by (auto simp: replenishStrict_def window_ok_def outstanding_def sentCount_def word_le_nat_alt
      word_less_nat_alt split: if_splits)

lemma release_window:
  assumes "window_ok c" "0 < outstanding c"
  shows "window_ok (release c)" "Suc (outstanding (release c)) = outstanding c"
proof -
  have pos: "0 < unat (cc_sent c)"
    using assms(2) by (simp add: outstanding_def)
  then have "unat (cc_sent c - 1) = unat (cc_sent c) - 1"
    by (intro unat_minus_one) auto
  then show "window_ok (release c)" "Suc (outstanding (release c)) = outstanding c"
    using assms pos by (auto simp: release_def window_ok_def outstanding_def word_le_nat_alt word_less_nat_alt)
qed

lemma consume_owing:
  assumes "owing_ok c" "Suc (unat (consumed c)) < 2 ^ 64" "consume c = (c', v, due)"
  shows "owing_ok c'" "unat v = Suc (unat (consumed c))" "v = consumed c'" "pending c'"
    "due \<longleftrightarrow> unat (ackThresh c) \<le> unat v - unat (ackedOut c)"
proof -
  have s: "unat (consumed c + 1) = Suc (unat (consumed c))"
    using assms(2) by (intro unat_Suc_word) simp
  have le: "ackedOut c \<le> consumed c + 1"
    using assms(1) s by (simp add: owing_ok_def word_le_nat_alt)
  then have "unat (consumed c + 1 - ackedOut c) = Suc (unat (consumed c)) - unat (ackedOut c)"
    using s by (simp add: unat_sub)
  then show "owing_ok c'" "unat v = Suc (unat (consumed c))" "v = consumed c'" "pending c'"
    "due \<longleftrightarrow> unat (ackThresh c) \<le> unat v - unat (ackedOut c)"
    using assms s le
    by (auto simp: consume_def Let_def owing_ok_def pending_def word_le_nat_alt word_less_nat_alt)
qed

lemma advanceAckedOut_owing:
  assumes "owing_ok c" "v \<le> consumed c"
  shows "owing_ok (advanceAckedOut v c)" "ackedOut (advanceAckedOut v c) = max (ackedOut c) v"
  using assms by (auto simp: advanceAckedOut_def owing_ok_def max_def)

lemma newCreditCounter_ok: "window_ok (newCreditCounter n)" "owing_ok (newCreditCounter n)"
  by (simp_all add: newCreditCounter_def window_ok_def owing_ok_def outstanding_def)

end
