(* ===== verification/Streams.thy ===== *)
theory Streams
  imports Frames Credit
begin

text \<open>
  One stream and the table that owns it: \<^verbatim>\<open>stream.go\<close>, \<^verbatim>\<open>chunk_policy.go\<close>, \<^verbatim>\<open>chunk_recv.go\<close>,
  \<^verbatim>\<open>stream_teardown.go\<close> and \<^verbatim>\<open>stream_table.go\<close> of \<^verbatim>\<open>src/internal/rpcruntime\<close>. Streams live in a store and are
  named by their address there, since a stream is still used by its callers after the table has dropped
  its call ID. The answer of the transport to a send is an argument, \<open>None\<close> for acceptance.
\<close>

section \<open>Stream vocabulary\<close>

datatype StreamSide = ClientStream | ServerStream

datatype StreamShape = ClientStreaming | ServerStreaming | BidiStreaming

datatype StreamOutcomeCode =
  OutcomeCompleted | OutcomeCanceled | OutcomeDeadlineExceeded | OutcomePeerError | OutcomeCrashed

record StreamOutcome =
  oc_Code :: StreamOutcomeCode
  oc_Err :: "err option"

abbreviation (input) StatusCodeStreamCanceled :: u32 where "StatusCodeStreamCanceled \<equiv> 0xFFFFFF04"
abbreviation (input) StatusCodeStreamDeadlineExceeded :: u32 where "StatusCodeStreamDeadlineExceeded \<equiv> 0xFFFFFF05"
abbreviation (input) StatusCodeStreamIncompatible :: u32 where "StatusCodeStreamIncompatible \<equiv> 0xFFFFFF06"
abbreviation (input) StatusCodeStreamBackpressure :: u32 where "StatusCodeStreamBackpressure \<equiv> 0xFFFFFF07"
abbreviation (input) defaultStreamCredit :: u32 where "defaultStreamCredit \<equiv> 16"
abbreviation (input) ackBackoffInitial :: int where "ackBackoffInitial \<equiv> 250000"
abbreviation (input) ackBackoffMax :: int where "ackBackoffMax \<equiv> 32000000"
abbreviation (input) closeLocalBit :: u32 where "closeLocalBit \<equiv> 1"
abbreviation (input) closeRemoteBit :: u32 where "closeRemoteBit \<equiv> 2"

text \<open>The configuration of a stream; \<open>ParentErr\<close> is what the caller's context reports at the open.\<close>

record StreamConfig =
  Credits :: u32
  cfg_Deadline :: int
  cfg_Service :: u64
  cfg_Method :: u64
  Shape :: StreamShape
  OpenPayload :: "byte list"
  ParentErr :: "err option"

datatype phase =
    streamSubmitted | streamPublished
  | streamTermCompleted | streamTermCanceled | streamTermDeadline | streamTermPeerError | streamTermCrashed

fun terminalPhaseFor :: "StreamOutcomeCode \<Rightarrow> phase" where
  "terminalPhaseFor OutcomeCompleted = streamTermCompleted"
| "terminalPhaseFor OutcomeCanceled = streamTermCanceled"
| "terminalPhaseFor OutcomeDeadlineExceeded = streamTermDeadline"
| "terminalPhaseFor OutcomePeerError = streamTermPeerError"
| "terminalPhaseFor OutcomeCrashed = streamTermCrashed"

fun terminalOutcomeOf :: "phase \<Rightarrow> StreamOutcomeCode option" where
  "terminalOutcomeOf streamTermCompleted = Some OutcomeCompleted"
| "terminalOutcomeOf streamTermCanceled = Some OutcomeCanceled"
| "terminalOutcomeOf streamTermDeadline = Some OutcomeDeadlineExceeded"
| "terminalOutcomeOf streamTermPeerError = Some OutcomePeerError"
| "terminalOutcomeOf streamTermCrashed = Some OutcomeCrashed"
| "terminalOutcomeOf p = None"

datatype lifecycle_token = tokenIdle | tokenACKOutstanding | tokenCancelOwed | tokenTerminal

datatype close_send = closeSendIdle | closeSendPublishing | closeSendClosed

section \<open>Chunking policy\<close>

record ChunkPolicy =
  Active :: bool
  Ceiling :: u32
  SendInline :: u32
  RecvInline :: u32

definition noChunking :: ChunkPolicy where
  "noChunking = \<lparr>Active = False, Ceiling = 0, SendInline = 0, RecvInline = 0\<rparr>"

text \<open>The concrete transport behind the interface, with its two payload limits where it has them.\<close>

datatype concrete_transport = ShmTransport u32 u32 | BurstTransport u32 u32 | OtherTransport

definition ChunkPolicyFor :: "concrete_transport \<Rightarrow> bool \<Rightarrow> u32 \<Rightarrow> ChunkPolicy" where
  "ChunkPolicyFor tr active ceiling =
     (if \<not> active \<or> ceiling = 0 then noChunking
      else case tr of
          ShmTransport out inb \<Rightarrow> \<lparr>Active = True, Ceiling = ceiling, SendInline = out, RecvInline = inb\<rparr>
        | BurstTransport out inb \<Rightarrow> \<lparr>Active = True, Ceiling = ceiling, SendInline = out, RecvInline = inb\<rparr>
        | OtherTransport \<Rightarrow> noChunking)"

section \<open>The stream\<close>

record recvItem =
  payload :: "byte list"
  credited :: bool

text \<open>
  \<open>st_ctx\<close> is the error of the stream's own context, \<open>st_sendWake\<close> the slot of the wake channel,
  \<open>st_recvCh\<close> the contents of the delivery channel and \<open>st_recvCap\<close> its capacity; \<open>st_recvClosed\<close> and
  \<open>st_done\<close> say that the channel of that name has been closed.
\<close>

record Stream =
  st_callID :: u64
  st_side :: StreamSide
  st_ctx :: "err option"
  st_deadline :: int
  st_phase :: phase
  st_closeBits :: u32
  st_token :: lifecycle_token
  st_teardownCode :: u32
  st_watcherStarted :: bool
  st_owedTeardownEmitted :: bool
  st_openSendPending :: bool
  st_service :: u64
  st_method :: u64
  st_sendCredit :: creditCounter
  st_sendSeq :: u64
  st_sendClosed :: bool
  st_sendWake :: bool
  st_sendCloseState :: close_send
  st_recvCredit :: creditCounter
  st_recvCh :: "recvItem list"
  st_recvCap :: nat
  st_expectedSeq :: u64
  st_recvAccum :: "byte list"
  st_recvClosed :: bool
  st_armed :: bool
  st_deferred :: bool
  st_backoff :: int
  st_handlerErrStatus :: "FrameStatus option"
  st_done :: bool
  st_outcome :: StreamOutcome

definition zeroOutcome :: StreamOutcome where
  "zeroOutcome = \<lparr>oc_Code = OutcomeCompleted, oc_Err = None\<rparr>"

definition freshStream :: "int \<Rightarrow> u64 \<Rightarrow> StreamSide \<Rightarrow> StreamConfig \<Rightarrow> Stream" where
  "freshStream now callID side cfg =
     (let credits = (if Credits cfg = 0 then defaultStreamCredit else Credits cfg) in
      \<lparr>st_callID = callID, st_side = side, st_ctx = ParentErr cfg, st_deadline = now + cfg_Deadline cfg,
       st_phase = streamSubmitted, st_closeBits = 0, st_token = tokenIdle, st_teardownCode = 0,
       st_watcherStarted = False, st_owedTeardownEmitted = False, st_openSendPending = False,
       st_service = cfg_Service cfg, st_method = cfg_Method cfg,
       st_sendCredit = newCreditCounter credits, st_sendSeq = 0, st_sendClosed = False, st_sendWake = False,
       st_sendCloseState = closeSendIdle, st_recvCredit = newCreditCounter credits, st_recvCh = [],
       st_recvCap = unat (credits + 1), st_expectedSeq = 1, st_recvAccum = [], st_recvClosed = False,
       st_armed = False, st_deferred = False, st_backoff = ackBackoffInitial, st_handlerErrStatus = None,
       st_done = False, st_outcome = zeroOutcome\<rparr>)"

definition newStream :: "int \<Rightarrow> u64 \<Rightarrow> StreamSide \<Rightarrow> StreamConfig \<Rightarrow> Stream" where
  "newStream now callID side cfg =
     (let s = freshStream now callID side cfg in
      if Shape cfg = ServerStreaming
      then case side of
          ClientStream \<Rightarrow>
            s\<lparr>st_closeBits := closeLocalBit, st_sendClosed := True, st_sendCloseState := closeSendClosed\<rparr>
        | ServerStream \<Rightarrow>
            s\<lparr>st_recvCh := [\<lparr>payload = OpenPayload cfg, credited = False\<rparr>], st_closeBits := closeRemoteBit,
              st_recvClosed := True\<rparr>
      else s)"

definition isLive :: "Stream \<Rightarrow> bool" where
  "isLive s \<longleftrightarrow> st_phase s = streamSubmitted \<or> st_phase s = streamPublished"

definition Publish :: "Stream \<Rightarrow> Stream \<times> bool" where
  "Publish s = (if st_phase s = streamSubmitted then (s\<lparr>st_phase := streamPublished\<rparr>, True) else (s, False))"

definition ConfirmOpenSent :: "Stream \<Rightarrow> Stream \<times> bool" where
  "ConfirmOpenSent s = (if st_phase s \<noteq> streamPublished then (s, False) else (s\<lparr>st_openSendPending := False\<rparr>, True))"

definition Outcome :: "Stream \<Rightarrow> StreamOutcome option" where
  "Outcome s =
     (if st_done s then Some (st_outcome s)
      else if terminalOutcomeOf (st_phase s) \<noteq> None then Some (st_outcome s) else None)"

definition terminalErr :: "Stream \<Rightarrow> err option" where
  "terminalErr s = (if isLive s then None else Option.bind (Outcome s) oc_Err)"

definition recordedOutcomeErr :: "StreamOutcome \<Rightarrow> err \<Rightarrow> err" where
  "recordedOutcomeErr oc fallback = (case oc_Err oc of Some e \<Rightarrow> e | None \<Rightarrow> fallback)"

definition deliveredErr :: "Stream \<Rightarrow> err" where
  "deliveredErr s = (case oc_Err (st_outcome s) of Some e \<Rightarrow> e | None \<Rightarrow> {ErrCanceledLocally})"

definition recvErr :: "Stream \<Rightarrow> err" where
  "recvErr s =
     (if oc_Code (st_outcome s) = OutcomeCompleted then {IOEOF}
      else case oc_Err (st_outcome s) of Some e \<Rightarrow> e | None \<Rightarrow> {IOEOF})"

definition isRollbackEligible :: "err \<Rightarrow> bool" where
  "isRollbackEligible e \<longleftrightarrow> NeverPublished e"

definition setCloseBit :: "u32 \<Rightarrow> Stream \<Rightarrow> Stream \<times> bool" where
  "setCloseBit b s =
     (if st_closeBits s AND b \<noteq> 0 then (s, False) else (s\<lparr>st_closeBits := st_closeBits s OR b\<rparr>, True))"

definition bothClosed :: "Stream \<Rightarrow> bool" where
  "bothClosed s \<longleftrightarrow> st_closeBits s AND (closeLocalBit OR closeRemoteBit) = (closeLocalBit OR closeRemoteBit)"

definition notifySend :: "Stream \<Rightarrow> Stream" where
  "notifySend s = s\<lparr>st_sendWake := True\<rparr>"

definition discardRecvAccum :: "Stream \<Rightarrow> Stream" where
  "discardRecvAccum s = s\<lparr>st_recvAccum := []\<rparr>"

definition resetBackoff :: "Stream \<Rightarrow> Stream" where
  "resetBackoff s = s\<lparr>st_backoff := ackBackoffInitial\<rparr>"

section \<open>Inbound data\<close>

definition accumFits :: "u64 \<Rightarrow> u64 \<Rightarrow> u32 \<Rightarrow> bool" where
  "accumFits accum fragment ceiling \<longleftrightarrow> accum + fragment \<le> ucast ceiling"

definition onStreamChunk :: "ChunkPolicy \<Rightarrow> Frame \<Rightarrow> Stream \<Rightarrow> Stream \<times> err option" where
  "onStreamChunk policy f s =
     (if st_closeBits s AND closeRemoteBit \<noteq> 0 then (s, Some {ErrStreamConformance})
      else if fr_Control f \<noteq> st_expectedSeq s then (s, Some {ErrStreamConformance})
      else let n = length (fr_Payload f) in
        if n = 0 \<or> (of_nat n :: u64) \<noteq> ucast (RecvInline policy) then (s, Some {ErrStreamConformance})
        else if \<not> accumFits (of_nat (length (st_recvAccum s))) (of_nat n) (Ceiling policy)
        then (s, Some {ErrStreamConformance})
        else (s\<lparr>st_expectedSeq := st_expectedSeq s + 1, st_recvAccum := st_recvAccum s @ fr_Payload f\<rparr>, None))"

definition completeRecvAccum :: "ChunkPolicy \<Rightarrow> byte list \<Rightarrow> Stream \<Rightarrow> Stream \<times> (err, byte list) outcome" where
  "completeRecvAccum policy final s =
     (let n = length final in
      if n = 0 \<or> (of_nat n :: u64) > ucast (RecvInline policy) then (s, Err {ErrStreamConformance})
      else if \<not> accumFits (of_nat (length (st_recvAccum s))) (of_nat n) (Ceiling policy)
      then (s, Err {ErrStreamConformance})
      else (s\<lparr>st_recvAccum := []\<rparr>, Ok (st_recvAccum s @ final)))"

definition enqueueItem :: "recvItem \<Rightarrow> Stream \<Rightarrow> Stream \<times> bool" where
  "enqueueItem it s = (if length (st_recvCh s) < st_recvCap s then (s\<lparr>st_recvCh := st_recvCh s @ [it]\<rparr>, True) else (s, False))"

definition acceptMsg :: "byte list \<Rightarrow> Stream \<Rightarrow> Stream \<times> err option" where
  "acceptMsg bs s =
     (case enqueueItem \<lparr>payload = bs, credited = True\<rparr> (s\<lparr>st_expectedSeq := st_expectedSeq s + 1\<rparr>) of
        (s, True) \<Rightarrow> (s, None)
      | (s, False) \<Rightarrow> (s, Some {ErrStreamConformance}))"

definition onStreamMsg :: "ChunkPolicy \<Rightarrow> Frame \<Rightarrow> Stream \<Rightarrow> Stream \<times> err option" where
  "onStreamMsg policy f s =
     (if st_closeBits s AND closeRemoteBit \<noteq> 0 then (s, Some {ErrStreamConformance})
      else if fr_Control f \<noteq> st_expectedSeq s then (s, Some {ErrStreamConformance})
      else if st_recvAccum s = [] then acceptMsg (fr_Payload f) s
      else case completeRecvAccum policy (fr_Payload f) s of
          (s, Ok msg) \<Rightarrow> acceptMsg msg s
        | (s, Err e) \<Rightarrow> (s, Some e)
        | (s, Panic) \<Rightarrow> (s, Some {}))"

definition onStreamAck :: "Frame \<Rightarrow> Stream \<Rightarrow> Stream \<times> err option" where
  "onStreamAck f s =
     (let v = fr_Control f in
      if v = 0 then (s, Some {ErrStreamConformance})
      else if v > sentCount (st_sendCredit s) then (s, Some {ErrStreamConformance})
      else case replenishStrict v (st_sendCredit s) of
          (c, False) \<Rightarrow> (s, Some {ErrStreamConformance})
        | (c, True) \<Rightarrow> (notifySend (s\<lparr>st_sendCredit := c\<rparr>), None))"

end
