(* ===== verification/Lease.thy ===== *)
theory Lease
  imports Prelude
begin

text \<open>
  Active-handler leases and response obligations of a serving session,
  \<^verbatim>\<open>src/internal/rpcruntime/lease.go\<close>. Every method is one critical section of the table's mutex. Times are
  nanoseconds of the local clock; \<open>hookCalls\<close> counts the runs of the obligation-closed hook.
\<close>

record Lease =
  l_CallID :: u64
  StartedAt :: int
  LastRenewedAt :: int

record LeaseTable =
  lt_active :: "u64 \<rightharpoonup> Lease"
  lt_obligations :: "u64 set"
  hookInstalled :: bool
  hookCalls :: nat

definition NewLeaseTable :: LeaseTable where
  "NewLeaseTable = \<lparr>lt_active = Map.empty, lt_obligations = {}, hookInstalled = False, hookCalls = 0\<rparr>"

definition Acquire :: "u64 \<Rightarrow> int \<Rightarrow> LeaseTable \<Rightarrow> LeaseTable" where
  "Acquire callID now t =
     t\<lparr>lt_active := (lt_active t)(callID \<mapsto> \<lparr>l_CallID = callID, StartedAt = now, LastRenewedAt = now\<rparr>)\<rparr>"

definition OpenObligation :: "u64 \<Rightarrow> LeaseTable \<Rightarrow> LeaseTable" where
  "OpenObligation callID t = t\<lparr>lt_obligations := insert callID (lt_obligations t)\<rparr>"

definition RenewAll :: "int \<Rightarrow> LeaseTable \<Rightarrow> LeaseTable" where
  "RenewAll now t = t\<lparr>lt_active := map_option (\<lambda>l. l\<lparr>LastRenewedAt := now\<rparr>) \<circ> lt_active t\<rparr>"

definition Release :: "u64 \<Rightarrow> LeaseTable \<Rightarrow> LeaseTable" where
  "Release callID t = t\<lparr>lt_active := (lt_active t)(callID := None)\<rparr>"

definition CloseObligation :: "u64 \<Rightarrow> LeaseTable \<Rightarrow> LeaseTable" where
  "CloseObligation callID t =
     t\<lparr>lt_obligations := lt_obligations t - {callID},
       hookCalls := (if hookInstalled t then Suc (hookCalls t) else hookCalls t)\<rparr>"

definition SetObligationClosedHook :: "bool \<Rightarrow> LeaseTable \<Rightarrow> LeaseTable" where
  "SetObligationClosedHook fn t = t\<lparr>hookInstalled := fn\<rparr>"

definition OpenObligationCount :: "LeaseTable \<Rightarrow> nat" where
  "OpenObligationCount t = card (lt_obligations t)"

definition leasesLocked :: "LeaseTable \<Rightarrow> Lease set" where
  "leasesLocked t = ran (lt_active t)"

definition Snapshot :: "LeaseTable \<Rightarrow> Lease set" where
  "Snapshot t = leasesLocked t"

definition SnapshotWithObligations :: "LeaseTable \<Rightarrow> Lease set \<times> nat" where
  "SnapshotWithObligations t = (leasesLocked t, card (lt_obligations t - dom (lt_active t)))"

section \<open>The obligation sink\<close>

text \<open>
  What the stream engine relies on of the sink it opens and closes obligations on: they are keyed and
  idempotent, and closing one call says nothing about another.
\<close>

locale obligation_sink =
  fixes open_ob :: "u64 \<Rightarrow> 't \<Rightarrow> 't"
    and close_ob :: "u64 \<Rightarrow> 't \<Rightarrow> 't"
    and owed :: "'t \<Rightarrow> u64 set"
  assumes owed_open: "owed (open_ob c t) = insert c (owed t)"
    and owed_close: "owed (close_ob c t) = owed t - {c}"
begin

lemma close_idem: "owed (close_ob c (close_ob c t)) = owed (close_ob c t)"
  by (auto simp: owed_close)

lemma close_other: "d \<noteq> c \<Longrightarrow> d \<in> owed (close_ob c t) \<longleftrightarrow> d \<in> owed t"
  by (simp add: owed_close)

lemma open_close: "c \<notin> owed t \<Longrightarrow> owed (close_ob c (open_ob c t)) = owed t"
  by (simp add: owed_open owed_close)

end

interpretation leases: obligation_sink OpenObligation CloseObligation lt_obligations
  by unfold_locales (simp_all add: OpenObligation_def CloseObligation_def)

lemma unleased_close:
  assumes "finite (lt_obligations t)" "c \<in> lt_obligations t" "lt_active t c = None"
  shows "Suc (snd (SnapshotWithObligations (CloseObligation c t))) = snd (SnapshotWithObligations t)"
proof -
  have "lt_obligations (CloseObligation c t) - dom (lt_active (CloseObligation c t))
      = (lt_obligations t - dom (lt_active t)) - {c}"
    by (auto simp: CloseObligation_def)
  moreover have "Suc (card (lt_obligations t - dom (lt_active t) - {c})) = card (lt_obligations t - dom (lt_active t))"
    using assms by (intro card_Suc_Diff1) auto
  ultimately show ?thesis
    by (simp only: SnapshotWithObligations_def snd_conv)
qed

end
