(* ===== verification/Stream_Table.thy ===== *)
theory Stream_Table
  imports Streams Lease
begin

text \<open>
  The table of open streams and everything a stream does through it:
  \<^verbatim>\<open>src/internal/rpcruntime/stream_table.go\<close>, the terminal transition and the lifecycle token of
  \<^verbatim>\<open>stream.go\<close>, and \<^verbatim>\<open>stream_teardown.go\<close>. An operation that other goroutines can interrupt is cut into the
  pieces between its locks, so that the pieces can be interleaved; the whole operation is their
  composition.
\<close>

section \<open>The table\<close>

record emitJob =
  ej_callID :: u64
  ej_status :: "FrameStatus option"
  ej_reject :: bool
  ej_keepObligation :: bool

text \<open>
  \<open>store\<close> holds every stream ever admitted, \<open>streams\<close> the table from call IDs to addresses in it.
  \<open>tbl_sends\<close> is the log of frames handed to the transport, each with the transport's answer, and
  \<open>tbl_panicked\<close> says that a goroutine has panicked, \<open>tbl_spins\<close> that one retries forever.
\<close>

record StreamTable =
  maxOpen :: int
  connCancelled :: bool
  streams :: "u64 \<rightharpoonup> nat"
  store :: "Stream list"
  tbl_closed :: bool
  finishers :: int
  armQueue :: "nat list"
  emitCh :: "emitJob list"
  emitCap :: int
  emitReserve :: int
  fatalErr :: "err option"
  drained :: bool
  discarded :: u64
  obligations :: "LeaseTable option"
  chunkPolicy :: ChunkPolicy
  tbl_sends :: "(Frame \<times> err option) list"
  tbl_panicked :: bool
  tbl_spins :: bool

abbreviation obj :: "StreamTable \<Rightarrow> nat \<Rightarrow> Stream" where
  "obj t p \<equiv> store t ! p"

definition upd :: "nat \<Rightarrow> (Stream \<Rightarrow> Stream) \<Rightarrow> StreamTable \<Rightarrow> StreamTable" where
  "upd p f t = t\<lparr>store := (store t)[p := f (store t ! p)]\<rparr>"

definition NewStreamTable :: "int \<Rightarrow> ChunkPolicy \<Rightarrow> StreamTable" where
  "NewStreamTable maxOpenStreams policy =
     \<lparr>maxOpen = maxOpenStreams, connCancelled = False, streams = Map.empty, store = [], tbl_closed = False, finishers = 0,
      armQueue = [], emitCh = [], emitCap = max 1 (2 * maxOpenStreams + 1), emitReserve = max 0 maxOpenStreams,
      fatalErr = None, drained = False, discarded = 0, obligations = None, chunkPolicy = policy, tbl_sends = [],
      tbl_panicked = False, tbl_spins = False\<rparr>"

definition SetObligationSink :: "LeaseTable \<Rightarrow> StreamTable \<Rightarrow> StreamTable" where
  "SetObligationSink sink t = t\<lparr>obligations := Some sink\<rparr>"

definition openObligation :: "u64 \<Rightarrow> StreamTable \<Rightarrow> StreamTable" where
  "openObligation callID t = t\<lparr>obligations := map_option (OpenObligation callID) (obligations t)\<rparr>"

definition closeObligation :: "u64 \<Rightarrow> StreamTable \<Rightarrow> StreamTable" where
  "closeObligation callID t = t\<lparr>obligations := map_option (CloseObligation callID) (obligations t)\<rparr>"

text \<open>A frame handed to the transport, with its answer.\<close>

definition trSend :: "Frame \<Rightarrow> err option \<Rightarrow> StreamTable \<Rightarrow> StreamTable" where
  "trSend f res t = t\<lparr>tbl_sends := tbl_sends t @ [(f, res)]\<rparr>"

section \<open>Admission\<close>

definition beginDeadlineWatch :: "Stream \<Rightarrow> Stream" where
  "beginDeadlineWatch s = s\<lparr>st_watcherStarted := True\<rparr>"

definition admitStream ::
  "int \<Rightarrow> u64 \<Rightarrow> StreamSide \<Rightarrow> StreamConfig \<Rightarrow> bool \<Rightarrow> bool \<Rightarrow> StreamTable \<Rightarrow> StreamTable \<times> (err, nat) outcome" where
  "admitStream now callID side cfg startWatch sendPending t =
     (if tbl_closed t then (t, Err {ErrStreamTableClosed})
      else if streams t callID \<noteq> None then (t, Err {ErrStreamExists})
      else if Credits cfg > defaultStreamCredit then (t, Err {ErrStreamCreditsExceedMax})
      else if cfg_Deadline cfg \<le> 0 then (t, Err {ErrStreamDeadlineRequired})
      else if int (card (dom (streams t))) \<ge> maxOpen t then (t, Err {ErrStreamsAtCapacity})
      else let s = newStream now callID side cfg;
               s = (if sendPending then s\<lparr>st_openSendPending := True\<rparr> else s);
               s = (if startWatch then beginDeadlineWatch s else s);
               p = length (store t) in
        (openObligation callID (t\<lparr>store := store t @ [s], streams := (streams t)(callID \<mapsto> p)\<rparr>), Ok p))"

definition Open :: "int \<Rightarrow> u64 \<Rightarrow> StreamSide \<Rightarrow> StreamConfig \<Rightarrow> StreamTable \<Rightarrow> StreamTable \<times> (err, nat) outcome" where
  "Open now callID side cfg t = admitStream now callID side cfg True False t"

definition OpenClient :: "int \<Rightarrow> u64 \<Rightarrow> StreamConfig \<Rightarrow> StreamTable \<Rightarrow> StreamTable \<times> (err, nat) outcome" where
  "OpenClient now callID cfg t = admitStream now callID ClientStream cfg True True t"

definition OpenAccepting :: "int \<Rightarrow> u64 \<Rightarrow> StreamConfig \<Rightarrow> StreamTable \<Rightarrow> StreamTable \<times> (err, nat) outcome" where
  "OpenAccepting now callID cfg t = admitStream now callID ServerStream cfg False False t"

definition StartDeadlineWatcher :: "nat \<Rightarrow> StreamTable \<Rightarrow> StreamTable" where
  "StartDeadlineWatcher p t = upd p beginDeadlineWatch t"

definition addFinisher :: "StreamTable \<Rightarrow> StreamTable \<times> bool" where
  "addFinisher t = (if tbl_closed t then (t, False) else (t\<lparr>finishers := finishers t + 1\<rparr>, True))"

definition finisherDone :: "StreamTable \<Rightarrow> StreamTable" where
  "finisherDone t = (if finishers t \<le> 0 then t\<lparr>tbl_panicked := True\<rparr> else t\<lparr>finishers := finishers t - 1\<rparr>)"

definition Lookup :: "u64 \<Rightarrow> StreamTable \<Rightarrow> nat option" where
  "Lookup callID t = streams t callID"

definition HasLiveStream :: "u64 \<Rightarrow> StreamTable \<Rightarrow> bool" where
  "HasLiveStream callID t = (case Lookup callID t of Some p \<Rightarrow> isLive (obj t p) | None \<Rightarrow> False)"

definition tbl_Len :: "StreamTable \<Rightarrow> nat" where
  "tbl_Len t = card (dom (streams t))"

definition remove :: "u64 \<Rightarrow> StreamTable \<Rightarrow> StreamTable" where
  "remove callID t = t\<lparr>streams := (streams t)(callID := None)\<rparr>"

definition isClosing :: "StreamTable \<Rightarrow> bool" where
  "isClosing t = tbl_closed t"

definition MarkClosing :: "StreamTable \<Rightarrow> StreamTable" where
  "MarkClosing t = t\<lparr>tbl_closed := True\<rparr>"

section \<open>Connection-fatal faults\<close>

definition failConn :: "err \<Rightarrow> StreamTable \<Rightarrow> StreamTable" where
  "failConn e t = (case fatalErr t of None \<Rightarrow> t\<lparr>fatalErr := Some e\<rparr> | Some _ \<Rightarrow> t)"

definition failIfConnLive :: "err \<Rightarrow> StreamTable \<Rightarrow> StreamTable" where
  "failIfConnLive e t = (if connCancelled t then t else if isClosing t then t else failConn e t)"

definition onCancelPublishFailed :: "err \<Rightarrow> StreamTable \<Rightarrow> StreamTable" where
  "onCancelPublishFailed e t = failIfConnLive e t"

section \<open>The emitter\<close>

definition enqueueEmit :: "emitJob \<Rightarrow> StreamTable \<Rightarrow> StreamTable \<times> bool" where
  "enqueueEmit job t =
     (if ej_reject job \<and> int (length (emitCh t)) \<ge> emitCap t - emitReserve t then (t, False)
      else if int (length (emitCh t)) < emitCap t then (t\<lparr>emitCh := emitCh t @ [job]\<rparr>, True) else (t, False))"

definition emitStreamErr :: "u64 \<Rightarrow> FrameStatus option \<Rightarrow> bool \<Rightarrow> StreamTable \<Rightarrow> StreamTable \<times> bool" where
  "emitStreamErr callID status reject t =
     enqueueEmit \<lparr>ej_callID = callID, ej_status = status, ej_reject = reject, ej_keepObligation = False\<rparr> t"

definition emitTeardownErrKeepObligation :: "u64 \<Rightarrow> FrameStatus option \<Rightarrow> StreamTable \<Rightarrow> StreamTable" where
  "emitTeardownErrKeepObligation callID status t =
     fst (enqueueEmit \<lparr>ej_callID = callID, ej_status = status, ej_reject = False, ej_keepObligation = True\<rparr> t)"

definition tbl_emitOwedTeardownErr :: "u64 \<Rightarrow> FrameStatus option \<Rightarrow> StreamTable \<Rightarrow> StreamTable" where
  "tbl_emitOwedTeardownErr callID status t =
     (case enqueueEmit \<lparr>ej_callID = callID, ej_status = status, ej_reject = False, ej_keepObligation = False\<rparr> t of
        (t, True) \<Rightarrow> t
      | (t, False) \<Rightarrow> failIfConnLive {ErrOwedTeardownDropped} t)"

definition statusOf :: "u32 \<Rightarrow> FrameStatus option" where
  "statusOf code = Some \<lparr>Code = code, Message = [], Details = []\<rparr>"

definition EmitReject :: "u64 \<Rightarrow> u32 \<Rightarrow> StreamTable \<Rightarrow> StreamTable" where
  "EmitReject callID code t = fst (emitStreamErr callID (statusOf code) True t)"

text \<open>One turn of the emitter goroutine that finds a job.\<close>

definition runEmitter :: "err option \<Rightarrow> StreamTable \<Rightarrow> StreamTable" where
  "runEmitter res t =
     (case emitCh t of
        [] \<Rightarrow> t
      | job # q \<Rightarrow>
          let t = trSend (zeroFrame\<lparr>fr_CallID := ej_callID job, fr_Kind := FrameStreamErr, fr_Status := ej_status job\<rparr>) res
                    (t\<lparr>emitCh := q\<rparr>) in
          if \<not> ej_keepObligation job then closeObligation (ej_callID job) t else t)"

section \<open>Arming\<close>

definition appendArm :: "nat \<Rightarrow> StreamTable \<Rightarrow> StreamTable" where
  "appendArm p t = t\<lparr>armQueue := armQueue t @ [p]\<rparr>"

definition popArm :: "StreamTable \<Rightarrow> StreamTable \<times> nat option" where
  "popArm t = (case armQueue t of [] \<Rightarrow> (t, None) | p # q \<Rightarrow> (t\<lparr>armQueue := q\<rparr>, Some p))"

definition casArmed :: "nat \<Rightarrow> StreamTable \<Rightarrow> StreamTable" where
  "casArmed p t = (if \<not> st_armed (obj t p) then appendArm p (upd p (\<lambda>s. s\<lparr>st_armed := True\<rparr>) t) else t)"

definition arm :: "nat \<Rightarrow> StreamTable \<Rightarrow> StreamTable" where
  "arm p t = (if st_deferred (obj t p) then t else casArmed p t)"

definition reArmAfterBackoff :: "nat \<Rightarrow> StreamTable \<Rightarrow> StreamTable" where
  "reArmAfterBackoff p t =
     (let t = upd p (\<lambda>s. s\<lparr>st_deferred := False\<rparr>) t in
      if \<not> isLive (obj t p) \<or> \<not> pending (st_recvCredit (obj t p)) then t else casArmed p t)"

text \<open>The delay at which the re-arm is scheduled, and the stream with the next delay.\<close>

definition scheduleReArm :: "Stream \<Rightarrow> Stream \<times> int" where
  "scheduleReArm s = (s\<lparr>st_backoff := min (st_backoff s * 2) ackBackoffMax\<rparr>, st_backoff s)"

definition snapshot :: "StreamTable \<Rightarrow> nat set" where
  "snapshot t = ran (streams t)"

definition armOwing :: "nat \<Rightarrow> StreamTable \<Rightarrow> StreamTable" where
  "armOwing p t = (if isLive (obj t p) \<and> pending (st_recvCredit (obj t p)) then arm p t else t)"

text \<open>\<open>order\<close> is the order in which the map iteration visits the snapshot.\<close>

definition ReaderDrained :: "nat list \<Rightarrow> StreamTable \<Rightarrow> StreamTable" where
  "ReaderDrained order t = fold armOwing order (t\<lparr>drained := True\<rparr>)"

section \<open>The terminal transition\<close>

fun casTerminal :: "nat \<Rightarrow> StreamOutcome \<Rightarrow> u32 \<Rightarrow> phase list \<Rightarrow> StreamTable \<Rightarrow> StreamTable \<times> bool \<times> bool" where
  "casTerminal p oc code [] t = (t, False, False)"
| "casTerminal p oc code (src # from) t =
     (if st_phase (obj t p) = src
      then ((upd p (\<lambda>s. discardRecvAccum (s\<lparr>st_phase := terminalPhaseFor (oc_Code oc), st_outcome := oc,
               st_teardownCode := code\<rparr>)) t)\<lparr>finishers := finishers t + 1\<rparr>, True, st_openSendPending (obj t p))
      else casTerminal p oc code from t)"

definition cancelCtx :: "Stream \<Rightarrow> Stream" where
  "cancelCtx s = s\<lparr>st_ctx := (case st_ctx s of None \<Rightarrow> Some {CtxCanceled} | Some e \<Rightarrow> Some e)\<rparr>"

text \<open>\<open>None\<close>: neither compare-and-swap can succeed, so the loop never ends.\<close>

definition claimTerminalToken :: "bool \<Rightarrow> Stream \<Rightarrow> (Stream \<times> bool) option" where
  "claimTerminalToken needCancel s =
     (case st_token s of
        tokenIdle \<Rightarrow> Some (s\<lparr>st_token := tokenTerminal\<rparr>, needCancel)
      | tokenACKOutstanding \<Rightarrow> Some (s\<lparr>st_token := (if needCancel then tokenCancelOwed else tokenTerminal)\<rparr>, False)
      | _ \<Rightarrow> None)"

definition claimToken :: "nat \<Rightarrow> bool \<Rightarrow> StreamTable \<Rightarrow> StreamTable \<times> bool" where
  "claimToken p needCancel t =
     (case claimTerminalToken needCancel (obj t p) of
        None \<Rightarrow> (t\<lparr>tbl_spins := True\<rparr>, False)
      | Some (s, submitNow) \<Rightarrow> (upd p (\<lambda>_. s) t, submitNow))"

definition cancelFrame :: "Stream \<Rightarrow> Frame" where
  "cancelFrame s =
     zeroFrame\<lparr>fr_CallID := st_callID s, fr_Kind := FrameCancel, fr_Control := ucast (st_teardownCode s)\<rparr>"

definition sendTeardownCancel :: "nat \<Rightarrow> err option \<Rightarrow> StreamTable \<Rightarrow> StreamTable" where
  "sendTeardownCancel p res t =
     (let t' = trSend (cancelFrame (obj t p)) res t in
      case res of None \<Rightarrow> t' | Some e \<Rightarrow> onCancelPublishFailed e t')"

definition emitTeardownErr :: "nat \<Rightarrow> bool \<Rightarrow> StreamTable \<Rightarrow> StreamTable" where
  "emitTeardownErr p keep t =
     (let s = obj t p; status = statusOf (st_teardownCode s) in
      if keep then emitTeardownErrKeepObligation (st_callID s) status t
      else fst (emitStreamErr (st_callID s) status False t))"

definition emitOwedTeardownErr :: "nat \<Rightarrow> StreamTable \<Rightarrow> StreamTable" where
  "emitOwedTeardownErr p t =
     tbl_emitOwedTeardownErr (st_callID (obj t p)) (statusOf (st_teardownCode (obj t p))) t"

text \<open>
  The pieces of \<open>finishTerminal\<close> between which other goroutines run: the token claim, the synchronous
  lifecycle send, the hand-over of the paired STREAM_ERR with the obligation, the close of \<open>done\<close>, and the
  removal.
\<close>

definition finishClaim :: "nat \<Rightarrow> bool \<Rightarrow> bool \<Rightarrow> StreamTable \<Rightarrow> StreamTable \<times> bool" where
  "finishClaim p locally presend t =
     (let t = upd p cancelCtx t in if presend then (t, False) else claimToken p locally t)"

definition finishEmit :: "nat \<Rightarrow> bool \<Rightarrow> bool \<Rightarrow> bool \<Rightarrow> StreamTable \<Rightarrow> StreamTable" where
  "finishEmit p locally presend submitted t =
     (let callID = st_callID (obj t p) in
      if presend then closeObligation callID t
      else if locally then
        (let t' = emitTeardownErr p (\<not> submitted) t in if submitted then closeObligation callID t' else t')
      else case st_handlerErrStatus (obj t p) of
          None \<Rightarrow> closeObligation callID t
        | Some fs \<Rightarrow>
            (case emitStreamErr callID (Some fs) False t of
               (t', True) \<Rightarrow> t'
             | (t', False) \<Rightarrow> closeObligation callID t'))"

definition finishClose :: "nat \<Rightarrow> StreamTable \<Rightarrow> StreamTable" where
  "finishClose p t =
     (if st_done (obj t p) then t\<lparr>tbl_panicked := True\<rparr> else upd p (\<lambda>s. notifySend (s\<lparr>st_done := True\<rparr>)) t)"

definition finishRemove :: "nat \<Rightarrow> StreamTable \<Rightarrow> StreamTable" where
  "finishRemove p t = finisherDone (remove (st_callID (obj t p)) t)"

definition finishTerminal :: "nat \<Rightarrow> bool \<Rightarrow> bool \<Rightarrow> err option \<Rightarrow> StreamTable \<Rightarrow> StreamTable" where
  "finishTerminal p locally presend res t =
     (case finishClaim p locally presend t of
        (t, submitNow) \<Rightarrow>
          let t = (if submitNow then sendTeardownCancel p res t else t) in
          finishRemove p (finishClose p (finishEmit p locally presend submitNow t)))"

definition terminate ::
  "nat \<Rightarrow> StreamOutcome \<Rightarrow> u32 \<Rightarrow> bool \<Rightarrow> phase list \<Rightarrow> err option \<Rightarrow> StreamTable \<Rightarrow> StreamTable \<times> bool" where
  "terminate p oc code locally from res t =
     (case casTerminal p oc code from t of
        (t, False, _) \<Rightarrow> (t, False)
      | (t, True, presend) \<Rightarrow> (finishTerminal p locally presend res t, True))"

abbreviation (input) livePhases :: "phase list" where "livePhases \<equiv> [streamSubmitted, streamPublished]"

definition statusKey :: "FrameStatus option \<Rightarrow> (u32 \<times> byte list \<times> byte list list) option" where
  "statusKey fs = map_option (\<lambda>s. (Code s, Message s, Details s)) fs"

definition TerminateHandlerError :: "nat \<Rightarrow> FrameStatus option \<Rightarrow> StreamTable \<Rightarrow> StreamTable" where
  "TerminateHandlerError p status t =
     (let fs = (case status of None \<Rightarrow> zeroStatus | Some s \<Rightarrow> s);
          oc = \<lparr>oc_Code = OutcomePeerError, oc_Err = Some {StreamStatusError (statusKey status)}\<rparr> in
      case casTerminal p oc 0 livePhases t of
        (t, False, _) \<Rightarrow> t
      | (t, True, presend) \<Rightarrow>
          finishTerminal p False presend None (upd p (\<lambda>s. s\<lparr>st_handlerErrStatus := Some fs\<rparr>) t))"

definition DiscardUnaccepted :: "nat \<Rightarrow> err \<Rightarrow> StreamTable \<Rightarrow> StreamTable \<times> bool" where
  "DiscardUnaccepted p cause t =
     terminate p \<lparr>oc_Code = OutcomeCrashed, oc_Err = Some cause\<rparr> 0 False livePhases None t"

definition currentOutcome :: "StreamOutcome \<Rightarrow> Stream \<Rightarrow> StreamOutcome" where
  "currentOutcome attempt s = (case Outcome s of Some oc \<Rightarrow> oc | None \<Rightarrow> attempt)"

definition mapDeadlineToTerminal :: "nat \<Rightarrow> err option \<Rightarrow> StreamTable \<Rightarrow> StreamTable \<times> StreamOutcome" where
  "mapDeadlineToTerminal p res t =
     (let attempt = \<lparr>oc_Code = OutcomeDeadlineExceeded, oc_Err = Some {ErrDeadlineExceeded}\<rparr>;
          t = fst (terminate p attempt StatusCodeStreamDeadlineExceeded True livePhases res t) in
      (t, currentOutcome attempt (obj t p)))"

definition mapCancelToTerminal :: "nat \<Rightarrow> err \<Rightarrow> err option \<Rightarrow> StreamTable \<Rightarrow> StreamTable \<times> StreamOutcome" where
  "mapCancelToTerminal p cause res t =
     (let attempt = \<lparr>oc_Code = OutcomeCanceled, oc_Err = Some cause\<rparr>;
          t = fst (terminate p attempt StatusCodeStreamCanceled True livePhases res t) in
      (t, currentOutcome attempt (obj t p)))"

definition TerminateLocal :: "nat \<Rightarrow> err \<Rightarrow> err option \<Rightarrow> StreamTable \<Rightarrow> StreamTable" where
  "TerminateLocal p e res t =
     (if CtxDeadlineExceeded \<in> e then fst (mapDeadlineToTerminal p res t)
      else fst (mapCancelToTerminal p {ErrCanceledLocally} res t))"

definition TerminateOpenAmbiguous :: "nat \<Rightarrow> err \<Rightarrow> err option \<Rightarrow> StreamTable \<Rightarrow> StreamTable" where
  "TerminateOpenAmbiguous p e res t =
     (if CtxDeadlineExceeded \<in> e then fst (mapDeadlineToTerminal p res t)
      else fst (mapCancelToTerminal p {ErrCanceledLocally} res t))"

text \<open>The watcher's one observation, of a context that has ended.\<close>

definition watchDeadline :: "nat \<Rightarrow> err option \<Rightarrow> StreamTable \<Rightarrow> StreamTable" where
  "watchDeadline p res t =
     (if st_done (obj t p) then t
      else case st_ctx (obj t p) of
          None \<Rightarrow> t
        | Some e \<Rightarrow>
            if CtxDeadlineExceeded \<in> e then fst (mapDeadlineToTerminal p res t)
            else fst (mapCancelToTerminal p {ErrCanceledLocally} res t))"

text \<open>The owed teardown: the gate the caller passes, and the detached sender.\<close>

definition owedGate :: "nat \<Rightarrow> StreamTable \<Rightarrow> StreamTable \<times> bool" where
  "owedGate p t =
     (if st_owedTeardownEmitted (obj t p) then (t, False)
      else let t = upd p (\<lambda>s. s\<lparr>st_owedTeardownEmitted := True\<rparr>) t in
        if st_teardownCode (obj t p) = 0 then (t, False) else addFinisher t)"

definition EmitOwedOpenTeardown :: "nat \<Rightarrow> err option \<Rightarrow> StreamTable \<Rightarrow> StreamTable" where
  "EmitOwedOpenTeardown p res t =
     (case owedGate p t of
        (t, False) \<Rightarrow> t
      | (t, True) \<Rightarrow>
          (case claimToken p True t of
             (t, submitNow) \<Rightarrow>
               finisherDone (emitOwedTeardownErr p (if submitNow then sendTeardownCancel p res t else t))))"

definition failOne :: "err \<Rightarrow> err \<Rightarrow> nat \<Rightarrow> StreamTable \<Rightarrow> StreamTable" where
  "failOne dispatchedErr notDispatchedErr p t =
     (case terminate p \<lparr>oc_Code = OutcomeCrashed, oc_Err = Some notDispatchedErr\<rparr> 0 False [streamSubmitted] None t of
        (t, True) \<Rightarrow> t
      | (t, False) \<Rightarrow>
          fst (terminate p \<lparr>oc_Code = OutcomeCrashed, oc_Err = Some dispatchedErr\<rparr> 0 False [streamPublished] None t))"

definition FailAll :: "err \<Rightarrow> err \<Rightarrow> nat list \<Rightarrow> StreamTable \<Rightarrow> StreamTable" where
  "FailAll dispatchedErr notDispatchedErr order t = fold (failOne dispatchedErr notDispatchedErr) order t"

definition OnPeerCrash :: "err \<Rightarrow> nat list \<Rightarrow> StreamTable \<Rightarrow> StreamTable" where
  "OnPeerCrash crash order t = FailAll crash crash order t"

section \<open>Inbound frames\<close>

definition terminateLocked :: "nat \<Rightarrow> StreamOutcome \<Rightarrow> StreamTable \<Rightarrow> StreamTable" where
  "terminateLocked p oc t =
     (case casTerminal p oc 0 livePhases t of
        (t, False, _) \<Rightarrow> t
      | (t, True, presend) \<Rightarrow> finishTerminal p False presend None t)"

text \<open>A response payload riding the STREAM_CLOSE, and the remote end of file.\<close>

definition deliverTrailer :: "byte list \<Rightarrow> Stream \<Rightarrow> Stream \<times> bool" where
  "deliverTrailer bs s = (if bs = [] then (s, True) else enqueueItem \<lparr>payload = bs, credited = False\<rparr> s)"

definition signalEOF :: "nat \<Rightarrow> Stream \<Rightarrow> StreamTable \<Rightarrow> StreamTable" where
  "signalEOF p s t =
     (if st_recvClosed s then (upd p (\<lambda>_. s) t)\<lparr>tbl_panicked := True\<rparr>
      else let s = s\<lparr>st_recvClosed := True\<rparr>; t = upd p (\<lambda>_. s) t in
        if bothClosed s then terminateLocked p \<lparr>oc_Code = OutcomeCompleted, oc_Err = None\<rparr> t else t)"

definition onStreamClose :: "nat \<Rightarrow> Frame \<Rightarrow> StreamTable \<Rightarrow> StreamTable \<times> err option" where
  "onStreamClose p f t =
     (if st_recvAccum (obj t p) \<noteq> [] then (t, Some {ErrStreamConformance})
      else case setCloseBit closeRemoteBit (obj t p) of
          (s, False) \<Rightarrow> (t, Some {ErrStreamConformance})
        | (s, True) \<Rightarrow>
            if fr_Control f \<noteq> st_expectedSeq s - 1 then (upd p (\<lambda>_. s) t, Some {ErrStreamConformance})
            else (case deliverTrailer (fr_Payload f) s of
                (s, False) \<Rightarrow> (upd p (\<lambda>_. s) t, Some {ErrStreamConformance})
              | (s, True) \<Rightarrow> (signalEOF p s t, None)))"

definition peerStatusErr :: "FrameStatus option \<Rightarrow> err" where
  "peerStatusErr fs = {StreamStatusError (statusKey fs)}"

definition onStreamErr :: "nat \<Rightarrow> Frame \<Rightarrow> StreamTable \<Rightarrow> StreamTable" where
  "onStreamErr p f t =
     (let code = (case fr_Status f of None \<Rightarrow> 0 | Some s \<Rightarrow> Code s) in
      if code = StatusCodeStreamCanceled
      then terminateLocked p \<lparr>oc_Code = OutcomeCanceled, oc_Err = Some {ErrCanceledLocally}\<rparr> t
      else if code = StatusCodeStreamDeadlineExceeded
      then terminateLocked p \<lparr>oc_Code = OutcomeDeadlineExceeded, oc_Err = Some {ErrDeadlineExceeded}\<rparr> t
      else terminateLocked p \<lparr>oc_Code = OutcomePeerError, oc_Err = Some (peerStatusErr (fr_Status f))\<rparr> t)"

definition onLocal :: "nat \<Rightarrow> (Stream \<Rightarrow> Stream \<times> err option) \<Rightarrow> StreamTable \<Rightarrow> StreamTable \<times> err option" where
  "onLocal p h t = (case h (obj t p) of (s, e) \<Rightarrow> (upd p (\<lambda>_. s) t, e))"

definition discard :: "StreamTable \<Rightarrow> StreamTable" where
  "discard t = t\<lparr>discarded := discarded t + 1\<rparr>"

definition Dispatch :: "Frame \<Rightarrow> StreamTable \<Rightarrow> StreamTable \<times> err option" where
  "Dispatch f t =
     (let t = t\<lparr>drained := False\<rparr> in
      case Lookup (fr_CallID f) t of
        None \<Rightarrow> (discard t, None)
      | Some p \<Rightarrow>
          if \<not> isLive (obj t p) then (discard t, None)
          else if fr_Kind f = FrameStreamMsg then onLocal p (onStreamMsg (chunkPolicy t) f) t
          else if fr_Kind f = FrameStreamChunk then onLocal p (onStreamChunk (chunkPolicy t) f) t
          else if fr_Kind f = FrameStreamAck then onLocal p (onStreamAck f) t
          else if fr_Kind f = FrameStreamClose then onStreamClose p f t
          else if fr_Kind f = FrameStreamErr then (onStreamErr p f t, None)
          else (t, Some {ErrStreamConformance}))"

definition DispatchTeardownCancel :: "u64 \<Rightarrow> u32 \<Rightarrow> StreamTable \<Rightarrow> StreamTable \<times> err option" where
  "DispatchTeardownCancel callID code t =
     (case Lookup callID t of
        None \<Rightarrow> (discard t, None)
      | Some p \<Rightarrow>
          if \<not> isLive (obj t p) then (discard t, None)
          else if code = StatusCodeStreamCanceled
          then (terminateLocked p \<lparr>oc_Code = OutcomeCanceled, oc_Err = Some {ErrCanceledLocally}\<rparr> t, None)
          else if code = StatusCodeStreamDeadlineExceeded
          then (terminateLocked p \<lparr>oc_Code = OutcomeDeadlineExceeded, oc_Err = Some {ErrDeadlineExceeded}\<rparr> t, None)
          else (t, Some {ErrStreamConformance}))"

text \<open>\<open>Close\<close>: admission stops, every open stream fails, and the goroutines are told to stop.\<close>

definition tbl_Close :: "nat list \<Rightarrow> StreamTable \<Rightarrow> StreamTable" where
  "tbl_Close order t =
     (let t = FailAll {ErrStreamTableClosed} {ErrStreamTableClosed} order (t\<lparr>tbl_closed := True\<rparr>) in
      t\<lparr>connCancelled := True\<rparr>)"

end
