(* ===== verification/Stream_Ops.thy ===== *)
theory Stream_Ops
  imports Stream_Table
begin

text \<open>
  The operations of a stream's callers and of the acknowledgement dispatcher: \<^verbatim>\<open>SendMsg\<close>, \<^verbatim>\<open>RecvMsg\<close>,
  \<^verbatim>\<open>CloseSend\<close> and \<^verbatim>\<open>serveAck\<close> of \<^verbatim>\<open>src/internal/rpcruntime/stream.go\<close>, the fragment train of \<^verbatim>\<open>chunk_send.go\<close> and
  the dispatch loop of \<^verbatim>\<open>stream_table.go\<close>. What the other goroutines of the connection do while one of
  these waits is an argument.
\<close>

section \<open>Delivery\<close>

definition consumeIfOpen :: "Stream \<Rightarrow> Stream \<times> bool" where
  "consumeIfOpen s =
     (if st_closeBits s AND closeRemoteBit \<noteq> 0 then (s, False)
      else case consume (st_recvCredit s) of (c, _, shouldAck) \<Rightarrow> (s\<lparr>st_recvCredit := c\<rparr>, shouldAck))"

definition onDelivered :: "nat \<Rightarrow> bool \<Rightarrow> StreamTable \<Rightarrow> StreamTable" where
  "onDelivered p cr t =
     (if \<not> cr then t
      else case consumeIfOpen (obj t p) of
          (s, True) \<Rightarrow> arm p (upd p (\<lambda>_. s) t)
        | (s, False) \<Rightarrow>
            let t = upd p (\<lambda>_. s) t in
            if drained t \<and> isLive (obj t p) \<and> pending (st_recvCredit (obj t p)) then arm p t else t)"

definition drainOne :: "nat \<Rightarrow> StreamTable \<Rightarrow> StreamTable \<times> recvItem option" where
  "drainOne p t =
     (case st_recvCh (obj t p) of
        [] \<Rightarrow> (t, None)
      | it # q \<Rightarrow> (onDelivered p (credited it) (upd p (\<lambda>s. s\<lparr>st_recvCh := q\<rparr>) t), Some it))"

section \<open>Acknowledgements\<close>

definition ackFrame :: "Stream \<Rightarrow> Frame" where
  "ackFrame s =
     zeroFrame\<lparr>fr_CallID := st_callID s, fr_Kind := FrameStreamAck, fr_Control := consumedCount (st_recvCredit s)\<rparr>"

text \<open>The dispatcher's checks on a popped stream, up to the token.\<close>

definition ackTake :: "nat \<Rightarrow> StreamTable \<Rightarrow> StreamTable \<times> bool" where
  "ackTake p t =
     (let t = upd p (\<lambda>s. s\<lparr>st_armed := False\<rparr>) t; s = obj t p in
      if \<not> isLive s \<or> \<not> pending (st_recvCredit s) \<or> st_deferred s then (t, False)
      else if st_token s = tokenIdle then (upd p (\<lambda>s. s\<lparr>st_token := tokenACKOutstanding\<rparr>) t, True)
      else (t, False))"

text \<open>The send of the STREAM_ACK returned: \<open>cum\<close> is the value it carried.\<close>

definition ackSettle :: "nat \<Rightarrow> u64 \<Rightarrow> err option \<Rightarrow> StreamTable \<Rightarrow> StreamTable" where
  "ackSettle p cum res t =
     (case res of
        None \<Rightarrow> upd p (\<lambda>s. resetBackoff (s\<lparr>st_recvCredit := advanceAckedOut cum (st_recvCredit s)\<rparr>)) t
      | Some e \<Rightarrow> upd p (\<lambda>s. fst (scheduleReArm (s\<lparr>st_deferred := True\<rparr>))) t)"

text \<open>The release of the token: whether the owed CANCEL is now to be sent by this holder.\<close>

definition ackRelease :: "nat \<Rightarrow> bool \<Rightarrow> StreamTable \<Rightarrow> StreamTable \<times> bool" where
  "ackRelease p success t =
     (case st_token (obj t p) of
        tokenACKOutstanding \<Rightarrow>
          let t = upd p (\<lambda>s. s\<lparr>st_token := tokenIdle\<rparr>) t in
          (if success \<and> pending (st_recvCredit (obj t p)) then arm p t else t, False)
      | tokenCancelOwed \<Rightarrow> (upd p (\<lambda>s. s\<lparr>st_token := tokenTerminal\<rparr>) t, True)
      | _ \<Rightarrow> (t, False))"

definition releaseAckToken :: "nat \<Rightarrow> bool \<Rightarrow> err option \<Rightarrow> StreamTable \<Rightarrow> StreamTable" where
  "releaseAckToken p success cancelRes t =
     (case ackRelease p success t of
        (t, False) \<Rightarrow> t
      | (t, True) \<Rightarrow> closeObligation (st_callID (obj t p)) (sendTeardownCancel p cancelRes t))"

definition serveAck :: "nat \<Rightarrow> err option \<Rightarrow> err option \<Rightarrow> StreamTable \<Rightarrow> StreamTable" where
  "serveAck p res cancelRes t =
     (let f = ackFrame (obj t p); t = trSend f res t in
      releaseAckToken p (res = None) cancelRes (ackSettle p (fr_Control f) res t))"

text \<open>One turn of the dispatcher.\<close>

definition runAckDispatch :: "err option \<Rightarrow> err option \<Rightarrow> StreamTable \<Rightarrow> StreamTable" where
  "runAckDispatch res cancelRes t =
     (case popArm t of
        (t, None) \<Rightarrow> t
      | (t, Some p) \<Rightarrow>
          (case ackTake p t of (t, False) \<Rightarrow> t | (t, True) \<Rightarrow> serveAck p res cancelRes t))"

section \<open>What the rest of the connection does meanwhile\<close>

text \<open>
  While a call waits, frames come in, the stream's context ends, a terminal transition runs, the dispatcher
  and the emitter take turns, the opener publishes.
\<close>

datatype sact =
    ActInbound Frame
  | ActTeardownCancel u64 u32
  | ActCtx err
  | ActTerminate StreamOutcome u32 bool "err option"
  | ActFail err err
  | ActAck "err option" "err option"
  | ActReArm
  | ActEmit "err option"
  | ActDrained "nat list"
  | ActPublish

fun act :: "nat \<Rightarrow> sact \<Rightarrow> StreamTable \<Rightarrow> StreamTable" where
  "act p (ActInbound f) t = fst (Dispatch f t)"
| "act p (ActTeardownCancel c code) t = fst (DispatchTeardownCancel c code t)"
| "act p (ActCtx e) t = upd p (\<lambda>s. s\<lparr>st_ctx := (case st_ctx s of None \<Rightarrow> Some e | Some e' \<Rightarrow> Some e')\<rparr>) t"
| "act p (ActTerminate oc code locally res) t = fst (terminate p oc code locally livePhases res t)"
| "act p (ActFail e e') t = failOne e e' p t"
| "act p (ActAck res cres) t = runAckDispatch res cres t"
| "act p ActReArm t = reArmAfterBackoff p t"
| "act p (ActEmit res) t = runEmitter res t"
| "act p (ActDrained order) t = ReaderDrained order t"
| "act p ActPublish t = upd p (fst \<circ> Publish) t"

definition acts :: "nat \<Rightarrow> sact list \<Rightarrow> StreamTable \<Rightarrow> StreamTable" where
  "acts p as t = fold (act p) as t"

section \<open>RecvMsg\<close>

text \<open>The arm of the blocking select that fires; one that is not ready leaves the call blocked.\<close>

datatype recv_arm = ArmItem | ArmDone | ArmClosed | ArmCtx err

definition drainOr :: "err \<Rightarrow> nat \<Rightarrow> StreamTable \<Rightarrow> StreamTable \<times> (err, byte list) outcome option" where
  "drainOr e p t =
     (case drainOne p t of (t, Some it) \<Rightarrow> (t, Some (Ok (payload it))) | (t, None) \<Rightarrow> (t, Some (Err e)))"

definition RecvMsg :: "nat \<Rightarrow> sact list \<Rightarrow> recv_arm \<Rightarrow> StreamTable \<Rightarrow> StreamTable \<times> (err, byte list) outcome option" where
  "RecvMsg p as ra t =
     (case drainOne p t of
        (t, Some it) \<Rightarrow> (t, Some (Ok (payload it)))
      | (t, None) \<Rightarrow>
          let t = acts p as t in
          (case ra of
             ArmItem \<Rightarrow> (case drainOne p t of (t, Some it) \<Rightarrow> (t, Some (Ok (payload it))) | (t, None) \<Rightarrow> (t, None))
           | ArmDone \<Rightarrow> if st_done (obj t p) then drainOr (recvErr (obj t p)) p t else (t, None)
           | ArmClosed \<Rightarrow> if st_recvClosed (obj t p) then drainOr {IOEOF} p t else (t, None)
           | ArmCtx e \<Rightarrow> (t, Some (Err e))))"

section \<open>Admission of a send\<close>

datatype credit_arm = ArmWake | ArmStreamDone | ArmCallerCtx err

text \<open>A blocked sender's waits in turn; \<open>None\<close> means it is still parked when they are used up.\<close>

fun admit :: "nat \<Rightarrow> (sact list \<times> credit_arm) list \<Rightarrow> StreamTable \<Rightarrow> StreamTable \<times> err option option" where
  "admit p [] t =
     (case reserve (st_sendCredit (obj t p)) of
        (c, True) \<Rightarrow> (upd p (\<lambda>s. s\<lparr>st_sendCredit := c\<rparr>) t, Some None)
      | (c, False) \<Rightarrow> (t, None))"
| "admit p ((as, ca) # ws) t =
     (case reserve (st_sendCredit (obj t p)) of
        (c, True) \<Rightarrow> (upd p (\<lambda>s. s\<lparr>st_sendCredit := c\<rparr>) t, Some None)
      | (c, False) \<Rightarrow>
          let t = acts p as t in
          (case ca of
             ArmWake \<Rightarrow>
               if st_sendWake (obj t p)
               then let t = upd p (\<lambda>s. s\<lparr>st_sendWake := False\<rparr>) t in
                 if st_sendClosed (obj t p) then (t, Some (Some {ErrCanceledLocally})) else admit p ws t
               else (t, None)
           | ArmStreamDone \<Rightarrow> if st_done (obj t p) then (t, Some (Some (deliveredErr (obj t p)))) else (t, None)
           | ArmCallerCtx e \<Rightarrow> (t, Some (Some e))))"

definition isCtxErr :: "err \<Rightarrow> bool" where
  "isCtxErr e \<longleftrightarrow> CtxCanceled \<in> e \<or> CtxDeadlineExceeded \<in> e"

definition isDeadline :: "err option \<Rightarrow> bool" where
  "isDeadline e \<longleftrightarrow> (case e of Some x \<Rightarrow> CtxDeadlineExceeded \<in> x | None \<Rightarrow> False)"

text \<open>
  A context error after admission: \<open>callerErr\<close> is what the caller's context reports by then, \<open>cres\<close> the
  transport's answer to a teardown CANCEL.
\<close>

definition ctxTerminal :: "nat \<Rightarrow> err option \<Rightarrow> err \<Rightarrow> err option \<Rightarrow> StreamTable \<Rightarrow> StreamTable \<times> err" where
  "ctxTerminal p callerErr e cres t =
     (case (if isDeadline (st_ctx (obj t p)) \<or> isDeadline callerErr then mapDeadlineToTerminal p cres t
            else mapCancelToTerminal p {ErrCanceledLocally} cres t) of
        (t, oc) \<Rightarrow> (t, recordedOutcomeErr oc e))"

definition rollbackSend :: "u64 \<Rightarrow> Stream \<Rightarrow> Stream" where
  "rollbackSend seq s =
     s\<lparr>st_sendCredit := release (st_sendCredit s),
       st_sendSeq := (if st_sendSeq s = seq then seq - 1 else st_sendSeq s)\<rparr>"

definition handleSendErr :: "nat \<Rightarrow> err option \<Rightarrow> err \<Rightarrow> u64 \<Rightarrow> err option \<Rightarrow> StreamTable \<Rightarrow> StreamTable \<times> err" where
  "handleSendErr p callerErr e seq cres t =
     (if isRollbackEligible e then (upd p (rollbackSend seq) t, e)
      else if isCtxErr e then ctxTerminal p callerErr e cres t
      else (t, e))"

section \<open>Sending\<close>

datatype retry_arm = RetryTimer | RetryCaller err | RetryStream

text \<open>
  One attempt to hand a frame to the transport: the clock when the frame is built, what the others do while
  the send is in flight, the transport's answer, what the caller's context reports afterwards, the answer to
  a teardown CANCEL, and, for a refused fragment, what happens during the wait and what ends it.
\<close>

record attempt =
  at_now :: int
  during :: "sact list"
  answer :: "err option"
  callerErr :: "err option"
  cancelAnswer :: "err option"
  waiting :: "sact list"
  retryArm :: retry_arm

definition msgFrame :: "int \<Rightarrow> byte \<Rightarrow> byte list \<Rightarrow> u64 \<Rightarrow> Stream \<Rightarrow> Frame" where
  "msgFrame now kind frag seq s =
     zeroFrame\<lparr>fr_CallID := st_callID s, fr_Kind := kind, fr_Service := st_service s, fr_Method := st_method s,
       fr_Budget := st_deadline s - now, fr_Payload := frag, fr_Control := seq\<rparr>"

definition sendFragment :: "nat \<Rightarrow> attempt \<Rightarrow> byte list \<Rightarrow> u64 \<Rightarrow> byte \<Rightarrow> StreamTable \<Rightarrow> StreamTable \<times> err option" where
  "sendFragment p a frag seq kind t =
     (acts p (during a) (trSend (msgFrame (at_now a) kind frag seq (obj t p)) (answer a) t), answer a)"

definition waitChunkRetry :: "nat \<Rightarrow> attempt \<Rightarrow> StreamTable \<Rightarrow> StreamTable \<times> err option option" where
  "waitChunkRetry p a t =
     (let t = acts p (waiting a) t in
      case retryArm a of
        RetryTimer \<Rightarrow> (t, Some None)
      | RetryCaller e \<Rightarrow> (t, Some (Some e))
      | RetryStream \<Rightarrow> (case st_ctx (obj t p) of Some e \<Rightarrow> (t, Some (Some e)) | None \<Rightarrow> (t, None)))"

text \<open>The result is \<open>None\<close> while the train is still retrying when the attempts are used up.\<close>

fun sendFragmentRetrying ::
  "nat \<Rightarrow> attempt list \<Rightarrow> byte list \<Rightarrow> u64 \<Rightarrow> byte \<Rightarrow> StreamTable \<Rightarrow> StreamTable \<times> (err option \<times> attempt) option" where
  "sendFragmentRetrying p [] frag seq kind t = (t, None)"
| "sendFragmentRetrying p (a # as) frag seq kind t =
     (case sendFragment p a frag seq kind t of
        (t, None) \<Rightarrow> (t, Some (None, a))
      | (t, Some e) \<Rightarrow>
          if TransportErrBackpressure \<notin> e then (t, Some (Some e, a))
          else (case waitChunkRetry p a t of
              (t, None) \<Rightarrow> (t, None)
            | (t, Some None) \<Rightarrow> sendFragmentRetrying p as frag seq kind t
            | (t, Some (Some w)) \<Rightarrow> (t, Some (Some w, a))))"

definition failVisibleTrain :: "nat \<Rightarrow> attempt \<Rightarrow> err \<Rightarrow> StreamTable \<Rightarrow> StreamTable \<times> err" where
  "failVisibleTrain p a e t =
     (if isCtxErr e then ctxTerminal p (callerErr a) e (cancelAnswer a) t
      else if TransportErrClosed \<in> e \<or> TransportErrPoisoned \<in> e then (t, e)
      else case mapCancelToTerminal p ({ErrCanceledLocally} \<union> e) (cancelAnswer a) t of
          (t, oc) \<Rightarrow> (t, recordedOutcomeErr oc e))"

definition nextSeq :: "nat \<Rightarrow> StreamTable \<Rightarrow> StreamTable \<times> u64" where
  "nextSeq p t = (let seq = st_sendSeq (obj t p) + 1 in (upd p (\<lambda>s. s\<lparr>st_sendSeq := seq\<rparr>) t, seq))"

definition sendFirstFragment :: "nat \<Rightarrow> attempt \<Rightarrow> byte list \<Rightarrow> u64 \<Rightarrow> StreamTable \<Rightarrow> StreamTable \<times> err option" where
  "sendFirstFragment p a frag seq t =
     (case sendFragment p a frag seq FrameStreamChunk t of
        (t, None) \<Rightarrow> (t, None)
      | (t, Some e) \<Rightarrow>
          (case (if isRollbackEligible e then handleSendErr p (callerErr a) e seq (cancelAnswer a) t
                 else failVisibleTrain p a e t) of
             (t, e) \<Rightarrow> (t, Some e)))"

text \<open>The fragment loop from offset \<open>off\<close>; \<open>ats i\<close> are the attempts of fragment \<open>i\<close>.\<close>

function sendRest ::
  "nat \<Rightarrow> (nat \<Rightarrow> attempt list) \<Rightarrow> nat \<Rightarrow> byte list \<Rightarrow> nat \<Rightarrow> nat \<Rightarrow> StreamTable \<Rightarrow> StreamTable \<times> err option option" where
  "sendRest p ats limit buf off index t =
     (if limit = 0 \<or> off \<ge> length buf then (t, Some None)
      else let stop = min (off + limit) (length buf);
               kind = (if stop = length buf then FrameStreamMsg else FrameStreamChunk) in
        case nextSeq p t of
          (t, seq) \<Rightarrow>
            (case sendFragmentRetrying p (ats index) (take (stop - off) (drop off buf)) seq kind t of
               (t, None) \<Rightarrow> (t, None)
             | (t, Some (None, a)) \<Rightarrow> sendRest p ats limit buf (off + limit) (Suc index) t
             | (t, Some (Some e, a)) \<Rightarrow> (case failVisibleTrain p a e t of (t, e) \<Rightarrow> (t, Some (Some e)))))"
  by pat_completeness auto
termination
  by (relation "measure (\<lambda>(p, ats, limit, buf, off, index, t). length buf - off)") auto

declare sendRest.simps [simp del]

text \<open>
  What one send call meets: the caller's context at entry, the waits for credit, and the attempts of each
  fragment; an unchunked send uses the first attempt of fragment 0.
\<close>

record send_env =
  entryErr :: "err option"
  creditWaits :: "(sact list \<times> credit_arm) list"
  first :: attempt
  later :: "nat \<Rightarrow> attempt list"

definition trainBody :: "nat \<Rightarrow> send_env \<Rightarrow> byte list \<Rightarrow> nat \<Rightarrow> StreamTable \<Rightarrow> StreamTable \<times> err option option" where
  "trainBody p env pl limit t =
     (case nextSeq p t of
        (t, seq) \<Rightarrow>
          if (of_nat (length pl) :: u64) > ucast (Ceiling (chunkPolicy t))
          then (case handleSendErr p (callerErr (first env)) {ErrPayloadTooLarge} seq (cancelAnswer (first env)) t of
              (t, e) \<Rightarrow> (t, Some (Some e)))
          else if limit > length pl then (t\<lparr>tbl_panicked := True\<rparr>, None)
          else (case sendFirstFragment p (first env) (take limit pl) seq t of
              (t, Some e) \<Rightarrow> (t, Some (Some e))
            | (t, None) \<Rightarrow> sendRest p (later env) limit pl limit 1 t))"

definition sendChunked :: "nat \<Rightarrow> send_env \<Rightarrow> byte list \<Rightarrow> StreamTable \<Rightarrow> StreamTable \<times> err option option" where
  "sendChunked p env pl t =
     (let limit = unat (SendInline (chunkPolicy t)) in
      if limit = 0 then (t, Some (Some {ErrPayloadTooLarge}))
      else case admit p (creditWaits env) t of
          (t, None) \<Rightarrow> (t, None)
        | (t, Some (Some e)) \<Rightarrow> (t, Some (Some e))
        | (t, Some None) \<Rightarrow> trainBody p env pl limit t)"

definition sendPlain :: "nat \<Rightarrow> send_env \<Rightarrow> byte list \<Rightarrow> StreamTable \<Rightarrow> StreamTable \<times> err option option" where
  "sendPlain p env pl t =
     (case admit p (creditWaits env) t of
        (t, None) \<Rightarrow> (t, None)
      | (t, Some (Some e)) \<Rightarrow> (t, Some (Some e))
      | (t, Some None) \<Rightarrow>
          (case nextSeq p t of
             (t, seq) \<Rightarrow>
               (case sendFragment p (first env) pl seq FrameStreamMsg t of
                  (t, None) \<Rightarrow> (t, Some None)
                | (t, Some e) \<Rightarrow>
                    (case handleSendErr p (callerErr (first env)) e seq (cancelAnswer (first env)) t of
                       (t, e) \<Rightarrow> (t, Some (Some e))))))"

definition SendMsg :: "nat \<Rightarrow> send_env \<Rightarrow> byte list \<Rightarrow> StreamTable \<Rightarrow> StreamTable \<times> err option option" where
  "SendMsg p env pl t =
     (case terminalErr (obj t p) of
        Some e \<Rightarrow> (t, Some (Some e))
      | None \<Rightarrow>
          if st_sendClosed (obj t p) then (t, Some (Some {ErrCanceledLocally}))
          else if entryErr env \<noteq> None then (t, Some (entryErr env))
          else if Active (chunkPolicy t) \<and> (of_nat (length pl) :: u64) > ucast (SendInline (chunkPolicy t))
          then sendChunked p env pl t
          else sendPlain p env pl t)"

section \<open>Half-close\<close>

definition handleCloseSendErr :: "nat \<Rightarrow> err option \<Rightarrow> err \<Rightarrow> err option \<Rightarrow> StreamTable \<Rightarrow> StreamTable \<times> err" where
  "handleCloseSendErr p caller e cres t =
     (if isRollbackEligible e then (upd p (\<lambda>s. s\<lparr>st_sendCloseState := closeSendIdle\<rparr>) t, e)
      else let t = upd p (\<lambda>s. s\<lparr>st_sendCloseState := closeSendClosed\<rparr>) t in
        if isCtxErr e then ctxTerminal p caller e cres t else (t, e))"

definition closeFrame :: "byte list \<Rightarrow> Stream \<Rightarrow> Frame" where
  "closeFrame pl s =
     zeroFrame\<lparr>fr_CallID := st_callID s, fr_Kind := FrameStreamClose, fr_Control := st_sendSeq s, fr_Payload := pl\<rparr>"

definition commitClose :: "Stream \<Rightarrow> Stream" where
  "commitClose s =
     notifySend ((fst (setCloseBit closeLocalBit (s\<lparr>st_sendCloseState := closeSendClosed\<rparr>)))\<lparr>st_sendClosed := True\<rparr>)"

definition CloseSend :: "nat \<Rightarrow> send_env \<Rightarrow> byte list \<Rightarrow> StreamTable \<Rightarrow> StreamTable \<times> err option" where
  "CloseSend p env pl t =
     (case terminalErr (obj t p) of
        Some e \<Rightarrow> (t, Some e)
      | None \<Rightarrow>
          if st_sendCloseState (obj t p) \<noteq> closeSendIdle then (t, Some {ErrSendClosed})
          else if entryErr env \<noteq> None then (t, entryErr env)
          else let t = upd p (\<lambda>s. s\<lparr>st_sendCloseState := closeSendPublishing\<rparr>) t;
                   a = first env;
                   t = acts p (during a) (trSend (closeFrame pl (obj t p)) (answer a) t) in
            (case answer a of
               Some e \<Rightarrow> (case handleCloseSendErr p (callerErr a) e (cancelAnswer a) t of (t, e) \<Rightarrow> (t, Some e))
             | None \<Rightarrow>
                 let t = closeObligation (st_callID (obj t p)) (upd p commitClose t) in
                 (if bothClosed (obj t p)
                  then fst (terminate p \<lparr>oc_Code = OutcomeCompleted, oc_Err = None\<rparr> 0 False livePhases None t) else t,
                  None)))"

end
