(* ===== verification/Stream_Frame.thy ===== *)
theory Stream_Frame
  imports Stream_Ops
begin

text \<open>
  What a goroutine of a connection leaves alone of a stream another goroutine works on. The contract is a
  relation between the states of one stream, closed under the small updates the table makes; the lemmas say
  that every table operation respects any such relation on all streams. It is interpreted three times: for a
  sender whose call is in progress, for the sending half of a direction and for its receiving half.
\<close>

section \<open>Tables and stores\<close>

text \<open>The data frames the transport accepted, as kind, payload and sequence number.\<close>

definition isData :: "byte \<Rightarrow> bool" where
  "isData k \<longleftrightarrow> k = FrameStreamMsg \<or> k = FrameStreamChunk"

lemma isData_simps [simp]:
  "\<not> isData FrameStreamAck" "\<not> isData FrameCancel" "\<not> isData FrameStreamErr" "\<not> isData FrameStreamClose"
  "isData FrameStreamMsg" "isData FrameStreamChunk"
  by (simp_all add: isData_def)

definition dataSent :: "StreamTable \<Rightarrow> (byte \<times> byte list \<times> u64) list" where
  "dataSent t =
     map (\<lambda>(f, r). (fr_Kind f, fr_Payload f, fr_Control f))
       (filter (\<lambda>(f, r). r = None \<and> isData (fr_Kind f)) (tbl_sends t))"

lemma obj_upd: "q < length (store t) \<Longrightarrow> obj (upd p f t) q = (if q = p then f (obj t p) else obj t q)"
  by (simp add: upd_def nth_list_update)

lemma upd_fields [simp]:
  "length (store (upd p f t)) = length (store t)" "chunkPolicy (upd p f t) = chunkPolicy t"
  "tbl_sends (upd p f t) = tbl_sends t" "streams (upd p f t) = streams t" "drained (upd p f t) = drained t"
  "tbl_closed (upd p f t) = tbl_closed t" "connCancelled (upd p f t) = connCancelled t"
  "emitCh (upd p f t) = emitCh t" "emitCap (upd p f t) = emitCap t" "emitReserve (upd p f t) = emitReserve t"
  "finishers (upd p f t) = finishers t" "armQueue (upd p f t) = armQueue t" "fatalErr (upd p f t) = fatalErr t"
  "obligations (upd p f t) = obligations t" "tbl_panicked (upd p f t) = tbl_panicked t"
  "tbl_spins (upd p f t) = tbl_spins t" "discarded (upd p f t) = discarded t" "maxOpen (upd p f t) = maxOpen t"
  by (simp_all add: upd_def)

lemma obj_upd_same [simp]: "p < length (store t) \<Longrightarrow> obj (upd p f t) p = f (obj t p)"
  by (simp add: obj_upd)

lemma obj_upd_outside: "\<not> p < length (store t) \<Longrightarrow> upd p f t = t"
  by (simp add: upd_def list_update_beyond)

text \<open>A relation on streams, on every stream of a table.\<close>

definition every :: "(Stream \<Rightarrow> Stream \<Rightarrow> bool) \<Rightarrow> StreamTable \<Rightarrow> StreamTable \<Rightarrow> bool" where
  "every R t t' \<longleftrightarrow>
     length (store t') = length (store t) \<and> chunkPolicy t' = chunkPolicy t \<and> dataSent t' = dataSent t \<and>
     (\<forall>q < length (store t). R (obj t q) (obj t' q))"

lemma casTerminal_cases:
  assumes "casTerminal p oc code from t = (t', won, presend)"
  obtains (lost) "\<not> won" "t' = t" "st_phase (obj t p) \<notin> set from"
  | (won) "won" "presend = st_openSendPending (obj t p)" "st_phase (obj t p) \<in> set from"
      "t' = (upd p (\<lambda>s. discardRecvAccum (s\<lparr>st_phase := terminalPhaseFor (oc_Code oc), st_outcome := oc,
               st_teardownCode := code\<rparr>)) t)\<lparr>finishers := finishers t + 1\<rparr>"
  using assms by (induction p oc code "from" t rule: casTerminal.induct) (auto split: if_splits)

lemma isLive_terminal [simp]: "\<not> isLive (s\<lparr>st_phase := terminalPhaseFor c\<rparr>)"
  by (cases c) (simp_all add: isLive_def)

section \<open>The contract\<close>

text \<open>What the others do without touching either direction's data: every step but inbound data and acknowledgements.\<close>

fun housekeeping :: "sact \<Rightarrow> bool" where
  "housekeeping (ActInbound f) \<longleftrightarrow> fr_Kind f = FrameStreamErr"
| "housekeeping (ActAck res cres) \<longleftrightarrow> False"
| "housekeeping _ \<longleftrightarrow> True"

locale stream_rely =
  fixes R :: "Stream \<Rightarrow> Stream \<Rightarrow> bool"
  assumes R_refl: "R s s"
    and R_trans: "R s s' \<Longrightarrow> R s' s'' \<Longrightarrow> R s s''"
    and R_armed: "R s (s\<lparr>st_armed := b\<rparr>)"
    and R_deferred: "R s (s\<lparr>st_deferred := b\<rparr>)"
    and R_backoff: "R s (s\<lparr>st_backoff := i\<rparr>)"
    and R_token: "R s (s\<lparr>st_token := k\<rparr>)"
    and R_ctx: "R s (s\<lparr>st_ctx := e\<rparr>)"
    and R_wake: "R s (s\<lparr>st_sendWake := b\<rparr>)"
    and R_done: "R s (s\<lparr>st_done := True\<rparr>)"
    and R_publish: "st_phase s = streamSubmitted \<Longrightarrow> R s (s\<lparr>st_phase := streamPublished\<rparr>)"
    and R_terminal: "isLive s \<Longrightarrow>
      R s (s\<lparr>st_phase := terminalPhaseFor (oc_Code oc), st_outcome := oc, st_teardownCode := code, st_recvAccum := []\<rparr>)"
begin

lemma every_refl: "every R t t"
  by (simp add: every_def R_refl)

lemma every_trans: "every R t t' \<Longrightarrow> every R t' t'' \<Longrightarrow> every R t t''"
  unfolding every_def by (metis R_trans)

lemma every_upd:
  assumes "R (obj t p) (f (obj t p))"
  shows "every R t (upd p f t)"
  using assms R_refl by (auto simp: every_def dataSent_def obj_upd)

lemma every_flags:
  "every R t (upd p (\<lambda>s. s\<lparr>st_armed := b\<rparr>) t)" "every R t (upd p (\<lambda>s. s\<lparr>st_deferred := b\<rparr>) t)"
  "every R t (upd p (\<lambda>s. s\<lparr>st_token := k\<rparr>) t)"
  by (simp_all add: every_upd R_armed R_deferred R_token)

lemma every_trSend:
  assumes "\<not> isData (fr_Kind f)"
  shows "every R t (trSend f res t)"
  using assms R_refl by (auto simp: every_def dataSent_def trSend_def)

lemma every_same:
  "every R t (t\<lparr>streams := a\<rparr>)" "every R t (t\<lparr>tbl_closed := b\<rparr>)" "every R t (t\<lparr>finishers := c\<rparr>)"
  "every R t (t\<lparr>armQueue := d\<rparr>)" "every R t (t\<lparr>emitCh := e\<rparr>)" "every R t (t\<lparr>fatalErr := g\<rparr>)"
  "every R t (t\<lparr>drained := h\<rparr>)" "every R t (t\<lparr>discarded := i\<rparr>)" "every R t (t\<lparr>obligations := j\<rparr>)"
  "every R t (t\<lparr>tbl_panicked := k\<rparr>)" "every R t (t\<lparr>tbl_spins := l\<rparr>)" "every R t (t\<lparr>connCancelled := m\<rparr>)"
  by (simp_all add: every_def dataSent_def R_refl)

lemma every_obligation: "every R t (closeObligation c t)" "every R t (openObligation c t)"
  by (simp_all add: closeObligation_def openObligation_def every_same)

lemma every_fail:
  "every R t (failConn e t)" "every R t (failIfConnLive e t)" "every R t (onCancelPublishFailed e t)"
  by (auto simp: failConn_def failIfConnLive_def onCancelPublishFailed_def every_same every_refl split: option.splits)

lemma every_enqueueEmit: "every R t (fst (enqueueEmit j t))"
  by (simp add: enqueueEmit_def every_same every_refl)

lemma every_emit:
  "every R t (fst (emitStreamErr c st r t))" "every R t (emitTeardownErrKeepObligation c st t)"
  "every R t (emitTeardownErr p keep t)" "every R t (EmitReject c code t)"
  by (simp_all add: emitStreamErr_def emitTeardownErrKeepObligation_def emitTeardownErr_def EmitReject_def Let_def
      every_enqueueEmit)

lemma every_emitOwed: "every R t (emitOwedTeardownErr p t)"
proof -
  have "every R t (tbl_emitOwedTeardownErr c st t)" for c st
    using every_enqueueEmit [of t "\<lparr>ej_callID = c, ej_status = st, ej_reject = False, ej_keepObligation = False\<rparr>"]
      every_trans [OF _ every_fail(2)]
    by (auto simp: tbl_emitOwedTeardownErr_def split: prod.splits bool.splits)
  then show ?thesis
    by (simp add: emitOwedTeardownErr_def)
qed

lemma every_finisher:
  "every R t (finisherDone t)" "every R t (remove c t)" "every R t (fst (addFinisher t))" "every R t (discard t)"
  by (auto simp: finisherDone_def remove_def addFinisher_def discard_def every_same every_refl)

lemma every_casArmed: "every R t (casArmed p t)"
  using every_trans [OF every_flags(1) every_same(4)]
  by (simp add: casArmed_def appendArm_def every_refl)

lemma every_arm: "every R t (arm p t)"
  by (simp add: arm_def every_casArmed every_refl)

lemma every_reArm: "every R t (reArmAfterBackoff p t)"
  using every_trans [OF every_flags(2) every_casArmed]
  by (simp add: reArmAfterBackoff_def Let_def every_flags)

lemma every_fold:
  assumes "\<And>x t. every R t (f x t)"
  shows "every R t (fold f xs t)"
proof (induction xs arbitrary: t)
  case (Cons x xs)
  show ?case
    using every_trans [OF assms Cons.IH] by simp
qed (simp add: every_refl)

lemma every_drained: "every R t (ReaderDrained order t)"
proof -
  have "every R s (armOwing q s)" for q s
    by (simp add: armOwing_def every_arm every_refl)
  from every_trans [OF every_same(7) every_fold [OF this]] show ?thesis
    by (simp add: ReaderDrained_def)
qed

lemma every_runEmitter: "every R t (runEmitter res t)"
proof (cases "emitCh t")
  case (Cons job q)
  let ?f = "zeroFrame\<lparr>fr_CallID := ej_callID job, fr_Kind := FrameStreamErr, fr_Status := ej_status job\<rparr>"
  have 1: "every R t (trSend ?f res (t\<lparr>emitCh := q\<rparr>))"
    by (rule every_trans [OF every_same(5) every_trSend]) simp
  with every_trans [OF 1 every_obligation(1)] show ?thesis
    using Cons by (simp add: runEmitter_def Let_def)
qed (simp add: runEmitter_def every_refl)

lemma every_casTerminal:
  assumes "casTerminal p oc code from t = (t', won, presend)" "set from \<subseteq> set livePhases"
  shows "every R t t'"
  using assms(1)
proof (cases rule: casTerminal_cases)
  case won
  have "isLive (obj t p)"
    using won(3) assms(2) by (auto simp: isLive_def)
  from R_terminal [OF this]
  have "every R t (upd p (\<lambda>s. discardRecvAccum (s\<lparr>st_phase := terminalPhaseFor (oc_Code oc), st_outcome := oc,
               st_teardownCode := code\<rparr>)) t)"
    by (intro every_upd) (simp add: discardRecvAccum_def)
  from every_trans [OF this every_same(3)] show ?thesis
    by (simp add: won(4))
qed (simp add: every_refl)

lemma every_claimToken: "every R t (fst (claimToken p need t))"
proof (cases "claimTerminalToken need (obj t p)")
  case (Some r)
  then obtain s b where r: "claimTerminalToken need (obj t p) = Some (s, b)"
    by (cases r) auto
  then have "R (obj t p) s"
    by (auto simp: claimTerminalToken_def R_token split: lifecycle_token.splits)
  then show ?thesis
    by (simp add: claimToken_def r every_upd)
qed (simp add: claimToken_def every_same)

lemma every_sendTeardownCancel: "every R t (sendTeardownCancel p res t)"
proof -
  have 1: "every R t (trSend (cancelFrame (obj t p)) res t)"
    by (rule every_trSend) (simp add: cancelFrame_def)
  with every_trans [OF 1 every_fail(3)] show ?thesis
    by (cases res) (simp_all add: sendTeardownCancel_def Let_def)
qed

lemma every_finishClaim: "every R t (fst (finishClaim p locally presend t))"
proof -
  have 1: "every R t (upd p cancelCtx t)"
    by (rule every_upd) (simp add: cancelCtx_def R_ctx)
  with every_trans [OF 1 every_claimToken] show ?thesis
    by (simp add: finishClaim_def Let_def)
qed

lemma every_finishEmit: "every R t (finishEmit p locally presend submitted t)"
proof -
  have 1: "every R t (closeObligation c (emitTeardownErr p k t))" for c k
    by (rule every_trans [OF every_emit(3) every_obligation(1)])
  have 2: "every R t t'" "every R t (closeObligation c t')" if "emitStreamErr d st r t = (t', b)" for c d st r t' b
    using every_emit(1) [of t d st r] every_trans [OF every_emit(1) [of t d st r] every_obligation(1)] that by simp_all
  show ?thesis
    unfolding finishEmit_def
    by (auto simp: Let_def 1 every_emit every_obligation dest: 2 split: option.splits prod.splits bool.splits)
qed

lemma every_finishClose: "every R t (finishClose p t)"
  using R_trans [OF R_done R_wake]
  by (auto intro!: every_upd simp: finishClose_def notifySend_def every_same)

lemma every_finishRemove: "every R t (finishRemove p t)"
  unfolding finishRemove_def by (rule every_trans [OF every_finisher(2) every_finisher(1)])

lemma every_finishTerminal: "every R t (finishTerminal p locally presend res t)"
proof -
  obtain t1 b where c: "finishClaim p locally presend t = (t1, b)"
    by fastforce
  let ?t2 = "if b then sendTeardownCancel p res t1 else t1"
  have 1: "every R t t1"
    using every_finishClaim [of t p locally presend] c by simp
  have "every R t ?t2"
    using every_trans [OF 1 every_sendTeardownCancel] 1 by simp
  from every_trans [OF every_trans [OF every_trans [OF this every_finishEmit] every_finishClose] every_finishRemove]
  show ?thesis
    by (simp add: finishTerminal_def c Let_def)
qed

lemma every_terminate:
  assumes "set from \<subseteq> set livePhases"
  shows "every R t (fst (terminate p oc code locally from res t))"
proof -
  obtain t1 w pre where c: "casTerminal p oc code from t = (t1, w, pre)"
    by (metis prod_cases3)
  have 1: "every R t t1"
    by (rule every_casTerminal [OF c assms])
  with every_trans [OF 1 every_finishTerminal] show ?thesis
    by (cases w) (simp_all add: terminate_def c)
qed

lemma every_mapTerminal:
  "every R t (fst (mapDeadlineToTerminal p res t))" "every R t (fst (mapCancelToTerminal p cause res t))"
  by (simp_all add: mapDeadlineToTerminal_def mapCancelToTerminal_def Let_def every_terminate)

lemma every_failOne: "every R t (failOne e e' p t)"
proof -
  let ?oc = "\<lambda>x. \<lparr>oc_Code = OutcomeCrashed, oc_Err = Some x\<rparr>"
  obtain t1 w where c: "terminate p (?oc e') 0 False [streamSubmitted] None t = (t1, w)"
    by fastforce
  have 1: "every R t t1"
    using every_terminate [of "[streamSubmitted]" t p "?oc e'" 0 False None] c by simp
  with every_trans [OF 1 every_terminate [of "[streamPublished]"]] show ?thesis
    by (cases w) (simp_all add: failOne_def c)
qed

lemma every_terminateLocked: "every R t (terminateLocked p oc t)"
  using every_terminate [of livePhases t p oc 0 False None]
  by (auto simp: terminateLocked_def terminate_def split: prod.splits bool.splits)

lemma every_onStreamErr: "every R t (onStreamErr p f t)"
  by (simp add: onStreamErr_def Let_def every_terminateLocked)

lemma every_DispatchTeardownCancel: "every R t (fst (DispatchTeardownCancel c code t))"
  by (auto simp: DispatchTeardownCancel_def every_terminateLocked every_finisher every_refl split: option.splits)

lemma every_onLocal:
  assumes "\<And>s. R s (fst (h s))"
  shows "every R t (fst (onLocal p h t))"
  using every_upd [of t p "\<lambda>_. fst (h (obj t p))"] assms
  by (simp add: onLocal_def split: prod.splits) (metis fst_conv)

lemma every_ackTake: "every R t (fst (ackTake p t))"
  using every_trans [OF every_flags(1) every_flags(3)]
  by (simp add: ackTake_def Let_def every_flags)

lemma every_ackRelease: "every R t (fst (ackRelease p success t))"
  using every_trans [OF every_flags(3) every_arm]
  by (simp add: ackRelease_def Let_def every_refl every_flags split: lifecycle_token.splits)

lemma every_releaseAckToken: "every R t (releaseAckToken p success cres t)"
proof -
  obtain t1 b where 1: "ackRelease p success t = (t1, b)"
    by fastforce
  have 2: "every R t t1"
    using every_ackRelease [of t p success] 1 by simp
  from every_trans [OF every_trans [OF 2 every_sendTeardownCancel] every_obligation(1)] 2 show ?thesis
    by (simp add: releaseAckToken_def 1 split: bool.splits)
qed

lemma every_housekeeping:
  assumes "housekeeping a"
  shows "every R t (act p a t)"
proof (cases a)
  case (ActInbound f)
  then have k: "fr_Kind f = FrameStreamErr"
    using assms by simp
  let ?t = "t\<lparr>drained := False\<rparr>"
  have "every R ?t (fst (Dispatch f t))"
    by (auto simp: Dispatch_def Let_def k every_onStreamErr every_finisher every_refl split: option.splits)
  then show ?thesis
    using every_trans [OF every_same(7)] ActInbound by simp
next
  case (ActCtx e)
  then show ?thesis
    by (auto intro!: every_upd simp: R_ctx)
next
  case ActPublish
  then show ?thesis
    by (auto intro!: every_upd simp: R_refl R_publish Publish_def)
qed (use assms in \<open>simp_all add: every_DispatchTeardownCancel every_terminate every_failOne every_reArm every_runEmitter every_drained\<close>)

end

text \<open>A relation that does not look at the receiving half also allows inbound data and acknowledgements sent.\<close>

locale sender_rely = stream_rely +
  assumes R_recvCredit: "R s (s\<lparr>st_recvCredit := cr\<rparr>)"
    and R_recvCh: "R s (s\<lparr>st_recvCh := q\<rparr>)"
    and R_expectedSeq: "R s (s\<lparr>st_expectedSeq := n\<rparr>)"
    and R_recvAccum: "R s (s\<lparr>st_recvAccum := bs\<rparr>)"
    and R_closeBits: "R s (s\<lparr>st_closeBits := cb\<rparr>)"
    and R_recvClosed: "R s (s\<lparr>st_recvClosed := True\<rparr>)"
begin

lemma R_acceptMsg: "R s (fst (acceptMsg bs s))"
  using R_expectedSeq R_trans [OF R_expectedSeq R_recvCh]
  by (simp add: acceptMsg_def enqueueItem_def)

lemma R_onStreamMsg: "R s (fst (onStreamMsg policy f s))"
  using R_trans [OF R_recvAccum R_acceptMsg]
  by (simp add: onStreamMsg_def completeRecvAccum_def Let_def R_acceptMsg R_refl)

lemma R_onStreamChunk: "R s (fst (onStreamChunk policy f s))"
  using R_trans [OF R_expectedSeq R_recvAccum]
  by (simp add: onStreamChunk_def Let_def R_refl)

lemma R_setCloseBit: "R s (fst (setCloseBit b s))"
  by (simp add: setCloseBit_def R_closeBits R_refl)

lemma R_deliverTrailer: "R s (fst (deliverTrailer bs s))"
  by (simp add: deliverTrailer_def enqueueItem_def R_recvCh R_refl)

lemma every_signalEOF:
  assumes "R (obj t p) s"
  shows "every R t (signalEOF p s t)"
proof -
  have 1: "every R t (upd p (\<lambda>_. s\<lparr>st_recvClosed := True\<rparr>) t)"
    by (rule every_upd) (rule R_trans [OF assms R_recvClosed])
  have 2: "every R t (upd p (\<lambda>_. s) t)"
    by (rule every_upd) (rule assms)
  from 1 every_trans [OF 1 every_terminateLocked] every_trans [OF 2 every_same(10)] show ?thesis
    by (simp add: signalEOF_def Let_def)
qed

lemma every_onStreamClose: "every R t (fst (onStreamClose p f t))"
proof -
  obtain s1 b1 where 1: "setCloseBit closeRemoteBit (obj t p) = (s1, b1)"
    by fastforce
  obtain s2 b2 where 2: "deliverTrailer (fr_Payload f) s1 = (s2, b2)"
    by fastforce
  have u1: "R (obj t p) s1"
    using R_setCloseBit [of "obj t p" closeRemoteBit] 1 by simp
  have u2: "R (obj t p) s2"
    using R_trans [OF u1 R_deliverTrailer] 2 by (metis fst_conv)
  have "every R t (upd p (\<lambda>_. s1) t)" "every R t (upd p (\<lambda>_. s2) t)"
    by (simp_all add: every_upd u1 u2)
  then show ?thesis
    using every_signalEOF [OF u2] by (simp add: onStreamClose_def 1 2 every_refl split: bool.splits)
qed

lemma every_Dispatch_data:
  assumes "fr_Kind f \<noteq> FrameStreamAck"
  shows "every R t (fst (Dispatch f t))"
proof -
  let ?t = "t\<lparr>drained := False\<rparr>"
  have "every R ?t (fst (Dispatch f t))"
    unfolding Dispatch_def Let_def
    using assms every_onLocal [OF R_onStreamMsg] every_onLocal [OF R_onStreamChunk]
    by (auto simp: every_onStreamErr every_onStreamClose every_finisher every_refl split: option.splits)
  then show ?thesis
    by (rule every_trans [OF every_same(7)])
qed

lemma every_ackSettle: "every R t (ackSettle p cum res t)"
  using R_trans [OF R_recvCredit R_backoff] R_trans [OF R_deferred R_backoff]
  by (auto intro!: every_upd simp: ackSettle_def resetBackoff_def scheduleReArm_def split: option.splits)

lemma every_serveAck: "every R t (serveAck p res cres t)"
proof -
  have "every R t (trSend (ackFrame (obj t p)) res t)"
    by (rule every_trSend) (simp add: ackFrame_def)
  from every_trans [OF every_trans [OF this every_ackSettle] every_releaseAckToken] show ?thesis
    by (simp add: serveAck_def Let_def)
qed

lemma every_runAckDispatch: "every R t (runAckDispatch res cres t)"
proof (cases "armQueue t")
  case (Cons p q)
  let ?t = "t\<lparr>armQueue := q\<rparr>"
  obtain t1 b where 1: "ackTake p ?t = (t1, b)"
    by fastforce
  have 2: "every R t t1"
    using every_trans [OF every_same(4) every_ackTake [of ?t p]] 1 by simp
  from every_trans [OF 2 every_serveAck] 2 show ?thesis
    by (simp add: runAckDispatch_def popArm_def Cons 1 split: bool.splits)
qed (simp add: runAckDispatch_def popArm_def every_refl)

lemma every_act_sender:
  assumes "\<And>f. a = ActInbound f \<Longrightarrow> fr_Kind f \<noteq> FrameStreamAck"
  shows "every R t (act p a t)"
proof (cases "housekeeping a")
  case False
  then consider f where "a = ActInbound f" | res cres where "a = ActAck res cres"
    by (cases a) auto
  then show ?thesis
    using assms by cases (simp_all add: every_Dispatch_data every_runAckDispatch)
qed (rule every_housekeeping)

end

section \<open>The contract of a send in progress\<close>

definition stays_s :: "Stream \<Rightarrow> Stream \<Rightarrow> bool" where
  "stays_s s s' \<longleftrightarrow>
     st_callID s' = st_callID s \<and> st_service s' = st_service s \<and> st_method s' = st_method s \<and>
     st_deadline s' = st_deadline s \<and> st_sendSeq s' = st_sendSeq s \<and> st_sendClosed s' = st_sendClosed s \<and>
     st_sendCloseState s' = st_sendCloseState s \<and> st_side s' = st_side s \<and>
     cc_sent (st_sendCredit s') = cc_sent (st_sendCredit s) \<and>
     granted (st_sendCredit s') = granted (st_sendCredit s) \<and>
     cc_acked (st_sendCredit s) \<le> cc_acked (st_sendCredit s') \<and>
     (window_ok (st_sendCredit s) \<longrightarrow> window_ok (st_sendCredit s')) \<and>
     (\<not> isLive s \<longrightarrow> st_phase s' = st_phase s \<and> st_outcome s' = st_outcome s)"

interpretation stay: sender_rely stays_s
  by unfold_locales (auto simp: stays_s_def isLive_def)

declare stay.R_refl [simp] stay.every_refl [simp]

abbreviation stays :: "StreamTable \<Rightarrow> StreamTable \<Rightarrow> bool" where
  "stays \<equiv> every stays_s"

lemma stays_act: "stays t (act p a t)"
proof (cases "\<exists>f. a = ActInbound f \<and> fr_Kind f = FrameStreamAck")
  case True
  then obtain f where f: "a = ActInbound f" "fr_Kind f = FrameStreamAck"
    by blast
  let ?t = "t\<lparr>drained := False\<rparr>"
  have "stays_s s (fst (onStreamAck f s))" for s
    using replenishStrict_window(1) [of "st_sendCredit s" "fr_Control f"]
    by (auto simp: onStreamAck_def replenishStrict_def stays_s_def notifySend_def isLive_def Let_def)
  then have "stays ?t (fst (onLocal q (onStreamAck f) ?t))" for q
    by (rule stay.every_onLocal)
  then have "stays ?t (fst (Dispatch f t))"
    by (auto simp: Dispatch_def Let_def f(2) stay.every_finisher stay.every_refl split: option.splits)
  then show ?thesis
    using stay.every_trans [OF stay.every_same(7)] f(1) by simp
qed (auto intro: stay.every_act_sender)

theorem stays_acts: "stays t (acts p as t)"
  unfolding acts_def by (rule stay.every_fold) (rule stays_act)

end
