(* ===== verification/Stream_Send.thy ===== *)
theory Stream_Send
  imports Stream_Frame
begin

text \<open>
  What a send call puts on the wire. A message goes out as its canonical fragments under consecutive
  sequence numbers, all of them when the call reports success; a call that fails after its first fragment
  leaves the stream terminal or its connection failing; a call that fails before it has published anything
  and leaves the stream alive has given back the credit unit and the sequence number.
\<close>

section \<open>Canonical fragments\<close>

function frags :: "nat \<Rightarrow> byte list \<Rightarrow> (byte \<times> byte list) list" where
  "frags limit buf =
     (if limit = 0 \<or> length buf \<le> limit then [(FrameStreamMsg, buf)]
      else (FrameStreamChunk, take limit buf) # frags limit (drop limit buf))"
  by pat_completeness auto
termination
  by (relation "measure (\<lambda>(limit, buf). length buf)") auto

declare frags.simps [simp del]

definition splitMsg :: "ChunkPolicy \<Rightarrow> byte list \<Rightarrow> (byte \<times> byte list) list" where
  "splitMsg policy buf =
     (if Active policy \<and> length buf > unat (SendInline policy) then frags (unat (SendInline policy)) buf
      else [(FrameStreamMsg, buf)])"

fun numbered :: "u64 \<Rightarrow> (byte \<times> byte list) list \<Rightarrow> (byte \<times> byte list \<times> u64) list" where
  "numbered seq [] = []"
| "numbered seq ((k, b) # fs) = (k, b, seq) # numbered (seq + 1) fs"

lemma frags_not_Nil [simp]: "frags limit buf \<noteq> []"
  by (subst frags.simps) simp

lemma frags_long:
  "0 < limit \<Longrightarrow> limit < length buf \<Longrightarrow>
     frags limit buf = (FrameStreamChunk, take limit buf) # frags limit (drop limit buf)"
  by (subst frags.simps) simp

lemma frags_short: "length buf \<le> limit \<Longrightarrow> frags limit buf = [(FrameStreamMsg, buf)]"
  by (subst frags.simps) simp

lemma frags_join: "concat (map snd (frags limit buf)) = buf"
proof (induction limit buf rule: frags.induct)
  case (1 limit buf)
  then show ?case
    by (subst frags.simps) (auto simp: frags.simps [of limit buf])
qed

lemma splitMsg_not_Nil [simp]: "splitMsg policy buf \<noteq> []"
  by (simp add: splitMsg_def)

section \<open>What others leave alone while a send runs\<close>

definition keepsData :: "StreamTable \<Rightarrow> StreamTable \<Rightarrow> bool" where
  "keepsData t t' \<longleftrightarrow>
     length (store t') = length (store t) \<and> chunkPolicy t' = chunkPolicy t \<and>
     (\<forall>q < length (store t). stays_s (obj t q) (obj t' q))"

lemma stays_keeps: "stays t t' \<longleftrightarrow> keepsData t t' \<and> dataSent t' = dataSent t"
  by (auto simp: every_def keepsData_def)

lemma keepsData_refl [simp]: "keepsData t t"
  by (simp add: keepsData_def stay.R_refl)

lemma keepsData_trans: "keepsData t t' \<Longrightarrow> keepsData t' t'' \<Longrightarrow> keepsData t t''"
  unfolding keepsData_def by (metis stay.R_trans)

lemma keepsData_obj:
  assumes "keepsData t t'" "p < length (store t)"
  shows "st_sendSeq (obj t' p) = st_sendSeq (obj t p)"
    "cc_sent (st_sendCredit (obj t' p)) = cc_sent (st_sendCredit (obj t p))"
    "\<not> isLive (obj t p) \<Longrightarrow> \<not> isLive (obj t' p)" "p < length (store t')" "chunkPolicy t' = chunkPolicy t"
    "length (store t') = length (store t)"
  using assms by (auto simp: keepsData_def stays_s_def isLive_def)

lemma sendFragment_effect:
  assumes "sendFragment p a frag seq kind t = (t', res)" "isData kind"
  shows "keepsData t t'" "dataSent t' = dataSent t @ (if res = None then [(kind, frag, seq)] else [])"
proof -
  let ?t = "trSend (msgFrame (at_now a) kind frag seq (obj t p)) (answer a) t"
  have e: "t' = acts p (during a) ?t" "res = answer a"
    using assms(1) by (auto simp: sendFragment_def)
  have k: "keepsData t ?t" "dataSent ?t = dataSent t @ (if res = None then [(kind, frag, seq)] else [])"
    using assms(2) by (simp_all add: keepsData_def trSend_def dataSent_def msgFrame_def e(2))
  have "keepsData ?t t'" "dataSent t' = dataSent ?t"
    using stays_acts [of ?t p "during a"] by (simp_all add: e(1) stays_keeps)
  then show "keepsData t t'" "dataSent t' = dataSent t @ (if res = None then [(kind, frag, seq)] else [])"
    using k by (simp_all add: keepsData_trans [OF k(1)])
qed

lemma waitChunkRetry_stays:
  assumes "waitChunkRetry p a t = (t', r)"
  shows "stays t t'"
  using stays_acts [of t p "waiting a"] assms
  by (auto simp: waitChunkRetry_def Let_def split: retry_arm.splits option.splits)

lemma sendFragmentRetrying_effect:
  assumes "sendFragmentRetrying p as frag seq kind t = (t', r)" "isData kind"
  shows "keepsData t t' \<and>
    dataSent t' = dataSent t @ (case r of Some (None, a) \<Rightarrow> [(kind, frag, seq)] | _ \<Rightarrow> [])"
  using assms
proof (induction p as frag seq kind t rule: sendFragmentRetrying.induct)
  case (2 p a as frag seq kind t)
  obtain t1 res where 1: "sendFragment p a frag seq kind t = (t1, res)"
    by fastforce
  note eff = sendFragment_effect [OF 1 2(3)]
  show ?case
  proof (cases res)
    case None
    then show ?thesis
      using 2(2) 1 eff by auto
  next
    case (Some e)
    show ?thesis
    proof (cases "TransportErrBackpressure \<in> e")
      case False
      then show ?thesis
        using 2(2) 1 eff Some by auto
    next
      case True
      obtain t2 w where w: "waitChunkRetry p a t1 = (t2, w)"
        by fastforce
      have st: "keepsData t t2" "dataSent t2 = dataSent t"
        using waitChunkRetry_stays [OF w] eff Some by (auto simp: stays_keeps intro: keepsData_trans)
      show ?thesis
      proof (cases "w = Some None")
        case False
        then show ?thesis
          using 2(2) 1 Some True w st by (auto split: option.splits)
      next
        case again: True
        have "keepsData t2 t' \<and> dataSent t' = dataSent t2 @ (case r of Some (None, a) \<Rightarrow> [(kind, frag, seq)] | _ \<Rightarrow> [])"
          using 2(1) [OF 1 [symmetric]] 2(2,3) 1 Some True w again by simp
        then show ?thesis
          using st keepsData_trans by auto
      qed
    qed
  qed
qed auto

section \<open>Failures that end the stream\<close>

lemma terminate_ends:
  assumes "p < length (store t)"
  shows "\<not> isLive (obj (fst (terminate p oc code locally livePhases res t)) p)"
proof -
  obtain t1 w pre where c: "casTerminal p oc code livePhases t = (t1, w, pre)"
    by (metis prod_cases3)
  have dead: "\<not> isLive (obj t1 p)"
    using c assms
    by (cases rule: casTerminal_cases)
      (auto simp: isLive_def discardRecvAccum_def, (cases "oc_Code oc"; simp)+)
  have len: "p < length (store t1)"
    using c assms by (cases rule: casTerminal_cases) auto
  have "\<not> isLive (obj (finishTerminal p locally pre res t1) p)"
    using keepsData_obj(3) [OF _ len dead] stay.every_finishTerminal [of t1] by (auto simp: stays_keeps)
  then show ?thesis
    using dead by (cases w) (simp_all add: terminate_def c del: casTerminal.simps)
qed

lemma ctxTerminal_ends:
  assumes "p < length (store t)" "ctxTerminal p caller e cres t = (t', e')"
  shows "\<not> isLive (obj t' p)" "stays t t'"
  using assms terminate_ends [OF assms(1)] stay.every_mapTerminal
  by (auto simp: ctxTerminal_def mapDeadlineToTerminal_def mapCancelToTerminal_def Let_def split: if_splits)

lemma failVisibleTrain_ends:
  assumes "p < length (store t)" "failVisibleTrain p a e t = (t', e')"
  shows "\<not> isLive (obj t' p) \<or> TransportErrClosed \<in> e' \<or> TransportErrPoisoned \<in> e'" "stays t t'"
  using assms ctxTerminal_ends [OF assms(1)] terminate_ends [OF assms(1)] stay.every_mapTerminal(2)
  by (auto simp: failVisibleTrain_def mapCancelToTerminal_def Let_def split: if_splits)

section \<open>The fragment train\<close>

lemma nextSeq_effect:
  assumes "nextSeq p t = (t', seq)" "p < length (store t)"
  shows "seq = st_sendSeq (obj t p) + 1" "obj t' p = (obj t p)\<lparr>st_sendSeq := seq\<rparr>" "dataSent t' = dataSent t"
    "length (store t') = length (store t)" "chunkPolicy t' = chunkPolicy t"
  using assms by (auto simp: nextSeq_def Let_def dataSent_def)

text \<open>
  \<open>sentPart t fs k t'\<close>: from \<open>t\<close> to \<open>t'\<close> exactly the first \<open>k\<close> of the fragments \<open>fs\<close> went out, under the
  sequence numbers that follow the stream's last one.
\<close>

definition sentPart :: "nat \<Rightarrow> StreamTable \<Rightarrow> (byte \<times> byte list) list \<Rightarrow> nat \<Rightarrow> StreamTable \<Rightarrow> bool" where
  "sentPart p t fs k t' \<longleftrightarrow>
     k \<le> length fs \<and> dataSent t' = dataSent t @ numbered (st_sendSeq (obj t p) + 1) (take k fs)"

definition broken :: "nat \<Rightarrow> StreamTable \<Rightarrow> err \<Rightarrow> bool" where
  "broken p t e \<longleftrightarrow> \<not> isLive (obj t p) \<or> TransportErrClosed \<in> e \<or> TransportErrPoisoned \<in> e"

lemma sendRest_step:
  assumes "off < length buf" "0 < limit"
  defines "rest \<equiv> drop off buf"
  shows "sendRest p ats limit buf off index t =
    (case nextSeq p t of
       (t, seq) \<Rightarrow>
         (case sendFragmentRetrying p (ats index) (take limit rest) seq
                 (if length rest \<le> limit then FrameStreamMsg else FrameStreamChunk) t of
            (t, None) \<Rightarrow> (t, None)
          | (t, Some (None, a)) \<Rightarrow> sendRest p ats limit buf (off + limit) (Suc index) t
          | (t, Some (Some e, a)) \<Rightarrow> (case failVisibleTrain p a e t of (t, e) \<Rightarrow> (t, Some (Some e)))))"
proof -
  have 1: "take (min (off + limit) (length buf) - off) (drop off buf) = take limit (drop off buf)"
    using assms(1) by (auto simp: min_def)
  have 2: "(min (off + limit) (length buf) = length buf) = (length (drop off buf) \<le> limit)"
    using assms(1) by auto
  have 3: "(limit = 0 \<or> off \<ge> length buf) = False"
    using assms(1,2) by auto
  show ?thesis
    unfolding sendRest.simps [of p ats limit buf off index t] Let_def 1 2 3 rest_def if_False by (rule refl)
qed

lemma sendRest_end: "length buf \<le> off \<Longrightarrow> sendRest p ats limit buf off index t = (t, Some None)"
  by (subst sendRest.simps) simp

lemma sentPart_cons:
  assumes "dataSent t1 = dataSent t @ [(k, b, st_sendSeq (obj t p) + 1)]"
    "st_sendSeq (obj t1 p) = st_sendSeq (obj t p) + 1" "sentPart p t1 fs n t'"
  shows "sentPart p t ((k, b) # fs) (Suc n) t'"
  using assms by (simp add: sentPart_def)

text \<open>The result of a whole train, or of a plain send, on its fragments.\<close>

definition trainResult :: "nat \<Rightarrow> StreamTable \<Rightarrow> (byte \<times> byte list) list \<Rightarrow> StreamTable \<Rightarrow> err option option \<Rightarrow> bool" where
  "trainResult p t fs t' r \<longleftrightarrow>
     length (store t') = length (store t) \<and>
     cc_sent (st_sendCredit (obj t' p)) = cc_sent (st_sendCredit (obj t p)) \<and>
     (\<exists>k. sentPart p t fs k t' \<and>
        (case r of
           Some None \<Rightarrow> k = length fs \<and> st_sendSeq (obj t' p) = st_sendSeq (obj t p) + of_nat k
         | Some (Some e) \<Rightarrow> k < length fs \<and> broken p t' e
         | None \<Rightarrow> k < length fs))"

lemma trainResult_cons:
  assumes "dataSent t1 = dataSent t @ [(k, b, st_sendSeq (obj t p) + 1)]"
    "st_sendSeq (obj t1 p) = st_sendSeq (obj t p) + 1" "length (store t1) = length (store t)"
    "cc_sent (st_sendCredit (obj t1 p)) = cc_sent (st_sendCredit (obj t p))" "trainResult p t1 fs t' r"
  shows "trainResult p t ((k, b) # fs) t' r"
proof -
  obtain n where n: "sentPart p t1 fs n t'"
    "case r of
       Some None \<Rightarrow> n = length fs \<and> st_sendSeq (obj t' p) = st_sendSeq (obj t1 p) + of_nat n
     | Some (Some e) \<Rightarrow> n < length fs \<and> broken p t' e
     | None \<Rightarrow> n < length fs"
    using assms(5) unfolding trainResult_def by blast
  have s: "sentPart p t ((k, b) # fs) (Suc n) t'"
    by (rule sentPart_cons [OF assms(1,2) n(1)])
  have l: "length (store t') = length (store t)" "cc_sent (st_sendCredit (obj t' p)) = cc_sent (st_sendCredit (obj t p))"
    using assms(3,4,5) by (simp_all add: trainResult_def)
  have "case r of
       Some None \<Rightarrow> Suc n = length ((k, b) # fs) \<and> st_sendSeq (obj t' p) = st_sendSeq (obj t p) + of_nat (Suc n)
     | Some (Some e) \<Rightarrow> Suc n < length ((k, b) # fs) \<and> broken p t' e
     | None \<Rightarrow> Suc n < length ((k, b) # fs)"
    using n(2) assms(2) by (simp split: option.splits)
  with s l show ?thesis
    unfolding trainResult_def by blast
qed

lemma trainResult_stop:
  assumes "keepsData t1 t'" "dataSent t' = dataSent t" "length (store t1) = length (store t)" "p < length (store t)"
    "cc_sent (st_sendCredit (obj t1 p)) = cc_sent (st_sendCredit (obj t p))" "fs \<noteq> []"
    "\<And>e. r = Some (Some e) \<Longrightarrow> broken p t' e" "r \<noteq> Some None"
  shows "trainResult p t fs t' r"
proof -
  have p: "p < length (store t1)"
    using assms(3,4) by simp
  have "length (store t') = length (store t)"
    using assms(1,3) by (simp add: keepsData_def)
  moreover have "sentPart p t fs 0 t'"
    using assms(2) by (simp add: sentPart_def)
  moreover have "case r of
       Some None \<Rightarrow> 0 = length fs \<and> st_sendSeq (obj t' p) = st_sendSeq (obj t p) + of_nat 0
     | Some (Some e) \<Rightarrow> 0 < length fs \<and> broken p t' e
     | None \<Rightarrow> 0 < length fs"
    using assms(6-8) by (simp split: option.splits)
  ultimately show ?thesis
    unfolding trainResult_def using keepsData_obj(2) [OF assms(1) p] assms(5) by metis
qed

lemma sendRest_result:
  assumes "sendRest p ats limit buf off index t = (t', r)" "p < length (store t)" "0 < limit" "off < length buf"
  shows "trainResult p t (frags limit (drop off buf)) t' r"
  using assms
proof (induction "length buf - off" arbitrary: off index t rule: less_induct)
  case (less off index t)
  note 1 = less.hyps less.prems
  let ?rest = "drop off buf"
  let ?kind = "if length ?rest \<le> limit then FrameStreamMsg else FrameStreamChunk"
  obtain t1 seq where n: "nextSeq p t = (t1, seq)"
    by fastforce
  note ns = nextSeq_effect [OF n 1(3)]
  obtain t2 r2 where f: "sendFragmentRetrying p (ats index) (take limit ?rest) seq ?kind t1 = (t2, r2)"
    by fastforce
  have k: "keepsData t1 t2" "dataSent t2 = dataSent t1 @ (case r2 of Some (None, a) \<Rightarrow> [(?kind, take limit ?rest, seq)] | _ \<Rightarrow> [])"
    using sendFragmentRetrying_effect [OF f] by auto
  have p1: "p < length (store t1)" and p2: "p < length (store t2)"
    using ns(4) k(1) 1(3) by (simp_all add: keepsData_def)
  have cc: "cc_sent (st_sendCredit (obj t1 p)) = cc_sent (st_sendCredit (obj t p))"
    by (simp add: ns(2))
  have run: "(case r2 of None \<Rightarrow> (t2, None)
      | Some (None, a) \<Rightarrow> sendRest p ats limit buf (off + limit) (Suc index) t2
      | Some (Some e, a) \<Rightarrow> (case failVisibleTrain p a e t2 of (t, e) \<Rightarrow> (t, Some (Some e)))) = (t', r)"
    using 1(2) unfolding sendRest_step [OF 1(5,4)] n prod.case f .
  consider (blocked) "r2 = None" | (failed) e a where "r2 = Some (Some e, a)" | (sent) a where "r2 = Some (None, a)"
    by (metis option.exhaust surj_pair)
  then show ?case
  proof cases
    case blocked
    then show ?thesis
      using run k ns cc 1(3) by (intro trainResult_stop [of t1]) auto
  next
    case failed
    obtain t3 e3 where v: "failVisibleTrain p a e t2 = (t3, e3)"
      by fastforce
    note fv = failVisibleTrain_ends [OF p2 v]
    have "t' = t3" "r = Some (Some e3)"
      using run failed v by auto
    then show ?thesis
      using k ns cc 1(3) fv failed keepsData_trans [OF k(1)]
      by (intro trainResult_stop [of t1]) (auto simp: stays_keeps broken_def)
  next
    case sent
    have run': "sendRest p ats limit buf (off + limit) (Suc index) t2 = (t', r)"
      using run sent by simp
    have s2: "dataSent t2 = dataSent t @ [(?kind, take limit ?rest, st_sendSeq (obj t p) + 1)]"
      "st_sendSeq (obj t2 p) = st_sendSeq (obj t p) + 1" "length (store t2) = length (store t)"
      "cc_sent (st_sendCredit (obj t2 p)) = cc_sent (st_sendCredit (obj t p))"
      using sent k ns cc keepsData_obj [OF k(1) p1] by (auto simp: keepsData_def)
    show ?thesis
    proof (cases "length ?rest \<le> limit")
      case True
      then have "t' = t2" "r = Some None"
        using run' by (simp_all add: sendRest_end)
      then have "trainResult p t2 [] t' r"
        by (simp add: trainResult_def sentPart_def)
      from trainResult_cons [OF s2 this] show ?thesis
        using True by (simp add: frags_short)
    next
      case False
      have "trainResult p t2 (frags limit (drop (off + limit) buf)) t' r"
        using False 1(4) by (intro 1(1) [OF _ run' p2]) auto
      from trainResult_cons [OF s2 this] show ?thesis
        using False 1(4) by (simp add: frags_long add.commute)
    qed
  qed
qed

section \<open>Admission and rollback\<close>

text \<open>\<open>reserved p t t'\<close>: the call holds one more credit unit, nothing else of its send state has changed.\<close>

definition reserved :: "nat \<Rightarrow> StreamTable \<Rightarrow> StreamTable \<Rightarrow> bool" where
  "reserved p t t' \<longleftrightarrow>
     length (store t') = length (store t) \<and> chunkPolicy t' = chunkPolicy t \<and> dataSent t' = dataSent t \<and>
     st_sendSeq (obj t' p) = st_sendSeq (obj t p) \<and>
     cc_sent (st_sendCredit (obj t' p)) = cc_sent (st_sendCredit (obj t p)) + 1"

lemma reserve_reserved:
  assumes "reserve (st_sendCredit (obj t p)) = (c, True)" "p < length (store t)"
  shows "reserved p t (upd p (\<lambda>s. s\<lparr>st_sendCredit := c\<rparr>) t)"
  using assms by (auto simp: reserved_def reserve_def dataSent_def split: if_splits)

lemma stays_reserved:
  assumes "stays t t1" "reserved p t1 t2" "p < length (store t)"
  shows "reserved p t t2"
  using assms keepsData_obj [of t t1 p] by (simp add: stays_keeps reserved_def)

lemma admit_effect:
  assumes "admit p ws t = (t', r)" "p < length (store t)"
  shows "if r = Some None then reserved p t t' else stays t t'"
  using assms
proof (induction p ws t rule: admit.induct)
  case (1 p t)
  obtain c b where "reserve (st_sendCredit (obj t p)) = (c, b)"
    by fastforce
  then show ?case
    using 1 reserve_reserved [of t p c] by (cases b) auto
next
  case (2 p as ca ws t)
  obtain c b where c: "reserve (st_sendCredit (obj t p)) = (c, b)"
    by fastforce
  show ?case
  proof (cases b)
    case True
    then show ?thesis
      using 2 c reserve_reserved [of t p c] by auto
  next
    case False
    let ?t1 = "acts p as t"
    let ?t2 = "upd p (\<lambda>s. s\<lparr>st_sendWake := False\<rparr>) ?t1"
    have s1: "stays t ?t1"
      by (rule stays_acts)
    have s2: "stays t ?t2"
      by (rule stay.every_trans [OF s1 stay.every_upd]) (simp add: stays_s_def isLive_def)
    then have p2: "p < length (store ?t2)"
      using 2(3) by (simp add: every_def)
    show ?thesis
    proof (cases "ca = ArmWake \<and> st_sendWake (obj ?t1 p) \<and> \<not> st_sendClosed (obj ?t2 p)")
      case True
      then have run: "admit p ws ?t2 = (t', r)"
        using 2(2) c False by (simp add: Let_def)
      have "if r = Some None then reserved p ?t2 t' else stays ?t2 t'"
        using 2(1) [OF c [symmetric] _ refl _ _ refl _ run p2] False True by simp
      then show ?thesis
        using stays_reserved [OF s2 _ 2(3)] stay.every_trans [OF s2] by (auto split: if_splits)
    next
      case other: False
      then show ?thesis
        using 2(2) c False s1 s2 by (auto simp: Let_def split: credit_arm.splits if_splits)
    qed
  qed
qed

lemma handleSendErr_effect:
  assumes "handleSendErr p caller e seq cres t = (t', e')" "p < length (store t)"
    "0 < cc_sent (st_sendCredit (obj t p))" "st_sendSeq (obj t p) = seq"
  shows "dataSent t' = dataSent t" "length (store t') = length (store t)"
    "isLive (obj t' p) \<and> (NeverPublished e' \<or> isCtxErr e') \<Longrightarrow>
       st_sendSeq (obj t' p) = seq - 1 \<and>
       cc_sent (st_sendCredit (obj t' p)) = cc_sent (st_sendCredit (obj t p)) - 1"
proof -
  consider (roll) "isRollbackEligible e" | (ctx) "\<not> isRollbackEligible e" "isCtxErr e"
    | (other) "\<not> isRollbackEligible e" "\<not> isCtxErr e"
    by blast
  then have "dataSent t' = dataSent t \<and> length (store t') = length (store t) \<and>
    (isLive (obj t' p) \<and> (NeverPublished e' \<or> isCtxErr e') \<longrightarrow>
       st_sendSeq (obj t' p) = seq - 1 \<and>
       cc_sent (st_sendCredit (obj t' p)) = cc_sent (st_sendCredit (obj t p)) - 1)"
  proof cases
    case roll
    then show ?thesis
      using assms by (auto simp: handleSendErr_def rollbackSend_def release_def dataSent_def)
  next
    case ctx
    then have "ctxTerminal p caller e cres t = (t', e')"
      using assms(1) by (simp add: handleSendErr_def)
    from ctxTerminal_ends [OF assms(2) this] show ?thesis
      by (simp add: stays_keeps keepsData_def)
  next
    case other
    then show ?thesis
      using assms(1) by (auto simp: handleSendErr_def isRollbackEligible_def)
  qed
  then show "dataSent t' = dataSent t" "length (store t') = length (store t)"
    "isLive (obj t' p) \<and> (NeverPublished e' \<or> isCtxErr e') \<Longrightarrow>
       st_sendSeq (obj t' p) = seq - 1 \<and>
       cc_sent (st_sendCredit (obj t' p)) = cc_sent (st_sendCredit (obj t p)) - 1"
    by blast+
qed

section \<open>The whole send\<close>

text \<open>
  \<open>sendOutcome p t fs t' res\<close>: what a send call that returned \<open>res\<close> has done with the fragments \<open>fs\<close>.
\<close>

definition sendOutcome :: "nat \<Rightarrow> StreamTable \<Rightarrow> (byte \<times> byte list) list \<Rightarrow> StreamTable \<Rightarrow> err option \<Rightarrow> bool" where
  "sendOutcome p t fs t' res \<longleftrightarrow>
     (\<exists>k. sentPart p t fs k t' \<and>
        (case res of
           None \<Rightarrow>
             k = length fs \<and> st_sendSeq (obj t' p) = st_sendSeq (obj t p) + of_nat k \<and>
             cc_sent (st_sendCredit (obj t' p)) = cc_sent (st_sendCredit (obj t p)) + 1
         | Some e \<Rightarrow>
             k < length fs \<and> (0 < k \<longrightarrow> broken p t' e) \<and>
             (k = 0 \<and> isLive (obj t' p) \<and> (NeverPublished e \<or> isCtxErr e) \<longrightarrow>
                st_sendSeq (obj t' p) = st_sendSeq (obj t p) \<and>
                cc_sent (st_sendCredit (obj t' p)) = cc_sent (st_sendCredit (obj t p)))))"

lemma sendOutcome_none:
  assumes "dataSent t' = dataSent t" "fs \<noteq> []"
    "isLive (obj t' p) \<and> (NeverPublished e \<or> isCtxErr e) \<Longrightarrow>
       st_sendSeq (obj t' p) = st_sendSeq (obj t p) \<and>
       cc_sent (st_sendCredit (obj t' p)) = cc_sent (st_sendCredit (obj t p))"
  shows "sendOutcome p t fs t' (Some e)"
  unfolding sendOutcome_def using assms by (intro exI [of _ 0]) (simp add: sentPart_def)

lemma sendOutcome_stays:
  assumes "stays t t'" "fs \<noteq> []" "p < length (store t)"
  shows "sendOutcome p t fs t' (Some e)"
  using assms keepsData_obj [of t t' p] by (intro sendOutcome_none) (simp_all add: stays_keeps)

text \<open>A failure of the first frame of a call that has just reserved its credit and sequence number.\<close>

lemma sendOutcome_first:
  assumes "reserved p t t1" "nextSeq p t1 = (t2, seq)" "keepsData t2 t3" "dataSent t3 = dataSent t2" "p < length (store t)"
    "Suc (unat (cc_sent (st_sendCredit (obj t p)))) < 2 ^ 64" "fs \<noteq> []"
    "handleSendErr p caller e seq cres t3 = (t', e')"
  shows "sendOutcome p t fs t' (Some e')"
proof -
  have p1: "p < length (store t1)"
    using assms(1,5) by (simp add: reserved_def)
  note n = nextSeq_effect [OF assms(2) p1]
  have p2: "p < length (store t2)"
    using n(4) p1 by simp
  note k = keepsData_obj [OF assms(3) p2]
  have cc: "cc_sent (st_sendCredit (obj t3 p)) = cc_sent (st_sendCredit (obj t p)) + 1"
    using k(2) n(2) assms(1) by (simp add: reserved_def)
  have pos: "0 < cc_sent (st_sendCredit (obj t3 p))"
    using assms(6) by (simp add: cc word_gt_0_no word_less_nat_alt unat_Suc_word)
  have sq: "st_sendSeq (obj t3 p) = seq" "seq = st_sendSeq (obj t p) + 1"
    using k(1) n(1,2) assms(1) by (simp_all add: reserved_def)
  note h = handleSendErr_effect [OF assms(8) k(4) pos sq(1)]
  show ?thesis
    using h sq cc n(3) assms(1,4,7) by (intro sendOutcome_none) (auto simp: reserved_def)
qed

lemma sendOutcome_sent:
  assumes "sentPart p t fs (length fs) t'" "st_sendSeq (obj t' p) = st_sendSeq (obj t p) + of_nat (length fs)"
    "cc_sent (st_sendCredit (obj t' p)) = cc_sent (st_sendCredit (obj t p)) + 1"
  shows "sendOutcome p t fs t' None"
  using assms by (auto simp: sendOutcome_def)

lemma sendPlain_outcome:
  assumes "sendPlain p env pl t = (t', Some res)" "p < length (store t)"
    "Suc (unat (cc_sent (st_sendCredit (obj t p)))) < 2 ^ 64"
  shows "sendOutcome p t [(FrameStreamMsg, pl)] t' res"
proof -
  obtain t1 r where a: "admit p (creditWaits env) t = (t1, r)"
    by fastforce
  note ad = admit_effect [OF a assms(2)]
  show ?thesis
  proof (cases "r = Some None")
    case False
    then have "t' = t1" "res \<noteq> None"
      using assms(1) a by (auto simp: sendPlain_def split: option.splits)
    then show ?thesis
      using ad False assms(2) sendOutcome_stays by auto
  next
    case True
    then have rs: "reserved p t t1"
      using ad by simp
    have p1: "p < length (store t1)"
      using rs assms(2) by (simp add: reserved_def)
    obtain t2 seq where n: "nextSeq p t1 = (t2, seq)"
      by fastforce
    note ns = nextSeq_effect [OF n p1]
    obtain t3 r3 where f: "sendFragment p (first env) pl seq FrameStreamMsg t2 = (t3, r3)"
      by fastforce
    note fe = sendFragment_effect [OF f isData_simps(5)]
    have p2: "p < length (store t2)"
      using ns(4) p1 by simp
    show ?thesis
    proof (cases r3)
      case None
      then have e: "t' = t3" "res = None"
        using assms(1) a True n f by (auto simp: sendPlain_def)
      show ?thesis
        unfolding e
        using fe None ns rs keepsData_obj [OF fe(1) p2]
        by (intro sendOutcome_sent) (auto simp: sentPart_def reserved_def)
    next
      case (Some e)
      obtain t4 e4 where h: "handleSendErr p (callerErr (first env)) e seq (cancelAnswer (first env)) t3 = (t4, e4)"
        by fastforce
      have "t' = t4" "res = Some e4"
        using assms(1) a True n f Some h by (auto simp: sendPlain_def)
      then show ?thesis
        using sendOutcome_first [OF rs n fe(1) _ assms(2,3) _ h] fe(2) Some by simp
    qed
  qed
qed

lemma sendOutcome_train:
  assumes "reserved p t t1" "nextSeq p t1 = (t2, seq)" "keepsData t2 t3" "dataSent t3 = dataSent t2 @ [(k, b, seq)]"
    "p < length (store t)" "trainResult p t3 fs t' (Some res)" "fs \<noteq> []"
  shows "sendOutcome p t ((k, b) # fs) t' res"
proof -
  have p1: "p < length (store t1)"
    using assms(1,5) by (simp add: reserved_def)
  note n = nextSeq_effect [OF assms(2) p1]
  have p2: "p < length (store t2)"
    using n(4) p1 by simp
  note ko = keepsData_obj [OF assms(3) p2]
  have d: "dataSent t3 = dataSent t @ [(k, b, st_sendSeq (obj t p) + 1)]"
    and sq: "st_sendSeq (obj t3 p) = st_sendSeq (obj t p) + 1"
    and cc: "cc_sent (st_sendCredit (obj t3 p)) = cc_sent (st_sendCredit (obj t p)) + 1"
    using assms(1,4) n ko by (simp_all add: reserved_def)
  obtain m where m: "sentPart p t3 fs m t'"
    "case res of
       None \<Rightarrow> m = length fs \<and> st_sendSeq (obj t' p) = st_sendSeq (obj t3 p) + of_nat m
     | Some e \<Rightarrow> m < length fs \<and> broken p t' e"
    using assms(6) unfolding trainResult_def option.case(2) by blast
  have s: "sentPart p t ((k, b) # fs) (Suc m) t'"
    by (rule sentPart_cons [OF d sq m(1)])
  have c': "cc_sent (st_sendCredit (obj t' p)) = cc_sent (st_sendCredit (obj t p)) + 1"
    using assms(6) cc by (simp add: trainResult_def)
  show ?thesis
  proof (cases res)
    case None
    then show ?thesis
      using s m(2) sq c' sendOutcome_sent [of p t "(k, b) # fs" t'] by simp
  next
    case (Some e)
    then show ?thesis
      unfolding sendOutcome_def using s m(2) by (intro exI [of _ "Suc m"]) simp
  qed
qed

lemma trainBody_outcome:
  assumes "trainBody p env pl limit t1 = (t', Some res)" "reserved p t t1" "p < length (store t)"
    "Suc (unat (cc_sent (st_sendCredit (obj t p)))) < 2 ^ 64" "0 < limit" "limit < length pl"
  shows "sendOutcome p t (frags limit pl) t' res"
proof -
  have p1: "p < length (store t1)"
    using assms(2,3) by (simp add: reserved_def)
  obtain t2 seq where n: "nextSeq p t1 = (t2, seq)"
    by fastforce
  note ns = nextSeq_effect [OF n p1]
  have p2: "p < length (store t2)"
    using ns(4) p1 by simp
  let ?a = "first env"
  obtain t3 r3 where f: "sendFragment p ?a (take limit pl) seq FrameStreamChunk t2 = (t3, r3)"
    by fastforce
  note fe = sendFragment_effect [OF f isData_simps(6)]
  have p3: "p < length (store t3)"
    using keepsData_obj(4) [OF fe(1) p2] .
  consider (over) "(of_nat (length pl) :: u64) > ucast (Ceiling (chunkPolicy t2))"
    | (roll) e where "\<not> (of_nat (length pl) :: u64) > ucast (Ceiling (chunkPolicy t2))" "r3 = Some e" "isRollbackEligible e"
    | (fail) e where "\<not> (of_nat (length pl) :: u64) > ucast (Ceiling (chunkPolicy t2))" "r3 = Some e" "\<not> isRollbackEligible e"
    | (go) "\<not> (of_nat (length pl) :: u64) > ucast (Ceiling (chunkPolicy t2))" "r3 = None"
    by blast
  then show ?thesis
  proof cases
    case over
    obtain t4 e4 where h: "handleSendErr p (callerErr ?a) {ErrPayloadTooLarge} seq (cancelAnswer ?a) t2 = (t4, e4)"
      by fastforce
    have "t' = t4" "res = Some e4"
      using assms(1) n over h by (auto simp: trainBody_def)
    then show ?thesis
      using sendOutcome_first [OF assms(2) n keepsData_refl refl assms(3,4) frags_not_Nil h] by simp
  next
    case roll
    obtain t4 e4 where h: "handleSendErr p (callerErr ?a) e seq (cancelAnswer ?a) t3 = (t4, e4)"
      by fastforce
    have "t' = t4" "res = Some e4"
      using assms(1,6) n roll f h by (auto simp: trainBody_def sendFirstFragment_def)
    then show ?thesis
      using sendOutcome_first [OF assms(2) n fe(1) _ assms(3,4) frags_not_Nil h] fe(2) roll by simp
  next
    case fail
    obtain t4 e4 where v: "failVisibleTrain p ?a e t3 = (t4, e4)"
      by fastforce
    note fv = failVisibleTrain_ends [OF p3 v]
    have e: "t' = t4" "res = Some e4"
      using assms(1,6) n fail f v by (auto simp: trainBody_def sendFirstFragment_def)
    have "\<not> isLive (obj t4 p) \<or> \<not> (NeverPublished e4 \<or> isCtxErr e4)"
      using v fail terminate_ends [OF p3] ctxTerminal_ends(1) [OF p3]
      by (auto simp: failVisibleTrain_def mapCancelToTerminal_def Let_def isRollbackEligible_def split: if_splits)
    then show ?thesis
      unfolding e using fv fe(2) fail ns(3) assms(2)
      by (intro sendOutcome_none) (auto simp: stays_keeps reserved_def)
  next
    case go
    then have run: "sendRest p (later env) limit pl limit 1 t3 = (t', Some res)"
      using assms(1,6) n f by (auto simp: trainBody_def sendFirstFragment_def)
    from sendRest_result [OF this p3 assms(5,6)]
    have "sendOutcome p t ((FrameStreamChunk, take limit pl) # frags limit (drop limit pl)) t' res"
      using go fe(2) by (intro sendOutcome_train [OF assms(2) n fe(1) _ assms(3)]) simp_all
    then show ?thesis
      using assms(5,6) by (simp add: frags_long)
  qed
qed

lemma sendChunked_outcome:
  assumes "sendChunked p env pl t = (t', Some res)" "p < length (store t)"
    "Suc (unat (cc_sent (st_sendCredit (obj t p)))) < 2 ^ 64"
    "unat (SendInline (chunkPolicy t)) < length pl"
  shows "sendOutcome p t (frags (unat (SendInline (chunkPolicy t))) pl) t' res"
proof -
  let ?L = "unat (SendInline (chunkPolicy t))"
  obtain t1 r where a: "admit p (creditWaits env) t = (t1, r)"
    by fastforce
  note ad = admit_effect [OF a assms(2)]
  consider (zero) "?L = 0" | (refused) "?L \<noteq> 0" "r \<noteq> Some None" | (go) "?L \<noteq> 0" "r = Some None"
    by blast
  then show ?thesis
  proof cases
    case zero
    then have "t' = t" "res = Some {ErrPayloadTooLarge}"
      using assms(1) by (simp_all add: sendChunked_def)
    then show ?thesis
      using sendOutcome_stays [OF stay.every_refl _ assms(2)] by simp
  next
    case refused
    then have "t' = t1" "res \<noteq> None"
      using assms(1) a by (auto simp: sendChunked_def Let_def split: option.splits)
    then show ?thesis
      using ad refused assms(2) sendOutcome_stays by auto
  next
    case go
    then have "trainBody p env pl ?L t1 = (t', Some res)" "reserved p t t1"
      using assms(1) a ad by (auto simp: sendChunked_def Let_def)
    then show ?thesis
      using go assms(2-4) by (intro trainBody_outcome) auto
  qed
qed


text \<open>A message of five bytes over a limit of two: a train of three fragments.\<close>

definition sampleTable :: StreamTable where
  "sampleTable =
     (NewStreamTable 4 \<lparr>Active = True, Ceiling = 64, SendInline = 2, RecvInline = 2\<rparr>)
       \<lparr>store := [newStream 0 7 ClientStream
                   \<lparr>Credits = 4, cfg_Deadline = 1000, cfg_Service = 1, cfg_Method = 2, Shape = BidiStreaming,
                    OpenPayload = [], ParentErr = None\<rparr>],
        streams := [7 \<mapsto> 0]\<rparr>"

definition calmAttempt :: attempt where
  "calmAttempt = \<lparr>at_now = 10, during = [], answer = None, callerErr = None, cancelAnswer = None, waiting = [],
     retryArm = RetryTimer\<rparr>"

definition sampleEnv :: send_env where
  "sampleEnv = \<lparr>entryErr = None, creditWaits = [], first = calmAttempt, later = (\<lambda>_. [calmAttempt])\<rparr>"

lemma sample_send: "snd (SendMsg 0 sampleEnv [1, 2, 3, 4, 5] sampleTable) = Some None"
  by code_simp


end
