(* ===== verification/Stream_Registry.thy ===== *)
theory Stream_Registry
  imports Stream_Send
begin

text \<open>
  The table of live streams: every live stream is found under its call ID and under no other, an entry names
  a stream with that call ID, and only the terminal transition of a stream takes its entry away. The open
  streams never exceed the table's cap.
\<close>

section \<open>Who changes the table\<close>

named_theorems registry_simps \<open>operations that leave the table entries and the cap alone\<close>

definition entries :: "StreamTable \<Rightarrow> (u64 \<rightharpoonup> nat) \<times> int" where
  "entries t = (streams t, maxOpen t)"

lemma entries_fields [registry_simps, simp]:
  "entries (upd p f t) = entries t" "entries (t\<lparr>tbl_closed := b\<rparr>) = entries t" "entries (t\<lparr>finishers := n\<rparr>) = entries t"
  "entries (t\<lparr>armQueue := q\<rparr>) = entries t" "entries (t\<lparr>emitCh := e\<rparr>) = entries t" "entries (t\<lparr>fatalErr := x\<rparr>) = entries t"
  "entries (t\<lparr>drained := d\<rparr>) = entries t" "entries (t\<lparr>discarded := k\<rparr>) = entries t"
  "entries (t\<lparr>obligations := ob\<rparr>) = entries t" "entries (t\<lparr>tbl_panicked := b\<rparr>) = entries t"
  "entries (t\<lparr>tbl_spins := b\<rparr>) = entries t" "entries (t\<lparr>connCancelled := b\<rparr>) = entries t"
  "entries (trSend fr r t) = entries t"
  by (simp_all add: entries_def trSend_def)

lemma entries_emitter [registry_simps, simp]:
  "entries (closeObligation c t) = entries t" "entries (failIfConnLive e t) = entries t"
  "entries (onCancelPublishFailed e t) = entries t" "entries (fst (enqueueEmit j t)) = entries t"
  "entries (fst (emitStreamErr c st r t)) = entries t" "entries (emitTeardownErr p k t) = entries t"
  "entries (casArmed p t) = entries t" "entries (arm p t) = entries t" "entries (finisherDone t) = entries t"
  "entries (discard t) = entries t" "entries (sendTeardownCancel p res t) = entries t"
  by (auto simp: closeObligation_def failIfConnLive_def failConn_def onCancelPublishFailed_def enqueueEmit_def
      emitStreamErr_def emitTeardownErr_def emitTeardownErrKeepObligation_def casArmed_def arm_def appendArm_def
      finisherDone_def discard_def sendTeardownCancel_def Let_def split: option.splits)

lemma entries_claim [registry_simps, simp]:
  "entries (fst (claimToken p need t)) = entries t" "entries (fst (finishClaim p locally presend t)) = entries t"
  by (auto simp: claimToken_def finishClaim_def Let_def split: option.splits)

lemma entries_finishEmit [registry_simps, simp]: "entries (finishEmit p locally presend sub t) = entries t"
proof -
  have "entries t' = entries t" if "emitStreamErr d st r t = (t', b)" for d st r t' b
    using entries_emitter(5) [of d st r t] that by simp
  then show ?thesis
    by (auto simp: finishEmit_def Let_def split: option.splits prod.splits bool.splits)
qed

lemma entries_finishClose [registry_simps, simp]: "entries (finishClose p t) = entries t"
  by (simp add: finishClose_def)

lemma entries_reArm [registry_simps, simp]:
  "entries (reArmAfterBackoff p t) = entries t" "entries (runEmitter res t) = entries t"
  by (auto simp: reArmAfterBackoff_def runEmitter_def Let_def split: list.splits)

lemma entries_fold: "(\<And>x t. entries (f x t) = entries t) \<Longrightarrow> entries (fold f xs t) = entries t"
  by (induction xs arbitrary: t) simp_all

lemma entries_drained [registry_simps, simp]: "entries (ReaderDrained order t) = entries t"
  unfolding ReaderDrained_def by (subst entries_fold) (simp_all add: armOwing_def)

lemma entries_ack [registry_simps, simp]:
  "entries (fst (ackTake p t)) = entries t" "entries (ackSettle p v res t) = entries t"
  "entries (fst (ackRelease p ok t)) = entries t"
  by (auto simp: ackTake_def ackSettle_def ackRelease_def Let_def split: option.splits lifecycle_token.splits)

lemma entries_releaseAck [registry_simps, simp]:
  "entries (releaseAckToken p ok cres t) = entries t" "entries (serveAck p res cres t) = entries t"
proof -
  show "entries (releaseAckToken p ok cres t) = entries t" for ok t
  proof -
    obtain t1 b where 1: "ackRelease p ok t = (t1, b)"
      by fastforce
    then have "entries t1 = entries t"
      using entries_ack(3) [of p ok t] by simp
    then show ?thesis
      by (simp add: releaseAckToken_def 1 split: bool.splits)
  qed
  then show "entries (serveAck p res cres t) = entries t"
    by (simp add: serveAck_def Let_def)
qed

lemma entries_runAck [registry_simps, simp]: "entries (runAckDispatch res cres t) = entries t"
proof (cases "armQueue t")
  case (Cons p q)
  obtain t1 b where 1: "ackTake p (t\<lparr>armQueue := q\<rparr>) = (t1, b)"
    by fastforce
  then have "entries t1 = entries t"
    using entries_ack(1) [of p "t\<lparr>armQueue := q\<rparr>"] by simp
  then show ?thesis
    by (simp add: runAckDispatch_def popArm_def Cons 1 split: bool.splits)
qed (simp add: runAckDispatch_def popArm_def)

lemma entries_onLocal [registry_simps, simp]: "entries (fst (onLocal p h t)) = entries t"
  by (simp add: onLocal_def split: prod.splits)

lemma entries_finishRemove: "entries (finishRemove p t) = ((streams t)(st_callID (obj t p) := None), maxOpen t)"
  by (simp add: finishRemove_def) (simp add: entries_def remove_def)

lemma entries_finishTerminal:
  assumes "p < length (store t)"
  shows "entries (finishTerminal p locally presend res t) = ((streams t)(st_callID (obj t p) := None), maxOpen t)"
proof -
  obtain t1 b where c: "finishClaim p locally presend t = (t1, b)"
    by fastforce
  let ?t2 = "if b then sendTeardownCancel p res t1 else t1"
  let ?t3 = "finishClose p (finishEmit p locally presend b ?t2)"
  have e: "entries ?t3 = entries t"
    using entries_claim(2) [of p locally presend t] c by simp
  have "stays t t1"
    using stay.every_finishClaim [of t p locally presend] c by simp
  then have "stays t ?t2"
    using stay.every_trans [OF _ stay.every_sendTeardownCancel] by simp
  then have "stays t ?t3"
    using stay.every_trans [OF stay.every_trans [OF _ stay.every_finishEmit] stay.every_finishClose] by blast
  then have "st_callID (obj ?t3 p) = st_callID (obj t p)"
    using assms by (simp add: every_def stays_s_def)
  moreover have "streams ?t3 = streams t" "maxOpen ?t3 = maxOpen t"
    using e by (simp_all only: entries_def prod.inject)
  moreover have "finishTerminal p locally presend res t = finishRemove p ?t3"
    by (simp add: finishTerminal_def c Let_def)
  ultimately show ?thesis
    by (simp only: entries_finishRemove)
qed

section \<open>The registry\<close>

definition registry :: "StreamTable \<Rightarrow> bool" where
  "registry t \<longleftrightarrow>
     (\<forall>p < length (store t). isLive (obj t p) \<longrightarrow> streams t (st_callID (obj t p)) = Some p) \<and>
     (\<forall>c p. streams t c = Some p \<longrightarrow> p < length (store t) \<and> st_callID (obj t p) = c) \<and>
     finite (dom (streams t)) \<and> int (card (dom (streams t))) \<le> max 0 (maxOpen t)"

lemma stays_live: "stays t t' \<Longrightarrow> p < length (store t) \<Longrightarrow> isLive (obj t' p) \<Longrightarrow> isLive (obj t p)"
  by (auto simp: every_def stays_s_def isLive_def)

lemma stays_callID: "stays t t' \<Longrightarrow> p < length (store t) \<Longrightarrow> st_callID (obj t' p) = st_callID (obj t p)"
  by (simp add: every_def stays_s_def)

lemma registry_same:
  assumes "registry t" "stays t t'" "entries t' = entries t"
  shows "registry t'"
proof -
  have e: "streams t' = streams t" "maxOpen t' = maxOpen t" "length (store t') = length (store t)"
    using assms(2,3) by (simp_all add: entries_def every_def)
  show ?thesis
    using assms(1) stays_live [OF assms(2)] stays_callID [OF assms(2)] unfolding registry_def e by metis
qed

lemma registry_remove:
  assumes "registry t" "stays t t'" "p < length (store t)" "isLive (obj t p)" "\<not> isLive (obj t' p)"
    "entries t' = ((streams t)(st_callID (obj t p) := None), maxOpen t)"
  shows "registry t'"
proof -
  let ?c = "st_callID (obj t p)"
  have e: "streams t' = (streams t)(?c := None)" "maxOpen t' = maxOpen t" "length (store t') = length (store t)"
    using assms(2,6) by (simp_all add: entries_def every_def)
  have at: "streams t ?c = Some p"
    using assms(1,3,4) by (simp add: registry_def)
  have live: "streams t' (st_callID (obj t' q)) = Some q" if "q < length (store t')" "isLive (obj t' q)" for q
  proof -
    have q: "q < length (store t)"
      using that e by simp
    have "streams t (st_callID (obj t q)) = Some q"
      using assms(1) q stays_live [OF assms(2) q that(2)] by (simp add: registry_def)
    moreover have "q \<noteq> p"
      using that(2) assms(5) by auto
    ultimately show ?thesis
      using stays_callID [OF assms(2) q] at by (auto simp: e)
  qed
  have entry: "q < length (store t') \<and> st_callID (obj t' q) = c" if "streams t' c = Some q" for c q
  proof -
    have "streams t c = Some q"
      using that by (simp add: e split: if_splits)
    then show ?thesis
      using assms(1) stays_callID [OF assms(2)] by (auto simp: registry_def e)
  qed
  have "card (dom (streams t')) \<le> card (dom (streams t))"
    using assms(1) by (intro card_mono) (auto simp: registry_def e)
  then have "finite (dom (streams t'))" "int (card (dom (streams t'))) \<le> max 0 (maxOpen t')"
    using assms(1) by (auto simp: registry_def e)
  with live entry show ?thesis
    unfolding registry_def by blast
qed

lemma registry_finish:
  assumes "registry t" "casTerminal p oc code from t = (t1, True, pre)" "set from \<subseteq> set livePhases"
    "p < length (store t)"
  shows "registry (finishTerminal p locally pre res t1)"
proof -
  have "isLive (obj t p) \<and> \<not> isLive (obj t1 p) \<and> entries t1 = entries t \<and> p < length (store t1)"
    using assms(2)
  proof (cases rule: casTerminal_cases)
    case won
    have "\<not> isLive (obj t1 p)"
      using assms(4) isLive_terminal [where s = "obj t p" and c = "oc_Code oc"]
      by (simp add: won(4) discardRecvAccum_def isLive_def)
    then show ?thesis
      using won assms(3,4) by (auto simp: isLive_def)
  qed simp
  then have w: "isLive (obj t p)" "\<not> isLive (obj t1 p)" "entries t1 = entries t" "p < length (store t1)"
    by blast+
  have s1: "stays t t1"
    by (rule stay.every_casTerminal [OF assms(2,3)])
  have s2: "stays t1 (finishTerminal p locally pre res t1)"
    by (rule stay.every_finishTerminal)
  have c: "st_callID (obj t1 p) = st_callID (obj t p)"
    by (rule stays_callID [OF s1 assms(4)])
  show ?thesis
  proof (rule registry_remove [OF assms(1) stay.every_trans [OF s1 s2] assms(4) w(1)])
    show "\<not> isLive (obj (finishTerminal p locally pre res t1) p)"
      using stays_live [OF s2 w(4)] w(2) by blast
    show "entries (finishTerminal p locally pre res t1) = ((streams t)(st_callID (obj t p) := None), maxOpen t)"
      using entries_finishTerminal [OF w(4)] w(3) c by (simp add: entries_def)
  qed
qed

lemma casTerminal_lost: "casTerminal p oc code from t = (t1, False, pre) \<Longrightarrow> t1 = t"
  by (erule casTerminal_cases) simp_all

lemma registry_terminate:
  assumes "registry t" "set from \<subseteq> set livePhases" "p < length (store t)"
  shows "registry (fst (terminate p oc code locally from res t))"
proof -
  obtain t1 w pre where c: "casTerminal p oc code from t = (t1, w, pre)"
    by (metis prod_cases3)
  show ?thesis
    using registry_finish [OF assms(1) _ assms(2,3)] casTerminal_lost [of p oc code "from" t t1 pre] c assms(1)
    by (cases w) (simp_all add: terminate_def)
qed

lemma registry_terminateLocked:
  assumes "registry t" "p < length (store t)"
  shows "registry (terminateLocked p oc t)"
proof -
  obtain t1 w pre where c: "casTerminal p oc 0 livePhases t = (t1, w, pre)"
    by (metis prod_cases3)
  show ?thesis
    using registry_finish [OF assms(1) _ _ assms(2)] casTerminal_lost [of p oc 0 livePhases t t1 pre] c assms(1)
    by (cases w) (simp_all add: terminateLocked_def del: casTerminal.simps)
qed

lemma registry_onStreamClose:
  assumes "registry t" "p < length (store t)"
  shows "registry (fst (onStreamClose p f t))"
proof -
  obtain s1 b1 where 1: "setCloseBit closeRemoteBit (obj t p) = (s1, b1)"
    by fastforce
  obtain s2 b2 where 2: "deliverTrailer (fr_Payload f) s1 = (s2, b2)"
    by fastforce
  have u1: "stays_s (obj t p) s1"
    using stay.R_setCloseBit [of "obj t p" closeRemoteBit] 1 by simp
  have u2: "stays_s (obj t p) s2"
    using stay.R_trans [OF u1 stay.R_deliverTrailer] 2 by (metis fst_conv)
  have r: "registry (upd p (\<lambda>_. s) t)" if "stays_s (obj t p) s" for s
    using that by (intro registry_same [OF assms(1)] stay.every_upd) simp_all
  have "registry (signalEOF p s2 t)"
    using r [OF u2] r [OF stay.R_trans [OF u2 stay.R_recvClosed]] registry_terminateLocked assms(2)
      registry_same [OF r [OF u2] stay.every_same(10)]
    by (simp add: signalEOF_def Let_def)
  then show ?thesis
    using r [OF u1] r [OF u2] assms(1) by (simp add: onStreamClose_def 1 2 split: bool.splits)
qed

lemma registry_Dispatch:
  assumes "registry t"
  shows "registry (fst (Dispatch f t))"
proof -
  let ?t = "t\<lparr>drained := False\<rparr>"
  have r: "registry ?t"
    by (rule registry_same [OF assms stay.every_same(7)]) simp
  have sack: "stays ?t (fst (onLocal p (onStreamAck f) ?t))" for p
  proof (rule stay.every_onLocal)
    show "stays_s s (fst (onStreamAck f s))" for s
      using replenishStrict_window(1) [of "st_sendCredit s" "fr_Control f"]
      by (auto simp: onStreamAck_def replenishStrict_def stays_s_def notifySend_def isLive_def Let_def)
  qed
  have loc: "registry (fst (onLocal p (onStreamMsg c f) ?t))" "registry (fst (onLocal p (onStreamChunk c f) ?t))"
    "registry (fst (onLocal p (onStreamAck f) ?t))" "registry (discard ?t)" for p c
    by (rule registry_same [OF r], simp_all add: stay.every_onLocal stay.R_onStreamMsg stay.R_onStreamChunk sack
        stay.every_finisher)+
  show ?thesis
  proof (cases "streams t (fr_CallID f)")
    case (Some p)
    then have "p < length (store ?t)"
      using assms by (simp add: registry_def)
    with registry_onStreamClose [OF r this] registry_terminateLocked [OF r this] loc r Some show ?thesis
      by (simp add: Dispatch_def Let_def Lookup_def onStreamErr_def)
  qed (simp add: Dispatch_def Let_def Lookup_def loc)
qed

lemma registry_DispatchTeardownCancel:
  assumes "registry t"
  shows "registry (fst (DispatchTeardownCancel c code t))"
proof (cases "streams t c")
  case None
  then show ?thesis
    by (simp add: DispatchTeardownCancel_def Lookup_def registry_same [OF assms stay.every_finisher(4)])
next
  case (Some p)
  then have "p < length (store t)"
    using assms by (simp add: registry_def)
  with Some registry_terminateLocked [OF assms this] assms show ?thesis
    by (simp add: DispatchTeardownCancel_def Lookup_def registry_same [OF assms stay.every_finisher(4)])
qed

lemma registry_failOne:
  assumes "registry t" "p < length (store t)"
  shows "registry (failOne e e' p t)"
proof -
  let ?oc = "\<lambda>x. \<lparr>oc_Code = OutcomeCrashed, oc_Err = Some x\<rparr>"
  obtain t1 w where c: "terminate p (?oc e') 0 False [streamSubmitted] None t = (t1, w)"
    by fastforce
  have r: "registry t1" "length (store t1) = length (store t)"
    using registry_terminate [of t "[streamSubmitted]" p "?oc e'" 0 False None] assms c
      stay.every_terminate [of "[streamSubmitted]" t p "?oc e'" 0 False None] by (simp_all add: every_def)
  then show ?thesis
    using registry_terminate [of t1 "[streamPublished]" p "?oc e" 0 False None] assms(2) c
    by (cases w) (simp_all add: failOne_def)
qed

lemma registry_act:
  assumes "registry t" "p < length (store t)"
  shows "registry (act p a t)"
proof (cases a)
  case (ActInbound f)
  then show ?thesis
    using registry_Dispatch [OF assms(1)] by simp
next
  case (ActTeardownCancel c code)
  then show ?thesis
    using registry_DispatchTeardownCancel [OF assms(1)] by simp
next
  case (ActTerminate oc code locally res)
  then show ?thesis
    using registry_terminate [OF assms(1) _ assms(2)] by simp
next
  case (ActFail e e')
  then show ?thesis
    using registry_failOne [OF assms] by simp
next
  case ActPublish
  then show ?thesis
    by (intro registry_same [OF assms(1) stays_act]) simp
qed (intro registry_same [OF assms(1) stays_act]; simp)+

lemma registry_acts:
  assumes "registry t" "p < length (store t)"
  shows "registry (acts p as t)"
  using assms
proof (induction as arbitrary: t)
  case (Cons a as)
  have "length (store (act p a t)) = length (store t)"
    using stays_act [of t p a] by (simp add: every_def)
  then have "registry (acts p as (act p a t))"
    using Cons.prems by (intro Cons.IH) (simp_all add: registry_act)
  then show ?case
    by (simp add: acts_def)
qed (simp add: acts_def)

lemma registry_admit:
  assumes "registry t" "admitStream now c side cfg w sp t = (t', Ok p)"
  shows "registry t'" "streams t' c = Some p" "isLive (obj t' p)" "length (store t') = Suc (length (store t))"
proof -
  let ?s = "let s = newStream now c side cfg;
               s = (if sp then s\<lparr>st_openSendPending := True\<rparr> else s) in
               (if w then beginDeadlineWatch s else s)"
  have ok: "streams t c = None" "int (card (dom (streams t))) < maxOpen t" "p = length (store t)"
    "t' = openObligation c (t\<lparr>store := store t @ [?s], streams := (streams t)(c \<mapsto> p)\<rparr>)"
    using assms(2) by (auto simp: admitStream_def Let_def split: if_splits)
  have s: "st_callID ?s = c" "isLive ?s"
    by (auto simp: newStream_def freshStream_def isLive_def beginDeadlineWatch_def Let_def split: StreamSide.splits)
  have t': "streams t' = (streams t)(c \<mapsto> p)" "maxOpen t' = maxOpen t" "store t' = store t @ [?s]"
    by (simp_all add: ok(4) openObligation_def)
  show "streams t' c = Some p" "isLive (obj t' p)" "length (store t') = Suc (length (store t))"
    using s by (simp_all add: t' ok(3))
  have "card (dom (streams t')) = Suc (card (dom (streams t)))"
    using assms(1) ok(1) by (simp add: t' registry_def card_insert_if domIff)
  moreover have "streams t' (st_callID (obj t' q)) = Some q" if "q < length (store t')" "isLive (obj t' q)" for q
    using that s(1) ok(1,3) assms(1) unfolding t' registry_def
    by (cases "q = length (store t)") (auto simp: nth_append)
  moreover have "q < length (store t') \<and> st_callID (obj t' q) = d" if "streams t' d = Some q" for d q
    using that s(1) ok(1,3) assms(1) unfolding t' registry_def
    by (cases "d = c") (auto simp: nth_append less_Suc_eq)
  ultimately show "registry t'"
    using assms(1) ok(2) unfolding registry_def by (simp add: t')
qed

end
