(* ===== verification/Stream_Flow.thy ===== *)
theory Stream_Flow
  imports Stream_Registry
begin

text \<open>
  One direction of a stream between two connections: the sender's table, the receiver's table, the data lane
  that carries frames one way and the lifecycle lane that carries acknowledgements the other way, both in
  order. Every goroutine of either side may step at any time. The receiver gets exactly the messages that
  were admitted, whole and in order, and neither side ever reports the other as non-conformant.
\<close>

section \<open>The system\<close>

text \<open>
  \<open>fl_todo\<close> are the fragments of the message being sent that have not gone out yet and \<open>fl_first\<close> says that
  none of them has, \<open>fl_ack\<close> is the value of the acknowledgement being published, \<open>fl_sent\<close> the messages
  admitted and \<open>fl_got\<close> those delivered to the receiving application, \<open>fl_faults\<close> the errors either side's
  dispatch returned.
\<close>

record flow =
  fl_A :: StreamTable
  fl_B :: StreamTable
  fl_data :: "Frame list"
  fl_acks :: "Frame list"
  fl_todo :: "(byte \<times> byte list) list"
  fl_first :: bool
  fl_ack :: "u64 option"
  fl_sent :: "byte list list"
  fl_got :: "byte list list"
  fl_faults :: "err list"

text \<open>A message the sender does not refuse outright: one that is chunked must fit the ceiling.\<close>

definition sendable :: "ChunkPolicy \<Rightarrow> byte list \<Rightarrow> bool" where
  "sendable policy m \<longleftrightarrow>
     (Active policy \<and> length m > unat (SendInline policy) \<longrightarrow>
        0 < unat (SendInline policy) \<and> length m \<le> unat (Ceiling policy))"

definition faultsOf :: "err option \<Rightarrow> err list" where
  "faultsOf e = (case e of None \<Rightarrow> [] | Some x \<Rightarrow> [x])"

text \<open>
  The steps. A send is cut at its fragments, as \<open>SendMsg\<close> is; a publication of an acknowledgement at the
  transport's answer. The sending call respects the one-sender rule. The system is followed as long as the
  64-bit counters have not wrapped.
\<close>

inductive flow_step :: "nat \<Rightarrow> nat \<Rightarrow> flow \<Rightarrow> flow \<Rightarrow> bool" for pa pb where
  admit_msg: "fl_todo d = [] \<Longrightarrow> \<not> st_sendClosed (obj (fl_A d) pa) \<Longrightarrow> sendable (chunkPolicy (fl_A d)) m \<Longrightarrow>
     Suc (unat (cc_sent (st_sendCredit (obj (fl_A d) pa)))) < 2 ^ 64 \<Longrightarrow>
     reserve (st_sendCredit (obj (fl_A d) pa)) = (c, True) \<Longrightarrow>
     flow_step pa pb d (d\<lparr>fl_A := upd pa (\<lambda>s. s\<lparr>st_sendCredit := c\<rparr>) (fl_A d),
       fl_todo := splitMsg (chunkPolicy (fl_A d)) m, fl_first := True, fl_sent := fl_sent d @ [m]\<rparr>)"
| send_frag: "fl_todo d = (k, b) # rest \<Longrightarrow> nextSeq pa (fl_A d) = (A', seq) \<Longrightarrow>
     flow_step pa pb d (d\<lparr>fl_A := A', fl_todo := rest, fl_first := False,
       fl_data := fl_data d @ [msgFrame now k b seq (obj (fl_A d) pa)]\<rparr>)"
| refused: "fl_first d \<Longrightarrow> fl_todo d \<noteq> [] \<Longrightarrow> nextSeq pa (fl_A d) = (A', seq) \<Longrightarrow>
     flow_step pa pb d (d\<lparr>fl_A := upd pa (rollbackSend seq) A', fl_todo := [], fl_sent := butlast (fl_sent d)\<rparr>)"
| half_close: "fl_todo d = [] \<Longrightarrow> \<not> st_sendClosed (obj (fl_A d) pa) \<Longrightarrow>
     flow_step pa pb d (d\<lparr>fl_A := upd pa commitClose (fl_A d), fl_data := fl_data d @ [closeFrame pl (obj (fl_A d) pa)]\<rparr>)"
| receive: "fl_data d = f # rest \<Longrightarrow> Dispatch f (fl_B d) = (B', e) \<Longrightarrow>
     flow_step pa pb d (d\<lparr>fl_B := B', fl_data := rest, fl_faults := fl_faults d @ faultsOf e\<rparr>)"
| deliver: "drainOne pb (fl_B d) = (B', Some it) \<Longrightarrow>
     flow_step pa pb d (d\<lparr>fl_B := B', fl_got := fl_got d @ (if credited it then [payload it] else [])\<rparr>)"
| ack_send: "fl_ack d = None \<Longrightarrow> ackTake pb (fl_B d) = (B', True) \<Longrightarrow>
     flow_step pa pb d (d\<lparr>fl_B := trSend (ackFrame (obj B' pb)) None B', fl_acks := fl_acks d @ [ackFrame (obj B' pb)],
       fl_ack := Some (consumedCount (st_recvCredit (obj B' pb)))\<rparr>)"
| ack_done: "fl_ack d = Some v \<Longrightarrow>
     flow_step pa pb d (d\<lparr>fl_B := releaseAckToken pb True cres (ackSettle pb v None (fl_B d)), fl_ack := None\<rparr>)"
| ack_fail: "fl_ack d = None \<Longrightarrow> ackTake pb (fl_B d) = (B', True) \<Longrightarrow>
     flow_step pa pb d (d\<lparr>fl_B := serveAck pb (Some e) cres B'\<rparr>)"
| ack_drop: "ackTake pb (fl_B d) = (B', False) \<Longrightarrow> flow_step pa pb d (d\<lparr>fl_B := B'\<rparr>)"
| receive_ack: "fl_acks d = f # rest \<Longrightarrow> Dispatch f (fl_A d) = (A', e) \<Longrightarrow>
     flow_step pa pb d (d\<lparr>fl_A := A', fl_acks := rest, fl_faults := fl_faults d @ faultsOf e\<rparr>)"
| other_A: "(\<And>f. a = ActInbound f \<Longrightarrow> fr_Kind f \<noteq> FrameStreamAck) \<Longrightarrow>
     flow_step pa pb d (d\<lparr>fl_A := act pa a (fl_A d)\<rparr>)"
| other_B: "housekeeping a \<Longrightarrow> flow_step pa pb d (d\<lparr>fl_B := act pb a (fl_B d)\<rparr>)"

inductive flow_run :: "nat \<Rightarrow> nat \<Rightarrow> flow \<Rightarrow> flow \<Rightarrow> bool" for pa pb where
  flow_refl: "flow_run pa pb d d"
| flow_trans: "flow_run pa pb d d' \<Longrightarrow> flow_step pa pb d' d'' \<Longrightarrow> flow_run pa pb d d''"

section \<open>Messages in flight\<close>

fun reasm :: "byte list \<Rightarrow> (byte \<times> byte list) list \<Rightarrow> byte list list" where
  "reasm acc [] = []"
| "reasm acc ((k, b) # fs) = (if k = FrameStreamChunk then reasm (acc @ b) fs else (acc @ b) # reasm [] fs)"

text \<open>\<open>legal L ceil acc fs\<close>: a receiver that holds \<open>acc\<close> accepts the fragments \<open>fs\<close>, which end on a whole message.\<close>

fun legal :: "nat \<Rightarrow> nat \<Rightarrow> byte list \<Rightarrow> (byte \<times> byte list) list \<Rightarrow> bool" where
  "legal L ceil acc [] \<longleftrightarrow> acc = []"
| "legal L ceil acc ((k, b) # fs) \<longleftrightarrow>
     (if k = FrameStreamChunk then b \<noteq> [] \<and> length b = L \<and> length acc + length b \<le> ceil \<and> legal L ceil (acc @ b) fs
      else k = FrameStreamMsg \<and> (acc \<noteq> [] \<longrightarrow> b \<noteq> [] \<and> length b \<le> L \<and> length acc + length b \<le> ceil) \<and>
        legal L ceil [] fs)"

lemma legal_frags:
  assumes "0 < L" "length acc + length buf \<le> ceil" "buf \<noteq> []"
  shows "legal L ceil acc (frags L buf @ fs) \<longleftrightarrow> legal L ceil [] fs"
    "reasm acc (frags L buf @ fs) = (acc @ buf) # reasm [] fs"
proof -
  have "(legal L ceil acc (frags L buf @ fs) \<longleftrightarrow> legal L ceil [] fs) \<and>
    reasm acc (frags L buf @ fs) = (acc @ buf) # reasm [] fs"
    using assms
  proof (induction L buf arbitrary: acc rule: frags.induct)
    case (1 L buf)
    show ?case
    proof (cases "length buf \<le> L")
      case True
      then show ?thesis
        using "1.prems" by (simp add: frags_short)
    next
      case False
      have "length (acc @ take L buf) + length (drop L buf) \<le> ceil" "drop L buf \<noteq> []" "take L buf \<noteq> []"
        "length (take L buf) = L" "length acc + L \<le> ceil"
        using "1.prems" False by auto
      then show ?thesis
        using "1.IH" [of "acc @ take L buf"] "1.prems"(1) False by (simp add: frags_long)
    qed
  qed
  then show "legal L ceil acc (frags L buf @ fs) \<longleftrightarrow> legal L ceil [] fs"
    "reasm acc (frags L buf @ fs) = (acc @ buf) # reasm [] fs"
    by blast+
qed

lemma legal_split:
  assumes "sendable policy m" "unat (SendInline policy) = L" "unat (Ceiling policy) = ceil"
  shows "legal L ceil [] (splitMsg policy m @ fs) \<longleftrightarrow> legal L ceil [] fs"
    "reasm [] (splitMsg policy m @ fs) = m # reasm [] fs"
proof -
  have "(legal L ceil [] (splitMsg policy m @ fs) \<longleftrightarrow> legal L ceil [] fs) \<and>
    reasm [] (splitMsg policy m @ fs) = m # reasm [] fs"
  proof (cases "Active policy \<and> length m > unat (SendInline policy)")
    case True
    then have "0 < L" "length ([] :: byte list) + length m \<le> ceil" "m \<noteq> []"
      using assms by (auto simp: sendable_def)
    from legal_frags [OF this] show ?thesis
      using True assms(2) by (simp add: splitMsg_def)
  qed (auto simp: splitMsg_def)
  then show "legal L ceil [] (splitMsg policy m @ fs) \<longleftrightarrow> legal L ceil [] fs"
    "reasm [] (splitMsg policy m @ fs) = m # reasm [] fs"
    by blast+
qed

lemma legal_append:
  "legal L ceil acc fs \<Longrightarrow> legal L ceil acc (fs @ gs) \<longleftrightarrow> legal L ceil [] gs"
  "legal L ceil acc fs \<Longrightarrow> reasm acc (fs @ gs) = reasm acc fs @ reasm [] gs"
  by (induction acc fs rule: reasm.induct) (auto split: if_splits)

section \<open>What other goroutines leave of the two halves\<close>

definition sendSide :: "Stream \<Rightarrow> Stream \<Rightarrow> bool" where
  "sendSide s s' \<longleftrightarrow> stays_s s s' \<and> st_sendCredit s' = st_sendCredit s"

interpretation sending: sender_rely sendSide
  by unfold_locales (auto simp: sendSide_def stays_s_def isLive_def)

definition recvSide :: "Stream \<Rightarrow> Stream \<Rightarrow> bool" where
  "recvSide s s' \<longleftrightarrow>
     st_callID s' = st_callID s \<and> st_recvCredit s' = st_recvCredit s \<and> st_recvCh s' = st_recvCh s \<and>
     st_recvCap s' = st_recvCap s \<and> st_expectedSeq s' = st_expectedSeq s \<and> st_closeBits s' = st_closeBits s \<and>
     (isLive s' \<longrightarrow> isLive s \<and> st_recvAccum s' = st_recvAccum s)"

interpretation receiving: stream_rely recvSide
  by unfold_locales (auto simp: recvSide_def isLive_def elim: terminalPhaseFor.elims)

section \<open>The invariant\<close>

definition kf :: "Frame \<Rightarrow> byte \<times> byte list" where
  "kf f = (fr_Kind f, fr_Payload f)"

definition queued :: "Stream \<Rightarrow> byte list list" where
  "queued s = map payload (filter credited (st_recvCh s))"

definition remoteClosed :: "Stream \<Rightarrow> bool" where
  "remoteClosed s \<longleftrightarrow> st_closeBits s AND closeRemoteBit \<noteq> 0"

text \<open>The fixed part: the two streams are the only ones with the call ID, and the ends agree on their limits.\<close>

definition paired :: "nat \<Rightarrow> nat \<Rightarrow> u64 \<Rightarrow> nat \<Rightarrow> StreamTable \<Rightarrow> StreamTable \<Rightarrow> bool" where
  "paired pa pb cid N A B \<longleftrightarrow>
     registry A \<and> registry B \<and> pa < length (store A) \<and> pb < length (store B) \<and>
     (\<forall>p < length (store A). st_callID (obj A p) = cid \<longleftrightarrow> p = pa) \<and>
     (\<forall>p < length (store B). st_callID (obj B p) = cid \<longleftrightarrow> p = pb) \<and>
     RecvInline (chunkPolicy B) = SendInline (chunkPolicy A) \<and> Ceiling (chunkPolicy B) = Ceiling (chunkPolicy A) \<and>
     st_recvCap (obj B pb) = Suc N \<and> unat (granted (st_sendCredit (obj A pa))) = N"

definition addressed :: "u64 \<Rightarrow> Frame list \<Rightarrow> Frame list \<Rightarrow> bool" where
  "addressed cid fs acks \<longleftrightarrow>
     (\<forall>f \<in> set fs. fr_CallID f = cid) \<and> (\<forall>f \<in> set acks. fr_CallID f = cid \<and> fr_Kind f = FrameStreamAck)"

text \<open>The data lane holds data frames, numbered from the receiver's next one, and after them at most the STREAM_CLOSE.\<close>

definition dataPart :: "Frame list \<Rightarrow> Frame list" where
  "dataPart fs = takeWhile (\<lambda>f. isData (fr_Kind f)) fs"

definition closePart :: "Frame list \<Rightarrow> Frame list" where
  "closePart fs = dropWhile (\<lambda>f. isData (fr_Kind f)) fs"

definition lane_ok :: "Stream \<Rightarrow> Stream \<Rightarrow> Frame list \<Rightarrow> (byte \<times> byte list) list \<Rightarrow> bool" where
  "lane_ok a b fs todo \<longleftrightarrow>
     (\<forall>kx \<in> set todo. isData (fst kx)) \<and>
     (closePart fs = [] \<or>
       (\<exists>f. closePart fs = [f] \<and> fr_Kind f = FrameStreamClose \<and> fr_Control f = st_sendSeq a) \<and> st_sendClosed a \<and> todo = []) \<and>
     (isLive b \<longrightarrow>
        (\<forall>i < length (dataPart fs). fr_Control (dataPart fs ! i) = st_expectedSeq b + of_nat i) \<and>
        st_sendSeq a + 1 = st_expectedSeq b + of_nat (length (dataPart fs))) \<and>
     (remoteClosed b \<longrightarrow> fs = [] \<and> todo = [] \<and> st_sendClosed a)"

text \<open>What has been admitted is what was delivered, what is queued, and what is under way.\<close>

definition accepts :: "ChunkPolicy \<Rightarrow> byte list \<Rightarrow> (byte \<times> byte list) list \<Rightarrow> bool" where
  "accepts policy = legal (unat (SendInline policy)) (unat (Ceiling policy))"

definition content_ok ::
  "ChunkPolicy \<Rightarrow> Stream \<Rightarrow> (byte \<times> byte list) list \<Rightarrow> (byte \<times> byte list) list \<Rightarrow> bool \<Rightarrow> byte list list \<Rightarrow> byte list list \<Rightarrow> bool" where
  "content_ok policy b lane todo fst_left sent got \<longleftrightarrow>
     (if isLive b
      then accepts policy (st_recvAccum b) (lane @ todo) \<and>
        sent = got @ queued b @ reasm (st_recvAccum b) (lane @ todo) \<and>
        (fst_left \<and> todo \<noteq> [] \<longrightarrow>
           (\<exists>m. sendable policy m \<and> todo = splitMsg policy m) \<and> accepts policy (st_recvAccum b) lane)
      else \<exists>rest. sent = got @ queued b @ rest \<and> (todo \<noteq> [] \<longrightarrow> rest \<noteq> [])) \<and>
     (if remoteClosed b then sent = got @ queued b else \<forall>it \<in> set (st_recvCh b). credited it)"

text \<open>The acknowledgements on their way increase from what the sender has seen to what the receiver published.\<close>

fun chain :: "u64 \<Rightarrow> u64 list \<Rightarrow> u64 \<Rightarrow> bool" where
  "chain lo [] hi \<longleftrightarrow> lo = hi"
| "chain lo (v # vs) hi \<longleftrightarrow> lo < v \<and> chain v vs hi"

definition latest :: "u64 option \<Rightarrow> creditCounter \<Rightarrow> u64" where
  "latest ack cb = (case ack of Some v \<Rightarrow> v | None \<Rightarrow> ackedOut cb)"

definition credit_ok ::
  "creditCounter \<Rightarrow> bool \<Rightarrow> creditCounter \<Rightarrow> bool \<Rightarrow> u64 list \<Rightarrow> u64 option \<Rightarrow> nat \<Rightarrow> nat \<Rightarrow> bool" where
  "credit_ok ca alive cb closed acks ack nsent ngot \<longleftrightarrow>
     window_ok ca \<and> owing_ok cb \<and> unat (cc_sent ca) = nsent \<and>
     unat (consumed cb) \<le> ngot \<and> (\<not> closed \<longrightarrow> unat (consumed cb) = ngot) \<and>
     latest ack cb \<le> consumed cb \<and> cc_acked ca \<le> latest ack cb \<and> ackedOut cb \<le> latest ack cb \<and>
     (alive \<longrightarrow> chain (cc_acked ca) acks (latest ack cb))"

definition flow_inv :: "nat \<Rightarrow> nat \<Rightarrow> u64 \<Rightarrow> nat \<Rightarrow> flow \<Rightarrow> bool" where
  "flow_inv pa pb cid N d \<longleftrightarrow>
     paired pa pb cid N (fl_A d) (fl_B d) \<and> addressed cid (fl_data d) (fl_acks d) \<and>
     lane_ok (obj (fl_A d) pa) (obj (fl_B d) pb) (fl_data d) (fl_todo d) \<and>
     content_ok (chunkPolicy (fl_A d)) (obj (fl_B d) pb) (map kf (dataPart (fl_data d))) (fl_todo d) (fl_first d)
       (fl_sent d) (fl_got d) \<and>
     credit_ok (st_sendCredit (obj (fl_A d) pa)) (isLive (obj (fl_A d) pa)) (st_recvCredit (obj (fl_B d) pb))
       (remoteClosed (obj (fl_B d) pb)) (map fr_Control (fl_acks d)) (fl_ack d) (length (fl_sent d)) (length (fl_got d)) \<and>
     fl_faults d = []"

lemma flow_invD:
  assumes "flow_inv pa pb cid N d"
  shows "paired pa pb cid N (fl_A d) (fl_B d)" "addressed cid (fl_data d) (fl_acks d)"
    "lane_ok (obj (fl_A d) pa) (obj (fl_B d) pb) (fl_data d) (fl_todo d)"
    "content_ok (chunkPolicy (fl_A d)) (obj (fl_B d) pb) (map kf (dataPart (fl_data d))) (fl_todo d) (fl_first d)
       (fl_sent d) (fl_got d)"
    "credit_ok (st_sendCredit (obj (fl_A d) pa)) (isLive (obj (fl_A d) pa)) (st_recvCredit (obj (fl_B d) pb))
       (remoteClosed (obj (fl_B d) pb)) (map fr_Control (fl_acks d)) (fl_ack d) (length (fl_sent d)) (length (fl_got d))"
    "fl_faults d = []" "pa < length (store (fl_A d))" "pb < length (store (fl_B d))"
  using assms by (simp_all add: flow_inv_def paired_def)

lemma isLive_fields [simp]:
  "isLive (s\<lparr>st_sendCredit := c\<rparr>) = isLive s" "isLive (s\<lparr>st_sendSeq := n\<rparr>) = isLive s"
  "isLive (s\<lparr>st_recvCredit := c\<rparr>) = isLive s" "isLive (s\<lparr>st_recvCh := q\<rparr>) = isLive s"
  "isLive (s\<lparr>st_expectedSeq := n\<rparr>) = isLive s" "isLive (s\<lparr>st_recvAccum := bs\<rparr>) = isLive s"
  "isLive (s\<lparr>st_closeBits := u\<rparr>) = isLive s" "isLive (s\<lparr>st_sendClosed := e\<rparr>) = isLive s"
  "isLive (s\<lparr>st_sendWake := e\<rparr>) = isLive s" "isLive (s\<lparr>st_sendCloseState := k\<rparr>) = isLive s"
  "isLive (s\<lparr>st_recvClosed := e\<rparr>) = isLive s" "isLive (s\<lparr>st_backoff := bo\<rparr>) = isLive s"
  by (simp_all add: isLive_def)

section \<open>Steps that touch neither half\<close>

lemma legal_reasm: "legal L ceil acc fs \<Longrightarrow> fs \<noteq> [] \<Longrightarrow> reasm acc fs \<noteq> []"
  by (induction acc fs rule: reasm.induct) (fastforce split: if_splits)+

lemma recvSide_fields:
  assumes "recvSide s s'"
  shows "st_callID s' = st_callID s" "st_recvCredit s' = st_recvCredit s" "queued s' = queued s" "st_recvCh s' = st_recvCh s"
    "st_recvCap s' = st_recvCap s" "st_expectedSeq s' = st_expectedSeq s" "remoteClosed s' = remoteClosed s"
    "isLive s' \<Longrightarrow> isLive s \<and> st_recvAccum s' = st_recvAccum s"
  using assms by (auto simp: recvSide_def queued_def remoteClosed_def)

lemma sendSide_fields:
  assumes "sendSide s s'"
  shows "st_callID s' = st_callID s" "st_sendCredit s' = st_sendCredit s" "st_sendSeq s' = st_sendSeq s"
    "st_sendClosed s' = st_sendClosed s" "isLive s' \<Longrightarrow> isLive s"
  using assms by (auto simp: sendSide_def stays_s_def isLive_def)

lemma content_rest:
  assumes "content_ok policy b lane todo fl sent got"
  shows "\<exists>rest. sent = got @ queued b @ rest \<and> (todo \<noteq> [] \<longrightarrow> rest \<noteq> [])"
proof (cases "isLive b")
  case True
  then have "accepts policy (st_recvAccum b) (lane @ todo)" "sent = got @ queued b @ reasm (st_recvAccum b) (lane @ todo)"
    using assms by (simp_all add: content_ok_def)
  then show ?thesis
    unfolding accepts_def using legal_reasm [of _ _ "st_recvAccum b" "lane @ todo"] by blast
qed (use assms in \<open>simp add: content_ok_def\<close>)

lemma content_frame:
  assumes "content_ok policy b lane todo fl sent got" "recvSide b b'"
  shows "content_ok policy b' lane todo fl sent got"
  using assms(1) content_rest [OF assms(1)] recvSide_fields [OF assms(2)] by (auto simp: content_ok_def)

lemma lane_frame:
  assumes "lane_ok a b fs todo" "sendSide a a'" "recvSide b b'"
  shows "lane_ok a' b' fs todo"
  using assms(1) recvSide_fields [OF assms(3)] sendSide_fields [OF assms(2)] by (auto simp: lane_ok_def)

lemma credit_frame:
  assumes "credit_ok ca alive cb closed acks ack ns ng" "alive' \<Longrightarrow> alive"
  shows "credit_ok ca alive' cb closed acks ack ns ng"
  using assms by (auto simp: credit_ok_def)

lemma every_obj: "every R t t' \<Longrightarrow> p < length (store t) \<Longrightarrow> R (obj t p) (obj t' p)"
  by (simp add: every_def)

lemma paired_frame:
  assumes "paired pa pb cid N A B" "every sendSide A A'" "registry A'" "every recvSide B B'" "registry B'"
  shows "paired pa pb cid N A' B'"
proof -
  have e: "length (store A') = length (store A)" "chunkPolicy A' = chunkPolicy A"
    "\<And>p. p < length (store A) \<Longrightarrow> st_callID (obj A' p) = st_callID (obj A p)"
    "\<And>p. p < length (store A) \<Longrightarrow> st_sendCredit (obj A' p) = st_sendCredit (obj A p)"
    using assms(2) by (auto simp: every_def sendSide_def stays_s_def)
  have f: "length (store B') = length (store B)" "chunkPolicy B' = chunkPolicy B"
    "\<And>p. p < length (store B) \<Longrightarrow> st_callID (obj B' p) = st_callID (obj B p)"
    "\<And>p. p < length (store B) \<Longrightarrow> st_recvCap (obj B' p) = st_recvCap (obj B p)"
    using assms(4) by (auto simp: every_def recvSide_def)
  show ?thesis
    using assms(1,3,5) by (simp add: paired_def e f)
qed

lemma registry_upd:
  assumes "registry t" "st_callID (f (obj t p)) = st_callID (obj t p)" "isLive (f (obj t p)) \<Longrightarrow> isLive (obj t p)"
  shows "registry (upd p f t)"
  using assms by (auto simp: registry_def obj_upd)

lemma paired_A:
  assumes "paired pa pb cid N A B" "st_callID (f (obj A pa)) = st_callID (obj A pa)"
    "isLive (f (obj A pa)) \<Longrightarrow> isLive (obj A pa)"
    "granted (st_sendCredit (f (obj A pa))) = granted (st_sendCredit (obj A pa))"
  shows "paired pa pb cid N (upd pa f A) B"
  using assms registry_upd [of A f pa] by (auto simp: paired_def obj_upd)

lemma paired_B:
  assumes "paired pa pb cid N A B" "st_callID (f (obj B pb)) = st_callID (obj B pb)"
    "isLive (f (obj B pb)) \<Longrightarrow> isLive (obj B pb)" "st_recvCap (f (obj B pb)) = st_recvCap (obj B pb)"
  shows "paired pa pb cid N A (upd pb f B)"
  using assms registry_upd [of B f pb] by (auto simp: paired_def obj_upd)

lemma flow_frame:
  assumes "flow_inv pa pb cid N d" "every sendSide (fl_A d) A'" "registry A'" "every recvSide (fl_B d) B'" "registry B'"
  shows "flow_inv pa pb cid N (d\<lparr>fl_A := A', fl_B := B'\<rparr>)"
proof -
  have p: "pa < length (store (fl_A d))" "pb < length (store (fl_B d))" "paired pa pb cid N (fl_A d) (fl_B d)"
    using assms(1) by (simp_all add: flow_inv_def paired_def)
  have r: "recvSide (obj (fl_B d) pb) (obj B' pb)" "sendSide (obj (fl_A d) pa) (obj A' pa)"
    using every_obj [OF assms(4) p(2)] every_obj [OF assms(2) p(1)] by simp_all
  have c: "chunkPolicy A' = chunkPolicy (fl_A d)"
    using assms(2) by (simp add: every_def)
  show ?thesis
    using assms(1) paired_frame [OF p(3) assms(2-5)] lane_frame [OF _ r(2,1)] content_frame [OF _ r(1)]
      credit_frame [OF _ sendSide_fields(5) [OF r(2)]]
    by (simp add: flow_inv_def sendSide_fields(2) [OF r(2)] recvSide_fields(2,7) [OF r(1)] c)
qed

lemmas flow_frame_A = flow_frame [OF _ _ _ receiving.every_refl]
lemmas flow_frame_B = flow_frame [OF _ sending.every_refl]

section \<open>The sender's steps\<close>

lemma content_admit:
  assumes "content_ok policy b lane [] fl sent got" "sendable policy m" "\<not> remoteClosed b"
  shows "content_ok policy b lane (splitMsg policy m) True (sent @ [m]) got"
proof (cases "isLive b")
  case True
  let ?acc = "st_recvAccum b"
  have a: "legal (unat (SendInline policy)) (unat (Ceiling policy)) ?acc lane"
    and s: "sent = got @ queued b @ reasm ?acc lane"
    using assms(1) True by (simp_all add: content_ok_def accepts_def)
  have "legal (unat (SendInline policy)) (unat (Ceiling policy)) ?acc (lane @ splitMsg policy m)"
    "reasm ?acc (lane @ splitMsg policy m) = reasm ?acc lane @ [m]"
    using legal_append [OF a, of "splitMsg policy m"] legal_split [OF assms(2) refl refl, of "[]"] by simp_all
  then show ?thesis
    using assms True a s by (auto simp: content_ok_def accepts_def)
next
  case False
  then obtain rest where "sent = got @ queued b @ rest"
    using assms(1) by (auto simp: content_ok_def)
  then show ?thesis
    using assms(1,3) False by (auto simp: content_ok_def)
qed

lemma content_refused:
  assumes "content_ok policy b lane todo True sent got" "todo \<noteq> []" "\<not> remoteClosed b"
  shows "content_ok policy b lane [] fl (butlast sent) got"
proof (cases "isLive b")
  case True
  let ?acc = "st_recvAccum b"
  obtain m where m: "sendable policy m" "todo = splitMsg policy m"
    and a: "legal (unat (SendInline policy)) (unat (Ceiling policy)) ?acc lane"
    and s: "sent = got @ queued b @ reasm ?acc (lane @ todo)"
    using assms True by (auto simp: content_ok_def accepts_def)
  have "reasm ?acc (lane @ todo) = reasm ?acc lane @ [m]"
    using legal_append(2) [OF a] legal_split(2) [OF m(1) refl refl, of "[]"] m(2) by simp
  then show ?thesis
    using assms(1,3) True a s by (simp add: content_ok_def accepts_def butlast_append)
next
  case False
  then obtain rest where "sent = got @ queued b @ rest" "rest \<noteq> []"
    using assms by (auto simp: content_ok_def)
  then have "butlast sent = got @ queued b @ butlast rest"
    by (simp add: butlast_append)
  then show ?thesis
    using assms(1,3) False by (auto simp: content_ok_def)
qed

lemma content_send:
  assumes "content_ok policy b lane ((k, x) # rest) fl sent got"
  shows "content_ok policy b (lane @ [(k, x)]) rest False sent got"
  using assms by (auto simp: content_ok_def)

lemma splitMsg_kind: "kx \<in> set (splitMsg policy m) \<Longrightarrow> isData (fst kx)"
proof -
  have "kx \<in> set (frags L buf) \<Longrightarrow> isData (fst kx)" for L buf
  proof (induction L buf rule: frags.induct)
    case (1 L buf)
    then show ?case
      by (cases "length buf \<le> L \<or> L = 0") (auto simp: frags.simps [of L buf] isData_def)
  qed
  then show "kx \<in> set (splitMsg policy m) \<Longrightarrow> isData (fst kx)"
    by (auto simp: splitMsg_def isData_def split: if_splits)
qed

lemma step_admit:
  assumes "flow_inv pa pb cid N d" "fl_todo d = []" "\<not> st_sendClosed (obj (fl_A d) pa)" "sendable (chunkPolicy (fl_A d)) m"
    "Suc (unat (cc_sent (st_sendCredit (obj (fl_A d) pa)))) < 2 ^ 64" "reserve (st_sendCredit (obj (fl_A d) pa)) = (c, True)"
  shows "flow_inv pa pb cid N (d\<lparr>fl_A := upd pa (\<lambda>s. s\<lparr>st_sendCredit := c\<rparr>) (fl_A d),
       fl_todo := splitMsg (chunkPolicy (fl_A d)) m, fl_first := True, fl_sent := fl_sent d @ [m]\<rparr>)"
proof -
  let ?ca = "st_sendCredit (obj (fl_A d) pa)"
  note i = flow_invD [OF assms(1)]
  have c: "c = ?ca\<lparr>cc_sent := cc_sent ?ca + 1\<rparr>"
    using assms(6) by (auto simp: reserve_def split: if_splits)
  have w: "window_ok ?ca"
    using i(5) by (simp add: credit_ok_def)
  have u: "unat (cc_sent ?ca + 1) = Suc (unat (cc_sent ?ca))"
    using assms(5) by (intro unat_Suc_word) simp
  have "paired pa pb cid N (upd pa (\<lambda>s. s\<lparr>st_sendCredit := c\<rparr>) (fl_A d)) (fl_B d)"
    using i(1) by (intro paired_A) (simp_all add: c)
  moreover have "lane_ok ((obj (fl_A d) pa)\<lparr>st_sendCredit := c\<rparr>) (obj (fl_B d) pb) (fl_data d) (splitMsg (chunkPolicy (fl_A d)) m)"
    using i(3) assms(2,3) splitMsg_kind by (auto simp: lane_ok_def)
  moreover have "content_ok (chunkPolicy (fl_A d)) (obj (fl_B d) pb) (map kf (dataPart (fl_data d)))
      (splitMsg (chunkPolicy (fl_A d)) m) True (fl_sent d @ [m]) (fl_got d)"
    using content_admit [OF _ assms(4)] i(3,4) assms(2,3) by (simp add: lane_ok_def)
  ultimately show ?thesis
    using i reserve_window(1) [OF w assms(5,6)] u by (simp add: flow_inv_def credit_ok_def c)
qed

lemma dataPart_append:
  assumes "closePart fs = []"
  shows "isData (fr_Kind f) \<Longrightarrow> dataPart (fs @ [f]) = dataPart fs @ [f]" "isData (fr_Kind f) \<Longrightarrow> closePart (fs @ [f]) = []"
    "\<not> isData (fr_Kind f) \<Longrightarrow> dataPart (fs @ [f]) = dataPart fs" "\<not> isData (fr_Kind f) \<Longrightarrow> closePart (fs @ [f]) = [f]"
proof -
  have all: "\<forall>x \<in> set fs. isData (fr_Kind x)"
    using assms by (simp add: closePart_def)
  then have "dataPart (fs @ gs) = fs @ dataPart gs" "closePart (fs @ gs) = closePart gs" for gs
    by (simp_all add: dataPart_def closePart_def takeWhile_append2 dropWhile_append2)
  note p = this [of "[f]"] this(1) [of "[]"]
  have e: "dataPart [] = []" "dataPart [f] = (if isData (fr_Kind f) then [f] else [])"
    "closePart [f] = (if isData (fr_Kind f) then [] else [f])"
    by (simp_all add: dataPart_def closePart_def)
  show "isData (fr_Kind f) \<Longrightarrow> dataPart (fs @ [f]) = dataPart fs @ [f]" "isData (fr_Kind f) \<Longrightarrow> closePart (fs @ [f]) = []"
    "\<not> isData (fr_Kind f) \<Longrightarrow> dataPart (fs @ [f]) = dataPart fs" "\<not> isData (fr_Kind f) \<Longrightarrow> closePart (fs @ [f]) = [f]"
    using p by (simp_all add: e)
qed

lemma lane_send:
  assumes "lane_ok a b fs ((k, x) # rest)" "fr_Kind f = k" "fr_Control f = st_sendSeq a + 1"
  shows "lane_ok (a\<lparr>st_sendSeq := st_sendSeq a + 1\<rparr>) b (fs @ [f]) rest"
    "dataPart (fs @ [f]) = dataPart fs @ [f]"
proof -
  have c: "closePart fs = []" "isData (fr_Kind f)"
    using assms by (auto simp: lane_ok_def)
  note p = dataPart_append(1,2) [OF c]
  show "dataPart (fs @ [f]) = dataPart fs @ [f]"
    by (rule p(1))
  show "lane_ok (a\<lparr>st_sendSeq := st_sendSeq a + 1\<rparr>) b (fs @ [f]) rest"
    using assms p by (auto simp: lane_ok_def nth_append less_Suc_eq)
qed

lemma step_send:
  assumes "flow_inv pa pb cid N d" "fl_todo d = (k, x) # rest" "nextSeq pa (fl_A d) = (A', seq)"
  shows "flow_inv pa pb cid N (d\<lparr>fl_A := A', fl_todo := rest, fl_first := False,
       fl_data := fl_data d @ [msgFrame now k x seq (obj (fl_A d) pa)]\<rparr>)"
proof -
  let ?a = "obj (fl_A d) pa"
  let ?f = "msgFrame now k x seq ?a"
  note i = flow_invD [OF assms(1)]
  have A: "A' = upd pa (\<lambda>s. s\<lparr>st_sendSeq := st_sendSeq ?a + 1\<rparr>) (fl_A d)" "seq = st_sendSeq ?a + 1"
    using assms(3) by (auto simp: nextSeq_def Let_def)
  have l: "lane_ok ?a (obj (fl_B d) pb) (fl_data d) ((k, x) # rest)"
    using i(3) assms(2) by simp
  note l = lane_send [OF this, of ?f]
  have f: "fr_Kind ?f = k" "fr_Control ?f = st_sendSeq ?a + 1" "kf ?f = (k, x)" "fr_CallID ?f = cid"
    using i(1,7) by (simp_all add: msgFrame_def A(2) kf_def paired_def)
  have "paired pa pb cid N A' (fl_B d)"
    unfolding A(1) using i(1) by (intro paired_A) simp_all
  moreover have "content_ok (chunkPolicy (fl_A d)) (obj (fl_B d) pb) (map kf (dataPart (fl_data d @ [?f]))) rest False
      (fl_sent d) (fl_got d)"
    using content_send i(4) assms(2) l(2) [OF f(1,2)] f(3) by simp
  moreover have "addressed cid (fl_data d @ [?f]) (fl_acks d)"
    using i(2) f(4) by (auto simp: addressed_def)
  ultimately show ?thesis
    using i l(1) [OF f(1,2)] by (simp add: flow_inv_def A(1))
qed

lemma credit_refused:
  assumes "credit_ok ca alive cb closed acks ack n ng" "ng < n"
  shows "credit_ok (release ca) alive cb closed acks ack (n - 1) ng" "granted (release ca) = granted ca"
proof -
  have le: "unat (cc_acked ca) \<le> ng" "unat (cc_sent ca) = n" "window_ok ca"
    using assms(1) by (auto simp: credit_ok_def word_le_nat_alt)
  then have o: "0 < outstanding ca" "cc_sent ca > 0"
    using assms(2) by (auto simp: outstanding_def word_less_nat_alt)
  have "unat (cc_sent ca - 1) = n - 1"
    using le(2) o(2) by (subst unat_minus_one) auto
  then show "credit_ok (release ca) alive cb closed acks ack (n - 1) ng"
    using assms(1) release_window(1) [OF le(3) o(1)] o(2) by (simp add: credit_ok_def release_def)
  show "granted (release ca) = granted ca"
    by (simp add: release_def)
qed

lemma step_refused:
  assumes "flow_inv pa pb cid N d" "fl_first d" "fl_todo d \<noteq> []" "nextSeq pa (fl_A d) = (A', seq)"
  shows "flow_inv pa pb cid N (d\<lparr>fl_A := upd pa (rollbackSend seq) A', fl_todo := [], fl_sent := butlast (fl_sent d)\<rparr>)"
proof -
  let ?a = "obj (fl_A d) pa"
  note i = flow_invD [OF assms(1)]
  have A: "A' = upd pa (\<lambda>s. s\<lparr>st_sendSeq := st_sendSeq ?a + 1\<rparr>) (fl_A d)" "seq = st_sendSeq ?a + 1"
    using assms(4) by (auto simp: nextSeq_def Let_def)
  have o: "obj (upd pa (rollbackSend seq) A') pa = ?a\<lparr>st_sendCredit := release (st_sendCredit ?a)\<rparr>"
    using i(7) by (simp add: A rollbackSend_def)
  have "length (fl_got d) < length (fl_sent d)"
    using content_rest [OF i(4)] assms(3) by auto
  note c = credit_refused [OF i(5) this]
  have "paired pa pb cid N A' (fl_B d)"
    unfolding A(1) using i(1) by (intro paired_A) simp_all
  then have "paired pa pb cid N (upd pa (rollbackSend seq) A') (fl_B d)"
    using c(2) i(7) by (intro paired_A) (simp_all add: rollbackSend_def A(1))
  moreover have "lane_ok (?a\<lparr>st_sendCredit := release (st_sendCredit ?a)\<rparr>) (obj (fl_B d) pb) (fl_data d) []"
    using i(3) by (auto simp: lane_ok_def)
  moreover have "content_ok (chunkPolicy (fl_A d)) (obj (fl_B d) pb) (map kf (dataPart (fl_data d))) [] (fl_first d)
      (butlast (fl_sent d)) (fl_got d)"
    using content_refused i(3,4) assms(2,3) by (simp add: lane_ok_def)
  moreover have "chunkPolicy (upd pa (rollbackSend seq) A') = chunkPolicy (fl_A d)"
    by (simp add: A(1))
  ultimately show ?thesis
    using i c(1) o by (simp add: flow_inv_def)
qed

lemma commitClose_fields [simp]:
  "st_callID (commitClose s) = st_callID s" "isLive (commitClose s) = isLive s" "st_sendCredit (commitClose s) = st_sendCredit s"
  "st_sendSeq (commitClose s) = st_sendSeq s" "st_sendClosed (commitClose s)"
  by (simp_all add: commitClose_def notifySend_def setCloseBit_def)

lemma step_close:
  assumes "flow_inv pa pb cid N d" "fl_todo d = []" "\<not> st_sendClosed (obj (fl_A d) pa)"
  shows "flow_inv pa pb cid N
    (d\<lparr>fl_A := upd pa commitClose (fl_A d), fl_data := fl_data d @ [closeFrame pl (obj (fl_A d) pa)]\<rparr>)"
proof -
  let ?a = "obj (fl_A d) pa"
  let ?f = "closeFrame pl ?a"
  note i = flow_invD [OF assms(1)]
  have f: "\<not> isData (fr_Kind ?f)" "fr_Kind ?f = FrameStreamClose" "fr_Control ?f = st_sendSeq ?a" "fr_CallID ?f = cid"
    using i(1,7) by (simp_all add: closeFrame_def paired_def)
  have c: "closePart (fl_data d) = []"
    using i(3) assms(3) by (auto simp: lane_ok_def)
  note p = dataPart_append(3,4) [OF c f(1)]
  have "paired pa pb cid N (upd pa commitClose (fl_A d)) (fl_B d)"
    using i(1) by (intro paired_A) simp_all
  moreover have "addressed cid (fl_data d @ [?f]) (fl_acks d)"
    using i(2) f(4) by (auto simp: addressed_def)
  moreover have "lane_ok (commitClose ?a) (obj (fl_B d) pb) (fl_data d @ [?f]) []"
    using i(3) assms(2,3) f p by (auto simp: lane_ok_def)
  ultimately show ?thesis
    using i assms(2) p by (simp add: flow_inv_def)
qed

section \<open>The receiver's steps\<close>

lemma accumFits_nat:
  assumes "n + m \<le> unat (c :: u32)"
  shows "accumFits (of_nat n) (of_nat m) c"
proof -
  have "n + m < 2 ^ 64"
    using assms unat_u32_less [of c] by simp
  then have "unat (of_nat n + of_nat m :: u64) = n + m"
    by (simp add: unat_of_nat take_bit_nat_eq_self_iff flip: of_nat_add)
  then show ?thesis
    using assms by (simp add: accumFits_def word_le_nat_alt)
qed

lemma lane_data:
  assumes "lane_ok a b (f # rest) todo" "isLive b" "isData (fr_Kind f)"
  shows "\<not> remoteClosed b" "fr_Control f = st_expectedSeq b" "dataPart (f # rest) = f # dataPart rest"
    "isLive b' = isLive b \<Longrightarrow> remoteClosed b' = remoteClosed b \<Longrightarrow> st_expectedSeq b' = st_expectedSeq b + 1 \<Longrightarrow>
      lane_ok a b' rest todo"
proof -
  have p: "dataPart (f # rest) = f # dataPart rest" "closePart (f # rest) = closePart rest"
    using assms(3) by (simp_all add: dataPart_def closePart_def)
  have n: "\<forall>j < Suc (length (dataPart rest)). fr_Control ((f # dataPart rest) ! j) = st_expectedSeq b + of_nat j"
    "st_sendSeq a + 1 = st_expectedSeq b + of_nat (Suc (length (dataPart rest)))"
    using assms(1,2) p by (simp_all add: lane_ok_def)
  show r: "\<not> remoteClosed b" "dataPart (f # rest) = f # dataPart rest"
    using assms(1,2) p by (auto simp: lane_ok_def)
  show "fr_Control f = st_expectedSeq b"
    using n(1) [rule_format, of 0] by simp
  have "fr_Control (dataPart rest ! j) = st_expectedSeq b + 1 + of_nat j" if "j < length (dataPart rest)" for j
    using n(1) [rule_format, of "Suc j"] that by (simp add: add.assoc)
  then show "isLive b' = isLive b \<Longrightarrow> remoteClosed b' = remoteClosed b \<Longrightarrow> st_expectedSeq b' = st_expectedSeq b + 1 \<Longrightarrow>
      lane_ok a b' rest todo"
    using assms(1,2) r n(2) p by (auto simp: lane_ok_def add.assoc)
qed

lemma content_chunk:
  assumes "content_ok policy b ((FrameStreamChunk, x) # lane) todo fl sent got" "isLive b" "\<not> remoteClosed b"
  shows "x \<noteq> []" "length x = unat (SendInline policy)" "length (st_recvAccum b) + length x \<le> unat (Ceiling policy)"
    "content_ok policy (b\<lparr>st_expectedSeq := n, st_recvAccum := st_recvAccum b @ x\<rparr>) lane todo fl sent got"
  using assms by (auto simp: content_ok_def accepts_def queued_def remoteClosed_def)

lemma content_msg:
  assumes "content_ok policy b ((FrameStreamMsg, x) # lane) todo fl sent got" "isLive b" "\<not> remoteClosed b"
  shows "st_recvAccum b \<noteq> [] \<Longrightarrow> x \<noteq> [] \<and> length x \<le> unat (SendInline policy) \<and>
      length (st_recvAccum b) + length x \<le> unat (Ceiling policy)"
    "length got + length (queued b) < length sent"
    "content_ok policy (b\<lparr>st_expectedSeq := n, st_recvAccum := [],
       st_recvCh := st_recvCh b @ [\<lparr>payload = st_recvAccum b @ x, credited = True\<rparr>]\<rparr>) lane todo fl sent got"
  using assms by (auto simp: content_ok_def accepts_def queued_def remoteClosed_def)

text \<open>The credit window bounds what the receiver may hold.\<close>

lemma credit_room:
  assumes "credit_ok ca alive cb False acks ack ns ng" "unat (granted ca) = N"
  shows "ns \<le> N + ng"
proof -
  have "unat (cc_acked ca) \<le> ng" "unat (cc_sent ca) = ns" "window_ok ca"
    using assms(1) by (auto simp: credit_ok_def word_le_nat_alt)
  then show ?thesis
    using assms(2) by (auto simp: window_ok_def outstanding_def)
qed

lemma queue_room:
  assumes "flow_inv pa pb cid N d" "\<not> remoteClosed (obj (fl_B d) pb)"
  shows "length (st_recvCh (obj (fl_B d) pb)) = length (queued (obj (fl_B d) pb))"
    "length (fl_sent d) \<le> N + length (fl_got d)"
proof -
  note i = flow_invD [OF assms(1)]
  have "filter credited (st_recvCh (obj (fl_B d) pb)) = st_recvCh (obj (fl_B d) pb)"
    using i(4) assms(2) by (simp add: content_ok_def)
  then show "length (st_recvCh (obj (fl_B d) pb)) = length (queued (obj (fl_B d) pb))"
    by (simp add: queued_def)
  show "length (fl_sent d) \<le> N + length (fl_got d)"
    using credit_room i(1,5) assms(2) by (simp add: paired_def)
qed

lemma inv_B:
  assumes "flow_inv pa pb cid N d" "fl_data d = f # rest" "st_callID b' = st_callID (obj (fl_B d) pb)"
    "isLive b' \<Longrightarrow> isLive (obj (fl_B d) pb)" "st_recvCap b' = st_recvCap (obj (fl_B d) pb)"
    "st_recvCredit b' = st_recvCredit (obj (fl_B d) pb)" "remoteClosed (obj (fl_B d) pb) \<Longrightarrow> remoteClosed b'"
    "lane_ok (obj (fl_A d) pa) b' rest (fl_todo d)"
    "content_ok (chunkPolicy (fl_A d)) b' (map kf (dataPart rest)) (fl_todo d) (fl_first d) (fl_sent d) (fl_got d)"
  shows "flow_inv pa pb cid N (d\<lparr>fl_B := upd pb (\<lambda>_. b') (fl_B d), fl_data := rest\<rparr>)"
proof -
  note i = flow_invD [OF assms(1)]
  have "paired pa pb cid N (fl_A d) (upd pb (\<lambda>_. b') (fl_B d))"
    using i(1) assms by (intro paired_B) simp_all
  moreover have "addressed cid rest (fl_acks d)"
    using i(2) assms(2) by (simp add: addressed_def)
  moreover have "credit_ok (st_sendCredit (obj (fl_A d) pa)) (isLive (obj (fl_A d) pa)) (st_recvCredit b')
       (remoteClosed b') (map fr_Control (fl_acks d)) (fl_ack d) (length (fl_sent d)) (length (fl_got d))"
    using i(5) assms(6,7) by (auto simp: credit_ok_def)
  ultimately show ?thesis
    using i assms(8,9) by (simp add: flow_inv_def)
qed

lemma receive_chunk:
  assumes "flow_inv pa pb cid N d" "fl_data d = f # rest" "isLive (obj (fl_B d) pb)" "fr_Kind f = FrameStreamChunk"
  shows "\<exists>s. onStreamChunk (chunkPolicy (fl_B d)) f (obj (fl_B d) pb) = (s, None) \<and>
    flow_inv pa pb cid N (d\<lparr>fl_B := upd pb (\<lambda>_. s) (fl_B d), fl_data := rest\<rparr>)"
proof -
  let ?b = "obj (fl_B d) pb"
  let ?s = "?b\<lparr>st_expectedSeq := st_expectedSeq ?b + 1, st_recvAccum := st_recvAccum ?b @ fr_Payload f\<rparr>"
  note i = flow_invD [OF assms(1)]
  have p: "RecvInline (chunkPolicy (fl_B d)) = SendInline (chunkPolicy (fl_A d))"
    "Ceiling (chunkPolicy (fl_B d)) = Ceiling (chunkPolicy (fl_A d))"
    using i(1) by (simp_all add: paired_def)
  have l: "lane_ok (obj (fl_A d) pa) ?b (f # rest) (fl_todo d)" "isData (fr_Kind f)"
    using i(3) assms(2,4) by (simp_all add: isData_def)
  note l' = lane_data [OF l(1) assms(3) l(2)]
  have "content_ok (chunkPolicy (fl_A d)) ?b ((FrameStreamChunk, fr_Payload f) # map kf (dataPart rest)) (fl_todo d)
      (fl_first d) (fl_sent d) (fl_got d)"
    using i(4) assms(2,4) l'(3) by (simp add: kf_def)
  note c = content_chunk [OF this assms(3) l'(1)]
  have "(of_nat (length (fr_Payload f)) :: u64) = ucast (RecvInline (chunkPolicy (fl_B d)))"
    unfolding p c(2) by simp
  then have "onStreamChunk (chunkPolicy (fl_B d)) f ?b = (?s, None)"
    using c(1,3) l'(1,2) accumFits_nat [OF c(3)]
    by (simp add: onStreamChunk_def Let_def p remoteClosed_def)
  moreover have "flow_inv pa pb cid N (d\<lparr>fl_B := upd pb (\<lambda>_. ?s) (fl_B d), fl_data := rest\<rparr>)"
    using assms(1,2) l'(4) c(4) by (intro inv_B) (simp_all add: remoteClosed_def)
  ultimately show ?thesis
    by blast
qed

lemma receive_msg:
  assumes "flow_inv pa pb cid N d" "fl_data d = f # rest" "isLive (obj (fl_B d) pb)" "fr_Kind f = FrameStreamMsg"
  shows "\<exists>s. onStreamMsg (chunkPolicy (fl_B d)) f (obj (fl_B d) pb) = (s, None) \<and>
    flow_inv pa pb cid N (d\<lparr>fl_B := upd pb (\<lambda>_. s) (fl_B d), fl_data := rest\<rparr>)"
proof -
  let ?b = "obj (fl_B d) pb"
  let ?s = "?b\<lparr>st_expectedSeq := st_expectedSeq ?b + 1, st_recvAccum := [],
    st_recvCh := st_recvCh ?b @ [\<lparr>payload = st_recvAccum ?b @ fr_Payload f, credited = True\<rparr>]\<rparr>"
  note i = flow_invD [OF assms(1)]
  have p: "RecvInline (chunkPolicy (fl_B d)) = SendInline (chunkPolicy (fl_A d))"
    "Ceiling (chunkPolicy (fl_B d)) = Ceiling (chunkPolicy (fl_A d))" "st_recvCap ?b = Suc N"
    using i(1) by (simp_all add: paired_def)
  have l: "lane_ok (obj (fl_A d) pa) ?b (f # rest) (fl_todo d)" "isData (fr_Kind f)"
    using i(3) assms(2,4) by (simp_all add: isData_def)
  note l' = lane_data [OF l(1) assms(3) l(2)]
  have "content_ok (chunkPolicy (fl_A d)) ?b ((FrameStreamMsg, fr_Payload f) # map kf (dataPart rest)) (fl_todo d)
      (fl_first d) (fl_sent d) (fl_got d)"
    using i(4) assms(2,4) l'(3) by (simp add: kf_def)
  note c = content_msg [OF this assms(3) l'(1)]
  have room: "length (st_recvCh ?b) < st_recvCap ?b"
    using queue_room [OF assms(1) l'(1)] c(2) p(3) by simp
  have "onStreamMsg (chunkPolicy (fl_B d)) f ?b = (?s, None)"
  proof (cases "st_recvAccum ?b = []")
    case True
    then show ?thesis
      using l'(1,2) room by (simp add: onStreamMsg_def acceptMsg_def enqueueItem_def remoteClosed_def)
  next
    case False
    note c1 = c(1) [OF this]
    have "\<not> (of_nat (length (fr_Payload f)) :: u64) > ucast (SendInline (chunkPolicy (fl_A d)))"
      using c1 unat_u32_less [of "SendInline (chunkPolicy (fl_A d))"]
      by (simp add: word_less_nat_alt unat_of_nat take_bit_nat_eq_self_iff not_less)
    then show ?thesis
      using False c1 l'(1,2) room accumFits_nat
      by (simp add: onStreamMsg_def completeRecvAccum_def acceptMsg_def enqueueItem_def remoteClosed_def Let_def p)
  qed
  moreover have "flow_inv pa pb cid N (d\<lparr>fl_B := upd pb (\<lambda>_. ?s) (fl_B d), fl_data := rest\<rparr>)"
    using assms(1,2) l'(4) c(3) by (intro inv_B) (simp_all add: remoteClosed_def)
  ultimately show ?thesis
    by blast
qed

lemma remoteClosed_set: "remoteClosed (s\<lparr>st_closeBits := st_closeBits s OR closeRemoteBit\<rparr>)"
proof -
  have "bit ((st_closeBits s OR 2) AND 2) 1"
    by (simp add: bit_simps)
  then have "(st_closeBits s OR 2) AND 2 \<noteq> 0"
    by (metis bit_0_eq bot_apply bot_bool_def)
  then show ?thesis
    by (simp add: remoteClosed_def)
qed

lemma flow_swap: "d\<lparr>fl_data := fs, fl_B := B\<rparr> = d\<lparr>fl_B := B, fl_data := fs\<rparr>"
  by simp

lemma upd_upd: "upd p g (upd p f t) = upd p (\<lambda>s. g (f s)) t"
  by (cases "p < length (store t)") (simp_all add: upd_def list_update_beyond)

lemma signalEOF_frame: "every recvSide (upd p (\<lambda>_. s) t) (signalEOF p s t)"
proof -
  let ?t = "upd p (\<lambda>_. s) t"
  have u: "upd p (\<lambda>_. s\<lparr>st_recvClosed := True\<rparr>) t = upd p (\<lambda>s. s\<lparr>st_recvClosed := True\<rparr>) ?t"
    by (simp add: upd_upd)
  have 1: "every recvSide ?t (upd p (\<lambda>_. s\<lparr>st_recvClosed := True\<rparr>) t)"
    unfolding u by (rule receiving.every_upd) (simp add: recvSide_def)
  from 1 receiving.every_trans [OF 1 receiving.every_terminateLocked] receiving.every_same(10) [of ?t True] show ?thesis
    by (simp add: signalEOF_def Let_def)
qed

lemma receive_close:
  assumes "flow_inv pa pb cid N d" "fl_data d = f # rest" "isLive (obj (fl_B d) pb)" "\<not> isData (fr_Kind f)"
  shows "snd (onStreamClose pb f (fl_B d)) = None"
    "flow_inv pa pb cid N (d\<lparr>fl_B := fst (onStreamClose pb f (fl_B d)), fl_data := rest\<rparr>)"
    "fr_Kind f = FrameStreamClose"
proof -
  let ?a = "obj (fl_A d) pa" and ?b = "obj (fl_B d) pb"
  let ?s1 = "?b\<lparr>st_closeBits := st_closeBits ?b OR closeRemoteBit\<rparr>"
  note i = flow_invD [OF assms(1)]
  have p: "closePart (f # rest) = f # rest" "dataPart (f # rest) = []" "dataPart rest = []"
    using i(3) assms(2,4) by (auto simp: lane_ok_def closePart_def dataPart_def)
  have l: "rest = []" "fr_Kind f = FrameStreamClose" "fr_Control f = st_sendSeq ?a" "st_sendClosed ?a" "fl_todo d = []"
    "\<not> remoteClosed ?b" "st_sendSeq ?a + 1 = st_expectedSeq ?b"
    using i(3) assms(2,3) p by (auto simp: lane_ok_def)
  show "fr_Kind f = FrameStreamClose"
    by (rule l(2))
  have c: "st_recvAccum ?b = []" "fl_sent d = fl_got d @ queued ?b"
    using i(4) assms(2,3) p(2) l(5) by (auto simp: content_ok_def accepts_def)
  have seq: "fr_Control f = st_expectedSeq ?b - 1"
    using l(3,7) by (simp add: algebra_simps)
  have room: "length (st_recvCh ?b) < st_recvCap ?b"
    using queue_room [OF assms(1) l(6)] c(2) i(1) by (simp add: paired_def)
  then have "snd (deliverTrailer (fr_Payload f) ?s1)"
    by (simp add: deliverTrailer_def enqueueItem_def)
  then obtain s2 where tr: "deliverTrailer (fr_Payload f) ?s1 = (s2, True)"
    by (cases "deliverTrailer (fr_Payload f) ?s1") simp
  have e: "onStreamClose pb f (fl_B d) = (signalEOF pb s2 (fl_B d), None)"
    using c(1) l(6) seq tr by (simp add: onStreamClose_def setCloseBit_def remoteClosed_def)
  then show "snd (onStreamClose pb f (fl_B d)) = None"
    by simp
  have f2: "st_callID s2 = st_callID ?b" "isLive s2 = isLive ?b" "st_recvCap s2 = st_recvCap ?b"
    "st_recvCredit s2 = st_recvCredit ?b" "st_expectedSeq s2 = st_expectedSeq ?b" "st_recvAccum s2 = st_recvAccum ?b"
    "queued s2 = queued ?b" "st_closeBits s2 = st_closeBits ?s1"
    using tr by (auto simp: deliverTrailer_def enqueueItem_def queued_def split: if_splits)
  have r: "remoteClosed s2"
    using remoteClosed_set [of ?b] f2(8) by (simp add: remoteClosed_def)
  have "flow_inv pa pb cid N (d\<lparr>fl_B := upd pb (\<lambda>_. s2) (fl_B d), fl_data := rest\<rparr>)"
    using assms(1,2) f2 r l c p(3)
    by (intro inv_B) (simp_all add: lane_ok_def closePart_def content_ok_def accepts_def)
  then have "flow_inv pa pb cid N (d\<lparr>fl_A := fl_A d, fl_B := fst (onStreamClose pb f (fl_B d)), fl_data := rest\<rparr>)"
    using flow_frame_B [of pa pb cid N "d\<lparr>fl_B := upd pb (\<lambda>_. s2) (fl_B d), fl_data := rest\<rparr>" "signalEOF pb s2 (fl_B d)"]
      signalEOF_frame [of pb s2 "fl_B d"] registry_onStreamClose [of "fl_B d" pb f] e i(1)
    by (simp add: paired_def flow_swap)
  then show "flow_inv pa pb cid N (d\<lparr>fl_B := fst (onStreamClose pb f (fl_B d)), fl_data := rest\<rparr>)"
    by simp
qed

lemma drop_frame:
  assumes "flow_inv pa pb cid N d" "fl_data d = f # rest" "\<not> isLive (obj (fl_B d) pb)"
  shows "flow_inv pa pb cid N (d\<lparr>fl_data := rest\<rparr>)"
proof -
  note i = flow_invD [OF assms(1)]
  have "closePart (f # rest) = (if isData (fr_Kind f) then closePart rest else f # rest)"
    by (simp add: closePart_def)
  then have "lane_ok (obj (fl_A d) pa) (obj (fl_B d) pb) rest (fl_todo d)"
    using i(3) assms(2,3) by (auto simp: lane_ok_def closePart_def split: if_splits)
  then show ?thesis
    using i assms(2,3) by (auto simp: flow_inv_def content_ok_def addressed_def)
qed

lemma Dispatch_addressed:
  assumes "registry t" "p < length (store t)" "\<forall>q < length (store t). st_callID (obj t q) = fr_CallID f \<longleftrightarrow> q = p"
  shows "isLive (obj t p) \<Longrightarrow> Lookup (fr_CallID f) (t\<lparr>drained := False\<rparr>) = Some p"
    "\<not> isLive (obj t p) \<Longrightarrow> Dispatch f t = (discard (t\<lparr>drained := False\<rparr>), None)"
proof -
  show "isLive (obj t p) \<Longrightarrow> Lookup (fr_CallID f) (t\<lparr>drained := False\<rparr>) = Some p"
    using assms by (simp add: Lookup_def registry_def) metis
  assume n: "\<not> isLive (obj t p)"
  show "Dispatch f t = (discard (t\<lparr>drained := False\<rparr>), None)"
  proof (cases "streams t (fr_CallID f)")
    case (Some q)
    then have "q = p"
      using assms by (auto simp: registry_def)
    then show ?thesis
      using Some n by (simp add: Dispatch_def Lookup_def Let_def)
  qed (simp add: Dispatch_def Lookup_def Let_def)
qed

lemma step_receive:
  assumes "flow_inv pa pb cid N d" "fl_data d = f # rest" "Dispatch f (fl_B d) = (B', e)"
  shows "flow_inv pa pb cid N (d\<lparr>fl_B := B', fl_data := rest, fl_faults := fl_faults d @ faultsOf e\<rparr>)"
proof -
  let ?t = "(fl_B d)\<lparr>drained := False\<rparr>"
  let ?d = "d\<lparr>fl_B := ?t\<rparr>"
  note i = flow_invD [OF assms(1)]
  have r: "registry (fl_B d)" "fr_CallID f = cid"
    "\<forall>q < length (store (fl_B d)). st_callID (obj (fl_B d) q) = fr_CallID f \<longleftrightarrow> q = pb"
    using i(1,2) assms(2) by (auto simp: paired_def addressed_def)
  note D = Dispatch_addressed [OF r(1) i(8) r(3)]
  have d: "flow_inv pa pb cid N ?d"
    using flow_frame_B [OF assms(1) _ receiving.every_same(7) [of "fl_B d" False]] registry_same [OF r(1) stay.every_same(7)] i(1)
    by (simp add: paired_def)
  have "e = None \<and> flow_inv pa pb cid N (d\<lparr>fl_B := B', fl_data := rest\<rparr>)"
  proof (cases "isLive (obj (fl_B d) pb)")
    case False
    then have B: "B' = discard ?t" "e = None"
      using assms(3) D(2) by simp_all
    have "registry (discard ?t)"
      by (rule registry_same [OF _ stay.every_finisher(4)]) (use d in \<open>simp_all add: flow_inv_def paired_def\<close>)
    then have "flow_inv pa pb cid N (d\<lparr>fl_B := discard ?t\<rparr>)"
      using flow_frame_B [OF d _ receiving.every_finisher(4)] i(1) by (simp add: paired_def)
    from drop_frame [OF this, of f rest] show ?thesis
      using assms(2) False B by (simp add: discard_def)
  next
    case True
    note L = D(1) [OF True]
    show ?thesis
    proof (cases "isData (fr_Kind f)")
      case dt: True
      have "fr_Kind f = FrameStreamChunk \<Longrightarrow> ?thesis"
        using receive_chunk [OF d, of f rest] assms(2,3) True by (auto simp: Dispatch_def Let_def L onLocal_def)
      moreover have "fr_Kind f = FrameStreamMsg \<Longrightarrow> ?thesis"
        using receive_msg [OF d, of f rest] assms(2,3) True by (auto simp: Dispatch_def Let_def L onLocal_def)
      ultimately show ?thesis
        using dt by (auto simp: isData_def)
    next
      case False
      then show ?thesis
        using receive_close [OF d, of f rest] assms(2,3) True by (simp add: Dispatch_def Let_def L)
    qed
  qed
  then show ?thesis
    using i(6) by (auto simp: flow_inv_def faultsOf_def)
qed

lemma drainOne_frame:
  assumes "drainOne p t = (t', Some it)" "p < length (store t)"
  defines "b \<equiv> obj t p"
  defines "b' \<equiv>
    (if credited it \<and> \<not> remoteClosed b
     then b\<lparr>st_recvCh := tl (st_recvCh b), st_recvCredit := (st_recvCredit b)\<lparr>consumed := consumed (st_recvCredit b) + 1\<rparr>\<rparr>
     else b\<lparr>st_recvCh := tl (st_recvCh b)\<rparr>)"
  shows "st_recvCh b = it # tl (st_recvCh b)" "every recvSide (upd p (\<lambda>_. b') t) t'" "entries t' = entries t"
    "stays (upd p (\<lambda>_. b') t) t'"
proof -
  obtain q where q: "st_recvCh b = it # q" "t' = onDelivered p (credited it) (upd p (\<lambda>s. s\<lparr>st_recvCh := q\<rparr>) t)"
    using assms(1) by (auto simp: drainOne_def b_def split: list.splits)
  show "st_recvCh b = it # tl (st_recvCh b)"
    using q(1) by simp
  let ?t = "upd p (\<lambda>_. b') t"
  have "t' = ?t \<or> t' = arm p ?t"
  proof (cases "credited it \<and> \<not> remoteClosed b")
    case True
    then show ?thesis
      using q assms(2) unfolding b'_def
      by (auto simp: onDelivered_def consumeIfOpen_def consume_def Let_def remoteClosed_def upd_upd b_def [symmetric]
          split: bool.splits)
  next
    case False
    have u: "upd p (\<lambda>s. s\<lparr>st_recvCh := q\<rparr>) t = ?t"
      using q(1) False by (auto simp: upd_def b'_def b_def)
    show ?thesis
      using False q(2) assms(2) unfolding u
      by (auto simp: onDelivered_def consumeIfOpen_def Let_def remoteClosed_def upd_upd b'_def b_def [symmetric])
  qed
  then show "every recvSide ?t t'" "entries t' = entries t" "stays ?t t'"
    by (auto simp: receiving.every_refl receiving.every_arm stay.every_arm)
qed

lemma credit_consume:
  assumes "credit_ok ca alive cb False acks ack ns ng" "ng < ns"
  shows "credit_ok ca alive (cb\<lparr>consumed := consumed cb + 1\<rparr>) closed acks ack ns (Suc ng)"
proof -
  have "unat (consumed cb) = ng" "ns < 2 ^ 64"
    using assms(1) unat_u64_less [of "cc_sent ca"] by (auto simp: credit_ok_def)
  then have u: "unat (consumed cb + 1) = Suc (unat (consumed cb))"
    using assms(2) by (intro unat_Suc_word) simp
  then have le: "consumed cb \<le> consumed cb + 1"
    by (simp add: word_le_nat_alt)
  have "latest ack (cb\<lparr>consumed := consumed cb + 1\<rparr>) = latest ack cb"
    by (simp add: latest_def cong: option.case_cong)
  then show ?thesis
    using assms(1) u le by (auto simp: credit_ok_def owing_ok_def)
qed

lemma step_deliver:
  assumes "flow_inv pa pb cid N d" "drainOne pb (fl_B d) = (B', Some it)"
  shows "flow_inv pa pb cid N (d\<lparr>fl_B := B', fl_got := fl_got d @ (if credited it then [payload it] else [])\<rparr>)"
proof -
  let ?b = "obj (fl_B d) pb" and ?got = "fl_got d @ (if credited it then [payload it] else [])"
  define b' where "b' = (if credited it \<and> \<not> remoteClosed ?b
     then ?b\<lparr>st_recvCh := tl (st_recvCh ?b),
       st_recvCredit := (st_recvCredit ?b)\<lparr>consumed := consumed (st_recvCredit ?b) + 1\<rparr>\<rparr>
     else ?b\<lparr>st_recvCh := tl (st_recvCh ?b)\<rparr>)"
  note i = flow_invD [OF assms(1)]
  note f = drainOne_frame [OF assms(2) i(8), folded b'_def]
  let ?d = "d\<lparr>fl_B := upd pb (\<lambda>_. b') (fl_B d), fl_got := ?got\<rparr>"
  have b: "st_callID b' = st_callID ?b" "isLive b' = isLive ?b" "st_recvCap b' = st_recvCap ?b" "remoteClosed b' = remoteClosed ?b"
    "st_expectedSeq b' = st_expectedSeq ?b" "st_recvAccum b' = st_recvAccum ?b" "st_recvCh b' = tl (st_recvCh ?b)"
    by (simp_all add: b'_def remoteClosed_def)
  have q: "fl_got d @ queued ?b = ?got @ queued b'"
    unfolding queued_def b(7) by (subst f(1)) simp
  have n: "length (fl_got d) < length (fl_sent d)" if "credited it"
  proof -
    have "queued ?b \<noteq> []"
      unfolding queued_def by (subst f(1)) (simp add: that)
    then show ?thesis
      using content_rest [OF i(4)] by auto
  qed
  have p: "paired pa pb cid N (fl_A d) (upd pb (\<lambda>_. b') (fl_B d))"
    using i(1) b by (intro paired_B) simp_all
  moreover have "lane_ok (obj (fl_A d) pa) b' (fl_data d) (fl_todo d)"
    using i(3) b by (simp add: lane_ok_def)
  moreover have "content_ok (chunkPolicy (fl_A d)) b' (map kf (dataPart (fl_data d))) (fl_todo d) (fl_first d) (fl_sent d) ?got"
  proof -
    have s: "set (st_recvCh b') \<subseteq> set (st_recvCh ?b)"
      unfolding b(7) by (cases "st_recvCh ?b") auto
    have e: "fl_got d @ queued ?b @ y = ?got @ queued b' @ y" for y
      using arg_cong [OF q, of "\<lambda>x. x @ y"] by simp
    show ?thesis
      using i(4) s unfolding content_ok_def b(2,4,6) e q by (auto simp del: append_assoc split: if_splits)
  qed
  moreover have "credit_ok (st_sendCredit (obj (fl_A d) pa)) (isLive (obj (fl_A d) pa)) (st_recvCredit b') (remoteClosed ?b)
      (map fr_Control (fl_acks d)) (fl_ack d) (length (fl_sent d)) (length ?got)"
  proof (cases "credited it \<and> \<not> remoteClosed ?b")
    case True
    then show ?thesis
      using i(5) n credit_consume by (simp add: b'_def)
  next
    case False
    then show ?thesis
      using i(5) by (auto simp: b'_def credit_ok_def)
  qed
  ultimately have "flow_inv pa pb cid N ?d"
    using i b(4) by (simp add: flow_inv_def)
  moreover have "registry (fl_A d)" "registry B'"
    using p registry_same [OF _ f(4)] f(3) by (simp_all add: paired_def)
  ultimately have "flow_inv pa pb cid N (?d\<lparr>fl_A := fl_A d, fl_B := B'\<rparr>)"
    using flow_frame_B [of pa pb cid N ?d B'] f(2) by simp
  then show ?thesis
    by (simp add: flow_inv_def)
qed

section \<open>Acknowledgements\<close>

lemma chain_append: "chain lo vs hi \<Longrightarrow> hi < v \<Longrightarrow> chain lo (vs @ [v]) v"
  by (induction lo vs hi rule: chain.induct) auto

lemma chain_bounds: "chain lo vs hi \<Longrightarrow> v \<in> set vs \<Longrightarrow> v \<le> hi"
proof (induction lo vs hi rule: chain.induct)
  case (2 lo w vs hi)
  have "chain w vs hi \<Longrightarrow> w \<le> hi"
    by (induction w vs hi rule: chain.induct) auto
  then show ?case
    using 2 by auto
qed simp

lemma ackTake_frame:
  assumes "ackTake p t = (t', ok)" "p < length (store t)"
  shows "every recvSide t t'" "stays t t'" "entries t' = entries t" "ok \<Longrightarrow> pending (st_recvCredit (obj t p))"
  using assms receiving.every_ackTake [of t p] stay.every_ackTake [of t p] entries_ack(1) [of p t]
  by (auto simp: ackTake_def Let_def split: if_splits)

lemma inv_ack:
  assumes "flow_inv pa pb cid N d" "addressed cid (fl_data d) acks"
    "st_callID b' = st_callID (obj (fl_B d) pb)" "isLive b' = isLive (obj (fl_B d) pb)" "st_recvCap b' = st_recvCap (obj (fl_B d) pb)"
    "remoteClosed b' = remoteClosed (obj (fl_B d) pb)" "st_expectedSeq b' = st_expectedSeq (obj (fl_B d) pb)"
    "st_recvAccum b' = st_recvAccum (obj (fl_B d) pb)" "st_recvCh b' = st_recvCh (obj (fl_B d) pb)"
    "credit_ok (st_sendCredit (obj (fl_A d) pa)) (isLive (obj (fl_A d) pa)) (st_recvCredit b') (remoteClosed (obj (fl_B d) pb))
       (map fr_Control acks) ack (length (fl_sent d)) (length (fl_got d))"
  shows "flow_inv pa pb cid N (d\<lparr>fl_B := upd pb (\<lambda>_. b') (fl_B d), fl_acks := acks, fl_ack := ack\<rparr>)"
proof -
  note i = flow_invD [OF assms(1)]
  have "paired pa pb cid N (fl_A d) (upd pb (\<lambda>_. b') (fl_B d))"
    using i(1) assms by (intro paired_B) simp_all
  moreover have "lane_ok (obj (fl_A d) pa) b' (fl_data d) (fl_todo d)"
    using i(3) assms by (simp add: lane_ok_def)
  moreover have "queued b' = queued (obj (fl_B d) pb)"
    using assms by (simp add: queued_def)
  then have "content_ok (chunkPolicy (fl_A d)) b' (map kf (dataPart (fl_data d))) (fl_todo d) (fl_first d) (fl_sent d) (fl_got d)"
    using i(4) assms by (simp add: content_ok_def)
  ultimately show ?thesis
    using i assms by (simp add: flow_inv_def)
qed

lemma step_ack_send:
  assumes "flow_inv pa pb cid N d" "fl_ack d = None" "ackTake pb (fl_B d) = (B', True)"
  shows "flow_inv pa pb cid N (d\<lparr>fl_B := trSend (ackFrame (obj B' pb)) None B', fl_acks := fl_acks d @ [ackFrame (obj B' pb)],
       fl_ack := Some (consumedCount (st_recvCredit (obj B' pb)))\<rparr>)"
proof -
  let ?b = "obj (fl_B d) pb" and ?f = "ackFrame (obj B' pb)"
  let ?cb = "st_recvCredit ?b" and ?ca = "st_sendCredit (obj (fl_A d) pa)"
  note i = flow_invD [OF assms(1)]
  note t = ackTake_frame [OF assms(3) i(8)]
  have r: "st_recvCredit (obj B' pb) = ?cb" "st_callID (obj B' pb) = cid"
    using every_obj [OF t(1) i(8)] i(1,8) by (auto simp: recvSide_def paired_def)
  have f: "fr_CallID ?f = cid" "fr_Kind ?f = FrameStreamAck" "fr_Control ?f = consumed ?cb" "\<not> isData (fr_Kind ?f)"
    by (simp_all add: ackFrame_def r consumedCount_def)
  have "latest None ?cb < consumed ?cb"
    using t(4) by (simp add: latest_def pending_def)
  then have "credit_ok ?ca (isLive (obj (fl_A d) pa)) ?cb (remoteClosed ?b) (map fr_Control (fl_acks d @ [?f]))
      (Some (consumed ?cb)) (length (fl_sent d)) (length (fl_got d))"
    using i(5) assms(2) chain_append by (auto simp: credit_ok_def latest_def f(3) owing_ok_def)
  moreover have "addressed cid (fl_data d) (fl_acks d @ [?f])"
    using i(2) f by (auto simp: addressed_def)
  ultimately have "flow_inv pa pb cid N (d\<lparr>fl_acks := fl_acks d @ [?f], fl_ack := Some (consumed ?cb)\<rparr>)"
    using i by (simp add: flow_inv_def)
  moreover have "every recvSide (fl_B d) (trSend ?f None B')" "registry (trSend ?f None B')"
    using receiving.every_trans [OF t(1) receiving.every_trSend [OF f(4)]]
      registry_same [OF _ stay.every_trans [OF t(2) stay.every_trSend [OF f(4)]]] t(3) i(1)
    by (simp_all add: paired_def)
  ultimately have "flow_inv pa pb cid N
      (d\<lparr>fl_acks := fl_acks d @ [?f], fl_ack := Some (consumed ?cb), fl_A := fl_A d, fl_B := trSend ?f None B'\<rparr>)"
    using flow_frame_B [of pa pb cid N "d\<lparr>fl_acks := fl_acks d @ [?f], fl_ack := Some (consumed ?cb)\<rparr>" "trSend ?f None B'"] i(1)
    by (simp add: paired_def)
  then show ?thesis
    by (simp add: flow_inv_def consumedCount_def r)
qed

lemma step_ack_done:
  assumes "flow_inv pa pb cid N d" "fl_ack d = Some v"
  shows "flow_inv pa pb cid N (d\<lparr>fl_B := releaseAckToken pb True cres (ackSettle pb v None (fl_B d)), fl_ack := None\<rparr>)"
proof -
  let ?b = "obj (fl_B d) pb" and ?t = "ackSettle pb v None (fl_B d)"
  let ?cb = "st_recvCredit ?b"
  let ?b' = "resetBackoff (?b\<lparr>st_recvCredit := advanceAckedOut v ?cb\<rparr>)"
  note i = flow_invD [OF assms(1)]
  have t: "?t = upd pb (\<lambda>_. ?b') (fl_B d)"
    by (simp add: ackSettle_def upd_def)
  have "v \<le> consumed ?cb" "ackedOut ?cb \<le> v" "owing_ok ?cb"
    using i(5) assms(2) by (simp_all add: credit_ok_def latest_def)
  then have "ackedOut (advanceAckedOut v ?cb) = v" "owing_ok (advanceAckedOut v ?cb)"
    "consumed (advanceAckedOut v ?cb) = consumed ?cb"
    using advanceAckedOut_owing [of ?cb v] by (simp_all add: max_def advanceAckedOut_def)
  then have "flow_inv pa pb cid N (d\<lparr>fl_B := ?t, fl_acks := fl_acks d, fl_ack := None\<rparr>)"
    unfolding t using assms i(2,5)
    by (intro inv_ack) (simp_all add: resetBackoff_def remoteClosed_def credit_ok_def latest_def)
  moreover have "registry (releaseAckToken pb True cres ?t)"
    by (rule registry_same [OF _ stay.every_releaseAckToken]) (use calculation in \<open>simp_all add: flow_inv_def paired_def\<close>)
  ultimately have "flow_inv pa pb cid N (d\<lparr>fl_B := ?t, fl_acks := fl_acks d, fl_ack := None,
      fl_A := fl_A d, fl_B := releaseAckToken pb True cres ?t\<rparr>)"
    using flow_frame_B [of pa pb cid N "d\<lparr>fl_B := ?t, fl_acks := fl_acks d, fl_ack := None\<rparr>" "releaseAckToken pb True cres ?t"]
      receiving.every_releaseAckToken i(1)
    by (simp add: paired_def)
  then show ?thesis
    by (simp add: flow_inv_def)
qed

lemma serveAck_frame: "every recvSide t (serveAck p (Some e) cres t)"
proof -
  let ?t = "trSend (ackFrame (obj t p)) (Some e) t"
  have 1: "every recvSide t ?t"
    by (rule receiving.every_trSend) (simp add: ackFrame_def)
  have 2: "every recvSide ?t (ackSettle p v (Some e) ?t)" for v
    unfolding ackSettle_def option.case
    by (rule receiving.every_upd) (simp add: scheduleReArm_def recvSide_def isLive_def)
  from receiving.every_trans [OF receiving.every_trans [OF 1 2] receiving.every_releaseAckToken] show ?thesis
    by (simp add: serveAck_def Let_def)
qed

lemma step_ack_fail:
  assumes "flow_inv pa pb cid N d" "ackTake pb (fl_B d) = (B', True)"
  shows "flow_inv pa pb cid N (d\<lparr>fl_B := serveAck pb (Some e) cres B'\<rparr>)"
proof -
  note i = flow_invD [OF assms(1)]
  note t = ackTake_frame [OF assms(2) i(8)]
  have "every recvSide (fl_B d) (serveAck pb (Some e) cres B')"
    by (rule receiving.every_trans [OF t(1) serveAck_frame])
  moreover have "registry (serveAck pb (Some e) cres B')"
    using registry_same [OF _ stay.every_trans [OF t(2) stay.every_serveAck]] t(3) i(1) by (simp add: paired_def)
  ultimately show ?thesis
    using flow_frame_B [OF assms(1)] i(1) by (simp add: paired_def)
qed

lemma step_receive_ack:
  assumes "flow_inv pa pb cid N d" "fl_acks d = f # rest" "Dispatch f (fl_A d) = (A', e)"
  shows "flow_inv pa pb cid N (d\<lparr>fl_A := A', fl_acks := rest, fl_faults := fl_faults d @ faultsOf e\<rparr>)"
proof -
  let ?t = "(fl_A d)\<lparr>drained := False\<rparr>"
  let ?a = "obj (fl_A d) pa"
  let ?ca = "st_sendCredit ?a" and ?v = "fr_Control f"
  note i = flow_invD [OF assms(1)]
  have r: "registry (fl_A d)" "fr_Kind f = FrameStreamAck" "addressed cid (fl_data d) rest"
    "\<forall>q < length (store (fl_A d)). st_callID (obj (fl_A d) q) = fr_CallID f \<longleftrightarrow> q = pa"
    using i(1,2) assms(2) by (auto simp: paired_def addressed_def)
  note D = Dispatch_addressed [OF r(1) i(7) r(4)]
  have d: "flow_inv pa pb cid N (d\<lparr>fl_A := ?t, fl_B := fl_B d\<rparr>)"
    using flow_frame_A [OF assms(1) sending.every_same(7)] registry_same [OF r(1) stay.every_same(7)] i(1)
    by (simp add: paired_def)
  have "e = None \<and> flow_inv pa pb cid N (d\<lparr>fl_A := A', fl_acks := rest\<rparr>)"
  proof (cases "isLive ?a")
    case False
    then have A: "A' = discard ?t" "e = None"
      using assms(3) D(2) by simp_all
    have "registry (discard ?t)"
      by (rule registry_same [OF _ stay.every_finisher(4)]) (use d in \<open>simp_all add: flow_inv_def paired_def\<close>)
    then have "flow_inv pa pb cid N (d\<lparr>fl_A := discard ?t, fl_B := fl_B d\<rparr>)"
      using flow_frame_A [OF d sending.every_finisher(4)] i(1) by (simp add: paired_def)
    then show ?thesis
      using False A r(3) by (simp add: flow_inv_def credit_ok_def discard_def)
  next
    case True
    let ?a' = "notifySend (?a\<lparr>st_sendCredit := ?ca\<lparr>cc_acked := ?v\<rparr>\<rparr>)"
    let ?l = "latest (fl_ack d) (st_recvCredit (obj (fl_B d) pb))"
    have k: "cc_acked ?ca < ?v" "chain ?v (map fr_Control rest) ?l" "?v \<le> ?l" "?l \<le> consumed (st_recvCredit (obj (fl_B d) pb))"
      using i(5) True assms(2) chain_bounds [of "cc_acked ?ca" "map fr_Control (fl_acks d)" ?l] by (auto simp: credit_ok_def)
    have "unat ?v \<le> length (fl_got d)" "length (fl_got d) \<le> length (fl_sent d)" "unat (cc_sent ?ca) = length (fl_sent d)" "window_ok ?ca"
      using k(3,4) i(5) content_rest [OF i(4)] by (auto simp: credit_ok_def word_le_nat_alt)
    then have v: "?v \<le> sentCount ?ca" "window_ok ?ca"
      by (simp_all add: sentCount_def word_le_nat_alt)
    have s: "replenishStrict ?v ?ca = (?ca\<lparr>cc_acked := ?v\<rparr>, True)"
      using k(1) by (simp add: replenishStrict_def)
    have h: "onStreamAck f ?a = (?a', None)"
      using k(1) v(1) s by (auto simp: onStreamAck_def Let_def)
    have A: "A' = upd pa (\<lambda>_. ?a') ?t" "e = None"
      using assms(3) True h by (simp_all add: Dispatch_def Let_def D(1) [OF True] r(2) onLocal_def)
    have "paired pa pb cid N A' (fl_B d)"
      unfolding A(1) using d by (intro paired_A) (simp_all add: flow_inv_def notifySend_def)
    moreover have "lane_ok ?a' (obj (fl_B d) pb) (fl_data d) (fl_todo d)"
      using i(3) by (simp add: lane_ok_def notifySend_def)
    ultimately show ?thesis
      using i A r(3) k replenishStrict_window(1) [OF v(2,1) s] by (simp add: flow_inv_def credit_ok_def notifySend_def)
  qed
  then show ?thesis
    using i(6) by (auto simp: flow_inv_def faultsOf_def)
qed

section \<open>Every run\<close>

lemma step_others:
  assumes "flow_inv pa pb cid N d"
  shows "(\<And>f. a = ActInbound f \<Longrightarrow> fr_Kind f \<noteq> FrameStreamAck) \<Longrightarrow> flow_inv pa pb cid N (d\<lparr>fl_A := act pa a (fl_A d)\<rparr>)"
    "housekeeping a \<Longrightarrow> flow_inv pa pb cid N (d\<lparr>fl_B := act pb a (fl_B d)\<rparr>)"
    "ackTake pb (fl_B d) = (B', False) \<Longrightarrow> flow_inv pa pb cid N (d\<lparr>fl_B := B'\<rparr>)"
proof -
  note i = flow_invD [OF assms]
  have r: "registry (fl_A d)" "registry (fl_B d)"
    using i(1) by (simp_all add: paired_def)
  show "flow_inv pa pb cid N (d\<lparr>fl_A := act pa a (fl_A d)\<rparr>)" if "\<And>f. a = ActInbound f \<Longrightarrow> fr_Kind f \<noteq> FrameStreamAck"
    using flow_frame_A [OF assms sending.every_act_sender [OF that]] registry_act [OF r(1) i(7)] r(2) by simp
  show "flow_inv pa pb cid N (d\<lparr>fl_B := act pb a (fl_B d)\<rparr>)" if "housekeeping a"
    using flow_frame_B [OF assms r(1) receiving.every_housekeeping [OF that]] registry_act [OF r(2) i(8)] by simp
  show "flow_inv pa pb cid N (d\<lparr>fl_B := B'\<rparr>)" if "ackTake pb (fl_B d) = (B', False)"
    using flow_frame_B [OF assms r(1)] ackTake_frame [OF that i(8)] registry_same [OF r(2)] by simp
qed

lemma flow_step_inv: "flow_step pa pb d d' \<Longrightarrow> flow_inv pa pb cid N d \<Longrightarrow> flow_inv pa pb cid N d'"
  by (induction rule: flow_step.induct)
    (simp_all add: step_admit step_send step_refused step_close step_receive step_deliver step_ack_send step_ack_done
      step_ack_fail step_receive_ack step_others)

lemma flow_run_inv: "flow_run pa pb d d' \<Longrightarrow> flow_inv pa pb cid N d \<Longrightarrow> flow_inv pa pb cid N d'"
  by (induction rule: flow_run.induct) (simp_all add: flow_step_inv)

definition fresh_flow :: "StreamTable \<Rightarrow> StreamTable \<Rightarrow> flow" where
  "fresh_flow A B =
     \<lparr>fl_A = A, fl_B = B, fl_data = [], fl_acks = [], fl_todo = [], fl_first = False, fl_ack = None, fl_sent = [], fl_got = [],
      fl_faults = []\<rparr>"

lemma admit_new:
  assumes "admitStream now cid side cfg w sp t = (t', Ok p)" "\<forall>s \<in> set (store t). st_callID s \<noteq> cid"
  shows "p < length (store t')" "\<forall>q < length (store t'). st_callID (obj t' q) = cid \<longleftrightarrow> q = p" "chunkPolicy t' = chunkPolicy t"
    "st_sendCredit (obj t' p) = newCreditCounter (if Credits cfg = 0 then 16 else Credits cfg)"
    "st_recvCredit (obj t' p) = newCreditCounter (if Credits cfg = 0 then 16 else Credits cfg)"
    "st_recvCap (obj t' p) = Suc (unat (if Credits cfg = 0 then 16 else Credits cfg))"
    "st_sendSeq (obj t' p) = 0" "st_expectedSeq (obj t' p) = 1" "st_recvAccum (obj t' p) = []"
    "\<not> (Shape cfg = ServerStreaming \<and> side = ServerStream) \<Longrightarrow> st_recvCh (obj t' p) = [] \<and> \<not> remoteClosed (obj t' p)"
proof -
  let ?s = "let s = newStream now cid side cfg;
               s = (if sp then s\<lparr>st_openSendPending := True\<rparr> else s) in
               (if w then beginDeadlineWatch s else s)"
  have ok: "p = length (store t)" "Credits cfg \<le> 16"
    "t' = openObligation cid (t\<lparr>store := store t @ [?s], streams := (streams t)(cid \<mapsto> p)\<rparr>)"
    using assms(1) by (auto simp: admitStream_def Let_def not_less split: if_splits)
  then have t': "store t' = store t @ [?s]" "chunkPolicy t' = chunkPolicy t"
    by (simp_all add: openObligation_def)
  have o: "obj t' p = ?s"
    by (simp add: t' ok(1))
  show "p < length (store t')" "chunkPolicy t' = chunkPolicy t"
    by (simp_all add: t' ok(1))
  have n: "unat (c + 1) = Suc (unat c)" if "c \<le> 16" for c :: u32
    using that by (intro unat_Suc_word) (simp add: word_le_nat_alt)
  show "st_sendCredit (obj t' p) = newCreditCounter (if Credits cfg = 0 then 16 else Credits cfg)"
    "st_recvCredit (obj t' p) = newCreditCounter (if Credits cfg = 0 then 16 else Credits cfg)"
    "st_recvCap (obj t' p) = Suc (unat (if Credits cfg = 0 then 16 else Credits cfg))"
    "st_sendSeq (obj t' p) = 0" "st_expectedSeq (obj t' p) = 1" "st_recvAccum (obj t' p) = []"
    "\<not> (Shape cfg = ServerStreaming \<and> side = ServerStream) \<Longrightarrow> st_recvCh (obj t' p) = [] \<and> \<not> remoteClosed (obj t' p)"
    unfolding o using n [OF ok(2)] n [of 16]
    by (auto simp: newStream_def freshStream_def beginDeadlineWatch_def Let_def remoteClosed_def split: StreamSide.splits)
  have "st_callID ?s = cid"
    by (auto simp: newStream_def freshStream_def beginDeadlineWatch_def Let_def split: StreamSide.splits)
  then show "\<forall>q < length (store t'). st_callID (obj t' q) = cid \<longleftrightarrow> q = p"
    using assms(2) by (auto simp: t' ok(1) nth_append less_Suc_eq)
qed

lemma fresh_inv:
  assumes "registry tA" "registry tB" "\<forall>s \<in> set (store tA). st_callID s \<noteq> cid" "\<forall>s \<in> set (store tB). st_callID s \<noteq> cid"
    "admitStream nowA cid sideA cfgA wA spA tA = (A, Ok pa)" "admitStream nowB cid sideB cfgB wB spB tB = (B, Ok pb)"
    "Credits cfgA = Credits cfgB" "\<not> (Shape cfgB = ServerStreaming \<and> sideB = ServerStream)"
    "RecvInline (chunkPolicy tB) = SendInline (chunkPolicy tA)" "Ceiling (chunkPolicy tB) = Ceiling (chunkPolicy tA)"
  shows "flow_inv pa pb cid (unat (if Credits cfgA = 0 then 16 else Credits cfgA)) (fresh_flow A B)"
proof -
  note a = admit_new [OF assms(5,3)] and b = admit_new [OF assms(6,4)]
  note ra = registry_admit [OF assms(1,5)] and rb = registry_admit [OF assms(2,6)]
  let ?N = "unat (if Credits cfgA = 0 then 16 else Credits cfgA)"
  have "unat (granted (newCreditCounter c)) = unat c" "latest None (newCreditCounter c) = 0" for c
    by (simp_all add: newCreditCounter_def latest_def)
  note n = this newCreditCounter_ok
  have "paired pa pb cid ?N A B"
    using a b ra(1) rb(1) assms(7,9,10) n(1) by (auto simp: paired_def)
  moreover have "credit_ok (newCreditCounter c) alive (newCreditCounter c') closed [] None 0 0" for c c' alive closed
    using n by (simp add: credit_ok_def) (simp add: newCreditCounter_def)
  moreover have "content_ok (chunkPolicy A) (obj B pb) [] [] False [] []"
    using b(9) b(10) [OF assms(8)] by (simp add: content_ok_def accepts_def queued_def)
  moreover have "lane_ok (obj A pa) (obj B pb) [] []"
    using a(7) b(8) b(10) [OF assms(8)] by (simp add: lane_ok_def closePart_def dataPart_def)
  ultimately show ?thesis
    using a(4) b(5) by (simp add: flow_inv_def fresh_flow_def addressed_def dataPart_def)
qed


section \<open>A run\<close>

definition peerConfig :: StreamConfig where
  "peerConfig = \<lparr>Credits = 1, cfg_Deadline = 1000, cfg_Service = 1, cfg_Method = 2, Shape = BidiStreaming, OpenPayload = [], ParentErr = None\<rparr>"

definition peerTable :: StreamTable where
  "peerTable = NewStreamTable 4 \<lparr>Active = True, Ceiling = 8, SendInline = 2, RecvInline = 2\<rparr>"

definition openerTable :: StreamTable where
  "openerTable = peerTable\<lparr>store := [beginDeadlineWatch ((newStream 0 7 ClientStream peerConfig)\<lparr>st_openSendPending := True\<rparr>)],
     streams := [7 \<mapsto> 0]\<rparr>"

definition acceptorTable :: StreamTable where
  "acceptorTable = peerTable\<lparr>store := [newStream 5 7 ServerStream peerConfig], streams := [7 \<mapsto> 0]\<rparr>"

lemma peer_opens:
  "OpenClient 0 7 peerConfig peerTable = (openerTable, Ok 0)" "OpenAccepting 5 7 peerConfig peerTable = (acceptorTable, Ok 0)"
  by (simp_all add: OpenClient_def OpenAccepting_def admitStream_def openObligation_def openerTable_def acceptorTable_def
      peerTable_def peerConfig_def NewStreamTable_def)

definition run0 :: flow where
  "run0 = fresh_flow openerTable acceptorTable"

definition run1 :: flow where
  "run1 = run0\<lparr>fl_A := upd 0 (\<lambda>s. s\<lparr>st_sendCredit := fst (reserve (st_sendCredit (obj (fl_A run0) 0)))\<rparr>) (fl_A run0),
     fl_todo := splitMsg (chunkPolicy (fl_A run0)) [1, 2, 3], fl_first := True, fl_sent := fl_sent run0 @ [[1, 2, 3]]\<rparr>"

definition sendNext :: "flow \<Rightarrow> flow" where
  "sendNext d = d\<lparr>fl_A := fst (nextSeq 0 (fl_A d)), fl_todo := tl (fl_todo d), fl_first := False,
     fl_data := fl_data d @ [msgFrame 3 (fst (hd (fl_todo d))) (snd (hd (fl_todo d))) (snd (nextSeq 0 (fl_A d))) (obj (fl_A d) 0)]\<rparr>"

definition recvNext :: "flow \<Rightarrow> flow" where
  "recvNext d = d\<lparr>fl_B := fst (Dispatch (hd (fl_data d)) (fl_B d)), fl_data := tl (fl_data d),
     fl_faults := fl_faults d @ faultsOf (snd (Dispatch (hd (fl_data d)) (fl_B d)))\<rparr>"

definition deliverNext :: "flow \<Rightarrow> flow" where
  "deliverNext d = (case drainOne 0 (fl_B d) of
      (B, Some it) \<Rightarrow> d\<lparr>fl_B := B, fl_got := fl_got d @ (if credited it then [payload it] else [])\<rparr>
    | (B, None) \<Rightarrow> d)"

definition run2 :: flow where
  "run2 = deliverNext (recvNext (recvNext (sendNext (sendNext run1))))"

lemma run_sendNext: "flow_run 0 0 d d' \<Longrightarrow> fl_todo d' \<noteq> [] \<Longrightarrow> flow_run 0 0 d (sendNext d')"
  unfolding sendNext_def by (erule flow_trans, rule send_frag) auto

lemma run_recvNext: "flow_run 0 0 d d' \<Longrightarrow> fl_data d' \<noteq> [] \<Longrightarrow> flow_run 0 0 d (recvNext d')"
  unfolding recvNext_def by (erule flow_trans, rule receive) auto

lemma run_deliverNext:
  assumes "flow_run 0 0 d d'"
  shows "flow_run 0 0 d (deliverNext d')"
proof -
  obtain B it where "drainOne 0 (fl_B d') = (B, it)"
    by fastforce
  then show ?thesis
    using assms flow_trans [OF assms deliver [of 0 d' B]] by (cases it) (simp_all add: deliverNext_def)
qed

lemma run_run2: "flow_run 0 0 run0 run2"
proof -
  have "snd (reserve (st_sendCredit (obj (fl_A run0) 0)))"
    by code_simp
  then have r: "reserve (st_sendCredit (obj (fl_A run0) 0)) = (fst (reserve (st_sendCredit (obj (fl_A run0) 0))), True)"
    by (metis prod.collapse)
  have "cc_sent (st_sendCredit (obj (fl_A run0) 0)) = 0" "fl_todo run0 = []" "\<not> st_sendClosed (obj (fl_A run0) 0)"
    "sendable (chunkPolicy (fl_A run0)) [1, 2, 3]"
    by code_simp+
  then have "flow_step 0 0 run0 run1"
    unfolding run1_def using r by (intro admit_msg) simp_all
  from flow_trans [OF flow_refl this] have 1: "flow_run 0 0 run0 run1" .
  have "fl_todo run1 \<noteq> []" "fl_todo (sendNext run1) \<noteq> []" "fl_data (sendNext (sendNext run1)) \<noteq> []"
    "fl_data (recvNext (sendNext (sendNext run1))) \<noteq> []"
    by code_simp+
  then show ?thesis
    unfolding run2_def using 1 by (intro run_deliverNext run_recvNext run_sendNext)
qed


end
