(* ===== verification/Call_Table.thy ===== *)
theory Call_Table
  imports Frames
begin

text \<open>
  The request table of a connection, \<^verbatim>\<open>src/internal/rpcruntime/table.go\<close>, and the minting of retry attempts,
  \<^verbatim>\<open>idempotent_retry.go\<close>. A call is an object with an atomic state; a goroutine that ends one looks it up
  under the table's lock, tries a compare-and-swap from each source state, and, when it has won, sends the
  one result and deletes the entry. The same pieces make up the sequential operations and the threads of
  the concurrent system in \<open>Call_Concurrent\<close>. The type \<open>'m\<close> stands for protobuf messages.
\<close>

section \<open>Calls and the table\<close>

datatype CallState =
    StateSubmitted | StatePublished | StateCompleted | StateFailed
  | StateCanceled | StateDeadline | StateRejected | StateOutcomeUnknown

record 'm Result =
  res_Payload :: "byte list"
  res_Msg :: "'m option"
  res_Status :: "FrameStatus option"
  res_Err :: "err option"

text \<open>\<open>ca_resultCh\<close> is the content of the result channel, whose capacity is 1; a zero deadline is \<open>None\<close>.\<close>

record 'm call =
  ca_id :: u64
  ca_state :: CallState
  ca_resultCh :: "'m Result list"
  ca_deadline :: "int option"
  ca_newResp :: "(unit \<Rightarrow> 'm) option"

text \<open>\<open>heap\<close> holds every call ever registered, \<open>calls\<close> the addresses of those in the map.\<close>

record 'm Table =
  generation :: u64
  nextID :: u64
  calls :: "u64 \<rightharpoonup> nat"
  heap :: "'m call list"

definition NewTable :: "u64 \<Rightarrow> 'm Table" where
  "NewTable gen = \<lparr>generation = gen, nextID = 0, calls = Map.empty, heap = []\<rparr>"

definition Generation :: "'m Table \<Rightarrow> u64" where
  "Generation t = generation t"

definition NextID :: "'m Table \<Rightarrow> 'm Table \<times> u64" where
  "NextID t = (let n = nextID t + 1 in (t\<lparr>nextID := n\<rparr>, n))"

definition Reanchor :: "int \<Rightarrow> int \<Rightarrow> int" where
  "Reanchor budget receivedAt = receivedAt + budget"

text \<open>The registration of a call; the wait function of the source closes over the address.\<close>

definition SubmitDecoding :: "int \<Rightarrow> int \<Rightarrow> (unit \<Rightarrow> 'm) option \<Rightarrow> 'm Table \<Rightarrow> 'm Table \<times> u64 \<times> nat" where
  "SubmitDecoding now budget newResp t =
     (case NextID t of
        (t, cid) \<Rightarrow>
          let c = \<lparr>ca_id = cid, ca_state = StateSubmitted, ca_resultCh = [],
                ca_deadline = (if budget > 0 then Some (Reanchor budget now) else None), ca_newResp = newResp\<rparr>;
              p = length (heap t) in
          (t\<lparr>calls := (calls t)(cid \<mapsto> p), heap := heap t @ [c]\<rparr>, cid, p))"

definition Submit :: "int \<Rightarrow> int \<Rightarrow> 'm Table \<Rightarrow> 'm Table \<times> u64 \<times> nat" where
  "Submit now budget t = SubmitDecoding now budget None t"

section \<open>The terminal transition\<close>

definition casState :: "nat \<Rightarrow> CallState \<Rightarrow> CallState \<Rightarrow> 'm Table \<Rightarrow> 'm Table \<times> bool" where
  "casState p old new t =
     (if ca_state (heap t ! p) = old then (t\<lparr>heap := (heap t)[p := (heap t ! p)\<lparr>ca_state := new\<rparr>]\<rparr>, True) else (t, False))"

fun casFrom :: "nat \<Rightarrow> CallState \<Rightarrow> CallState list \<Rightarrow> 'm Table \<Rightarrow> 'm Table \<times> bool" where
  "casFrom p to [] t = (t, False)"
| "casFrom p to (src # from) t = (case casState p src to t of (t', True) \<Rightarrow> (t', True) | (t', False) \<Rightarrow> casFrom p to from t')"

definition sendResult :: "nat \<Rightarrow> 'm Result \<Rightarrow> 'm Table \<Rightarrow> 'm Table" where
  "sendResult p r t = t\<lparr>heap := (heap t)[p := (heap t ! p)\<lparr>ca_resultCh := ca_resultCh (heap t ! p) @ [r]\<rparr>]\<rparr>"

definition deleteCall :: "u64 \<Rightarrow> 'm Table \<Rightarrow> 'm Table" where
  "deleteCall cid t = t\<lparr>calls := (calls t)(cid := None)\<rparr>"

text \<open>
  \<open>terminate\<close> when no other goroutine steps in between; the send on the channel of a winner does not block
  because the channel is empty, which the concurrent system shows.
\<close>

definition terminate :: "u64 \<Rightarrow> CallState \<Rightarrow> 'm Result \<Rightarrow> CallState list \<Rightarrow> 'm Table \<Rightarrow> 'm Table \<times> bool" where
  "terminate cid to r from t =
     (case calls t cid of
        None \<Rightarrow> (t, False)
      | Some p \<Rightarrow>
          (case casFrom p to from t of
             (t', False) \<Rightarrow> (t', False)
           | (t', True) \<Rightarrow> (deleteCall cid (sendResult p r t'), True)))"

definition errResult :: "err \<Rightarrow> 'm Result" where
  "errResult e = \<lparr>res_Payload = [], res_Msg = None, res_Status = None, res_Err = Some e\<rparr>"

definition Publish :: "u64 \<Rightarrow> 'm Table \<Rightarrow> 'm Table \<times> bool" where
  "Publish cid t = (case calls t cid of None \<Rightarrow> (t, False) | Some p \<Rightarrow> casState p StateSubmitted StatePublished t)"

definition Cancel :: "u64 \<Rightarrow> 'm Table \<Rightarrow> 'm Table \<times> bool" where
  "Cancel cid t = terminate cid StateCanceled (errResult {ErrCanceledLocally}) [StateSubmitted, StatePublished] t"

definition Complete :: "u64 \<Rightarrow> byte list \<Rightarrow> 'm Table \<Rightarrow> 'm Table \<times> bool" where
  "Complete cid pl t =
     terminate cid StateCompleted \<lparr>res_Payload = pl, res_Msg = None, res_Status = None, res_Err = None\<rparr> [StatePublished] t"

definition CompleteMsg :: "u64 \<Rightarrow> 'm \<Rightarrow> 'm Table \<Rightarrow> 'm Table \<times> bool" where
  "CompleteMsg cid msg t =
     terminate cid StateCompleted \<lparr>res_Payload = [], res_Msg = Some msg, res_Status = None, res_Err = None\<rparr> [StatePublished] t"

definition ResponseFactory :: "u64 \<Rightarrow> 'm Table \<Rightarrow> (unit \<Rightarrow> 'm) option \<times> bool" where
  "ResponseFactory cid t =
     (case calls t cid of None \<Rightarrow> (None, False) | Some p \<Rightarrow> (ca_newResp (heap t ! p), True))"

definition Fail :: "u64 \<Rightarrow> FrameStatus option \<Rightarrow> 'm Table \<Rightarrow> 'm Table \<times> bool" where
  "Fail cid status t =
     terminate cid StateFailed \<lparr>res_Payload = [], res_Msg = None, res_Status = status, res_Err = None\<rparr> [StatePublished] t"

definition DeadlineExceeded :: "u64 \<Rightarrow> 'm Table \<Rightarrow> 'm Table \<times> bool" where
  "DeadlineExceeded cid t = terminate cid StateDeadline (errResult {ErrDeadlineExceeded}) [StateSubmitted, StatePublished] t"

definition OutcomeUnknown :: "u64 \<Rightarrow> err \<Rightarrow> 'm Table \<Rightarrow> 'm Table \<times> bool" where
  "OutcomeUnknown cid cause t = terminate cid StateOutcomeUnknown (errResult cause) [StatePublished] t"

definition Reject :: "u64 \<Rightarrow> err \<Rightarrow> 'm Table \<Rightarrow> 'm Table \<times> bool" where
  "Reject cid e t = terminate cid StateRejected (errResult e) [StateSubmitted, StatePublished] t"

definition PublishedCount :: "'m Table \<Rightarrow> nat" where
  "PublishedCount t = card {cid \<in> dom (calls t). ca_state (heap t ! the (calls t cid)) = StatePublished}"

text \<open>\<open>order\<close> is the order in which the range over the map yields the IDs.\<close>

definition failCall :: "err \<Rightarrow> err \<Rightarrow> u64 \<Rightarrow> 'm Table \<Rightarrow> 'm Table" where
  "failCall dispatchedErr notDispatchedErr cid t =
     (case terminate cid StateRejected (errResult notDispatchedErr) [StateSubmitted] t of
        (t', True) \<Rightarrow> t'
      | (t', False) \<Rightarrow> fst (terminate cid StateOutcomeUnknown (errResult dispatchedErr) [StatePublished] t'))"

definition FailAll :: "err \<Rightarrow> err \<Rightarrow> u64 list \<Rightarrow> 'm Table \<Rightarrow> 'm Table" where
  "FailAll dispatchedErr notDispatchedErr order t = fold (failCall dispatchedErr notDispatchedErr) order t"

text \<open>
  The wait function: which arm of the select fires. Receiving from the empty channel blocks, which is
  \<open>None\<close>.
\<close>

datatype wait_arm = WaitResult | WaitDeadline | WaitCtx err

definition takeResult :: "nat \<Rightarrow> 'm Table \<Rightarrow> ('m Table \<times> 'm Result) option" where
  "takeResult p t =
     (case ca_resultCh (heap t ! p) of
        [] \<Rightarrow> None
      | r # q \<Rightarrow> Some (t\<lparr>heap := (heap t)[p := (heap t ! p)\<lparr>ca_resultCh := q\<rparr>]\<rparr>, r))"

definition wait :: "nat \<Rightarrow> wait_arm \<Rightarrow> 'm Table \<Rightarrow> ('m Table \<times> (err, 'm Result) outcome) option" where
  "wait p arm t =
     (case arm of
        WaitResult \<Rightarrow> map_option (\<lambda>(t, r). (t, Ok r)) (takeResult p t)
      | WaitDeadline \<Rightarrow>
          (if ca_deadline (heap t ! p) = None then None
           else map_option (\<lambda>(t, r). (t, Ok r)) (takeResult p (fst (DeadlineExceeded (ca_id (heap t ! p)) t))))
      | WaitCtx e \<Rightarrow> Some (t, Err e))"

section \<open>Retry attempts\<close>

record CallDescriptor =
  cd_CallID :: u64
  DedupKey :: "byte list"

definition RetryIdempotent :: "err option \<Rightarrow> 'm Table \<Rightarrow> CallDescriptor \<Rightarrow> 'm Table \<times> (err, CallDescriptor) outcome" where
  "RetryIdempotent ctxErr t orig =
     (case ctxErr of
        Some e \<Rightarrow> (t, Err e)
      | None \<Rightarrow> (case NextID t of (t, cid) \<Rightarrow> (t, Ok \<lparr>cd_CallID = cid, DedupKey = DedupKey orig\<rparr>)))"

end
