(* ===== verification/Call_Concurrent.thy ===== *)
theory Call_Concurrent
  imports Call_Table
begin

text \<open>
  The request table with any number of goroutines: readers that complete and fail calls, the writer that
  publishes them, callers that cancel, deadlines, a teardown that fails every call. Each is a thread whose
  steps are the lock sections, the compare-and-swaps and the channel operation of the source; the threads
  interleave freely. Every call gets exactly one result, the one its terminal state stands for.
\<close>

section \<open>Threads\<close>

text \<open>
  What a \<open>terminate\<close> returns to: its caller, or the loop of \<open>FailAll\<close>, which keeps the IDs still to do; the
  last list of IDs is the snapshot the loop started with.
\<close>

datatype cont = KReturn | KFirst u64 err err "u64 list" "u64 list" | KSecond u64 err err "u64 list" "u64 list"

datatype 'm pc =
    Look u64 CallState "'m Result" "CallState list" cont
  | Cas nat u64 CallState "'m Result" "CallState list" cont
  | SendPc nat u64 "'m Result" cont
  | DeletePc u64 cont
  | PubLook u64
  | PubCas nat

fun failNext :: "err \<Rightarrow> err \<Rightarrow> u64 list \<Rightarrow> u64 list \<Rightarrow> 'm pc option" where
  "failNext d n [] snap = None"
| "failNext d n (cid # cids) snap = Some (Look cid StateRejected (errResult n) [StateSubmitted] (KFirst cid d n cids snap))"

fun resume :: "cont \<Rightarrow> bool \<Rightarrow> 'm pc option" where
  "resume KReturn won = None"
| "resume (KFirst cid d n cids snap) won =
     (if won then failNext d n cids snap
      else Some (Look cid StateOutcomeUnknown (errResult d) [StatePublished] (KSecond cid d n cids snap)))"
| "resume (KSecond cid d n cids snap) won = failNext d n cids snap"

text \<open>One step of a thread; \<open>None\<close> is a send that blocks on a full channel.\<close>

fun pcStep :: "'m pc \<Rightarrow> 'm Table \<Rightarrow> ('m Table \<times> 'm pc option) option" where
  "pcStep (Look cid to r from k) t =
     Some (case calls t cid of None \<Rightarrow> (t, resume k False) | Some p \<Rightarrow> (t, Some (Cas p cid to r from k)))"
| "pcStep (Cas p cid to r [] k) t = Some (t, resume k False)"
| "pcStep (Cas p cid to r (src # from) k) t =
     Some (case casState p src to t of
       (t', True) \<Rightarrow> (t', Some (SendPc p cid r k)) | (t', False) \<Rightarrow> (t', Some (Cas p cid to r from k)))"
| "pcStep (SendPc p cid r k) t =
     (if ca_resultCh (heap t ! p) = [] then Some (sendResult p r t, Some (DeletePc cid k)) else None)"
| "pcStep (DeletePc cid k) t = Some (deleteCall cid t, resume k True)"
| "pcStep (PubLook cid) t = Some (t, case calls t cid of None \<Rightarrow> None | Some p \<Rightarrow> Some (PubCas p))"
| "pcStep (PubCas p) t = Some (fst (casState p StateSubmitted StatePublished t), None)"

text \<open>The operations a goroutine starts, with the transition each of them is in the table.\<close>

datatype 'm op =
    OpCancel u64 | OpComplete u64 "byte list" | OpCompleteMsg u64 'm | OpFail u64 "FrameStatus option"
  | OpDeadline u64 | OpUnknown u64 err | OpReject u64 err | OpPublish u64

fun startPc :: "'m op \<Rightarrow> 'm pc" where
  "startPc (OpCancel cid) =
     Look cid StateCanceled (errResult {ErrCanceledLocally}) [StateSubmitted, StatePublished] KReturn"
| "startPc (OpComplete cid pl) =
     Look cid StateCompleted \<lparr>res_Payload = pl, res_Msg = None, res_Status = None, res_Err = None\<rparr> [StatePublished] KReturn"
| "startPc (OpCompleteMsg cid msg) =
     Look cid StateCompleted \<lparr>res_Payload = [], res_Msg = Some msg, res_Status = None, res_Err = None\<rparr> [StatePublished] KReturn"
| "startPc (OpFail cid st) =
     Look cid StateFailed \<lparr>res_Payload = [], res_Msg = None, res_Status = st, res_Err = None\<rparr> [StatePublished] KReturn"
| "startPc (OpDeadline cid) =
     Look cid StateDeadline (errResult {ErrDeadlineExceeded}) [StateSubmitted, StatePublished] KReturn"
| "startPc (OpUnknown cid e) = Look cid StateOutcomeUnknown (errResult e) [StatePublished] KReturn"
| "startPc (OpReject cid e) = Look cid StateRejected (errResult e) [StateSubmitted, StatePublished] KReturn"
| "startPc (OpPublish cid) = PubLook cid"

section \<open>A thread on its own is the operation of the table\<close>

inductive alone :: "'m pc option \<times> 'm Table \<Rightarrow> 'm pc option \<times> 'm Table \<Rightarrow> bool" where
  alone_refl: "alone s s"
| alone_step: "pcStep pc t = Some (t', nxt) \<Longrightarrow> alone (nxt, t') s \<Longrightarrow> alone (Some pc, t) s"

lemma nth_upd: "q < length xs \<Longrightarrow> xs[p := x] ! q = (if p = q then x else xs ! q)"
  by simp

lemma casState_fields [simp]:
  "calls (fst (casState p a b t)) = calls t" "length (heap (fst (casState p a b t))) = length (heap t)"
  "nextID (fst (casState p a b t)) = nextID t" "ca_resultCh (heap (fst (casState p a b t)) ! q) = ca_resultCh (heap t ! q)"
  by (cases "p < length (heap t)"; cases "p = q"; simp add: casState_def list_update_beyond)+

lemma alone_cas:
  assumes "casFrom p to from t = (t', b)" "ca_resultCh (heap t ! p) = []"
  shows "alone (Some (Cas p cid to r from k), t) (resume k b, if b then deleteCall cid (sendResult p r t') else t')"
  using assms
proof (induction p to "from" t rule: casFrom.induct)
  case (1 p to t)
  then show ?case
    by (auto intro!: alone_step [OF _ alone_refl])
next
  case (2 p to src "from" t)
  obtain t1 b1 where c: "casState p src to t = (t1, b1)"
    by fastforce
  have ch: "ca_resultCh (heap t1 ! p) = []"
    using casState_fields(4) [of p src to t p] c 2(3) by simp
  show ?case
  proof (cases b1)
    case True
    then have "t' = t1" "b"
      using 2(2) c by auto
    then show ?thesis
      using c ch True by (auto intro!: alone_step [OF _ alone_step [OF _ alone_step [OF _ alone_refl]]])
  next
    case False
    then have "casFrom p to from t1 = (t', b)"
      using 2(2) c by simp
    from alone_step [OF _ "2.IH" [OF c [symmetric] _ this ch]] show ?thesis
      using c False by auto
  qed
qed

lemma alone_terminate:
  assumes "terminate cid to r from t = (t', b)" "\<And>p. calls t cid = Some p \<Longrightarrow> ca_resultCh (heap t ! p) = []"
  shows "alone (Some (Look cid to r from k), t) (resume k b, t')"
proof (cases "calls t cid")
  case None
  then show ?thesis
    using assms(1) by (auto simp: terminate_def intro!: alone_step [OF _ alone_refl])
next
  case (Some p)
  obtain t1 b1 where c: "casFrom p to from t = (t1, b1)"
    by fastforce
  have "t' = (if b then deleteCall cid (sendResult p r t1) else t1)" "b1 = b"
    using assms(1) Some c by (auto simp: terminate_def split: bool.splits)
  then show ?thesis
    using alone_step [OF _ alone_cas [OF c assms(2) [OF Some], of cid r k]] Some by auto
qed

section \<open>The system\<close>

text \<open>
  The ghost logs: \<open>cs_won\<close> the compare-and-swaps that ended a call, with the source state; \<open>cs_sent\<close> the results
  put on the channels; \<open>cs_published\<close> the calls the writer published; \<open>cs_failed\<close> the snapshots of finished
  \<open>FailAll\<close> loops.
\<close>

record 'm csys =
  cs_tab :: "'m Table"
  cs_threads :: "'m pc list"
  cs_won :: "(nat \<times> CallState \<times> CallState \<times> 'm Result) list"
  cs_sent :: "(nat \<times> 'm Result) list"
  cs_published :: "nat list"
  cs_failed :: "u64 list list"

definition initSys :: "u64 \<Rightarrow> 'm csys" where
  "initSys gen = \<lparr>cs_tab = NewTable gen, cs_threads = [], cs_won = [], cs_sent = [], cs_published = [], cs_failed = []\<rparr>"

fun wonBy :: "'m pc \<Rightarrow> 'm Table \<Rightarrow> (nat \<times> CallState \<times> CallState \<times> 'm Result) list" where
  "wonBy (Cas p cid to r (src # from) k) t = (if ca_state (heap t ! p) = src then [(p, src, to, r)] else [])"
| "wonBy _ t = []"

fun sentBy :: "'m pc \<Rightarrow> (nat \<times> 'm Result) list" where
  "sentBy (SendPc p cid r k) = [(p, r)]"
| "sentBy _ = []"

fun publishedBy :: "'m pc \<Rightarrow> 'm Table \<Rightarrow> nat list" where
  "publishedBy (PubCas p) t = (if ca_state (heap t ! p) = StateSubmitted then [p] else [])"
| "publishedBy _ t = []"

fun contOf :: "'m pc \<Rightarrow> cont" where
  "contOf (Look cid to r from k) = k"
| "contOf (Cas p cid to r from k) = k"
| "contOf (SendPc p cid r k) = k"
| "contOf (DeletePc cid k) = k"
| "contOf _ = KReturn"

fun failedBy :: "cont \<Rightarrow> bool \<Rightarrow> u64 list list" where
  "failedBy KReturn over = []"
| "failedBy (KFirst cid d n cids snap) over = (if over then [snap] else [])"
| "failedBy (KSecond cid d n cids snap) over = (if over then [snap] else [])"

definition optList :: "'a option \<Rightarrow> 'a list" where
  "optList x = (case x of None \<Rightarrow> [] | Some y \<Rightarrow> [y])"

inductive cstep :: "'m csys \<Rightarrow> 'm csys \<Rightarrow> bool" where
  submit: "Suc (unat (nextID (cs_tab s))) < 2 ^ 64 \<Longrightarrow> SubmitDecoding now budget newResp (cs_tab s) = (t', cid, p) \<Longrightarrow>
     cstep s (s\<lparr>cs_tab := t'\<rparr>)"
| mint: "Suc (unat (nextID (cs_tab s))) < 2 ^ 64 \<Longrightarrow> NextID (cs_tab s) = (t', cid) \<Longrightarrow> cstep s (s\<lparr>cs_tab := t'\<rparr>)"
| start: "cstep s (s\<lparr>cs_threads := startPc oper # cs_threads s\<rparr>)"
| fail_all: "set snap = dom (calls (cs_tab s)) \<Longrightarrow>
     cstep s (s\<lparr>cs_threads := optList (failNext d n snap snap) @ cs_threads s\<rparr>)"
| run: "cs_threads s = xs @ pc # ys \<Longrightarrow> pcStep pc (cs_tab s) = Some (t', nxt) \<Longrightarrow>
     cstep s (s\<lparr>cs_tab := t', cs_threads := xs @ optList nxt @ ys, cs_won := cs_won s @ wonBy pc (cs_tab s),
       cs_sent := cs_sent s @ sentBy pc, cs_published := cs_published s @ publishedBy pc (cs_tab s),
       cs_failed := cs_failed s @ failedBy (contOf pc) (nxt = None)\<rparr>)"
| take: "p < length (heap (cs_tab s)) \<Longrightarrow> takeResult p (cs_tab s) = Some (t', r) \<Longrightarrow> cstep s (s\<lparr>cs_tab := t'\<rparr>)"

inductive creach :: "u64 \<Rightarrow> 'm csys \<Rightarrow> bool" for gen where
  creach_init: "creach gen (initSys gen)"
| creach_step: "creach gen s \<Longrightarrow> cstep s s' \<Longrightarrow> creach gen s'"

section \<open>The invariant\<close>

definition liveState :: "CallState \<Rightarrow> bool" where
  "liveState st \<longleftrightarrow> st = StateSubmitted \<or> st = StatePublished"

text \<open>The results a terminal state stands for.\<close>

fun matches :: "CallState \<Rightarrow> 'm Result \<Rightarrow> bool" where
  "matches StateCompleted r \<longleftrightarrow> res_Err r = None \<and> res_Status r = None"
| "matches StateFailed r \<longleftrightarrow> res_Err r = None \<and> res_Payload r = [] \<and> res_Msg r = None"
| "matches StateCanceled r \<longleftrightarrow> r = errResult {ErrCanceledLocally}"
| "matches StateDeadline r \<longleftrightarrow> r = errResult {ErrDeadlineExceeded}"
| "matches StateRejected r \<longleftrightarrow> (\<exists>e. r = errResult e)"
| "matches StateOutcomeUnknown r \<longleftrightarrow> (\<exists>e. r = errResult e)"
| "matches _ r \<longleftrightarrow> False"

definition tab_ok :: "'m Table \<Rightarrow> bool" where
  "tab_ok t \<longleftrightarrow>
     distinct (map ca_id (heap t)) \<and> (\<forall>c \<in> set (heap t). unat (ca_id c) \<le> unat (nextID t)) \<and>
     (\<forall>cid p. calls t cid = Some p \<longrightarrow> p < length (heap t) \<and> ca_id (heap t ! p) = cid) \<and>
     (\<forall>p < length (heap t). liveState (ca_state (heap t ! p)) \<longrightarrow> calls t (ca_id (heap t ! p)) = Some p)"

text \<open>A call with the ID has ended; it has left the submitted state; it is known.\<close>

definition holdsFor :: "(CallState \<Rightarrow> bool) \<Rightarrow> u64 \<Rightarrow> 'm Table \<Rightarrow> bool" where
  "holdsFor P cid t \<longleftrightarrow> (\<exists>p < length (heap t). ca_id (heap t ! p) = cid \<and> P (ca_state (heap t ! p)))"

abbreviation ended :: "u64 \<Rightarrow> 'm Table \<Rightarrow> bool" where
  "ended \<equiv> holdsFor (\<lambda>st. \<not> liveState st)"

abbreviation pastSubmitted :: "u64 \<Rightarrow> 'm Table \<Rightarrow> bool" where
  "pastSubmitted \<equiv> holdsFor (\<lambda>st. st \<noteq> StateSubmitted)"

abbreviation known :: "u64 \<Rightarrow> 'm Table \<Rightarrow> bool" where
  "known \<equiv> holdsFor (\<lambda>st. True)"

fun cont_ok :: "'m Table \<Rightarrow> cont \<Rightarrow> bool" where
  "cont_ok t KReturn \<longleftrightarrow> True"
| "cont_ok t (KFirst cid d n cids snap) \<longleftrightarrow>
     (\<forall>i \<in> set snap. known i t \<and> (i \<in> set cids \<or> i = cid \<or> ended i t)) \<and> set cids \<subseteq> set snap \<and> cid \<in> set snap"
| "cont_ok t (KSecond cid d n cids snap) \<longleftrightarrow>
     (\<forall>i \<in> set snap. known i t \<and> (i \<in> set cids \<or> i = cid \<or> ended i t)) \<and> set cids \<subseteq> set snap \<and> pastSubmitted cid t"

text \<open>What the loop of \<open>FailAll\<close> still has to try, at a point with the source states \<open>from\<close> left.\<close>

fun tries :: "'m Table \<Rightarrow> u64 \<Rightarrow> CallState list \<Rightarrow> cont \<Rightarrow> bool" where
  "tries t cid from KReturn \<longleftrightarrow> True"
| "tries t cid from (KFirst c d n cids snap) \<longleftrightarrow> c = cid \<and> (from = [StateSubmitted] \<or> from = [] \<and> pastSubmitted cid t)"
| "tries t cid from (KSecond c d n cids snap) \<longleftrightarrow> c = cid \<and> (from = [StatePublished] \<or> from = [] \<and> ended cid t)"

fun sameID :: "u64 \<Rightarrow> cont \<Rightarrow> bool" where
  "sameID cid KReturn \<longleftrightarrow> True"
| "sameID cid (KFirst c d n cids snap) \<longleftrightarrow> c = cid"
| "sameID cid (KSecond c d n cids snap) \<longleftrightarrow> c = cid"

fun pc_ok :: "'m Table \<Rightarrow> 'm pc \<Rightarrow> bool" where
  "pc_ok t (Look cid to r from k) \<longleftrightarrow>
     matches to r \<and> Ball (set from) liveState \<and> cont_ok t k \<and> tries t cid from k \<and> (from \<noteq> [])"
| "pc_ok t (Cas p cid to r from k) \<longleftrightarrow>
     p < length (heap t) \<and> ca_id (heap t ! p) = cid \<and> matches to r \<and> Ball (set from) liveState \<and> cont_ok t k \<and> tries t cid from k"
| "pc_ok t (SendPc p cid r k) \<longleftrightarrow>
     p < length (heap t) \<and> ca_id (heap t ! p) = cid \<and> matches (ca_state (heap t ! p)) r \<and> cont_ok t k \<and> sameID cid k"
| "pc_ok t (DeletePc cid k) \<longleftrightarrow> ended cid t \<and> cont_ok t k \<and> sameID cid k"
| "pc_ok t (PubLook cid) \<longleftrightarrow> True"
| "pc_ok t (PubCas p) \<longleftrightarrow> p < length (heap t)"

text \<open>How the heap may change: calls are added, a terminal state stays, no call returns to submitted.\<close>

definition evolves :: "'m Table \<Rightarrow> 'm Table \<Rightarrow> bool" where
  "evolves t t' \<longleftrightarrow>
     length (heap t) \<le> length (heap t') \<and>
     (\<forall>p < length (heap t). ca_id (heap t' ! p) = ca_id (heap t ! p) \<and>
        (\<not> liveState (ca_state (heap t ! p)) \<longrightarrow> ca_state (heap t' ! p) = ca_state (heap t ! p)) \<and>
        (ca_state (heap t ! p) \<noteq> StateSubmitted \<longrightarrow> ca_state (heap t' ! p) \<noteq> StateSubmitted))"

lemma matches_ended: "matches st r \<Longrightarrow> \<not> liveState st"
  by (cases st) (simp_all add: liveState_def)

lemma evolves_holdsFor:
  assumes "evolves t t'"
  shows "ended cid t \<Longrightarrow> ended cid t'" "pastSubmitted cid t \<Longrightarrow> pastSubmitted cid t'" "known cid t \<Longrightarrow> known cid t'"
  using assms unfolding holdsFor_def evolves_def by (metis order_less_le_trans)+

lemma evolves_cont: "evolves t t' \<Longrightarrow> cont_ok t k \<Longrightarrow> cont_ok t' k"
  using evolves_holdsFor [of t t'] by (cases k) (simp; blast)+

lemma evolves_tries: "evolves t t' \<Longrightarrow> tries t cid from k \<Longrightarrow> tries t' cid from k"
  using evolves_holdsFor [of t t'] by (cases k) auto

lemma evolves_pc:
  assumes "evolves t t'" "pc_ok t pc"
  shows "pc_ok t' pc"
proof -
  have l: "p < length (heap t) \<Longrightarrow> p < length (heap t')" "p < length (heap t) \<Longrightarrow> ca_id (heap t' ! p) = ca_id (heap t ! p)"
    "p < length (heap t) \<Longrightarrow> matches (ca_state (heap t ! p)) r \<Longrightarrow> matches (ca_state (heap t' ! p)) r" for p r
    using assms(1) matches_ended by (auto simp: evolves_def dest: matches_ended)
  show ?thesis
    using assms(2) l evolves_holdsFor [OF assms(1)] evolves_cont [OF assms(1)] evolves_tries [OF assms(1)]
    by (cases pc) auto
qed

section \<open>What each step keeps\<close>

lemma evolves_refl [simp]: "evolves t t"
  by (simp add: evolves_def)

lemma evolves_heap: "heap t' = heap t \<Longrightarrow> evolves t t'"
  by (simp add: evolves_def)

lemma evolves_state:
  assumes "liveState (ca_state (heap t ! p))" "to \<noteq> StateSubmitted"
  shows "evolves t (t\<lparr>heap := (heap t)[p := (heap t ! p)\<lparr>ca_state := to\<rparr>]\<rparr>)"
  using assms by (auto simp: evolves_def nth_upd)

lemma evolves_result: "evolves t (t\<lparr>heap := (heap t)[p := (heap t ! p)\<lparr>ca_resultCh := q\<rparr>]\<rparr>)"
  by (auto simp: evolves_def nth_upd)

lemma tab_ok_set:
  assumes "tab_ok t" "ca_id c = ca_id (heap t ! p)" "liveState (ca_state c) \<Longrightarrow> liveState (ca_state (heap t ! p))"
  shows "tab_ok (t\<lparr>heap := (heap t)[p := c]\<rparr>)"
proof (cases "p < length (heap t)")
  case True
  have "map ca_id ((heap t)[p := c]) = (map ca_id (heap t))[p := ca_id (heap t ! p)]"
    using assms(2) by (simp add: map_update)
  then have m: "map ca_id ((heap t)[p := c]) = map ca_id (heap t)"
    using True by (metis list_update_id length_map nth_map)
  have "\<forall>x \<in> set ((heap t)[p := c]). unat (ca_id x) \<le> unat (nextID t)"
    using assms(1,2) True set_update_subset_insert [of "heap t" p c] by (fastforce simp: tab_ok_def)
  moreover have "ca_id ((heap t)[p := c] ! q) = ca_id (heap t ! q)"
    "liveState (ca_state ((heap t)[p := c] ! q)) \<Longrightarrow> liveState (ca_state (heap t ! q))" if "q < length (heap t)" for q
    using assms(2,3) that by (auto simp: nth_upd split: if_splits)
  ultimately show ?thesis
    using assms(1) unfolding tab_ok_def by (simp add: m)
qed (use assms(1) in \<open>simp add: list_update_beyond\<close>)

lemma live_calls:
  assumes "tab_ok t" "p < length (heap t)" "liveState (ca_state (heap t ! p))"
  shows "calls t (ca_id (heap t ! p)) = Some p"
  using assms by (simp add: tab_ok_def)

lemma same_id:
  assumes "tab_ok t" "p < length (heap t)" "q < length (heap t)" "ca_id (heap t ! p) = ca_id (heap t ! q)"
  shows "p = q"
  using assms nth_eq_iff_index_eq [of "map ca_id (heap t)" p q] by (simp add: tab_ok_def)

lemma absent_ended: "tab_ok t \<Longrightarrow> known cid t \<Longrightarrow> calls t cid = None \<Longrightarrow> ended cid t"
  unfolding holdsFor_def using live_calls by force

text \<open>What the loop of \<open>FailAll\<close> knows when a \<open>terminate\<close> returns \<open>won\<close>.\<close>

fun returns :: "'m Table \<Rightarrow> cont \<Rightarrow> bool \<Rightarrow> bool" where
  "returns t KReturn won \<longleftrightarrow> True"
| "returns t (KFirst cid d n cids snap) won \<longleftrightarrow> (if won then ended cid t else pastSubmitted cid t)"
| "returns t (KSecond cid d n cids snap) won \<longleftrightarrow> ended cid t"

lemma failNext_ok:
  assumes "\<forall>i \<in> set snap. known i t \<and> (i \<in> set cids \<or> ended i t)" "set cids \<subseteq> set snap"
  shows "pred_option (pc_ok t) (failNext d n cids snap)" "cids = [] \<Longrightarrow> \<forall>i \<in> set snap. ended i t"
  using assms by (cases cids; auto simp: liveState_def)+

lemma failNext_None: "failNext d n cids snap = None \<longleftrightarrow> cids = []"
  by (cases cids) simp_all

lemma resume_ok:
  fixes t :: "'m Table"
  assumes "cont_ok t k" "returns t k won"
  shows "pred_option (pc_ok t) (resume k won)"
    "\<forall>snap \<in> set (failedBy k ((resume k won :: 'm pc option) = None)). \<forall>i \<in> set snap. ended i t"
proof -
  have "pred_option (pc_ok t) (resume k won) \<and>
    (\<forall>snap \<in> set (failedBy k ((resume k won :: 'm pc option) = None)). \<forall>i \<in> set snap. ended i t)"
  proof (cases k)
    case (KFirst cid d n cids snap)
    have a: "\<forall>i \<in> set snap. known i t \<and> (i \<in> set cids \<or> ended i t)" "set cids \<subseteq> set snap" if won
      using assms that KFirst by auto
    then show ?thesis
      using assms failNext_ok [OF a(1) a(2)] KFirst by (cases won) (auto simp: liveState_def failNext_None)
  next
    case (KSecond cid d n cids snap)
    have a: "\<forall>i \<in> set snap. known i t \<and> (i \<in> set cids \<or> ended i t)" "set cids \<subseteq> set snap"
      using assms KSecond by auto
    show ?thesis
      using failNext_ok [OF a(1) a(2)] KSecond by (auto simp: failNext_None)
  qed simp
  then show "pred_option (pc_ok t) (resume k won)"
    "\<forall>snap \<in> set (failedBy k ((resume k won :: 'm pc option) = None)). \<forall>i \<in> set snap. ended i t"
    by blast+
qed

text \<open>A step of a thread that is well-formed: the table stays sound and the thread well-formed.\<close>

definition good_step :: "'m Table \<Rightarrow> 'm pc \<Rightarrow> 'm Table \<Rightarrow> 'm pc option \<Rightarrow> bool" where
  "good_step t pc t' nxt \<longleftrightarrow>
     tab_ok t' \<and> evolves t t' \<and> pred_option (pc_ok t') nxt \<and>
     (\<forall>snap \<in> set (failedBy (contOf pc) (nxt = None)). \<forall>i \<in> set snap. ended i t')"

lemma good_resume:
  assumes "tab_ok t'" "evolves t t'" "cont_ok t' (contOf pc)" "returns t' (contOf pc) won"
  shows "good_step t pc t' (resume (contOf pc) won)"
  using assms resume_ok [OF assms(3,4)] by (simp add: good_step_def)

lemma good_move:
  assumes "tab_ok t'" "evolves t t'" "pc_ok t' pc'"
  shows "good_step t pc t' (Some pc')"
  using assms by (cases "contOf pc") (simp_all add: good_step_def)

lemma tries_returns: "tries t cid [] k \<Longrightarrow> returns t k False"
  by (cases k) auto

lemma look_ok:
  assumes "tab_ok t" "pc_ok t (Look cid to r from k)" "pcStep (Look cid to r from k) t = Some (t', nxt)"
  shows "good_step t (Look cid to r from k) t' nxt"
proof (cases "calls t cid")
  case None
  have "returns t k False"
  proof (cases k)
    case (KFirst c d n cids snap)
    then have "ended cid t" "c = cid"
      using assms(2) absent_ended [OF assms(1) _ None] by auto
    then show ?thesis
      using KFirst by (auto simp: holdsFor_def liveState_def)
  next
    case (KSecond c d n cids snap)
    then have "known cid t" "c = cid"
      using assms(2) by (auto simp: holdsFor_def)
    then show ?thesis
      using KSecond absent_ended [OF assms(1) _ None] by simp
  qed simp
  then show ?thesis
    using good_resume [of t t "Look cid to r from k" False] assms None by simp
next
  case (Some p)
  then have "p < length (heap t)" "ca_id (heap t ! p) = cid"
    using assms(1) by (auto simp: tab_ok_def)
  then show ?thesis
    using assms Some by (auto intro!: good_move)
qed

lemma cas_ok:
  assumes "tab_ok t" "pc_ok t (Cas p cid to r from k)" "pcStep (Cas p cid to r from k) t = Some (t', nxt)"
  shows "good_step t (Cas p cid to r from k) t' nxt"
proof (cases "from")
  case Nil
  then show ?thesis
    using good_resume [of t t "Cas p cid to r from k" False] assms tries_returns by auto
next
  case (Cons src rest)
  have p: "p < length (heap t)" "ca_id (heap t ! p) = cid" "matches to r" "liveState src" "\<not> liveState to"
    using assms(2) Cons matches_ended by auto
  show ?thesis
  proof (cases "ca_state (heap t ! p) = src")
    case True
    let ?c = "(heap t ! p)\<lparr>ca_state := to\<rparr>"
    have t': "t' = t\<lparr>heap := (heap t)[p := ?c]\<rparr>" "nxt = Some (SendPc p cid r k)"
      using assms(3) Cons True by (auto simp: casState_def)
    have e: "evolves t t'"
      unfolding t' using p True by (intro evolves_state) (auto simp: liveState_def)
    have "tab_ok t'"
      unfolding t' using assms(1) p by (intro tab_ok_set) auto
    moreover have "pc_ok t' (SendPc p cid r k)"
      using p assms(2) evolves_cont [OF e, of k] by (cases k) (auto simp: t')
    ultimately show ?thesis
      using e by (simp add: t'(2) good_move)
  next
    case False
    then have t': "t' = t" "nxt = Some (Cas p cid to r rest k)"
      using assms(3) Cons by (auto simp: casState_def)
    have "tries t cid rest k"
    proof (cases k)
      case (KFirst c d n cids snap)
      then show ?thesis
        using assms(2) Cons False p by (auto simp: holdsFor_def)
    next
      case (KSecond c d n cids snap)
      then obtain q where q: "q < length (heap t)" "ca_id (heap t ! q) = cid" "ca_state (heap t ! q) \<noteq> StateSubmitted"
        using assms(2) by (auto simp: holdsFor_def)
      then have "q = p"
        using same_id [OF assms(1) q(1) p(1)] p(2) by simp
      then show ?thesis
        using KSecond assms(2) Cons False q by (auto simp: holdsFor_def liveState_def)
    qed simp
    then show ?thesis
      using assms p Cons unfolding t' by (intro good_move) auto
  qed
qed

lemma delete_ok:
  assumes "tab_ok t" "pc_ok t (DeletePc cid k)" "pcStep (DeletePc cid k) t = Some (t', nxt)"
  shows "good_step t (DeletePc cid k) t' nxt"
proof -
  have t': "t' = deleteCall cid t" "nxt = resume k True"
    using assms(3) by auto
  have e: "evolves t t'"
    unfolding t' by (rule evolves_heap) (simp add: deleteCall_def)
  have "ca_id (heap t ! p) \<noteq> cid" if "p < length (heap t)" "liveState (ca_state (heap t ! p))" for p
    using assms(2) same_id [OF assms(1) that(1)] that by (auto simp: holdsFor_def)
  then have "tab_ok t'"
    using assms(1) by (auto simp: t' tab_ok_def deleteCall_def)
  moreover have "returns t' k True"
    using assms(2) evolves_holdsFor(1) [OF e] by (cases k) auto
  ultimately show ?thesis
    using good_resume [of t' t "DeletePc cid k" True] e evolves_cont [OF e] assms(2) t'(2) by simp
qed

lemma pcStep_ok:
  assumes "tab_ok t" "pc_ok t pc" "pcStep pc t = Some (t', nxt)"
  shows "good_step t pc t' nxt"
proof (cases pc)
  case (SendPc p cid r k)
  then have t': "t' = sendResult p r t" "nxt = Some (DeletePc cid k)"
    using assms(3) by (auto split: if_splits)
  have e: "evolves t t'" "tab_ok t'"
    unfolding t' sendResult_def using assms(1) by (auto intro!: evolves_result tab_ok_set)
  have "ended cid t"
    using assms(2) SendPc matches_ended by (auto simp: holdsFor_def)
  then show ?thesis
    using assms(2) SendPc e evolves_holdsFor(1) [OF e(1)] evolves_cont [OF e(1)] by (simp add: t'(2) good_move)
next
  case (PubLook cid)
  have "calls t cid = Some p \<Longrightarrow> p < length (heap t)" for p
    using assms(1) by (auto simp: tab_ok_def)
  then show ?thesis
    using assms PubLook by (auto simp: good_step_def split: option.splits)
next
  case (PubCas p)
  have "evolves t (fst (casState p StateSubmitted StatePublished t))" "tab_ok (fst (casState p StateSubmitted StatePublished t))"
    using assms(1) evolves_state [of t p StatePublished] tab_ok_set [of t "(heap t ! p)\<lparr>ca_state := StatePublished\<rparr>" p]
    by (auto simp: casState_def liveState_def)
  then show ?thesis
    using assms(3) PubCas by (auto simp: good_step_def)
next
  case (Look cid to r "from" k)
  show ?thesis
    using look_ok [OF assms(1)] assms(2,3) unfolding Look by this
next
  case (Cas p cid to r "from" k)
  show ?thesis
    using cas_ok [OF assms(1)] assms(2,3) unfolding Cas by this
next
  case (DeletePc cid k)
  show ?thesis
    using delete_ok [OF assms(1)] assms(2,3) unfolding DeletePc by this
qed

section \<open>The accounts\<close>

fun sendingAt :: "nat \<Rightarrow> 'm pc \<Rightarrow> bool" where
  "sendingAt p (SendPc q cid r k) \<longleftrightarrow> q = p"
| "sendingAt p _ \<longleftrightarrow> False"

fun deleting :: "u64 \<Rightarrow> 'm pc \<Rightarrow> bool" where
  "deleting c (DeletePc cid k) \<longleftrightarrow> cid = c"
| "deleting c _ \<longleftrightarrow> False"

definition entriesOf :: "nat \<Rightarrow> (nat \<times> 'a) list \<Rightarrow> nat" where
  "entriesOf p xs = length (filter (\<lambda>x. fst x = p) xs)"

definition nSending :: "nat \<Rightarrow> 'm pc list \<Rightarrow> nat" where
  "nSending p ths = length (filter (sendingAt p) ths)"

lemma entriesOf_simps [simp]:
  "entriesOf p [] = 0" "entriesOf p (x # xs) = (if fst x = p then 1 else 0) + entriesOf p xs"
  "entriesOf p (xs @ ys) = entriesOf p xs + entriesOf p ys"
  by (simp_all add: entriesOf_def)

lemma nSending_simps [simp]:
  "nSending p [] = 0" "nSending p (pc # ths) = (if sendingAt p pc then 1 else 0) + nSending p ths"
  "nSending p (xs @ ys) = nSending p xs + nSending p ys"
  by (simp_all add: nSending_def)

lemma optList_simps [simp]: "optList None = []" "optList (Some x) = [x]"
  by (simp_all add: optList_def)

text \<open>
  A live call has no result and nobody sending one; an ended call has exactly one result, sent or about to
  be. The channel holds no more than was sent, and an ended call still in the map is about to be deleted.
\<close>

definition acct ::
  "'m Table \<Rightarrow> 'm pc list \<Rightarrow> (nat \<times> CallState \<times> CallState \<times> 'm Result) list \<Rightarrow> (nat \<times> 'm Result) list \<Rightarrow> nat list \<Rightarrow> nat \<Rightarrow> bool" where
  "acct t ths won sent pub p \<longleftrightarrow>
     (let c = heap t ! p; one = (if liveState (ca_state c) then 0 else 1) in
      entriesOf p sent + nSending p ths = one \<and> entriesOf p won = one \<and> length (ca_resultCh c) \<le> entriesOf p sent \<and>
      (ca_state c = StateSubmitted \<longrightarrow> p \<notin> set pub) \<and> (ca_state c = StatePublished \<longrightarrow> p \<in> set pub) \<and>
      (\<not> liveState (ca_state c) \<and> calls t (ca_id c) = Some p \<longrightarrow>
         (\<exists>pc \<in> set ths. sendingAt p pc \<or> deleting (ca_id c) pc)))"

fun won_ok :: "'m Table \<Rightarrow> nat list \<Rightarrow> nat \<times> CallState \<times> CallState \<times> 'm Result \<Rightarrow> bool" where
  "won_ok t pub (p, src, to, r) \<longleftrightarrow>
     p < length (heap t) \<and> ca_state (heap t ! p) = to \<and> matches to r \<and> (src = StateSubmitted \<longleftrightarrow> p \<notin> set pub)"

definition logs_ok ::
  "'m Table \<Rightarrow> 'm pc list \<Rightarrow> (nat \<times> CallState \<times> CallState \<times> 'm Result) list \<Rightarrow> (nat \<times> 'm Result) list \<Rightarrow> nat list \<Rightarrow> bool" where
  "logs_ok t ths won sent pub \<longleftrightarrow>
     (\<forall>w \<in> set won. won_ok t pub w) \<and>
     (\<forall>p r. (p, r) \<in> set sent \<longrightarrow> (\<exists>src to. (p, src, to, r) \<in> set won)) \<and>
     (\<forall>p cid r k. SendPc p cid r k \<in> set ths \<longrightarrow> (\<exists>src to. (p, src, to, r) \<in> set won)) \<and>
     (\<forall>p \<in> set pub. p < length (heap t))"

definition sys_ok :: "'m csys \<Rightarrow> bool" where
  "sys_ok s \<longleftrightarrow>
     tab_ok (cs_tab s) \<and> (\<forall>pc \<in> set (cs_threads s). pc_ok (cs_tab s) pc) \<and>
     (\<forall>p < length (heap (cs_tab s)). acct (cs_tab s) (cs_threads s) (cs_won s) (cs_sent s) (cs_published s) p) \<and>
     logs_ok (cs_tab s) (cs_threads s) (cs_won s) (cs_sent s) (cs_published s) \<and>
     (\<forall>snap \<in> set (cs_failed s). \<forall>i \<in> set snap. ended i (cs_tab s))"

text \<open>The threads a step leaves: the one that moved is replaced, the rest stays.\<close>

lemma failNext_silent [simp]:
  "nSending p (optList (failNext d n cids snap)) = 0" "failNext d n cids snap \<noteq> Some (SendPc q cid r k')"
  "failNext d n cids snap \<noteq> Some (DeletePc cid k')"
  by (cases cids; simp)+

lemma resume_silent [simp]:
  "nSending p (optList (resume k won)) = 0" "resume k won \<noteq> Some (SendPc q cid r k')" "resume k won \<noteq> Some (DeletePc cid k')"
  by (cases k; simp)+

lemma silent_step:
  assumes "pcStep pc t = Some (t', nxt)" "\<And>p cid r k. pc \<noteq> SendPc p cid r k" "\<And>cid k. pc \<noteq> DeletePc cid k"
    "wonBy pc t = []" "publishedBy pc t = []"
  shows "t' = t \<and> nSending p (optList nxt) = 0 \<and> nxt \<noteq> Some (SendPc q cid r k)"
proof (cases pc)
  case (Cas q cid to r "from" k)
  show ?thesis
    using assms(1,4) Cas by (cases "from") (auto simp: casState_def split: if_splits)
qed (use assms in \<open>auto simp: casState_def split: option.splits if_splits\<close>)

lemma entriesOf_pos: "(p, x) \<in> set xs \<Longrightarrow> 0 < entriesOf p xs"
  by (induction xs) auto

lemma won_elsewhere:
  assumes "won_ok t pub w" "fst w \<noteq> p"
  shows "won_ok (t\<lparr>heap := (heap t)[p := c]\<rparr>) pub w" "won_ok t (pub @ [p]) w"
  using assms by (cases w; auto)+

lemma logs_okD:
  assumes "logs_ok t ths won sent pub"
  shows "w \<in> set won \<Longrightarrow> won_ok t pub w" "(p, r) \<in> set sent \<Longrightarrow> \<exists>src to. (p, src, to, r) \<in> set won"
    "SendPc p cid r k \<in> set ths \<Longrightarrow> \<exists>src to. (p, src, to, r) \<in> set won" "p \<in> set pub \<Longrightarrow> p < length (heap t)"
  using assms unfolding logs_ok_def by blast+

lemma logs_okI:
  assumes "\<And>w. w \<in> set won \<Longrightarrow> won_ok t pub w" "\<And>p r. (p, r) \<in> set sent \<Longrightarrow> \<exists>src to. (p, src, to, r) \<in> set won"
    "\<And>p cid r k. SendPc p cid r k \<in> set ths \<Longrightarrow> \<exists>src to. (p, src, to, r) \<in> set won" "\<And>p. p \<in> set pub \<Longrightarrow> p < length (heap t)"
  shows "logs_ok t ths won sent pub"
  using assms unfolding logs_ok_def by blast

lemma silent_acct:
  assumes "acct t (xs @ pc # ys) won sent pub p" "\<not> sendingAt p pc" "\<And>c. \<not> deleting c pc" "nSending p (optList nxt) = 0"
  shows "acct t (xs @ optList nxt @ ys) won sent pub p"
  using assms by (auto simp: acct_def Let_def)

lemma silent_logs:
  assumes "logs_ok t (xs @ pc # ys) won sent pub" "\<And>q cid r k. nxt \<noteq> Some (SendPc q cid r k)"
  shows "logs_ok t (xs @ optList nxt @ ys) won sent pub"
proof -
  have "SendPc q cid r k \<notin> set (optList nxt)" for q cid r k
    using assms(2) by (cases nxt) auto
  then show ?thesis
    using assms(1) unfolding logs_ok_def by simp
qed

text \<open>A compare-and-swap that ends a call.\<close>

lemma win_acct:
  assumes "acct t (xs @ Cas p cid to r from k # ys) won sent pub q" "ca_state (heap t ! p) = src" "liveState src" "\<not> liveState to"
    "p < length (heap t)" "q < length (heap t)"
  shows "acct (t\<lparr>heap := (heap t)[p := (heap t ! p)\<lparr>ca_state := to\<rparr>]\<rparr>) (xs @ SendPc p cid r k # ys) (won @ [(p, src, to, r)]) sent pub q"
proof (cases "q = p")
  case True
  have "to \<noteq> StateSubmitted" "to \<noteq> StatePublished"
    using assms(4) by (auto simp: liveState_def)
  then show ?thesis
    using assms True by (auto simp: acct_def Let_def)
next
  case False
  then show ?thesis
    using assms by (auto simp: acct_def Let_def nth_upd)
qed

lemma win_logs:
  assumes "logs_ok t (xs @ Cas p cid to r from k # ys) won sent pub" "ca_state (heap t ! p) = src" "liveState src" "matches to r"
    "p < length (heap t)" "acct t (xs @ Cas p cid to r from k # ys) won sent pub p"
  shows "logs_ok (t\<lparr>heap := (heap t)[p := (heap t ! p)\<lparr>ca_state := to\<rparr>]\<rparr>) (xs @ SendPc p cid r k # ys) (won @ [(p, src, to, r)]) sent pub"
proof -
  have "entriesOf p won = 0" "src = StateSubmitted \<longleftrightarrow> p \<notin> set pub"
    using assms(2,3,6) by (auto simp: acct_def Let_def liveState_def split: if_splits)
  then have n: "fst w \<noteq> p" if "w \<in> set won" for w
    using entriesOf_pos [of "fst w" "snd w" won] that by auto
  note l = logs_okD [OF assms(1)]
  show ?thesis
  proof (rule logs_okI)
    fix w
    assume "w \<in> set (won @ [(p, src, to, r)])"
    then consider "w \<in> set won" | "w = (p, src, to, r)"
      by auto
    then show "won_ok (t\<lparr>heap := (heap t)[p := (heap t ! p)\<lparr>ca_state := to\<rparr>]\<rparr>) pub w"
    proof cases
      case 1
      then show ?thesis
        by (intro won_elsewhere(1) l(1) n)
    next
      case 2
      then show ?thesis
        using assms(4,5) \<open>src = StateSubmitted \<longleftrightarrow> p \<notin> set pub\<close> by simp
    qed
  next
    fix q c x l'
    assume "SendPc q c x l' \<in> set (xs @ SendPc p cid r k # ys)"
    then show "\<exists>src' to'. (q, src', to', x) \<in> set (won @ [(p, src, to, r)])"
      using l(3) [of q c x l'] by auto
  next
    show "\<exists>src' to'. (q, src', to', x) \<in> set (won @ [(p, src, to, r)])" if "(q, x) \<in> set sent" for q x
      using l(2) [OF that] by auto
  qed (simp add: l(4))
qed

text \<open>The send of the one result: the channel is empty, so it does not block.\<close>

lemma send_room:
  assumes "acct t (xs @ SendPc p cid r k # ys) won sent pub p"
  shows "entriesOf p sent = 0" "nSending p xs = 0" "nSending p ys = 0" "ca_resultCh (heap t ! p) = []" "\<not> liveState (ca_state (heap t ! p))"
proof -
  have "entriesOf p sent + nSending p (xs @ SendPc p cid r k # ys) = (if liveState (ca_state (heap t ! p)) then 0 else 1)"
    and l: "length (ca_resultCh (heap t ! p)) \<le> entriesOf p sent"
    using assms unfolding acct_def Let_def by blast+
  then show n: "entriesOf p sent = 0" "nSending p xs = 0" "nSending p ys = 0" "\<not> liveState (ca_state (heap t ! p))"
    by (simp_all split: if_splits)
  show "ca_resultCh (heap t ! p) = []"
    using l n(1) by simp
qed

lemma send_acct:
  assumes "acct t (xs @ SendPc p cid r k # ys) won sent pub q" "ca_id (heap t ! p) = cid" "p < length (heap t)" "q < length (heap t)"
  shows "acct (sendResult p r t) (xs @ DeletePc cid k # ys) won (sent @ [(p, r)]) pub q"
proof (cases "q = p")
  case True
  note a = assms(1) [unfolded True]
  show ?thesis
    using a send_room [OF a] assms(2,3) True by (simp add: acct_def Let_def sendResult_def)
next
  case False
  then have e: "heap (sendResult p r t) ! q = heap t ! q" "calls (sendResult p r t) = calls t"
    by (simp_all add: sendResult_def)
  show ?thesis
    using assms(1) False unfolding acct_def Let_def e by auto
qed

lemma send_logs:
  assumes "logs_ok t (xs @ SendPc p cid r k # ys) won sent pub"
  shows "logs_ok (sendResult p r t) (xs @ DeletePc cid k # ys) won (sent @ [(p, r)]) pub"
proof -
  have h: "length (heap (sendResult p r t)) = length (heap t)"
    by (simp add: sendResult_def)
  have "ca_state (heap (sendResult p r t) ! q) = ca_state (heap t ! q)" for q
    by (cases "p < length (heap t)"; cases "p = q"; simp add: sendResult_def list_update_beyond)
  then have w: "won_ok (sendResult p r t) pub w = won_ok t pub w" for w
    by (cases w) (simp add: h)
  note l = logs_okD [OF assms]
  show ?thesis
  proof (rule logs_okI)
    show "\<exists>src to. (q, src, to, x) \<in> set won" if "(q, x) \<in> set (sent @ [(p, r)])" for q x
      using that l(2) [of q x] l(3) [of p cid r k] by auto
  next
    show "\<exists>src to. (q, src, to, x) \<in> set won" if "SendPc q c x l' \<in> set (xs @ DeletePc cid k # ys)" for q c x l'
      using that l(3) [of q c x l'] by auto
  qed (use l(1,4) in \<open>simp_all add: w h\<close>)
qed

lemma delete_acct:
  assumes "acct t (xs @ DeletePc cid k # ys) won sent pub q"
  shows "acct (deleteCall cid t) (xs @ optList (resume k True) @ ys) won sent pub q"
  using assms by (auto simp: acct_def Let_def deleteCall_def)

lemma delete_logs:
  assumes "logs_ok t (xs @ DeletePc cid k # ys) won sent pub"
  shows "logs_ok (deleteCall cid t) (xs @ optList (resume k True) @ ys) won sent pub"
proof -
  have "won_ok (deleteCall cid t) pub w = won_ok t pub w" for w
    by (cases w) (simp add: deleteCall_def)
  then show ?thesis
    using silent_logs [OF assms, of "resume k True"] by (simp add: logs_ok_def deleteCall_def)
qed

lemma publish_acct:
  assumes "acct t (xs @ PubCas p # ys) won sent pub q" "ca_state (heap t ! p) = StateSubmitted" "p < length (heap t)" "q < length (heap t)"
  shows "acct (t\<lparr>heap := (heap t)[p := (heap t ! p)\<lparr>ca_state := StatePublished\<rparr>]\<rparr>) (xs @ ys) won sent (pub @ [p]) q"
  using assms by (cases "q = p") (auto simp: acct_def Let_def nth_upd liveState_def)

lemma publish_logs:
  assumes "logs_ok t (xs @ PubCas p # ys) won sent pub" "ca_state (heap t ! p) = StateSubmitted" "p < length (heap t)"
    "acct t (xs @ PubCas p # ys) won sent pub p"
  shows "logs_ok (t\<lparr>heap := (heap t)[p := (heap t ! p)\<lparr>ca_state := StatePublished\<rparr>]\<rparr>) (xs @ ys) won sent (pub @ [p])"
proof -
  have "entriesOf p won = 0"
    using assms(2,4) by (auto simp: acct_def Let_def liveState_def split: if_splits)
  then have n: "fst w \<noteq> p" if "w \<in> set won" for w
    using entriesOf_pos [of "fst w" "snd w" won] that by auto
  note l = logs_okD [OF assms(1)]
  show ?thesis
  proof (rule logs_okI)
    show "won_ok (t\<lparr>heap := (heap t)[p := (heap t ! p)\<lparr>ca_state := StatePublished\<rparr>]\<rparr>) (pub @ [p]) w" if "w \<in> set won" for w
      by (intro won_elsewhere l(1) n that)
  next
    show "\<exists>src to. (q, src, to, x) \<in> set won" if "SendPc q c x l' \<in> set (xs @ ys)" for q c x l'
      using that l(3) [of q c x l'] by auto
  next
    show "\<exists>src to. (q, src, to, x) \<in> set won" if "(q, x) \<in> set sent" for q x
      by (rule l(2) [OF that])
  qed (use l(4) assms(3) in auto)
qed

section \<open>Every reachable state\<close>

lemma sys_okD:
  assumes "sys_ok s"
  shows "tab_ok (cs_tab s)" "pc \<in> set (cs_threads s) \<Longrightarrow> pc_ok (cs_tab s) pc"
    "p < length (heap (cs_tab s)) \<Longrightarrow> acct (cs_tab s) (cs_threads s) (cs_won s) (cs_sent s) (cs_published s) p"
    "logs_ok (cs_tab s) (cs_threads s) (cs_won s) (cs_sent s) (cs_published s)"
    "snap \<in> set (cs_failed s) \<Longrightarrow> i \<in> set snap \<Longrightarrow> ended i (cs_tab s)"
  using assms by (simp_all add: sys_ok_def)

lemma pc_kinds:
  obtains (send) p cid r k where "pc = SendPc p cid r k" | (delete) cid k where "pc = DeletePc cid k"
    | (win) p cid to r src rest k where "pc = Cas p cid to r (src # rest) k" "ca_state (heap t ! p) = src"
    | (pub) p where "pc = PubCas p" "ca_state (heap t ! p) = StateSubmitted"
    | (silent) "\<And>p cid r k. pc \<noteq> SendPc p cid r k" "\<And>cid k. pc \<noteq> DeletePc cid k" "wonBy pc t = []" "publishedBy pc t = []"
proof (cases pc)
  case (Cas p cid to r "from" k)
  show ?thesis
  proof (cases "wonBy pc t = []")
    case True
    show ?thesis
      by (rule silent) (simp_all add: Cas True [unfolded Cas])
  next
    case False
    then show ?thesis
      using win [of p cid to r _ _ k] Cas by (cases "from") (auto split: if_splits)
  qed
next
  case (PubCas p)
  show ?thesis
    using pub [OF PubCas] silent by (cases "publishedBy pc t = []") (auto simp: PubCas split: if_splits)
next
  case (Look cid to r "from" k)
  show ?thesis
    by (rule silent) (simp_all add: Look)
next
  case (PubLook cid)
  show ?thesis
    by (rule silent) (simp_all add: PubLook)
qed (rule send delete, assumption)+

lemma run_accounts:
  assumes "pcStep pc t = Some (t', nxt)" "pc_ok t pc" "\<And>q. q < length (heap t) \<Longrightarrow> acct t (xs @ pc # ys) won sent pub q"
    "logs_ok t (xs @ pc # ys) won sent pub"
  shows "length (heap t') = length (heap t)"
    "logs_ok t' (xs @ optList nxt @ ys) (won @ wonBy pc t) (sent @ sentBy pc) (pub @ publishedBy pc t)"
    "\<And>q. q < length (heap t) \<Longrightarrow>
       acct t' (xs @ optList nxt @ ys) (won @ wonBy pc t) (sent @ sentBy pc) (pub @ publishedBy pc t) q"
proof -
  let ?goal = "length (heap t') = length (heap t) \<and>
    logs_ok t' (xs @ optList nxt @ ys) (won @ wonBy pc t) (sent @ sentBy pc) (pub @ publishedBy pc t) \<and>
    (\<forall>q < length (heap t). acct t' (xs @ optList nxt @ ys) (won @ wonBy pc t) (sent @ sentBy pc) (pub @ publishedBy pc t) q)"
  have ?goal
  proof (cases rule: pc_kinds [where pc = pc and t = t])
    case (send p cid r k)
    then have n: "t' = sendResult p r t" "nxt = Some (DeletePc cid k)" "p < length (heap t)" "ca_id (heap t ! p) = cid"
      using assms(1,2) by (auto split: if_splits)
    show ?thesis
      using send_acct [OF assms(3) [unfolded send] n(4,3)] send_logs [OF assms(4) [unfolded send]] send n
      by (simp add: sendResult_def)
  next
    case (delete cid k)
    then have n: "t' = deleteCall cid t" "nxt = resume k True"
      using assms(1) by auto
    show ?thesis
      using delete_acct [OF assms(3) [unfolded delete]] delete_logs [OF assms(4) [unfolded delete]] delete n
      by (simp add: deleteCall_def)
  next
    case (win p cid to r src rest k)
    then have n: "t' = t\<lparr>heap := (heap t)[p := (heap t ! p)\<lparr>ca_state := to\<rparr>]\<rparr>" "nxt = Some (SendPc p cid r k)" "p < length (heap t)"
      "liveState src" "matches to r"
      using assms(1,2) by (auto simp: casState_def)
    show ?thesis
      using win_acct [OF assms(3) [unfolded win(1)] win(2) n(4) matches_ended [OF n(5)] n(3)]
        win_logs [OF assms(4) [unfolded win(1)] win(2) n(4,5,3) assms(3) [OF n(3), unfolded win(1)]] win n
      by simp
  next
    case (pub p)
    then have n: "t' = t\<lparr>heap := (heap t)[p := (heap t ! p)\<lparr>ca_state := StatePublished\<rparr>]\<rparr>" "nxt = None" "p < length (heap t)"
      using assms(1,2) by (auto simp: casState_def)
    show ?thesis
      using publish_acct [OF assms(3) [unfolded pub(1)] pub(2) n(3)]
        publish_logs [OF assms(4) [unfolded pub(1)] pub(2) n(3) assms(3) [OF n(3), unfolded pub(1)]] pub n
      by simp
  next
    case silent
    have "sentBy pc = []" "\<not> sendingAt q pc" "\<not> deleting c pc" for q c
      using silent(1,2) by (cases pc; simp)+
    then show ?thesis
      using silent_step [OF assms(1) silent] silent_acct [OF assms(3)] silent_logs [OF assms(4)] silent(3,4) by auto
  qed
  then show "length (heap t') = length (heap t)"
    "logs_ok t' (xs @ optList nxt @ ys) (won @ wonBy pc t) (sent @ sentBy pc) (pub @ publishedBy pc t)"
    "\<And>q. q < length (heap t) \<Longrightarrow>
       acct t' (xs @ optList nxt @ ys) (won @ wonBy pc t) (sent @ sentBy pc) (pub @ publishedBy pc t) q"
    by blast+
qed

lemma step_run:
  assumes "sys_ok s" "cs_threads s = xs @ pc # ys" "pcStep pc (cs_tab s) = Some (t', nxt)"
  shows "sys_ok (s\<lparr>cs_tab := t', cs_threads := xs @ optList nxt @ ys, cs_won := cs_won s @ wonBy pc (cs_tab s),
       cs_sent := cs_sent s @ sentBy pc, cs_published := cs_published s @ publishedBy pc (cs_tab s),
       cs_failed := cs_failed s @ failedBy (contOf pc) (nxt = None)\<rparr>)"
proof -
  note i = sys_okD [OF assms(1)]
  have p: "pc_ok (cs_tab s) pc"
    using i(2) assms(2) by simp
  note g = pcStep_ok [OF i(1) p assms(3), unfolded good_step_def]
  note r = run_accounts [OF assms(3) p i(3) [unfolded assms(2)] i(4) [unfolded assms(2)]]
  have "pc_ok t' pc'" if "pc' \<in> set (xs @ optList nxt @ ys)" for pc'
    using that g evolves_pc [of "cs_tab s" t'] i(2) [of pc'] assms(2) by (cases nxt) auto
  moreover have "ended j t'" if "snap \<in> set (cs_failed s)" "j \<in> set snap" for snap j
    using evolves_holdsFor(1) g i(5) [OF that] by blast
  ultimately show ?thesis
    using g r(2,3) by (auto simp: sys_ok_def r(1))
qed

lemma evolves_known_nat:
  "evolves (cs_tab s) t' \<Longrightarrow> sys_ok s \<Longrightarrow> (\<forall>pc \<in> set (cs_threads s). pc_ok t' pc) \<and>
     (\<forall>snap \<in> set (cs_failed s). \<forall>i \<in> set snap. ended i t')"
  using evolves_pc evolves_holdsFor(1) by (fastforce simp: sys_ok_def)

lemma step_take:
  assumes "sys_ok s" "p < length (heap (cs_tab s))" "takeResult p (cs_tab s) = Some (t', r)"
  shows "sys_ok (s\<lparr>cs_tab := t'\<rparr>)"
proof -
  let ?t = "cs_tab s"
  note i = sys_okD [OF assms(1)]
  obtain q where q: "ca_resultCh (heap ?t ! p) = r # q" "t' = ?t\<lparr>heap := (heap ?t)[p := (heap ?t ! p)\<lparr>ca_resultCh := q\<rparr>]\<rparr>"
    using assms(3) by (auto simp: takeResult_def split: list.splits)
  have e: "evolves ?t t'" "tab_ok t'"
    unfolding q(2) using i(1) by (auto intro!: evolves_result tab_ok_set)
  have h: "ca_state (heap t' ! x) = ca_state (heap ?t ! x)" "ca_id (heap t' ! x) = ca_id (heap ?t ! x)"
    "length (ca_resultCh (heap t' ! x)) \<le> length (ca_resultCh (heap ?t ! x))" if "x < length (heap ?t)" for x
    using that q(1) by (auto simp: q(2) nth_upd)
  have c: "calls t' = calls ?t" "length (heap t') = length (heap ?t)"
    by (simp_all add: q(2))
  have "acct t' (cs_threads s) (cs_won s) (cs_sent s) (cs_published s) x" if "x < length (heap t')" for x
    using i(3) [of x] h [of x] that order_trans unfolding acct_def Let_def c by auto
  moreover have "won_ok t' (cs_published s) w" if "w \<in> set (cs_won s)" for w
    using logs_okD(1) [OF i(4) that] h(1) c(2) by (cases w) auto
  then have "logs_ok t' (cs_threads s) (cs_won s) (cs_sent s) (cs_published s)"
    using logs_okD [OF i(4)] c(2) by (intro logs_okI) auto
  ultimately show ?thesis
    using e evolves_known_nat [OF e(1) assms(1)] by (simp add: sys_ok_def)
qed

lemma step_mint:
  assumes "sys_ok s" "Suc (unat (nextID (cs_tab s))) < 2 ^ 64" "NextID (cs_tab s) = (t', cid)"
  shows "sys_ok (s\<lparr>cs_tab := t'\<rparr>)"
proof -
  let ?t = "cs_tab s"
  note i = sys_okD [OF assms(1)]
  have t': "t' = ?t\<lparr>nextID := nextID ?t + 1\<rparr>"
    using assms(3) by (auto simp: NextID_def Let_def)
  have "unat (nextID ?t + 1) = Suc (unat (nextID ?t))"
    using assms(2) by (simp add: unat_word_ariths)
  then have "tab_ok t'"
    using i(1) by (auto simp: t' tab_ok_def)
  moreover have "evolves ?t t'"
    by (rule evolves_heap) (simp add: t')
  moreover have "acct t' ths won sent pub x = acct ?t ths won sent pub x" "won_ok t' pub w = won_ok ?t pub w" for ths won sent pub x w
    by (simp add: acct_def t') (cases w; simp add: t')
  ultimately show ?thesis
    using assms(1) evolves_known_nat [of s t'] by (simp add: sys_ok_def logs_ok_def t')
qed

lemma entriesOf_absent: "\<forall>x. (p, x) \<notin> set xs \<Longrightarrow> entriesOf p xs = 0"
  by (induction xs) auto

lemma step_submit:
  assumes "sys_ok s" "Suc (unat (nextID (cs_tab s))) < 2 ^ 64" "SubmitDecoding now budget newResp (cs_tab s) = (t', cid, p)"
  shows "sys_ok (s\<lparr>cs_tab := t'\<rparr>)"
proof -
  let ?t = "cs_tab s" and ?n = "length (heap (cs_tab s))"
  note i = sys_okD [OF assms(1)] and l = logs_okD [OF sys_okD(4) [OF assms(1)]]
  obtain c where c: "ca_id c = nextID ?t + 1" "ca_state c = StateSubmitted" "ca_resultCh c = []"
    and t': "heap t' = heap ?t @ [c]" "calls t' = (calls ?t)(nextID ?t + 1 \<mapsto> ?n)" "nextID t' = nextID ?t + 1"
  proof -
    let ?c = "\<lparr>ca_id = nextID ?t + 1, ca_state = StateSubmitted, ca_resultCh = [],
      ca_deadline = if 0 < budget then Some (Reanchor budget now) else None, ca_newResp = newResp\<rparr>"
    show ?thesis
      by (rule that [of ?c]) (use assms(3) in \<open>auto simp: SubmitDecoding_def NextID_def Let_def\<close>)
  qed
  have u: "unat (nextID ?t + 1) = Suc (unat (nextID ?t))"
    using assms(2) by (simp add: unat_word_ariths)
  have new: "ca_id (heap ?t ! q) \<noteq> nextID ?t + 1" if "q < ?n" for q
  proof -
    have "unat (ca_id (heap ?t ! q)) \<le> unat (nextID ?t)"
      using i(1) nth_mem [OF that] unfolding tab_ok_def by blast
    then show ?thesis
      using u by auto
  qed
  have e: "evolves ?t t'"
    by (simp add: evolves_def t' nth_append)
  have "nextID ?t + 1 \<notin> ca_id ` set (heap ?t)"
    using new by (force simp: in_set_conv_nth)
  moreover have "\<forall>x \<in> set (heap ?t). unat (ca_id x) \<le> Suc (unat (nextID ?t))"
    using i(1) by (auto simp: tab_ok_def)
  ultimately have tab: "tab_ok t'"
    using i(1) c(1) u new by (auto simp: tab_ok_def t' nth_append less_Suc_eq)
  have won: "q < ?n" if "(q, x) \<in> set (cs_won s)" for q x
    using l(1) [OF that] by (cases x) auto
  have "q < ?n" if "(q, x) \<in> set (cs_sent s)" for q x
    using l(2) [OF that] won by blast
  moreover have "\<not> sendingAt ?n pc" if "pc \<in> set (cs_threads s)" for pc
    using i(2) [OF that] by (cases pc) auto
  then have "nSending ?n (cs_threads s) = 0"
    by (simp add: nSending_def filter_empty_conv)
  moreover have "?n \<notin> set (cs_published s)"
    using l(4) by auto
  ultimately have "acct t' (cs_threads s) (cs_won s) (cs_sent s) (cs_published s) ?n"
    using won entriesOf_absent [of ?n "cs_sent s"] entriesOf_absent [of ?n "cs_won s"] c
    by (fastforce simp: acct_def Let_def t' liveState_def)
  moreover have "acct t' (cs_threads s) (cs_won s) (cs_sent s) (cs_published s) q" if "q < ?n" for q
    using i(3) [OF that] new [OF that] that by (simp add: acct_def Let_def t' nth_append)
  moreover have "won_ok t' (cs_published s) w" if "w \<in> set (cs_won s)" for w
    using l(1) [OF that] by (cases w) (auto simp: t' nth_append)
  then have "logs_ok t' (cs_threads s) (cs_won s) (cs_sent s) (cs_published s)"
    using l by (intro logs_okI) (auto simp: t' less_Suc_eq)
  ultimately show ?thesis
    using tab evolves_known_nat [OF e assms(1)] by (auto simp: sys_ok_def t' less_Suc_eq)
qed

lemma startPc_ok: "pc_ok t (startPc oper)" "\<not> sendingAt p (startPc oper)" "startPc oper \<noteq> SendPc p cid r k"
  by (cases oper; simp add: liveState_def errResult_def)+

lemma step_spawn:
  assumes "sys_ok s" "\<forall>pc \<in> set new. pc_ok (cs_tab s) pc" "\<And>p. nSending p new = 0" "\<And>p cid r k. SendPc p cid r k \<notin> set new"
  shows "sys_ok (s\<lparr>cs_threads := new @ cs_threads s\<rparr>)"
proof -
  note i = sys_okD [OF assms(1)]
  have "acct (cs_tab s) (new @ cs_threads s) (cs_won s) (cs_sent s) (cs_published s) p" if "p < length (heap (cs_tab s))" for p
    using i(3) [OF that] assms(3) by (auto simp: acct_def Let_def)
  moreover have "logs_ok (cs_tab s) (new @ cs_threads s) (cs_won s) (cs_sent s) (cs_published s)"
    using i(4) assms(4) by (simp add: logs_ok_def)
  ultimately show ?thesis
    using i(1,2,5) assms(2) by (auto simp: sys_ok_def)
qed

lemma step_ok: "cstep s s' \<Longrightarrow> sys_ok s \<Longrightarrow> sys_ok s'"
proof (induction rule: cstep.induct)
  case (start s oper)
  then show ?case
    using step_spawn [OF start, of "[startPc oper]"] by (simp add: startPc_ok startPc_ok(3) [symmetric])
next
  case (fail_all snap s d n)
  have "\<forall>i \<in> set snap. known i (cs_tab s)"
    using fail_all sys_okD(1) [of s] unfolding tab_ok_def holdsFor_def by (metis domD)
  then have "pred_option (pc_ok (cs_tab s)) (failNext d n snap snap)"
    by (intro failNext_ok) auto
  then have "\<forall>pc \<in> set (optList (failNext d n snap snap)). pc_ok (cs_tab s) pc"
    by (cases "failNext d n snap snap :: 'a pc option") auto
  then show ?case
  proof (rule step_spawn [OF fail_all.prems])
    show "SendPc p cid r k \<notin> set (optList (failNext d n snap snap))" for p cid r k
      by (cases snap) auto
  qed simp
qed (simp_all add: step_submit step_mint step_run step_take)

lemma reach_ok: "creach gen s \<Longrightarrow> sys_ok s"
proof (induction rule: creach.induct)
  case creach_init
  then show ?case
    by (simp add: sys_ok_def initSys_def NewTable_def tab_ok_def logs_ok_def)
qed (rule step_ok)

text \<open>C2: However the goroutines of a connection interleave, nobody blocks on a result channel, a call gets at most one
  result and it is the one its terminal state stands for, a live call is in the table and has none, and once
  the goroutines are done every ended call has exactly one result and is gone from the table.\<close>

theorem every_call_one_result:
  assumes "creach gen s"
  shows "(\<forall>pc \<in> set (cs_threads s). pcStep pc (cs_tab s) \<noteq> None) \<and>
    (\<forall>p < length (heap (cs_tab s)). let c = heap (cs_tab s) ! p in
       entriesOf p (cs_sent s) \<le> 1 \<and> (\<forall>r. (p, r) \<in> set (cs_sent s) \<longrightarrow> matches (ca_state c) r) \<and>
       (if liveState (ca_state c) then calls (cs_tab s) (ca_id c) = Some p \<and> entriesOf p (cs_sent s) = 0
        else cs_threads s = [] \<longrightarrow> calls (cs_tab s) (ca_id c) \<noteq> Some p \<and> entriesOf p (cs_sent s) = 1))"
proof -
  have ok: "sys_ok s"
    by (rule reach_ok [OF assms])
  note i = sys_okD [OF ok]
  have "pcStep pc (cs_tab s) \<noteq> None" if m: "pc \<in> set (cs_threads s)" for pc
  proof (cases pc)
    case (SendPc p cid r k)
    obtain xs ys where th: "cs_threads s = xs @ SendPc p cid r k # ys"
      using split_list [OF m] SendPc by auto
    have "p < length (heap (cs_tab s))"
      using i(2) [OF m] SendPc by simp
    then show ?thesis
      using send_room(4) [OF i(3) [unfolded th]] SendPc by simp
  next
    case (Cas p cid to r "from" k)
    then show ?thesis
      by (cases "from") auto
  qed auto
  moreover have "entriesOf p (cs_sent s) \<le> 1" if "p < length (heap (cs_tab s))" for p
    using i(3) [OF that] by (auto simp: acct_def Let_def split: if_splits)
  moreover have "matches (ca_state (heap (cs_tab s) ! p)) r" if m: "(p, r) \<in> set (cs_sent s)" for p r
  proof -
    obtain src to where w: "(p, src, to, r) \<in> set (cs_won s)"
      using logs_okD(2) [OF i(4) m] by blast
    then show ?thesis
      using logs_okD(1) [OF i(4) w] by simp
  qed
  moreover have "calls (cs_tab s) (ca_id (heap (cs_tab s) ! p)) = Some p \<and> entriesOf p (cs_sent s) = 0"
    if "p < length (heap (cs_tab s))" "liveState (ca_state (heap (cs_tab s) ! p))" for p
    using i(3) [OF that(1)] live_calls [OF i(1) that] that(2) by (simp add: acct_def Let_def)
  moreover have "calls (cs_tab s) (ca_id (heap (cs_tab s) ! p)) \<noteq> Some p \<and> entriesOf p (cs_sent s) = 1"
    if "p < length (heap (cs_tab s))" "\<not> liveState (ca_state (heap (cs_tab s) ! p))" "cs_threads s = []" for p
    using i(3) [OF that(1)] that(2,3) by (auto simp: acct_def Let_def)
  ultimately show ?thesis
    by (simp add: Let_def)
qed


section \<open>A run\<close>

text \<open>Two calls are registered, the first is published, then a teardown fails both.\<close>

definition runHead :: "'m csys \<Rightarrow> 'm csys" where
  "runHead s =
     (case cs_threads s of
        [] \<Rightarrow> s
      | pc # ys \<Rightarrow>
          (case pcStep pc (cs_tab s) of
             None \<Rightarrow> s
           | Some (t', nxt) \<Rightarrow>
               s\<lparr>cs_tab := t', cs_threads := optList nxt @ ys, cs_won := cs_won s @ wonBy pc (cs_tab s),
                 cs_sent := cs_sent s @ sentBy pc, cs_published := cs_published s @ publishedBy pc (cs_tab s),
                 cs_failed := cs_failed s @ failedBy (contOf pc) (nxt = None)\<rparr>))"

lemma creach_runHead: "creach gen s \<Longrightarrow> creach gen (runHead s)"
proof -
  assume r: "creach gen s"
  show "creach gen (runHead s)"
  proof (cases "cs_threads s")
    case (Cons pc ys)
    show ?thesis
    proof (cases "pcStep pc (cs_tab s)")
      case (Some x)
      obtain t' nxt where "x = (t', nxt)"
        by fastforce
      then show ?thesis
        using creach_step [OF r run [of s "[]" pc ys t' nxt]] Cons Some by (simp add: runHead_def)
    qed (use r Cons in \<open>simp add: runHead_def\<close>)
  qed (use r in \<open>simp add: runHead_def\<close>)
qed

fun runHeads :: "nat \<Rightarrow> 'm csys \<Rightarrow> 'm csys" where
  "runHeads 0 s = s"
| "runHeads (Suc n) s = runHeads n (runHead s)"

lemma creach_runHeads: "creach gen s \<Longrightarrow> creach gen (runHeads n s)"
  by (induction n arbitrary: s) (simp_all add: creach_runHead)

definition registered :: "unit csys" where
  "registered = (initSys 1)\<lparr>cs_tab := fst (SubmitDecoding 0 5 None (fst (SubmitDecoding 0 5 None (NewTable 1))))\<rparr>"

definition tornDown :: "unit csys" where
  "tornDown =
     (let s = runHeads 2 (registered\<lparr>cs_threads := startPc (OpPublish 1) # cs_threads registered\<rparr>) in
      runHeads 11 (s\<lparr>cs_threads := optList (failNext {TransportErrClosed} {ErrStreamTableClosed} [1, 2] [1, 2]) @ cs_threads s\<rparr>))"

lemma registered_reach: "creach 1 registered"
proof -
  let ?t1 = "SubmitDecoding 0 5 None (NewTable 1 :: unit Table)"
  let ?t2 = "SubmitDecoding 0 5 None (fst ?t1)"
  have n: "nextID (NewTable 1 :: unit Table) = 0" "nextID (fst ?t1) = 1"
    by (simp_all add: NewTable_def SubmitDecoding_def NextID_def Let_def)
  have "cstep (initSys 1) ((initSys 1)\<lparr>cs_tab := fst ?t1\<rparr>)"
    by (rule submit [of _ 0 5 None "fst ?t1" "fst (snd ?t1)" "snd (snd ?t1)"]) (use n in \<open>simp_all add: initSys_def\<close>)
  moreover have "cstep ((initSys 1)\<lparr>cs_tab := fst ?t1\<rparr>) ((initSys 1)\<lparr>cs_tab := fst ?t1, cs_tab := fst ?t2\<rparr>)"
    by (rule submit [of _ 0 5 None "fst ?t2" "fst (snd ?t2)" "snd (snd ?t2)"]) (use n in \<open>simp_all\<close>)
  ultimately show ?thesis
    using creach_step [OF creach_step [OF creach_init]] by (simp add: registered_def)
qed

lemma tornDown_reach: "creach 1 tornDown"
proof -
  let ?s = "runHeads 2 (registered\<lparr>cs_threads := startPc (OpPublish 1) # cs_threads registered\<rparr>)"
  have "creach 1 ?s"
    by (intro creach_runHeads creach_step [OF registered_reach start])
  moreover have "calls (cs_tab ?s) = [1 \<mapsto> 0, 2 \<mapsto> 1]"
    by (simp add: registered_def NewTable_def SubmitDecoding_def NextID_def Let_def runHead_def numeral_2_eq_2 casState_def initSys_def)
  then have "set [1, 2] = dom (calls (cs_tab ?s))"
    by auto
  ultimately show ?thesis
    unfolding tornDown_def Let_def by (intro creach_runHeads) (rule creach_step [OF _ fail_all])
qed

theorem every_call_one_result_witness:
  "cs_threads tornDown = [] \<and> length (heap (cs_tab tornDown)) = 2 \<and>
   entriesOf 0 (cs_sent tornDown) = 1 \<and> entriesOf 1 (cs_sent tornDown) = 1"
proof -
  have t: "cs_threads tornDown = []" "length (heap (cs_tab tornDown)) = 2"
    "\<not> liveState (ca_state (heap (cs_tab tornDown) ! 0))" "\<not> liveState (ca_state (heap (cs_tab tornDown) ! 1))"
    by code_simp+
  have "0 < length (heap (cs_tab tornDown))" "1 < length (heap (cs_tab tornDown))"
    by (simp_all add: t(2))
  then show ?thesis
    using every_call_one_result [OF tornDown_reach] t by (simp add: Let_def)
qed


end
