(* ===== verification/Dispatch_Unary.thy ===== *)
theory Dispatch_Unary
  imports Call_Table Lease
begin

text \<open>
  The serving side's dispatcher of unary requests, \<^verbatim>\<open>src/internal/rpcruntime/dispatch.go\<close>. Registered
  services are application and generated code: a service is a record of the two functions the dispatcher
  calls. A handler's run is the value it returns (or a panic), whether it called the entry hook, and the
  clock when it is done. Contexts are named by numbers; \<open>d_cancelled\<close> holds those that were cancelled.
\<close>

section \<open>Requests, responses and services\<close>

record 'm Request =
  rq_Msg :: "'m option"
  DecodeFault :: "byte list"

record 'm Response =
  rs_Payload :: "byte list"
  rs_Msg :: "'m option"

record 'm ResponseEnvelope =
  env_Frame :: Frame
  env_Msg :: "'m option"

text \<open>What one run of a handler does: \<open>hr_panics\<close> is a panic that leaves the dispatcher.\<close>

record 'm HandlerRun =
  hr_panics :: bool
  hr_entered :: bool
  hr_resp :: "'m Response"
  hr_status :: "FrameStatus option"
  hr_err :: "err option"
  hr_errText :: "byte list"
  hr_now :: int

record 'm ServiceHandler =
  sh_NewRequest :: "u64 \<Rightarrow> 'm option"
  sh_Handle :: "nat \<Rightarrow> u64 \<Rightarrow> 'm option \<Rightarrow> 'm HandlerRun"

record 'm Dispatcher =
  services :: "u64 \<rightharpoonup> 'm ServiceHandler"
  inFlight :: "u64 \<rightharpoonup> nat"
  d_leases :: "LeaseTable option"
  nextCtx :: nat
  d_cancelled :: "nat set"

definition NewDispatcher :: "'m Dispatcher" where
  "NewDispatcher = \<lparr>services = Map.empty, inFlight = Map.empty, d_leases = None, nextCtx = 0, d_cancelled = {}\<rparr>"

definition Register :: "u64 \<Rightarrow> 'm ServiceHandler \<Rightarrow> 'm Dispatcher \<Rightarrow> 'm Dispatcher" where
  "Register sid h d = d\<lparr>services := (services d)(sid \<mapsto> h)\<rparr>"

definition NewRequest :: "u64 \<Rightarrow> u64 \<Rightarrow> 'm Dispatcher \<Rightarrow> 'm option" where
  "NewRequest sid mid d = (case services d sid of None \<Rightarrow> None | Some h \<Rightarrow> sh_NewRequest h mid)"

definition SetLeaseTable :: "LeaseTable option \<Rightarrow> 'm Dispatcher \<Rightarrow> 'm Dispatcher" where
  "SetLeaseTable lt d = d\<lparr>d_leases := lt\<rparr>"

definition InflightCount :: "'m Dispatcher \<Rightarrow> u64" where
  "InflightCount d = of_nat (card (dom (inFlight d)))"

definition d_OpenObligation :: "u64 \<Rightarrow> 'm Dispatcher \<Rightarrow> 'm Dispatcher" where
  "d_OpenObligation cid d = d\<lparr>d_leases := map_option (OpenObligation cid) (d_leases d)\<rparr>"

definition d_CloseObligation :: "u64 \<Rightarrow> 'm Dispatcher \<Rightarrow> 'm Dispatcher" where
  "d_CloseObligation cid d = d\<lparr>d_leases := map_option (CloseObligation cid) (d_leases d)\<rparr>"

section \<open>Replies\<close>

abbreviation (input) StatusCodeServiceNotFound :: u32 where "StatusCodeServiceNotFound \<equiv> 0xFFFFFF01"
abbreviation (input) StatusCodeMethodNotFound :: u32 where "StatusCodeMethodNotFound \<equiv> 0xFFFFFF02"
abbreviation (input) StatusCodeInternal :: u32 where "StatusCodeInternal \<equiv> 0xFFFFFF03"
abbreviation (input) StatusCodeHandlerPanic :: u32 where "StatusCodeHandlerPanic \<equiv> 0xFFFFFF08"
abbreviation (input) StatusCodeRequestDeclined :: u32 where "StatusCodeRequestDeclined \<equiv> 0xFFFFFF09"

definition ascii :: "string \<Rightarrow> byte list" where
  "ascii s = map (\<lambda>c. of_nat (of_char c)) s"

definition statusFrame :: "Frame \<Rightarrow> FrameStatus \<Rightarrow> Frame" where
  "statusFrame f s =
     zeroFrame\<lparr>fr_CallID := fr_CallID f, fr_Kind := FrameUnaryErr, fr_Service := fr_Service f, fr_Method := fr_Method f,
       fr_Status := Some s\<rparr>"

definition statusEnvelope :: "Frame \<Rightarrow> FrameStatus \<Rightarrow> 'm ResponseEnvelope" where
  "statusEnvelope f s = \<lparr>env_Frame = statusFrame f s, env_Msg = None\<rparr>"

definition InternalStatusFrame :: "Frame \<Rightarrow> byte list \<Rightarrow> Frame" where
  "InternalStatusFrame f message = statusFrame f \<lparr>Code = StatusCodeInternal, Message = message, Details = []\<rparr>"

definition DeclinedStatusFrame :: "u64 \<Rightarrow> byte list \<Rightarrow> Frame" where
  "DeclinedStatusFrame cid reason =
     statusFrame (zeroFrame\<lparr>fr_CallID := cid\<rparr>) \<lparr>Code = StatusCodeRequestDeclined, Message = reason, Details = []\<rparr>"

section \<open>Dispatch\<close>

definition trackCall :: "u64 \<Rightarrow> nat \<Rightarrow> int \<Rightarrow> 'm Dispatcher \<Rightarrow> 'm Dispatcher" where
  "trackCall cid ctx startedAt d =
     d\<lparr>inFlight := (inFlight d)(cid \<mapsto> ctx), d_leases := map_option (Acquire cid startedAt) (d_leases d)\<rparr>"

definition untrackCall :: "u64 \<Rightarrow> nat \<Rightarrow> 'm Dispatcher \<Rightarrow> 'm Dispatcher" where
  "untrackCall cid ctx d =
     d\<lparr>inFlight := (inFlight d)(cid := None), d_leases := map_option (Release cid) (d_leases d),
       d_cancelled := insert ctx (d_cancelled d)\<rparr>"

definition cancel :: "u64 \<Rightarrow> 'm Dispatcher \<Rightarrow> 'm Dispatcher" where
  "cancel cid d = (case inFlight d cid of None \<Rightarrow> d | Some ctx \<Rightarrow> d\<lparr>d_cancelled := insert ctx (d_cancelled d)\<rparr>)"

definition contextFor :: "'m Dispatcher \<Rightarrow> 'm Dispatcher \<times> nat" where
  "contextFor d = (d\<lparr>nextCtx := Suc (nextCtx d)\<rparr>, nextCtx d)"

definition expired :: "int option \<Rightarrow> int \<Rightarrow> bool" where
  "expired deadline now \<longleftrightarrow> (case deadline of None \<Rightarrow> False | Some t \<Rightarrow> \<not> now < t)"

definition isContextErr :: "err \<Rightarrow> bool" where
  "isContextErr e \<longleftrightarrow> CtxCanceled \<in> e \<or> CtxDeadlineExceeded \<in> e"

text \<open>The reply to a handler that has returned, with the clock after it.\<close>

definition replyTo :: "Frame \<Rightarrow> int option \<Rightarrow> 'm HandlerRun \<Rightarrow> 'm ResponseEnvelope list" where
  "replyTo f deadline run =
     (if expired deadline (hr_now run) then []
      else case hr_err run of
          Some e \<Rightarrow>
            if isContextErr e then []
            else [statusEnvelope f \<lparr>Code = StatusCodeInternal, Message = hr_errText run, Details = []\<rparr>]
        | None \<Rightarrow>
            (case hr_status run of
               Some s \<Rightarrow> [statusEnvelope f s]
             | None \<Rightarrow>
                 [\<lparr>env_Frame = zeroFrame\<lparr>fr_CallID := fr_CallID f, fr_Kind := FrameUnaryResp, fr_Service := fr_Service f,
                     fr_Method := fr_Method f, fr_Payload := rs_Payload (hr_resp run)\<rparr>,
                   env_Msg = rs_Msg (hr_resp run)\<rparr>]))"

text \<open>\<open>now\<close> is the clock before the dispatch. A handler's panic unwinds through the deferred untrack.\<close>

definition dispatchUnary ::
  "int \<Rightarrow> Frame \<Rightarrow> 'm Request \<Rightarrow> int \<Rightarrow> 'm Dispatcher \<Rightarrow> 'm Dispatcher \<times> (err, 'm ResponseEnvelope list) outcome" where
  "dispatchUnary now f req recvAt d =
     (let deadline = (if fr_Budget f > 0 then Some (Reanchor (fr_Budget f) recvAt) else None) in
      if expired deadline now then (d, Ok [])
      else case services d (fr_Service f) of
          None \<Rightarrow>
            (d, Ok [statusEnvelope f \<lparr>Code = StatusCodeServiceNotFound, Message = ascii ''service not found'', Details = []\<rparr>])
        | Some h \<Rightarrow>
            if DecodeFault req \<noteq> []
            then (d, Ok [statusEnvelope f \<lparr>Code = StatusCodeInternal,
                      Message = ascii ''request decode failed: '' @ DecodeFault req, Details = []\<rparr>])
            else (case contextFor d of
                (d, ctx) \<Rightarrow>
                  let d = trackCall (fr_CallID f) ctx recvAt d;
                      run = sh_Handle h ctx (fr_Method f) (rq_Msg req);
                      d = untrackCall (fr_CallID f) ctx d in
                  (d, if hr_panics run then Panic else Ok (replyTo f deadline run))))"

definition Dispatch ::
  "int \<Rightarrow> Frame \<Rightarrow> 'm Request \<Rightarrow> int \<Rightarrow> 'm Dispatcher \<Rightarrow> 'm Dispatcher \<times> (err, 'm ResponseEnvelope list) outcome" where
  "Dispatch now f req recvAt d =
     (if fr_Kind f = FrameUnaryReq then dispatchUnary now f req recvAt d
      else if fr_Kind f = FrameCancel then (cancel (fr_CallID f) d, Ok [])
      else (d, Ok []))"


definition echoService :: "nat ServiceHandler" where
  "echoService = \<lparr>sh_NewRequest = (\<lambda>mid. Some 0),
     sh_Handle = (\<lambda>ctx mid m. \<lparr>hr_panics = False, hr_entered = True, hr_resp = \<lparr>rs_Payload = [], rs_Msg = m\<rparr>, hr_status = None,
       hr_err = None, hr_errText = [], hr_now = 20\<rparr>)\<rparr>"

definition echoRequest :: Frame where
  "echoRequest = zeroFrame\<lparr>fr_CallID := 5, fr_Kind := FrameUnaryReq, fr_Service := 3, fr_Method := 4, fr_Budget := 100\<rparr>"


end
