(* ===== verification/Control_Messages.thy ===== *)
theory Control_Messages
  imports Prelude "HOL-Library.Char_ord" "HOL-Library.List_Lexorder"
begin

text \<open>
  The control plane's messages (\<^verbatim>\<open>internal/control/control.proto\<close>) and the per-state table of legal
  message kinds (\<^verbatim>\<open>internal/control/legal.go\<close>). A Go string is a \<^typ>\<open>string\<close>, one character per byte.
  A message field that is itself a message is an option: the getters of generated code read an absent one as
  the zero message.
\<close>

section \<open>Messages\<close>

record pbFeatureFlag =
  ff_name :: string
  ff_required :: bool
  ff_supported :: bool

record pbServiceRequirement =
  sr_service :: string
  sr_min_version :: u32
  sr_max_version :: u32

record pbServiceVersion =
  sv_service :: string
  sv_version :: u32

record Hello =
  h_protocol_min :: u32
  h_protocol_max :: u32
  h_features :: "pbFeatureFlag list"
  h_transports :: "string list"
  h_codecs :: "string list"
  h_nonce :: u64
  h_services :: "pbServiceRequirement list"
  h_layout_versions :: "u32 list"

record HelloAck =
  a_protocol_version :: u32
  a_transport :: string
  a_layout_version :: u32
  a_features :: "pbFeatureFlag list"
  a_codec :: string
  a_nonce :: u64
  a_plugin_name :: string
  a_plugin_semver :: string
  a_binary_sha256 :: string
  a_services :: "pbServiceVersion list"
  a_incompatible_reason :: string
  a_plugin_offer :: "Hello option"

record AttachRegion =
  ar_generation :: u64
  ar_layout_size :: u64
  ar_layout_version :: u32
  ar_fd_count :: u32
  ar_max_data_inflight :: u32
  ar_burst_max_payload :: u32
  ar_chunk_max_payload :: u32

record ActiveHandlerLease =
  al_call_id :: u64
  al_start_unix_nano :: int
  al_lease_renewed_unix_nano :: int

record Heartbeat =
  hb_sequence :: u64
  hb_descriptors_consumed_h2p :: u64
  hb_descriptors_produced_p2h :: u64
  hb_inflight_count :: u64
  hb_arena_occupancy_bytes :: u64
  hb_leases :: "ActiveHandlerLease list"
  hb_inbound_readable :: bool
  hb_bounded_read_active :: bool

text \<open>SaveState and Restore carry the same three fields.\<close>

record SnapshotMsg =
  sm_snapshot_fd_count :: u32
  sm_declared_length :: u64
  sm_format_version :: u32

record RestoreAck =
  ra_ready :: bool
  ra_reason :: string

datatype Body =
    BHello Hello | BHelloAck HelloAck | BAttachRegion AttachRegion | BAttachRegionAck
  | BHeartbeat Heartbeat | BHeartbeatAck u64 | BDrain int | BDrainAck | BResume | BResumeAck
  | BSaveState SnapshotMsg | BSaveStateAck "byte list" | BShutdown int | BShutdownAck | BPoisoned string
  | BRestore SnapshotMsg | BRestoreAck RestoreAck

record ControlMessage =
  correlation_id :: u64
  generation :: u64
  body :: "Body option"

definition zeroHello :: Hello where
  "zeroHello = \<lparr>h_protocol_min = 0, h_protocol_max = 0, h_features = [], h_transports = [], h_codecs = [],
     h_nonce = 0, h_services = [], h_layout_versions = []\<rparr>"

definition zeroHelloAck :: HelloAck where
  "zeroHelloAck = \<lparr>a_protocol_version = 0, a_transport = [], a_layout_version = 0, a_features = [], a_codec = [],
     a_nonce = 0, a_plugin_name = [], a_plugin_semver = [], a_binary_sha256 = [], a_services = [],
     a_incompatible_reason = [], a_plugin_offer = None\<rparr>"

definition GetPluginOffer :: "HelloAck \<Rightarrow> Hello" where
  "GetPluginOffer ack = (case a_plugin_offer ack of Some h \<Rightarrow> h | None \<Rightarrow> zeroHello)"

section \<open>Kinds and states\<close>

datatype MessageKind =
    KindHello | KindHelloAck | KindAttachRegion | KindAttachRegionAck | KindHeartbeat | KindHeartbeatAck
  | KindDrain | KindDrainAck | KindResume | KindResumeAck | KindSaveState | KindSaveStateAck
  | KindShutdown | KindShutdownAck | KindPoisoned | KindRestore | KindRestoreAck

datatype LifecycleState =
    StateHandshaking | StateAttaching | StateServing | StateDraining | StateShuttingDown | StateRestoring

text \<open>Deadlines are nanoseconds, as \<^verbatim>\<open>time.Duration\<close> counts them; a kind that is absent has none.\<close>

fun ReplyDeadlines :: "MessageKind \<Rightarrow> int option" where
  "ReplyDeadlines KindHello = Some 2000000000"
| "ReplyDeadlines KindAttachRegion = Some 2000000000"
| "ReplyDeadlines KindHeartbeat = Some 500000000"
| "ReplyDeadlines KindDrain = Some 30000000000"
| "ReplyDeadlines KindSaveState = Some 10000000000"
| "ReplyDeadlines KindShutdown = Some 5000000000"
| "ReplyDeadlines _ = None"

fun legalByState :: "LifecycleState \<Rightarrow> MessageKind list" where
  "legalByState StateHandshaking = [KindHello, KindHelloAck]"
| "legalByState StateAttaching = [KindAttachRegion, KindAttachRegionAck]"
| "legalByState StateServing =
     [KindHeartbeat, KindHeartbeatAck, KindDrain, KindSaveState, KindSaveStateAck, KindShutdown, KindPoisoned]"
| "legalByState StateDraining =
     [KindDrainAck, KindResume, KindResumeAck, KindSaveState, KindSaveStateAck, KindShutdown, KindPoisoned]"
| "legalByState StateShuttingDown = [KindShutdownAck, KindPoisoned]"
| "legalByState StateRestoring = [KindRestore, KindRestoreAck]"

definition KindOf :: "ControlMessage \<Rightarrow> MessageKind option" where
  "KindOf msg =
     (case body msg of
        Some (BHello _) \<Rightarrow> Some KindHello
      | Some (BHelloAck _) \<Rightarrow> Some KindHelloAck
      | Some (BAttachRegion _) \<Rightarrow> Some KindAttachRegion
      | Some BAttachRegionAck \<Rightarrow> Some KindAttachRegionAck
      | Some (BHeartbeat _) \<Rightarrow> Some KindHeartbeat
      | Some (BHeartbeatAck _) \<Rightarrow> Some KindHeartbeatAck
      | Some (BDrain _) \<Rightarrow> Some KindDrain
      | Some BDrainAck \<Rightarrow> Some KindDrainAck
      | Some BResume \<Rightarrow> Some KindResume
      | Some BResumeAck \<Rightarrow> Some KindResumeAck
      | Some (BSaveState _) \<Rightarrow> Some KindSaveState
      | Some (BSaveStateAck _) \<Rightarrow> Some KindSaveStateAck
      | Some (BShutdown _) \<Rightarrow> Some KindShutdown
      | Some BShutdownAck \<Rightarrow> Some KindShutdownAck
      | Some (BPoisoned _) \<Rightarrow> Some KindPoisoned
      | Some (BRestore _) \<Rightarrow> Some KindRestore
      | Some (BRestoreAck _) \<Rightarrow> Some KindRestoreAck
      | None \<Rightarrow> None)"

definition Legal :: "LifecycleState \<Rightarrow> MessageKind \<Rightarrow> bool" where
  "Legal state kind = (kind \<in> set (legalByState state))"

text \<open>The control plane's errors, by what \<^verbatim>\<open>errors.Is\<close> can find in their chains.\<close>

datatype control_sentinel =
  ErrProtocolViolation | CtlDeadlineExceeded | CtlCanceled | Errno int | CtlMarshal | CtlUnmarshal | CtlOther

type_synonym cerr = "control_sentinel set"

text \<open>
  The receivers' common check (\<^verbatim>\<open>recvControl\<close> of the supervisor, \<^verbatim>\<open>checkKind\<close> of the plugin server and
  \<^verbatim>\<open>recvExpected\<close> of the reload transaction): the message has a body whose kind is legal in the state and is
  the one awaited.
\<close>

definition checkKind :: "ControlMessage \<Rightarrow> LifecycleState \<Rightarrow> MessageKind \<Rightarrow> (cerr, unit) outcome" where
  "checkKind msg state want =
     (case KindOf msg of
        None \<Rightarrow> Err {ErrProtocolViolation}
      | Some kind \<Rightarrow> if \<not> Legal state kind \<or> kind \<noteq> want then Err {ErrProtocolViolation} else Ok ())"

lemma checkKind_Ok:
  "checkKind msg state want = Ok u \<longleftrightarrow> KindOf msg = Some want \<and> Legal state want"
  by (auto simp: checkKind_def split: option.splits)

lemma KindOf_body [simp]:
  "KindOf msg = Some KindHello \<longleftrightarrow> (\<exists>h. body msg = Some (BHello h))"
  "KindOf msg = Some KindHelloAck \<longleftrightarrow> (\<exists>a. body msg = Some (BHelloAck a))"
  "KindOf msg = Some KindAttachRegion \<longleftrightarrow> (\<exists>a. body msg = Some (BAttachRegion a))"
  "KindOf msg = Some KindSaveState \<longleftrightarrow> (\<exists>a. body msg = Some (BSaveState a))"
  "KindOf msg = Some KindRestore \<longleftrightarrow> (\<exists>a. body msg = Some (BRestore a))"
  by (auto simp: KindOf_def split: option.splits Body.splits)

end
