(* ===== verification/Control_Handshake.thy ===== *)
theory Control_Handshake
  imports Control_Messages "HOL-Library.AList"
begin

text \<open>
  The handshake (\<^verbatim>\<open>internal/control/handshake.go\<close>): the negotiation of the compatibility tuple, its wire forms,
  the host's recomputation of what the plugin acknowledged, rejection acks with their bounded reason, and the two
  sides' handshakes (\<^verbatim>\<open>pluginHandshake\<close> of the plugin server, \<^verbatim>\<open>handshakeAndAttach\<close> of the supervisor up to
  the attach). A Go map is an association list with distinct keys; \<^verbatim>\<open>m[k]\<close> on a map of bools is
  \<open>map_of m k = Some True\<close>. A failure's reason is kept as the case of the source's format string with its
  arguments; turning it into text is \<^verbatim>\<open>fmt\<close>'s and appears as the parameter \<open>render\<close> where text goes on the wire.
\<close>

section \<open>Offers and tuples\<close>

definition TransportSHM :: string where "TransportSHM = ''shm''"
definition TransportUDS :: string where "TransportUDS = ''uds''"
definition FeatureBurst :: string where "FeatureBurst = ''burst''"
definition FeatureStreamChunking :: string where "FeatureStreamChunking = ''stream-chunking''"
definition ShmLayoutVersion :: u32 where "ShmLayoutVersion = 1"

record FeatureFlag =
  Name :: string
  Required :: bool

record ServiceRequirement =
  Service :: string
  MinVersion :: u32
  MaxVersion :: u32

record ServiceVersion =
  svService :: string
  svVersion :: u32

record Offer =
  ProtocolMin :: u32
  ProtocolMax :: u32
  oFeatures :: "FeatureFlag list"
  Transports :: "string list"
  Codecs :: "string list"
  Services :: "ServiceRequirement list"
  LayoutVersions :: "u32 list"

record Tuple =
  ProtocolVersion :: u32
  Transport :: string
  LayoutVersion :: u32
  Features :: "(string \<times> bool) list"
  Codec :: string

record PluginIdentity =
  idName :: string
  idSemVer :: string
  idBinarySHA256 :: string

definition feature :: "Tuple \<Rightarrow> string \<Rightarrow> bool" where
  "feature t name = (map_of (Features t) name = Some True)"

definition BurstActive :: "Tuple \<Rightarrow> u32 \<Rightarrow> bool" where
  "BurstActive tuple burstMaxPayload =
     (Transport tuple = TransportSHM \<and> feature tuple FeatureBurst \<and> burstMaxPayload \<noteq> 0)"

definition ChunkingActive :: "Tuple \<Rightarrow> u32 \<Rightarrow> bool" where
  "ChunkingActive tuple chunkMaxPayload =
     (Transport tuple = TransportSHM \<and> feature tuple FeatureStreamChunking \<and> chunkMaxPayload \<noteq> 0)"

datatype Reason =
    EmptyProtocolRange | NoCommonTransport | NoCommonLayout | NoCommonCodec
  | RequiredByHost string | RequiredByPlugin string
  | ServiceNotAdvertised string u32 u32 | ServiceOutOfRange string u32 u32 u32
  | AdvertisedTwice string | AckMismatch Tuple Tuple
  | BinaryIdentity "byte list" "byte list" | Reported string

datatype IncompatibleKind = IncompatibleHandshake | IncompatibleBinaryIdentity

record IncompatibleError =
  ie_HostOffer :: Offer
  ie_PluginOffer :: Offer
  ie_Reason :: Reason
  ie_Kind :: IncompatibleKind

section \<open>Negotiation\<close>

definition highestCommonLayout :: "u32 list \<Rightarrow> u32 list \<Rightarrow> u32 option" where
  "highestCommonLayout a b =
     fold (\<lambda>v best. if v \<in> set b \<and> (case best of None \<Rightarrow> True | Some m \<Rightarrow> v > m) then Some v else best) a None"

definition firstCommon :: "string list \<Rightarrow> string list \<Rightarrow> string option" where
  "firstCommon a b = (case sort (filter (\<lambda>s. s \<in> set b) a) of [] \<Rightarrow> None | s # _ \<Rightarrow> Some s)"

definition featureNames :: "FeatureFlag list \<Rightarrow> (string \<times> bool) list" where
  "featureNames flags = fold (\<lambda>f m. AList.update (Name f) True m) flags []"

definition supports :: "(string \<times> bool) list \<Rightarrow> string \<Rightarrow> bool" where
  "supports m name = (map_of m name = Some True)"

text \<open>The two loops over a side's flags stop at the first required one the other side does not support.\<close>

definition unsupported :: "FeatureFlag list \<Rightarrow> (string \<times> bool) list \<Rightarrow> FeatureFlag option" where
  "unsupported flags m = List.find (\<lambda>f. Required f \<and> \<not> supports m (Name f)) flags"

definition resolveFeatures :: "(string \<times> bool) list \<Rightarrow> (string \<times> bool) list \<Rightarrow> (string \<times> bool) list" where
  "resolveFeatures hs ps =
     fold (\<lambda>(name, _) m. if map_of m name = None then AList.update name False m else m) ps
       (fold (\<lambda>(name, _) m. AList.update name (supports ps name) m) hs [])"

definition negotiateFeatures :: "Offer \<Rightarrow> Offer \<Rightarrow> (Reason, (string \<times> bool) list) outcome" where
  "negotiateFeatures host plugin =
     (let hs = featureNames (oFeatures host); ps = featureNames (oFeatures plugin) in
      case unsupported (oFeatures host) ps of
        Some f \<Rightarrow> Err (RequiredByHost (Name f))
      | None \<Rightarrow>
         (case unsupported (oFeatures plugin) hs of
            Some f \<Rightarrow> Err (RequiredByPlugin (Name f))
          | None \<Rightarrow> Ok (resolveFeatures hs ps)))"

definition indexServices :: "ServiceVersion list \<Rightarrow> (string \<times> u32) list" where
  "indexServices advertised = fold (\<lambda>sv m. AList.update (svService sv) (svVersion sv) m) advertised []"

fun checkRequired :: "(string \<times> u32) list \<Rightarrow> ServiceRequirement list \<Rightarrow> Reason option" where
  "checkRequired have [] = None"
| "checkRequired have (req # rest) =
     (case map_of have (Service req) of
        None \<Rightarrow> Some (ServiceNotAdvertised (Service req) (MinVersion req) (MaxVersion req))
      | Some v \<Rightarrow>
          if v < MinVersion req \<or> v > MaxVersion req
          then Some (ServiceOutOfRange (Service req) v (MinVersion req) (MaxVersion req))
          else checkRequired have rest)"

definition checkServices :: "ServiceRequirement list \<Rightarrow> ServiceVersion list \<Rightarrow> Reason option" where
  "checkServices required advertised = checkRequired (indexServices advertised) required"

definition Negotiate :: "Offer \<Rightarrow> Offer \<Rightarrow> ServiceVersion list \<Rightarrow> (IncompatibleError, Tuple) outcome" where
  "Negotiate host plugin pluginServices =
     (let fail = (\<lambda>reason. Err \<lparr>ie_HostOffer = host, ie_PluginOffer = plugin, ie_Reason = reason,
                              ie_Kind = IncompatibleHandshake\<rparr>);
          lo = max (ProtocolMin host) (ProtocolMin plugin);
          hi = min (ProtocolMax host) (ProtocolMax plugin) in
      if lo > hi then fail EmptyProtocolRange
      else case firstCommon (Transports host) (Transports plugin) of
        None \<Rightarrow> fail NoCommonTransport
      | Some transport \<Rightarrow>
         (case (if transport = TransportSHM then highestCommonLayout (LayoutVersions host) (LayoutVersions plugin)
                else Some 0) of
            None \<Rightarrow> fail NoCommonLayout
          | Some layoutVersion \<Rightarrow>
             (case firstCommon (Codecs host) (Codecs plugin) of
                None \<Rightarrow> fail NoCommonCodec
              | Some codec \<Rightarrow>
                 (case negotiateFeatures host plugin of
                    Panic \<Rightarrow> Panic
                  | Err reason \<Rightarrow> fail reason
                  | Ok features \<Rightarrow>
                     (case checkServices (Services host) pluginServices of
                        Some reason \<Rightarrow> fail reason
                      | None \<Rightarrow> Ok \<lparr>ProtocolVersion = hi, Transport = transport, LayoutVersion = layoutVersion,
                                   Features = features, Codec = codec\<rparr>)))))"

definition VerifyNonce :: "u64 \<Rightarrow> u64 \<Rightarrow> (cerr, unit) outcome" where
  "VerifyNonce sent got = (if sent \<noteq> got then Err {ErrProtocolViolation} else Ok ())"

text \<open>
  Opening and reading the binary is the filesystem's, hashing it \<^verbatim>\<open>crypto/sha256\<close>'s: the parameters \<open>open_file\<close> (the
  outcome of \<^verbatim>\<open>os.Open\<close> followed by \<^verbatim>\<open>io.Copy\<close>) and \<open>sha256\<close>.
\<close>

definition zeroOffer :: Offer where
  "zeroOffer = \<lparr>ProtocolMin = 0, ProtocolMax = 0, oFeatures = [], Transports = [], Codecs = [], Services = [],
     LayoutVersions = []\<rparr>"

definition VerifyBinaryIdentity ::
  "(string \<Rightarrow> (cerr, byte list) outcome) \<Rightarrow> (byte list \<Rightarrow> byte list) \<Rightarrow> string \<Rightarrow> byte list option
     \<Rightarrow> (cerr + IncompatibleError, unit) outcome" where
  "VerifyBinaryIdentity open_file sha256 path pinned =
     (case pinned of
        None \<Rightarrow> Ok ()
      | Some pin \<Rightarrow>
         (case open_file path of
            Err e \<Rightarrow> Err (Inl e)
          | Panic \<Rightarrow> Panic
          | Ok contents \<Rightarrow>
              let actual = sha256 contents in
              if pin \<noteq> actual
              then Err (Inr \<lparr>ie_HostOffer = zeroOffer, ie_PluginOffer = zeroOffer, ie_Reason = BinaryIdentity pin actual,
                            ie_Kind = IncompatibleBinaryIdentity\<rparr>)
              else Ok ()))"

section \<open>Wire forms\<close>

definition OfferToHello :: "Offer \<Rightarrow> u64 \<Rightarrow> Hello" where
  "OfferToHello o' nonce =
     \<lparr>h_protocol_min = ProtocolMin o', h_protocol_max = ProtocolMax o',
      h_features = map (\<lambda>f. \<lparr>ff_name = Name f, ff_required = Required f, ff_supported = False\<rparr>) (oFeatures o'),
      h_transports = Transports o', h_codecs = Codecs o', h_nonce = nonce,
      h_services = map (\<lambda>s. \<lparr>sr_service = Service s, sr_min_version = MinVersion s, sr_max_version = MaxVersion s\<rparr>)
        (Services o'),
      h_layout_versions = LayoutVersions o'\<rparr>"

definition HelloToOffer :: "Hello \<Rightarrow> Offer" where
  "HelloToOffer h =
     \<lparr>ProtocolMin = h_protocol_min h, ProtocolMax = h_protocol_max h,
      oFeatures = map (\<lambda>f. \<lparr>Name = ff_name f, Required = ff_required f\<rparr>) (h_features h),
      Transports = h_transports h, Codecs = h_codecs h,
      Services = map (\<lambda>s. \<lparr>Service = sr_service s, MinVersion = sr_min_version s, MaxVersion = sr_max_version s\<rparr>)
        (h_services h),
      LayoutVersions = h_layout_versions h\<rparr>"

definition servicesOnWire :: "ServiceVersion list \<Rightarrow> pbServiceVersion list" where
  "servicesOnWire = map (\<lambda>s. \<lparr>sv_service = svService s, sv_version = svVersion s\<rparr>)"

definition TupleToHelloAck ::
  "Tuple \<Rightarrow> u64 \<Rightarrow> PluginIdentity \<Rightarrow> ServiceVersion list \<Rightarrow> Offer \<Rightarrow> HelloAck" where
  "TupleToHelloAck t nonce identity services pluginOffer =
     zeroHelloAck\<lparr>a_protocol_version := ProtocolVersion t, a_transport := Transport t,
       a_layout_version := LayoutVersion t, a_codec := Codec t, a_nonce := nonce,
       a_plugin_name := idName identity, a_plugin_semver := idSemVer identity,
       a_binary_sha256 := idBinarySHA256 identity, a_plugin_offer := Some (OfferToHello pluginOffer 0),
       a_features := map (\<lambda>name. \<lparr>ff_name = name, ff_required = False, ff_supported = feature t name\<rparr>)
         (sort (map fst (Features t))),
       a_services := servicesOnWire services\<rparr>"

definition HelloAckToTuple :: "HelloAck \<Rightarrow> Tuple" where
  "HelloAckToTuple ack =
     \<lparr>ProtocolVersion = a_protocol_version ack, Transport = a_transport ack, LayoutVersion = a_layout_version ack,
      Features = fold (\<lambda>f m. AList.update (ff_name f) (ff_supported f) m) (a_features ack) [],
      Codec = a_codec ack\<rparr>"

text \<open>\<^verbatim>\<open>maps.Equal\<close>: as many entries, and every entry of the first is in the second.\<close>

definition mapsEqual :: "(string \<times> bool) list \<Rightarrow> (string \<times> bool) list \<Rightarrow> bool" where
  "mapsEqual a b = (length a = length b \<and> list_all (\<lambda>(k, v). map_of b k = Some v) a)"

definition tupleEqual :: "Tuple \<Rightarrow> Tuple \<Rightarrow> bool" where
  "tupleEqual a b =
     (ProtocolVersion a = ProtocolVersion b \<and> Transport a = Transport b \<and> LayoutVersion a = LayoutVersion b \<and>
      Codec a = Codec b \<and> mapsEqual (Features a) (Features b))"

fun firstDuplicateFrom :: "string set \<Rightarrow> ServiceVersion list \<Rightarrow> string option" where
  "firstDuplicateFrom seen [] = None"
| "firstDuplicateFrom seen (sv # svs) =
     (if svService sv \<in> seen then Some (svService sv) else firstDuplicateFrom (insert (svService sv) seen) svs)"

definition firstDuplicateService :: "ServiceVersion list \<Rightarrow> string option" where
  "firstDuplicateService svs = firstDuplicateFrom {} svs"

definition serviceVersionsFromAck :: "HelloAck \<Rightarrow> ServiceVersion list" where
  "serviceVersionsFromAck ack = map (\<lambda>s. \<lparr>svService = sv_service s, svVersion = sv_version s\<rparr>) (a_services ack)"

definition ValidateAcknowledgedTuple :: "Offer \<Rightarrow> HelloAck \<Rightarrow> (IncompatibleError, Tuple) outcome" where
  "ValidateAcknowledgedTuple hostOffer ack =
     (let acked = HelloAckToTuple ack;
          pluginOffer = HelloToOffer (GetPluginOffer ack);
          pluginServices = serviceVersionsFromAck ack;
          fail = (\<lambda>reason. Err \<lparr>ie_HostOffer = hostOffer, ie_PluginOffer = pluginOffer, ie_Reason = reason,
                              ie_Kind = IncompatibleHandshake\<rparr>) in
      case firstDuplicateService pluginServices of
        Some dup \<Rightarrow> fail (AdvertisedTwice dup)
      | None \<Rightarrow>
         (case Negotiate hostOffer pluginOffer pluginServices of
            Err ie \<Rightarrow> Err ie
          | Panic \<Rightarrow> Panic
          | Ok recomputed \<Rightarrow>
              if \<not> tupleEqual recomputed acked then fail (AckMismatch acked recomputed) else Ok recomputed))"

section \<open>Rejections\<close>

text \<open>
  \<^verbatim>\<open>utf8.ValidString\<close> on the bytes of a string: each rune is one byte below \<open>0x80\<close> or a leading byte followed
  by one to three continuation bytes, the first of them in the range that excludes overlong forms,
  surrogates and values above \<open>0x10FFFF\<close>.
\<close>

definition cont_byte :: "nat \<Rightarrow> bool" where
  "cont_byte b = (0x80 \<le> b \<and> b \<le> 0xBF)"

definition second_ok :: "nat \<Rightarrow> nat \<Rightarrow> bool" where
  "second_ok lead b =
     (if lead = 0xE0 then 0xA0 \<le> b \<and> b \<le> 0xBF
      else if lead = 0xED then 0x80 \<le> b \<and> b \<le> 0x9F
      else if lead = 0xF0 then 0x90 \<le> b \<and> b \<le> 0xBF
      else if lead = 0xF4 then 0x80 \<le> b \<and> b \<le> 0x8F
      else cont_byte b)"

fun valid_utf8 :: "nat list \<Rightarrow> bool" where
  "valid_utf8 [] = True"
| "valid_utf8 (b # bs) =
     (if b < 0x80 then valid_utf8 bs
      else if 0xC2 \<le> b \<and> b \<le> 0xDF then
        (case bs of b1 # bs \<Rightarrow> cont_byte b1 \<and> valid_utf8 bs | _ \<Rightarrow> False)
      else if 0xE0 \<le> b \<and> b \<le> 0xEF then
        (case bs of b1 # b2 # bs \<Rightarrow> second_ok b b1 \<and> cont_byte b2 \<and> valid_utf8 bs | _ \<Rightarrow> False)
      else if 0xF0 \<le> b \<and> b \<le> 0xF4 then
        (case bs of b1 # b2 # b3 # bs \<Rightarrow> second_ok b b1 \<and> cont_byte b2 \<and> cont_byte b3 \<and> valid_utf8 bs | _ \<Rightarrow> False)
      else False)"

definition ValidString :: "string \<Rightarrow> bool" where
  "ValidString s = valid_utf8 (map of_char s)"

function trimInvalid :: "string \<Rightarrow> string" where
  "trimInvalid s = (if s \<noteq> [] \<and> \<not> ValidString s then trimInvalid (butlast s) else s)"
  by pat_completeness auto
termination
  by (relation "measure length") auto

declare trimInvalid.simps [simp del]

definition truncateUTF8 :: "string \<Rightarrow> nat \<Rightarrow> string" where
  "truncateUTF8 s maxBytes = (if length s \<le> maxBytes then s else trimInvalid (take maxBytes s))"

definition MaxIncompatibleReasonBytes :: nat where "MaxIncompatibleReasonBytes = 1024"

definition genericIncompatibleReason :: string where
  "genericIncompatibleReason = ''control: incompatible handshake (no reason reported)''"

definition IncompatibleToHelloAck :: "Offer \<Rightarrow> ServiceVersion list \<Rightarrow> string \<Rightarrow> u64 \<Rightarrow> HelloAck" where
  "IncompatibleToHelloAck offer services reason nonce =
     (let reason = (if reason = [] then genericIncompatibleReason else reason);
          reason = truncateUTF8 reason MaxIncompatibleReasonBytes in
      zeroHelloAck\<lparr>a_nonce := nonce, a_incompatible_reason := reason, a_plugin_offer := Some (OfferToHello offer 0),
        a_services := servicesOnWire services\<rparr>)"

definition HelloAckIncompatible :: "HelloAck \<Rightarrow> (string \<times> Offer) option" where
  "HelloAckIncompatible ack =
     (let reason = a_incompatible_reason ack in
      if reason = [] then None
      else let pluginOffer = HelloToOffer (GetPluginOffer ack) in
        Some (reason, pluginOffer\<lparr>Services := Services pluginOffer @
          map (\<lambda>s. \<lparr>Service = sv_service s, MinVersion = sv_version s, MaxVersion = sv_version s\<rparr>) (a_services ack)\<rparr>))"

end
