(* ===== verification/Handshake_Spec.thy ===== *)
theory Handshake_Spec
  imports Control_Handshake
begin

text \<open>
  What the negotiation promises: the specification of a compatible tuple, that \<open>Negotiate\<close> returns exactly the
  compatible tuple when there is one, and that the tuple survives the wire forms of the acknowledgement.
\<close>

section \<open>The axes of the negotiation\<close>

lemma highestCommonLayout_fold:
  "fold (\<lambda>v best. if v \<in> B \<and> (case best of None \<Rightarrow> True | Some m \<Rightarrow> v > m) then Some v else best) a best =
     (let vs = set a \<inter> B \<union> set_option best in if vs = {} then None else Some (Max vs))"
  for best :: "u32 option"
proof (induction a arbitrary: best)
  case Nil
  then show ?case by (cases best) auto
next
  case (Cons v a)
  let ?b = "if v \<in> B \<and> (case best of None \<Rightarrow> True | Some m \<Rightarrow> v > m) then Some v else best"
  have "Max (set a \<inter> B \<union> set_option ?b) = Max (set (v # a) \<inter> B \<union> set_option best)"
    if "set (v # a) \<inter> B \<union> set_option best \<noteq> {}"
  proof (cases best)
    case None
    then show ?thesis by (auto simp: Int_insert_left)
  next
    case (Some m)
    have "Max (insert v (insert m (set a \<inter> B))) = Max (insert (max v m) (set a \<inter> B))"
      by (cases "set a \<inter> B = {}") (simp_all add: max.assoc [symmetric])
    then show ?thesis using Some by (auto simp: Int_insert_left insert_commute max_def)
  qed
  moreover have "set a \<inter> B \<union> set_option ?b = {} \<longleftrightarrow> set (v # a) \<inter> B \<union> set_option best = {}"
    by (cases best) auto
  ultimately show ?case by (simp only: fold_simps Cons.IH Let_def) (auto split: if_splits)
qed

lemma highestCommonLayout_None: "highestCommonLayout a b = None \<longleftrightarrow> set a \<inter> set b = {}"
  by (simp add: highestCommonLayout_def highestCommonLayout_fold Let_def)

lemma highestCommonLayout_Some:
  "highestCommonLayout a b = Some v \<longleftrightarrow> v \<in> set a \<inter> set b \<and> (\<forall>w \<in> set a \<inter> set b. w \<le> v)"
proof (cases "set a \<inter> set b = {}")
  case False
  then show ?thesis
    by (auto simp: highestCommonLayout_def highestCommonLayout_fold Let_def Max_eq_iff intro: Max_in
        dest: Max_in [rotated])
qed (auto simp: highestCommonLayout_def highestCommonLayout_fold)

lemma firstCommon_None: "firstCommon a b = None \<longleftrightarrow> set a \<inter> set b = {}"
proof -
  have "sort (filter (\<lambda>s. s \<in> set b) a) = [] \<longleftrightarrow> filter (\<lambda>s. s \<in> set b) a = []"
    by (metis length_0_conv length_sort)
  then show ?thesis by (auto simp: firstCommon_def filter_empty_conv split: list.splits)
qed

lemma firstCommon_Some:
  "firstCommon a b = Some s \<longleftrightarrow> s \<in> set a \<inter> set b \<and> (\<forall>w \<in> set a \<inter> set b. s \<le> w)"
proof -
  let ?c = "sort (filter (\<lambda>s. s \<in> set b) a)"
  have c: "set ?c = set a \<inter> set b" "sorted ?c" by auto
  show ?thesis
  proof (cases ?c)
    case Nil
    then show ?thesis using c(1) by (auto simp: firstCommon_def)
  next
    case (Cons x xs)
    have "x \<in> set a \<inter> set b" "\<forall>w \<in> set a \<inter> set b. x \<le> w" using c Cons by (metis list.set_intros(1), metis Cons c set_ConsD sorted_simps(2) order_refl)
    then show ?thesis using Cons by (auto simp: firstCommon_def intro: order.antisym)
  qed
qed

lemma map_of_fold_update:
  "map_of (fold (\<lambda>x m. AList.update (f x) (g x) m) xs m) = map_of (rev (map (\<lambda>x. (f x, g x)) xs) @ m)"
  by (induction xs arbitrary: m) (auto simp: update_conv' map_add_def fun_eq_iff split: option.splits)

lemma distinct_fold_update:
  "distinct (map fst m) \<Longrightarrow> distinct (map fst (fold (\<lambda>x m. AList.update (f x) (g x) m) xs m))"
  by (induction xs arbitrary: m) (auto simp: distinct_update)

definition names :: "FeatureFlag list \<Rightarrow> string set" where
  "names flags = Name ` set flags"

lemma map_of_const: "map_of (map (\<lambda>x. (f x, c)) xs) k = (if k \<in> f ` set xs then Some c else None)"
  by (induction xs) auto

lemma featureNames_of: "map_of (featureNames flags) n = (if n \<in> names flags then Some True else None)"
  by (simp add: featureNames_def map_of_fold_update names_def rev_map map_of_const)

lemma supports_featureNames [simp]: "supports (featureNames flags) n \<longleftrightarrow> n \<in> names flags"
  by (simp add: supports_def featureNames_of)

lemma featureNames_keys: "fst ` set (featureNames flags) = names flags"
  using featureNames_of [of flags] by (metis (mono_tags, lifting) dom_map_of_conv_image_fst domIff equalityI option.simps(3) subsetI)

lemma unsupported_None:
  "unsupported flags (featureNames other) = None \<longleftrightarrow> (\<forall>f \<in> set flags. Required f \<longrightarrow> Name f \<in> names other)"
  by (auto simp: unsupported_def find_None_iff)

lemma resolve_host:
  "map_of (fold (\<lambda>(name, _) m. AList.update name (g name) m) hs m) k =
     (if k \<in> fst ` set hs then Some (g k) else map_of m k)"
  by (induction hs arbitrary: m) (auto simp: update_conv')

lemma resolve_plugin:
  "map_of (fold (\<lambda>(name, _) m. if map_of m name = None then AList.update name False m else m) ps m) k =
     (if k \<in> fst ` set ps \<and> map_of m k = None then Some False else map_of m k)"
proof (induction ps arbitrary: m)
  case (Cons p ps)
  then show ?case by (cases p) (auto simp: update_conv')
qed simp

lemma resolveFeatures_of:
  "map_of (resolveFeatures (featureNames hf) (featureNames pf)) n =
     (if n \<in> names hf \<union> names pf then Some (n \<in> names hf \<and> n \<in> names pf) else None)"
  by (auto simp: resolveFeatures_def resolve_plugin resolve_host featureNames_keys)

lemma distinct_resolve_host:
  "distinct (map fst m) \<Longrightarrow> distinct (map fst (fold (\<lambda>(name, _) m. AList.update name (g name) m) hs m))"
  by (induction hs arbitrary: m) (auto simp: distinct_update)

lemma distinct_resolveFeatures: "distinct (map fst (resolveFeatures hs ps))"
proof -
  have "distinct (map fst (fold (\<lambda>(name, _) m. if map_of m name = None then AList.update name False m else m) ps m))"
    if "distinct (map fst m)" for m :: "(string \<times> bool) list"
    using that
  proof (induction ps arbitrary: m)
    case (Cons p ps)
    then show ?case by (cases p) (simp add: distinct_update)
  qed simp
  then show ?thesis by (simp add: resolveFeatures_def distinct_resolve_host)
qed

section \<open>The specification\<close>

text \<open>The version a plugin offers of a service: the last it advertised under that name.\<close>

definition advertised :: "ServiceVersion list \<Rightarrow> string \<Rightarrow> u32 option" where
  "advertised svs = map_of (rev (map (\<lambda>sv. (svService sv, svVersion sv)) svs))"

definition required_met :: "Offer \<Rightarrow> Offer \<Rightarrow> ServiceVersion list \<Rightarrow> bool" where
  "required_met host plugin svs \<longleftrightarrow>
     (\<forall>f \<in> set (oFeatures host). Required f \<longrightarrow> Name f \<in> names (oFeatures plugin)) \<and>
     (\<forall>f \<in> set (oFeatures plugin). Required f \<longrightarrow> Name f \<in> names (oFeatures host)) \<and>
     (\<forall>r \<in> set (Services host). \<exists>v. advertised svs (Service r) = Some v \<and> MinVersion r \<le> v \<and> v \<le> MaxVersion r)"

definition in_ranges :: "Offer \<Rightarrow> Offer \<Rightarrow> u32 \<Rightarrow> bool" where
  "in_ranges host plugin v \<longleftrightarrow>
     ProtocolMin host \<le> v \<and> v \<le> ProtocolMax host \<and> ProtocolMin plugin \<le> v \<and> v \<le> ProtocolMax plugin"

text \<open>
  A tuple is compatible when it takes the highest protocol version in both ranges, the first common transport and
  codec, the highest common layout on shared memory and layout 0 elsewhere, resolves every offered feature to
  whether both sides offered it, and every requirement of either side is met.
\<close>

definition compatible :: "Offer \<Rightarrow> Offer \<Rightarrow> ServiceVersion list \<Rightarrow> Tuple \<Rightarrow> bool" where
  "compatible host plugin svs t \<longleftrightarrow>
     in_ranges host plugin (ProtocolVersion t) \<and> (\<forall>v. in_ranges host plugin v \<longrightarrow> v \<le> ProtocolVersion t) \<and>
     Transport t \<in> set (Transports host) \<inter> set (Transports plugin) \<and>
     (\<forall>s \<in> set (Transports host) \<inter> set (Transports plugin). Transport t \<le> s) \<and>
     (if Transport t = TransportSHM
      then LayoutVersion t \<in> set (LayoutVersions host) \<inter> set (LayoutVersions plugin) \<and>
        (\<forall>v \<in> set (LayoutVersions host) \<inter> set (LayoutVersions plugin). v \<le> LayoutVersion t)
      else LayoutVersion t = 0) \<and>
     Codec t \<in> set (Codecs host) \<inter> set (Codecs plugin) \<and>
     (\<forall>s \<in> set (Codecs host) \<inter> set (Codecs plugin). Codec t \<le> s) \<and>
     distinct (map fst (Features t)) \<and>
     (\<forall>n. map_of (Features t) n =
        (if n \<in> names (oFeatures host) \<union> names (oFeatures plugin)
         then Some (n \<in> names (oFeatures host) \<and> n \<in> names (oFeatures plugin)) else None)) \<and>
     required_met host plugin svs"

lemma checkRequired_None:
  "checkRequired have req = None \<longleftrightarrow>
     (\<forall>r \<in> set req. \<exists>v. map_of have (Service r) = Some v \<and> MinVersion r \<le> v \<and> v \<le> MaxVersion r)"
  by (induction req) (auto simp: not_less split: option.splits)

lemma checkServices_None:
  "checkServices req svs = None \<longleftrightarrow>
     (\<forall>r \<in> set req. \<exists>v. advertised svs (Service r) = Some v \<and> MinVersion r \<le> v \<and> v \<le> MaxVersion r)"
  by (simp add: checkServices_def checkRequired_None indexServices_def map_of_fold_update advertised_def)

lemma negotiateFeatures_Ok:
  "negotiateFeatures host plugin = Ok fs \<longleftrightarrow>
     fs = resolveFeatures (featureNames (oFeatures host)) (featureNames (oFeatures plugin)) \<and>
     (\<forall>f \<in> set (oFeatures host). Required f \<longrightarrow> Name f \<in> names (oFeatures plugin)) \<and>
     (\<forall>f \<in> set (oFeatures plugin). Required f \<longrightarrow> Name f \<in> names (oFeatures host))"
  unfolding unsupported_None [symmetric] by (auto simp: negotiateFeatures_def Let_def split: option.splits)

lemma negotiateFeatures_no_Panic: "negotiateFeatures host plugin \<noteq> Panic"
  by (auto simp: negotiateFeatures_def Let_def split: option.splits)

definition agreed :: "Offer \<Rightarrow> Offer \<Rightarrow> string \<Rightarrow> u32 \<Rightarrow> string \<Rightarrow> Tuple" where
  "agreed host plugin transport layout codec =
     \<lparr>ProtocolVersion = min (ProtocolMax host) (ProtocolMax plugin), Transport = transport, LayoutVersion = layout,
      Features = resolveFeatures (featureNames (oFeatures host)) (featureNames (oFeatures plugin)), Codec = codec\<rparr>"

lemma Negotiate_Ok:
  "Negotiate host plugin svs = Ok t \<longleftrightarrow>
     (\<exists>tr lv cd. max (ProtocolMin host) (ProtocolMin plugin) \<le> min (ProtocolMax host) (ProtocolMax plugin) \<and>
        firstCommon (Transports host) (Transports plugin) = Some tr \<and>
        (if tr = TransportSHM then highestCommonLayout (LayoutVersions host) (LayoutVersions plugin) else Some 0) = Some lv \<and>
        firstCommon (Codecs host) (Codecs plugin) = Some cd \<and>
        required_met host plugin svs \<and> t = agreed host plugin tr lv cd)"
proof -
  let ?fs = "resolveFeatures (featureNames (oFeatures host)) (featureNames (oFeatures plugin))"
  have req: "required_met host plugin svs \<longleftrightarrow>
      negotiateFeatures host plugin = Ok ?fs \<and> checkServices (Services host) svs = None"
    by (auto simp: required_met_def negotiateFeatures_Ok checkServices_None)
  have fs: "negotiateFeatures host plugin = Ok fs \<Longrightarrow> fs = ?fs" for fs by (simp add: negotiateFeatures_Ok)
  define lo where "lo = max (ProtocolMin host) (ProtocolMin plugin)"
  define hi where "hi = min (ProtocolMax host) (ProtocolMax plugin)"
  show ?thesis
    unfolding req Negotiate_def Let_def agreed_def lo_def [symmetric] hi_def [symmetric]
    by (cases "lo \<le> hi"; cases "firstCommon (Transports host) (Transports plugin)";
        cases "firstCommon (Codecs host) (Codecs plugin)"; cases "negotiateFeatures host plugin";
        cases "checkServices (Services host) svs")
      (auto simp: not_le not_less dest: fs split: option.splits if_splits)
qed

lemma Negotiate_no_Panic: "Negotiate host plugin svs \<noteq> Panic"
  by (auto simp: Negotiate_def Let_def negotiateFeatures_no_Panic split: option.splits outcome.splits)

lemma in_ranges_iff:
  "in_ranges host plugin v \<longleftrightarrow>
     max (ProtocolMin host) (ProtocolMin plugin) \<le> v \<and> v \<le> min (ProtocolMax host) (ProtocolMax plugin)"
  by (auto simp: in_ranges_def)

lemma agreed_compatible:
  assumes "max (ProtocolMin host) (ProtocolMin plugin) \<le> min (ProtocolMax host) (ProtocolMax plugin)"
    "firstCommon (Transports host) (Transports plugin) = Some tr"
    "(if tr = TransportSHM then highestCommonLayout (LayoutVersions host) (LayoutVersions plugin) else Some 0) = Some lv"
    "firstCommon (Codecs host) (Codecs plugin) = Some cd" "required_met host plugin svs"
  shows "compatible host plugin svs (agreed host plugin tr lv cd)"
proof -
  have "in_ranges host plugin (min (ProtocolMax host) (ProtocolMax plugin))"
    using assms(1) unfolding in_ranges_iff by blast
  moreover have "\<forall>v. in_ranges host plugin v \<longrightarrow> v \<le> min (ProtocolMax host) (ProtocolMax plugin)"
    unfolding in_ranges_iff by blast
  moreover have "if tr = TransportSHM
      then lv \<in> set (LayoutVersions host) \<inter> set (LayoutVersions plugin) \<and>
        (\<forall>v \<in> set (LayoutVersions host) \<inter> set (LayoutVersions plugin). v \<le> lv)
      else lv = 0"
    using assms(3) by (simp add: highestCommonLayout_Some split: if_splits)
  ultimately show ?thesis
    using assms(2,4,5) unfolding compatible_def agreed_def firstCommon_Some
    by (simp add: resolveFeatures_of distinct_resolveFeatures split: if_splits)
qed

lemma Negotiate_compatible: "Negotiate host plugin svs = Ok t \<Longrightarrow> compatible host plugin svs t"
  unfolding Negotiate_Ok by (elim exE conjE) (simp add: agreed_compatible)

lemma Negotiate_complete:
  assumes "compatible host plugin svs t"
  shows "\<exists>t'. Negotiate host plugin svs = Ok t'"
proof -
  have c: "firstCommon (Transports host) (Transports plugin) = Some (Transport t)"
      "firstCommon (Codecs host) (Codecs plugin) = Some (Codec t)"
    using assms by (auto simp: compatible_def firstCommon_Some)
  moreover have "(if Transport t = TransportSHM then highestCommonLayout (LayoutVersions host) (LayoutVersions plugin)
      else Some 0) = Some (LayoutVersion t)"
    using assms by (auto simp: compatible_def highestCommonLayout_Some split: if_splits)
  moreover have "max (ProtocolMin host) (ProtocolMin plugin) \<le> min (ProtocolMax host) (ProtocolMax plugin)"
    using assms by (auto simp: compatible_def in_ranges_def)
  moreover have "required_met host plugin svs" using assms by (simp add: compatible_def)
  ultimately show ?thesis unfolding Negotiate_Ok by metis
qed

lemma compatible_unique:
  assumes "compatible host plugin svs t" "compatible host plugin svs u"
  shows "ProtocolVersion t = ProtocolVersion u" "Transport t = Transport u" "LayoutVersion t = LayoutVersion u"
    "Codec t = Codec u" "map_of (Features t) = map_of (Features u)"
proof -
  note c = assms [unfolded compatible_def]
  show "ProtocolVersion t = ProtocolVersion u" by (rule order.antisym) (use c in blast)+
  show tr: "Transport t = Transport u" by (rule order.antisym) (use c in blast)+
  show "Codec t = Codec u" by (rule order.antisym) (use c in blast)+
  show "LayoutVersion t = LayoutVersion u"
  proof (cases "Transport t = TransportSHM")
    case True
    then show ?thesis by (intro order.antisym) (use c tr in \<open>simp; blast\<close>)+
  next
    case False
    then show ?thesis using c tr by simp
  qed
  show "map_of (Features t) = map_of (Features u)" using c by (simp add: fun_eq_iff)
qed

section \<open>The tuple on the wire\<close>

lemma mapsEqual_iff:
  assumes "distinct (map fst a)" "distinct (map fst b)"
  shows "mapsEqual a b \<longleftrightarrow> map_of a = map_of b"
proof
  assume m: "mapsEqual a b"
  have sub: "set a \<subseteq> set b" using m by (auto simp: mapsEqual_def list_all_iff dest: map_of_SomeD)
  have "card (set a) = card (set b)"
    using m assms by (simp add: mapsEqual_def distinct_card distinct_map)
  then have "set a = set b" using sub by (simp add: card_subset_eq)
  then show "map_of a = map_of b" using assms by (metis map_of_inject_set)
next
  assume eq: "map_of a = map_of b"
  then have "set a = set b" using assms by (metis map_of_inject_set)
  then have "length a = length b" using assms by (metis distinct_card distinct_map)
  then show "mapsEqual a b" using \<open>set a = set b\<close> assms by (auto simp: mapsEqual_def list_all_iff)
qed

lemma compatible_distinct: "compatible host plugin svs t \<Longrightarrow> distinct (map fst (Features t))"
  unfolding compatible_def by blast

lemma tupleEqual_compatible:
  "compatible host plugin svs t \<Longrightarrow> compatible host plugin svs u \<Longrightarrow> tupleEqual t u"
  using compatible_unique [of host plugin svs t u]
  by (simp add: tupleEqual_def mapsEqual_iff compatible_distinct)

lemma record_eta [simp]:
  "\<lparr>Name = Name f, Required = Required f\<rparr> = f"
  "\<lparr>Service = Service r, MinVersion = MinVersion r, MaxVersion = MaxVersion r\<rparr> = r"
  "\<lparr>svService = svService v, svVersion = svVersion v\<rparr> = v"
  by simp_all

lemma offer_roundtrip [simp]: "HelloToOffer (OfferToHello o' nonce) = o'"
  by (simp add: HelloToOffer_def OfferToHello_def comp_def)

lemma services_roundtrip [simp]:
  "serviceVersionsFromAck (TupleToHelloAck t nonce identity svs o') = svs"
  by (simp add: serviceVersionsFromAck_def TupleToHelloAck_def servicesOnWire_def comp_def)

lemma plugin_offer_roundtrip [simp]: "GetPluginOffer (TupleToHelloAck t nonce identity svs o') = OfferToHello o' 0"
  by (simp add: GetPluginOffer_def TupleToHelloAck_def)

lemma map_of_image: "map_of (map (\<lambda>x. (x, g x)) xs) k = (if k \<in> set xs then Some (g k) else None)"
  by (induction xs) auto

lemma acked_tuple:
  assumes "distinct (map fst (Features t))"
  shows "tupleEqual t (HelloAckToTuple (TupleToHelloAck t nonce identity svs o'))"
proof -
  let ?fs = "fold (\<lambda>f m. AList.update (ff_name f) (ff_supported f) m)
     (map (\<lambda>name. \<lparr>ff_name = name, ff_required = False, ff_supported = feature t name\<rparr>) (sort (map fst (Features t)))) []"
  have "map_of ?fs k = map_of (Features t) k" for k
  proof (cases "map_of (Features t) k")
    case None
    then have "k \<notin> fst ` set (Features t)" by (simp add: map_of_eq_None_iff)
    then show ?thesis using None by (simp add: map_of_fold_update comp_def rev_map map_of_image)
  next
    case (Some v)
    then have "k \<in> fst ` set (Features t)" by (metis domI dom_map_of_conv_image_fst)
    then show ?thesis using Some by (simp add: map_of_fold_update comp_def rev_map map_of_image feature_def)
  qed
  then have "mapsEqual (Features t) ?fs"
    using assms by (subst mapsEqual_iff) (auto simp: distinct_fold_update fun_eq_iff)
  then show ?thesis by (simp add: tupleEqual_def HelloAckToTuple_def TupleToHelloAck_def)
qed

lemma firstDuplicateFrom_None:
  "firstDuplicateFrom seen svs = None \<longleftrightarrow> distinct (map svService svs) \<and> svService ` set svs \<inter> seen = {}"
  by (induction svs arbitrary: seen) auto

lemma firstDuplicateService_None: "firstDuplicateService svs = None \<longleftrightarrow> distinct (map svService svs)"
  by (simp add: firstDuplicateService_def firstDuplicateFrom_None)

lemma ValidateAcknowledgedTuple_Ok:
  "ValidateAcknowledgedTuple host ack = Ok t \<longleftrightarrow>
     distinct (map svService (serviceVersionsFromAck ack)) \<and>
     Negotiate host (HelloToOffer (GetPluginOffer ack)) (serviceVersionsFromAck ack) = Ok t \<and>
     tupleEqual t (HelloAckToTuple ack)"
  unfolding firstDuplicateService_None [symmetric]
  by (auto simp: ValidateAcknowledgedTuple_def Let_def split: option.splits outcome.splits if_splits)

lemma validate_own_ack:
  assumes "Negotiate host plugin svs = Ok t" "distinct (map svService svs)"
  shows "ValidateAcknowledgedTuple host (TupleToHelloAck t nonce identity svs plugin) = Ok t"
  using assms Negotiate_compatible [OF assms(1)]
  by (simp add: ValidateAcknowledgedTuple_Ok acked_tuple compatible_distinct)

end
