(* ===== verification/Handshake.thy ===== *)
theory Handshake
  imports Handshake_Spec Layout_Roundtrip
begin

text \<open>
  The two sides of the handshake: the offers a host (\<^verbatim>\<open>hostOffer\<close>, \<^verbatim>\<open>offeredTransports\<close>) and a plugin
  (\<^verbatim>\<open>pluginBaseOffer\<close>) make, the plugin's reply (\<^verbatim>\<open>pluginHandshake\<close>), the host's handling of it up to the attach
  (\<^verbatim>\<open>handshakeAndAttach\<close>), and the check of a configured payload guarantee against the negotiated tuple
  (\<^verbatim>\<open>validateMaxPayloadInterlock\<close>). What \<^verbatim>\<open>Conn.Recv\<close> and \<^verbatim>\<open>Conn.Send\<close> returned are arguments.
\<close>

definition m1ProtocolVersion :: u32 where "m1ProtocolVersion = 1"
definition codecProto :: string where "codecProto = ''proto''"
definition featureStreaming :: string where "featureStreaming = ''streaming''"
definition transportAuto :: string where "transportAuto = ''auto''"
definition maxPayloadInterlockCRCOverhead :: u32 where "maxPayloadInterlockCRCOverhead = 4"
definition udsMaxFrameSize :: u32 where "udsMaxFrameSize = 1048576"

record HostConfig =
  cfg_Services :: "ServiceRequirement list"
  cfg_RequireStreaming :: bool
  cfg_BurstMaxPayload :: u32
  cfg_ChunkMaxPayload :: u32
  cfg_MaxPayload :: u32
  cfg_Transport :: string
  cfg_ShmLayout :: Layout

section \<open>Offers\<close>

definition offeredTransports :: "HostConfig \<Rightarrow> string list \<times> u32 list" where
  "offeredTransports cfg =
     (if cfg_Transport cfg = TransportSHM then ([TransportSHM], [ShmLayoutVersion])
      else if cfg_Transport cfg = transportAuto then ([TransportSHM, TransportUDS], [ShmLayoutVersion])
      else ([TransportUDS], []))"

definition hostOffer :: "HostConfig \<Rightarrow> Offer" where
  "hostOffer cfg =
     (case offeredTransports cfg of (transports, layoutVersions) \<Rightarrow>
        \<lparr>ProtocolMin = m1ProtocolVersion, ProtocolMax = m1ProtocolVersion,
         oFeatures = [\<lparr>Name = featureStreaming, Required = cfg_RequireStreaming cfg\<rparr>]
           @ (if cfg_BurstMaxPayload cfg > 0 then [\<lparr>Name = FeatureBurst, Required = False\<rparr>] else [])
           @ (if cfg_ChunkMaxPayload cfg > 0 then [\<lparr>Name = FeatureStreamChunking, Required = False\<rparr>] else []),
         Transports = transports, Codecs = [codecProto], Services = cfg_Services cfg,
         LayoutVersions = layoutVersions\<rparr>)"

definition defaultPluginTransports :: "string list" where
  "defaultPluginTransports = [TransportSHM, TransportUDS]"

definition resolvePluginTransports :: "string list \<Rightarrow> string list" where
  "resolvePluginTransports transports = (if transports = [] then defaultPluginTransports else transports)"

definition pluginBaseOffer :: "string list \<Rightarrow> bool \<Rightarrow> Offer" where
  "pluginBaseOffer transports requireStreaming =
     \<lparr>ProtocolMin = m1ProtocolVersion, ProtocolMax = m1ProtocolVersion,
      oFeatures = [\<lparr>Name = featureStreaming, Required = requireStreaming\<rparr>,
        \<lparr>Name = FeatureBurst, Required = False\<rparr>, \<lparr>Name = FeatureStreamChunking, Required = False\<rparr>],
      Transports = transports, Codecs = [codecProto], Services = [],
      LayoutVersions = (if TransportSHM \<in> set transports then [ShmLayoutVersion] else [])\<rparr>"

section \<open>The payload interlock\<close>

definition largestSlabSize :: "SizeClass list \<Rightarrow> u32" where
  "largestSlabSize classes = fold (\<lambda>c largest. if SlabSize c > largest then SlabSize c else largest) classes 0"

datatype interlock = Refused_UDS | Refused_Missing u32 "string list"

definition inlineLimit :: "HostConfig \<Rightarrow> Tuple \<Rightarrow> u32" where
  "inlineLimit cfg tuple =
     (let overhead = (if feature tuple ''checksum'' then maxPayloadInterlockCRCOverhead else 0);
          hostToPlugin = largestSlabSize (Classes (at (Arenas (cfg_ShmLayout cfg)) HostToPlugin));
          pluginToHost = largestSlabSize (Classes (at (Arenas (cfg_ShmLayout cfg)) PluginToHost));
          limit = min hostToPlugin pluginToHost in
      if limit < overhead then 0 else limit - overhead)"

definition validateMaxPayloadInterlock :: "HostConfig \<Rightarrow> Tuple \<Rightarrow> interlock option" where
  "validateMaxPayloadInterlock cfg tuple =
     (if cfg_MaxPayload cfg = 0 then None
      else if Transport tuple \<noteq> TransportSHM
      then (if cfg_MaxPayload cfg > udsMaxFrameSize then Some Refused_UDS else None)
      else if cfg_MaxPayload cfg \<le> inlineLimit cfg tuple then None
      else let missing = (if \<not> BurstActive tuple (cfg_BurstMaxPayload cfg) then [''burst''] else [])
                 @ (if \<not> ChunkingActive tuple (cfg_ChunkMaxPayload cfg) then [''stream-chunking''] else []) in
        if missing = [] then None else Some (Refused_Missing (inlineLimit cfg tuple) missing))"

section \<open>The exchange\<close>

datatype hs_error = HsControl cerr | HsIncompatible IncompatibleError | HsUnsupportedCodec string
  | HsInterlock interlock

definition recvControl ::
  "(cerr, ControlMessage) outcome \<Rightarrow> LifecycleState \<Rightarrow> MessageKind \<Rightarrow> (cerr, ControlMessage) outcome" where
  "recvControl rx state want = andThen rx (\<lambda>msg. andThen (checkKind msg state want) (\<lambda>_. Ok msg))"

definition controlMsg :: "Body \<Rightarrow> ControlMessage" where
  "controlMsg b = \<lparr>correlation_id = 0, generation = 0, body = Some b\<rparr>"

definition GetHello :: "ControlMessage \<Rightarrow> Hello" where
  "GetHello msg = (case body msg of Some (BHello h) \<Rightarrow> h | _ \<Rightarrow> zeroHello)"

definition GetHelloAck :: "ControlMessage \<Rightarrow> HelloAck" where
  "GetHelloAck msg = (case body msg of Some (BHelloAck a) \<Rightarrow> a | _ \<Rightarrow> zeroHelloAck)"

definition incompatibleReason :: "(Reason \<Rightarrow> string) \<Rightarrow> IncompatibleError \<Rightarrow> string" where
  "incompatibleReason render ie =
     (if render (ie_Reason ie) \<noteq> [] then render (ie_Reason ie)
      else ''control: incompatible handshake: '' @ render (ie_Reason ie))"

text \<open>
  The plugin's side returns the reply it sends, if any, and its result; \<open>sent\<close> is what sending that reply returned. The
  result of sending a rejection is discarded.
\<close>

definition pluginHandshake ::
  "(Reason \<Rightarrow> string) \<Rightarrow> (cerr, ControlMessage) outcome \<Rightarrow> Offer \<Rightarrow> ServiceVersion list \<Rightarrow> cerr option
     \<Rightarrow> ControlMessage option \<times> (hs_error, Tuple) outcome" where
  "pluginHandshake render rx offer services sent =
     (case recvControl rx StateHandshaking KindHello of
        Err e \<Rightarrow> (None, Err (HsControl e))
      | Panic \<Rightarrow> (None, Panic)
      | Ok helloMsg \<Rightarrow>
          let hello = GetHello helloMsg in
          case Negotiate (HelloToOffer hello) offer services of
            Panic \<Rightarrow> (None, Panic)
          | Err ie \<Rightarrow>
              (Some (controlMsg (BHelloAck
                 (IncompatibleToHelloAck offer services (incompatibleReason render ie) (h_nonce hello)))),
               Err (HsIncompatible ie))
          | Ok tuple \<Rightarrow>
              (Some (controlMsg (BHelloAck (TupleToHelloAck tuple (h_nonce hello)
                 \<lparr>idName = [], idSemVer = [], idBinarySHA256 = []\<rparr> services offer))),
               case sent of Some e \<Rightarrow> Err (HsControl e) | None \<Rightarrow> Ok tuple))"

text \<open>The host's side up to the attach; \<open>sent\<close> is what sending the Hello returned and \<open>rx\<close> what it received.\<close>

definition hostHello :: "HostConfig \<Rightarrow> u64 \<Rightarrow> ControlMessage" where
  "hostHello cfg nonce = controlMsg (BHello (OfferToHello (hostOffer cfg) nonce))"

definition hostHandshake ::
  "HostConfig \<Rightarrow> u64 \<Rightarrow> cerr option \<Rightarrow> (cerr, ControlMessage) outcome \<Rightarrow> (hs_error, Tuple) outcome" where
  "hostHandshake cfg nonce sent rx =
     (case sent of
        Some e \<Rightarrow> Err (HsControl e)
      | None \<Rightarrow>
         (case recvControl rx StateHandshaking KindHelloAck of
            Err e \<Rightarrow> Err (HsControl e)
          | Panic \<Rightarrow> Panic
          | Ok ackMsg \<Rightarrow>
              let ack = GetHelloAck ackMsg in
              case VerifyNonce nonce (a_nonce ack) of
                Err e \<Rightarrow> Err (HsControl e)
              | Panic \<Rightarrow> Panic
              | Ok _ \<Rightarrow>
                 (case HelloAckIncompatible ack of
                    Some (reason, pluginOffer) \<Rightarrow>
                      Err (HsIncompatible \<lparr>ie_HostOffer = hostOffer cfg, ie_PluginOffer = pluginOffer,
                             ie_Reason = Reported reason, ie_Kind = IncompatibleHandshake\<rparr>)
                  | None \<Rightarrow>
                     (case ValidateAcknowledgedTuple (hostOffer cfg) ack of
                        Err ie \<Rightarrow> Err (HsIncompatible ie)
                      | Panic \<Rightarrow> Panic
                      | Ok tuple \<Rightarrow>
                          if Codec tuple \<noteq> codecProto then Err (HsUnsupportedCodec (Codec tuple))
                          else (case validateMaxPayloadInterlock cfg tuple of
                                  Some r \<Rightarrow> Err (HsInterlock r)
                                | None \<Rightarrow> Ok tuple)))))"

section \<open>Truncated reasons\<close>

lemma valid_rune:
  assumes "valid_utf8 (b # bs)"
  obtains w where "w \<le> 3" "w \<le> length bs" "valid_utf8 (drop w bs)"
    "\<forall>ys. valid_utf8 ys \<longrightarrow> valid_utf8 (b # take w bs @ ys)"
proof -
  consider "b < 0x80" | "0xC2 \<le> b" "b \<le> 0xDF" | "0xE0 \<le> b" "b \<le> 0xEF" | "0xF0 \<le> b" "b \<le> 0xF4"
    using assms by (auto split: if_splits)
  then show ?thesis
  proof cases
    case 1
    then show ?thesis using assms that [of 0] by auto
  next
    case 2
    then obtain b1 r where "bs = b1 # r" using assms by (auto split: list.splits)
    then show ?thesis using 2 assms that [of 1] by simp
  next
    case 3
    then obtain b1 b2 r where "bs = b1 # b2 # r" using assms by (auto split: list.splits)
    then show ?thesis using 3 assms that [of 2] by simp
  next
    case 4
    then obtain b1 b2 b3 r where "bs = b1 # b2 # b3 # r" using assms by (auto split: list.splits)
    then show ?thesis using 4 assms that [of 3] by simp
  qed
qed

lemma valid_prefix:
  "valid_utf8 s \<Longrightarrow> n \<le> length s \<Longrightarrow> \<exists>k \<le> n. n \<le> k + 3 \<and> valid_utf8 (take k s)"
proof (induction s arbitrary: n rule: length_induct)
  case (1 s)
  show ?case
  proof (cases "n \<le> 3")
    case True
    then show ?thesis by (intro exI [of _ 0]) auto
  next
    case False
    then obtain b bs where s: "s = b # bs" using 1(3) by (cases s) auto
    obtain w where w: "w \<le> 3" "w \<le> length bs" "valid_utf8 (drop w bs)"
        "\<forall>ys. valid_utf8 ys \<longrightarrow> valid_utf8 (b # take w bs @ ys)"
      using valid_rune 1(2) s by metis
    obtain k where k: "k \<le> n - Suc w" "n - Suc w \<le> k + 3" "valid_utf8 (take k (drop w bs))"
    proof -
      have "length (drop w bs) < length s" "n - Suc w \<le> length (drop w bs)" using s 1(3) w(2) by auto
      then show ?thesis using 1(1) [rule_format, of "drop w bs" "n - Suc w"] w(3) that by blast
    qed
    have "take (Suc w + k) s = b # take w bs @ take k (drop w bs)" by (simp add: s take_add)
    then have "valid_utf8 (take (Suc w + k) s)" using w(4) k(3) by metis
    then show ?thesis using k w(1) False by (intro exI [of _ "Suc w + k"]) auto
  qed
qed

lemma trimInvalid_prefix:
  "\<exists>k \<le> length s. trimInvalid s = take k s \<and> ValidString (take k s) \<and> (\<forall>j. k < j \<and> j \<le> length s \<longrightarrow> \<not> ValidString (take j s))"
proof (induction s rule: trimInvalid.induct)
  case (1 s)
  show ?case
  proof (cases "s \<noteq> [] \<and> \<not> ValidString s")
    case False
    then have "ValidString s" by (auto simp: ValidString_def)
    then show ?thesis using False by (intro exI [of _ "length s"]) (simp add: trimInvalid.simps [of s])
  next
    case True
    then obtain k where k: "k \<le> length (butlast s)" "trimInvalid (butlast s) = take k (butlast s)"
        "ValidString (take k (butlast s))"
        "\<forall>j. k < j \<and> j \<le> length (butlast s) \<longrightarrow> \<not> ValidString (take j (butlast s))"
      using 1 by blast
    have t: "j \<le> length (butlast s) \<Longrightarrow> take j (butlast s) = take j s" for j
      by (simp add: butlast_conv_take min_absorb1)
    have "\<not> ValidString (take j s)" if "k < j" "j \<le> length s" for j
    proof (cases "j = length s")
      case False
      then have "j \<le> length (butlast s)" using that by simp
      then show ?thesis using k(4) t [of j] that(1) by metis
    qed (use True in simp)
    moreover have "trimInvalid s = take k s" "ValidString (take k s)" "k \<le> length s"
      using k(1-3) t [OF k(1)] True by (simp_all add: trimInvalid.simps [of s])
    ultimately show ?thesis by blast
  qed
qed

lemma truncateUTF8_prefix:
  assumes "ValidString s"
  shows "\<exists>k. truncateUTF8 s n = take k s \<and> ValidString (take k s) \<and> length (take k s) \<le> n \<and>
    (n < length s \<longrightarrow> n \<le> length (take k s) + 3)"
proof (cases "length s \<le> n")
  case True
  then show ?thesis using assms by (intro exI [of _ "length s"]) (simp add: truncateUTF8_def)
next
  case False
  obtain k where k: "k \<le> length (take n s)" "trimInvalid (take n s) = take k (take n s)"
      "ValidString (take k (take n s))"
      "\<forall>j. k < j \<and> j \<le> length (take n s) \<longrightarrow> \<not> ValidString (take j (take n s))"
    using trimInvalid_prefix by blast
  obtain m where m: "m \<le> n" "n \<le> m + 3" "ValidString (take m s)"
    using valid_prefix [of "map of_char s" n] assms False by (auto simp: ValidString_def take_map)
  have t: "take j (take n s) = take j s" if "j \<le> n" for j using that by (simp add: min_absorb1)
  have n: "length (take n s) = n" using False by simp
  have "m \<le> k"
  proof (rule ccontr)
    assume "\<not> m \<le> k"
    then have "\<not> ValidString (take m (take n s))" using k(4) m(1) n by simp
    then show False using m(1,3) t by simp
  qed
  then show ?thesis
    using k m False n t [of k] by (intro exI [of _ k]) (simp add: truncateUTF8_def)
qed

section \<open>The two sides agree\<close>

lemma recvControl_Ok:
  "recvControl rx state want = Ok msg \<longleftrightarrow> rx = Ok msg \<and> KindOf msg = Some want \<and> Legal state want"
  by (auto simp: recvControl_def outcome_simps checkKind_Ok)

lemma Legal_handshake [simp]: "Legal StateHandshaking KindHello" "Legal StateHandshaking KindHelloAck"
  by (simp_all add: Legal_def)

lemma recv_own [simp]:
  "recvControl (Ok (controlMsg (BHello h))) StateHandshaking KindHello = Ok (controlMsg (BHello h))"
  "recvControl (Ok (controlMsg (BHelloAck a))) StateHandshaking KindHelloAck = Ok (controlMsg (BHelloAck a))"
  by (simp_all add: recvControl_Ok) (simp_all add: controlMsg_def)

lemma get_own [simp]:
  "GetHello (controlMsg (BHello h)) = h" "GetHelloAck (controlMsg (BHelloAck a)) = a"
  by (simp_all add: controlMsg_def GetHello_def GetHelloAck_def)

lemma ack_nonce [simp]:
  "a_nonce (TupleToHelloAck t nonce identity svs o') = nonce"
  "a_nonce (IncompatibleToHelloAck o' svs reason nonce) = nonce"
  by (simp_all add: TupleToHelloAck_def IncompatibleToHelloAck_def Let_def)

text \<open>A success ack never looks like a rejection, and a rejection of a well-formed reason never like a success.\<close>

lemma success_not_rejected [simp]: "HelloAckIncompatible (TupleToHelloAck t nonce identity svs o') = None"
  by (simp add: HelloAckIncompatible_def TupleToHelloAck_def zeroHelloAck_def)

lemma rejection_seen:
  assumes "ValidString reason" "reason \<noteq> []"
  shows "\<exists>k. HelloAckIncompatible (IncompatibleToHelloAck o' svs reason nonce) =
      Some (take k reason, o'\<lparr>Services := Services o' @
         map (\<lambda>s. \<lparr>Service = svService s, MinVersion = svVersion s, MaxVersion = svVersion s\<rparr>) svs\<rparr>) \<and>
    take k reason \<noteq> [] \<and> ValidString (take k reason) \<and> length (take k reason) \<le> MaxIncompatibleReasonBytes"
proof -
  obtain k where k: "truncateUTF8 reason 1024 = take k reason" "ValidString (take k reason)"
      "length (take k reason) \<le> 1024" "1024 < length reason \<longrightarrow> 1024 \<le> length (take k reason) + 3"
    using truncateUTF8_prefix [OF assms(1)] by blast
  have "take k reason \<noteq> []"
    using k(1,4) assms(2) by (cases "length reason \<le> 1024") (auto simp: truncateUTF8_def)
  then show ?thesis
    using k assms(2)
    by (intro exI [of _ k])
      (simp add: HelloAckIncompatible_def IncompatibleToHelloAck_def Let_def MaxIncompatibleReasonBytes_def
        GetPluginOffer_def servicesOnWire_def comp_def)
qed

lemma codec_is_proto: "compatible (hostOffer cfg) plugin svs t \<Longrightarrow> Codec t = codecProto"
  by (auto simp: compatible_def hostOffer_def split: prod.splits)

lemma hostHandshake_success_ack:
  assumes "Negotiate (hostOffer cfg) offer svs = Ok t" "distinct (map svService svs)"
  shows "hostHandshake cfg nonce None (Ok (controlMsg (BHelloAck (TupleToHelloAck t nonce identity svs offer)))) =
    (case validateMaxPayloadInterlock cfg t of Some r \<Rightarrow> Err (HsInterlock r) | None \<Rightarrow> Ok t)"
  using validate_own_ack [OF assms] codec_is_proto [OF Negotiate_compatible [OF assms(1)]]
  by (simp add: hostHandshake_def VerifyNonce_def Let_def)

section \<open>Properties\<close>

text \<open>C13: \<open>Negotiate\<close> returns exactly the compatible tuple: what it returns is compatible with both offers and the
  advertised services, it fails exactly when no tuple is, it never panics, and two compatible tuples differ at most
  in the order their features are stored in.\<close>

theorem negotiate_exact:
  "(\<forall>t. Negotiate host plugin svs = Ok t \<longrightarrow> compatible host plugin svs t) \<and>
   ((\<exists>e. Negotiate host plugin svs = Err e) \<longleftrightarrow> (\<nexists>t. compatible host plugin svs t)) \<and>
   Negotiate host plugin svs \<noteq> Panic \<and>
   (\<forall>t u. compatible host plugin svs t \<and> compatible host plugin svs u \<longrightarrow> tupleEqual t u)"
proof (intro conjI allI impI)
  show "(\<exists>e. Negotiate host plugin svs = Err e) \<longleftrightarrow> (\<nexists>t. compatible host plugin svs t)"
    using Negotiate_complete [of host plugin svs] Negotiate_no_Panic [of host plugin svs]
      Negotiate_compatible [of host plugin svs]
    by (cases "Negotiate host plugin svs") auto
qed (use Negotiate_compatible Negotiate_no_Panic tupleEqual_compatible in blast)+

definition sample_host :: HostConfig where
  "sample_host = \<lparr>cfg_Services = [\<lparr>Service = ''echo'', MinVersion = 1, MaxVersion = 3\<rparr>], cfg_RequireStreaming = True,
     cfg_BurstMaxPayload = 0, cfg_ChunkMaxPayload = 65536, cfg_MaxPayload = 0, cfg_Transport = ''auto'',
     cfg_ShmLayout = sample_layout\<rparr>"

definition sample_services :: "ServiceVersion list" where
  "sample_services = [\<lparr>svService = ''echo'', svVersion = 2\<rparr>]"

lemma sample_negotiation:
  "case Negotiate (hostOffer sample_host) (pluginBaseOffer defaultPluginTransports False) sample_services of
     Ok t \<Rightarrow> Transport t = ''shm'' \<and> feature t ''stream-chunking'' \<and> \<not> feature t ''burst''
   | _ \<Rightarrow> False"
  by code_simp

theorem negotiate_exact_witness:
  "(\<exists>t. Negotiate (hostOffer sample_host) (pluginBaseOffer defaultPluginTransports False) sample_services = Ok t \<and>
      compatible (hostOffer sample_host) (pluginBaseOffer defaultPluginTransports False) sample_services t) \<and>
   (\<nexists>t. compatible (hostOffer sample_host) (pluginBaseOffer defaultPluginTransports False) [] t)"
proof
  let ?h = "hostOffer sample_host" let ?p = "pluginBaseOffer defaultPluginTransports False"
  obtain t where "Negotiate ?h ?p sample_services = Ok t"
    using sample_negotiation by (auto split: outcome.splits)
  then show "\<exists>t. Negotiate ?h ?p sample_services = Ok t \<and> compatible ?h ?p sample_services t"
    using negotiate_exact [of ?h ?p sample_services] by blast
  have "case Negotiate ?h ?p [] of Err _ \<Rightarrow> True | _ \<Rightarrow> False" by code_simp
  then show "\<nexists>t. compatible ?h ?p [] t"
    using negotiate_exact [of ?h ?p "[]"] by (auto split: outcome.splits)
qed



text \<open>C12: the host never attaches on the plugin's word. Whatever it receives in answer to its Hello, it goes on only with
  an acknowledgement that echoes its nonce, carries no refusal, advertises no service twice, and names on every axis the
  tuple the host computes itself from its own offer and the offer echoed in the acknowledgement; the codec is the one
  it speaks and a configured payload guarantee holds over the tuple.\<close>

theorem untrusted_ack_checked:
  assumes "hostHandshake cfg nonce sent rx = Ok t"
  shows "sent = None \<and> (\<exists>msg ack. rx = Ok msg \<and> body msg = Some (BHelloAck ack) \<and> a_nonce ack = nonce \<and>
    a_incompatible_reason ack = [] \<and> distinct (map sv_service (a_services ack)) \<and>
    compatible (hostOffer cfg) (HelloToOffer (GetPluginOffer ack)) (serviceVersionsFromAck ack) t \<and>
    tupleEqual t (HelloAckToTuple ack) \<and> Codec t = codecProto \<and> validateMaxPayloadInterlock cfg t = None)"
proof -
  have s: "sent = None" using assms by (auto simp: hostHandshake_def split: option.splits)
  obtain msg where msg: "recvControl rx StateHandshaking KindHelloAck = Ok msg"
    using assms s by (auto simp: hostHandshake_def split: outcome.splits)
  then obtain ack where ack: "rx = Ok msg" "body msg = Some (BHelloAck ack)" by (auto simp: recvControl_Ok)
  then have get: "GetHelloAck msg = ack" by (simp add: GetHelloAck_def)
  have n: "a_nonce ack = nonce" "HelloAckIncompatible ack = None"
      "ValidateAcknowledgedTuple (hostOffer cfg) ack = Ok t" "Codec t = codecProto"
      "validateMaxPayloadInterlock cfg t = None"
    using assms s msg get
    by (auto simp: hostHandshake_def VerifyNonce_def Let_def split: if_splits option.splits outcome.splits)
  have "distinct (map sv_service (a_services ack))" "tupleEqual t (HelloAckToTuple ack)"
      "compatible (hostOffer cfg) (HelloToOffer (GetPluginOffer ack)) (serviceVersionsFromAck ack) t"
    using n(3) Negotiate_compatible by (auto simp: ValidateAcknowledgedTuple_Ok serviceVersionsFromAck_def comp_def)
  moreover have "a_incompatible_reason ack = []" using n(2) by (simp add: HelloAckIncompatible_def Let_def split: if_splits)
  ultimately show ?thesis using s ack n by blast
qed

theorem untrusted_ack_checked_witness:
  "\<exists>ack t. hostHandshake sample_host 77 None (Ok (controlMsg (BHelloAck ack))) = Ok t \<and> a_nonce ack = 77 \<and>
     distinct (map sv_service (a_services ack))"
proof -
  obtain t where t: "Negotiate (hostOffer sample_host) (pluginBaseOffer defaultPluginTransports False) sample_services = Ok t"
    using sample_negotiation by (auto split: outcome.splits)
  have "validateMaxPayloadInterlock sample_host t = None"
    by (simp add: validateMaxPayloadInterlock_def sample_host_def)
  then have h: "hostHandshake sample_host 77 None (Ok (controlMsg (BHelloAck (TupleToHelloAck t 77
      \<lparr>idName = [], idSemVer = [], idBinarySHA256 = []\<rparr> sample_services (pluginBaseOffer defaultPluginTransports False))))) = Ok t"
    using hostHandshake_success_ack [OF t] by (simp add: sample_services_def)
  from untrusted_ack_checked [OF h] h show ?thesis by (auto simp: controlMsg_def)
qed

end
