(* ===== verification/Control_Conn.thy ===== *)
theory Control_Conn
  imports Control_Messages
begin

text \<open>
  The control connection (\<^verbatim>\<open>internal/control/conn.go\<close>, \<^verbatim>\<open>internal/control/fds.go\<close>): one message per datagram of a
  SEQPACKET socket, with a size limit, deadlines kept across interrupted system calls, and descriptors passed beside a
  message. Arguments stand for what is not the program's: \<open>marshal\<close> and \<open>unmarshal\<close> for the protobuf library, the results
  of each system call, the parsed ancillary data, and at each look at the context its error, the clock and the result of
  \<^verbatim>\<open>setsockopt\<close>. The descriptors the process closes are logged.
\<close>

section \<open>State\<close>

definition MaxMessageSize :: nat where "MaxMessageSize = 4096"

record concurrencyProbe =
  p_inFlight :: int
  p_overlapped :: bool

record Conn =
  c_generation :: u64
  c_corrID :: u64
  sendProbe :: concurrencyProbe
  recvProbe :: concurrencyProbe

definition enter :: "concurrencyProbe \<Rightarrow> concurrencyProbe" where
  "enter p = (let n = p_inFlight p + 1 in p\<lparr>p_inFlight := n, p_overlapped := p_overlapped p \<or> n > 1\<rparr>)"

definition leave :: "concurrencyProbe \<Rightarrow> concurrencyProbe" where
  "leave p = p\<lparr>p_inFlight := p_inFlight p - 1\<rparr>"

definition NewConn :: "u64 \<Rightarrow> Conn" where
  "NewConn g = \<lparr>c_generation = g, c_corrID = 0, sendProbe = \<lparr>p_inFlight = 0, p_overlapped = False\<rparr>,
     recvProbe = \<lparr>p_inFlight = 0, p_overlapped = False\<rparr>\<rparr>"

definition NextCorrelationID :: "Conn \<Rightarrow> Conn \<times> u64" where
  "NextCorrelationID c = (c\<lparr>c_corrID := c_corrID c + 1\<rparr>, c_corrID c + 1)"

section \<open>Deadlines\<close>

text \<open>One look at the context: its error if it has ended, the clock in nanoseconds, and what \<^verbatim>\<open>setsockopt\<close> returned.\<close>

record instant =
  i_err :: "cerr option"
  i_now :: int
  i_sockopt :: "cerr option"

text \<open>A socket timeout that was armed: when, and for how long (\<open>None\<close> for ever).\<close>

type_synonym armed_log = "(int \<times> int option) list"

definition setSocketTimeout :: "int option \<Rightarrow> instant \<Rightarrow> armed_log \<Rightarrow> armed_log \<times> cerr option" where
  "setSocketTimeout deadline i log =
     (case deadline of
        Some d \<Rightarrow>
          let remaining = d - i_now i in
          if remaining \<le> 0 then (log, Some {CtlDeadlineExceeded})
          else (log @ [(i_now i, Some remaining)], i_sockopt i)
      | None \<Rightarrow> (log @ [(i_now i, None)], i_sockopt i))"

text \<open>\<^verbatim>\<open>rearmRecv\<close> and \<^verbatim>\<open>rearmSend\<close> differ only in the socket option they set.\<close>

definition rearm :: "int option \<Rightarrow> instant \<Rightarrow> armed_log \<Rightarrow> armed_log \<times> cerr option" where
  "rearm deadline i log = (case i_err i of Some e \<Rightarrow> (log, Some e) | None \<Rightarrow> setSocketTimeout deadline i log)"

text \<open>One system call: interrupted by a signal, with the look at the context that follows, or returning.\<close>

datatype 'r attempt = Interrupted instant | Returned 'r

fun msgRetry :: "int option \<Rightarrow> 'r attempt list \<Rightarrow> armed_log \<Rightarrow> armed_log \<times> (cerr, 'r) outcome option" where
  "msgRetry deadline [] log = (log, None)"
| "msgRetry deadline (Returned r # as) log = (log, Some (Ok r))"
| "msgRetry deadline (Interrupted i # as) log =
     (case rearm deadline i log of
        (log', Some e) \<Rightarrow> (log', Some (Err e))
      | (log', None) \<Rightarrow> msgRetry deadline as log')"

definition EAGAIN :: int where "EAGAIN = 11"

definition isTimeoutErrno :: "cerr \<Rightarrow> bool" where
  "isTimeoutErrno e \<longleftrightarrow> Errno EAGAIN \<in> e"

text \<open>An error of the system call or of the rearming is wrapped the same way.\<close>

definition wrapSyscallErr :: "int option \<Rightarrow> cerr \<Rightarrow> cerr" where
  "wrapSyscallErr deadline e = (if deadline \<noteq> None \<and> isTimeoutErrno e then insert CtlDeadlineExceeded e else e)"

section \<open>Sending\<close>

type_synonym 'd marshaler = "ControlMessage \<Rightarrow> (cerr, 'd) outcome"

definition stampGeneration :: "Conn \<Rightarrow> ControlMessage \<Rightarrow> ControlMessage" where
  "stampGeneration c msg = (if generation msg = 0 then msg\<lparr>generation := c_generation c\<rparr> else msg)"

text \<open>
  What a send hands to \<^verbatim>\<open>sendmsg\<close>: the datagram and the descriptors. \<open>None\<close> as outcome is a call that is still blocked
  when the schedule of attempts ends. \<open>sendmsg\<close>'s own result is an error or none.
\<close>

record send_env =
  s_deadline :: "int option"
  s_first :: instant
  s_attempts :: "cerr option attempt list"

definition sendFDsUnchecked ::
  "(ControlMessage \<Rightarrow> (cerr, byte list) outcome) \<Rightarrow> send_env \<Rightarrow> ControlMessage \<Rightarrow> int list \<Rightarrow> Conn
     \<Rightarrow> Conn \<times> (byte list \<times> int list) option \<times> (cerr, unit) outcome option" where
  "sendFDsUnchecked marshal env msg fds c =
     (let c = c\<lparr>sendProbe := enter (sendProbe c)\<rparr>;
          result =
            (case i_err (s_first env) of
               Some e \<Rightarrow> (None, Some (Err e))
             | None \<Rightarrow>
                (case marshal (stampGeneration c msg) of
                   Err e \<Rightarrow> (None, Some (Err (insert CtlMarshal e)))
                 | Panic \<Rightarrow> (None, Some Panic)
                 | Ok data \<Rightarrow>
                     if length data \<ge> MaxMessageSize then (None, Some (Err {ErrProtocolViolation}))
                     else case setSocketTimeout (s_deadline env) (s_first env) [] of
                       (log, Some e) \<Rightarrow> (None, Some (Err e))
                     | (log, None) \<Rightarrow>
                        (case msgRetry (s_deadline env) (s_attempts env) log of
                           (_, None) \<Rightarrow> (None, None)
                         | (_, Some Panic) \<Rightarrow> (None, Some Panic)
                         | (_, Some (Err e)) \<Rightarrow> (None, Some (Err (wrapSyscallErr (s_deadline env) e)))
                         | (_, Some (Ok (Some e))) \<Rightarrow> (None, Some (Err (wrapSyscallErr (s_deadline env) e)))
                         | (_, Some (Ok None)) \<Rightarrow> (Some (data, fds), Some (Ok ())))))
      in (c\<lparr>sendProbe := (if snd result = None then sendProbe c else leave (sendProbe c))\<rparr>, result))"

definition Send ::
  "(ControlMessage \<Rightarrow> (cerr, byte list) outcome) \<Rightarrow> send_env \<Rightarrow> ControlMessage \<Rightarrow> Conn
     \<Rightarrow> Conn \<times> (byte list \<times> int list) option \<times> (cerr, unit) outcome option" where
  "Send marshal env msg c = sendFDsUnchecked marshal env msg [] c"

definition recvDeclaredFDCount :: "ControlMessage \<Rightarrow> u32 option" where
  "recvDeclaredFDCount msg =
     (case body msg of
        Some (BAttachRegion a) \<Rightarrow> Some (ar_fd_count a)
      | Some (BSaveState s) \<Rightarrow> Some (sm_snapshot_fd_count s)
      | Some (BRestore s) \<Rightarrow> Some (sm_snapshot_fd_count s)
      | _ \<Rightarrow> None)"

definition SendFDs ::
  "(ControlMessage \<Rightarrow> (cerr, byte list) outcome) \<Rightarrow> send_env \<Rightarrow> ControlMessage \<Rightarrow> int list \<Rightarrow> Conn
     \<Rightarrow> Conn \<times> (byte list \<times> int list) option \<times> (cerr, unit) outcome option" where
  "SendFDs marshal env msg fds c =
     (case recvDeclaredFDCount msg of
        None \<Rightarrow> (c, None, Some Panic)
      | Some declared \<Rightarrow>
          if declared \<noteq> of_nat (length fds) then (c, None, Some (Err {ErrProtocolViolation}))
          else sendFDsUnchecked marshal env msg fds c)"

section \<open>Receiving\<close>

text \<open>
  What \<^verbatim>\<open>recvmsg\<close> returned: an error, or the bytes it copied, the ancillary messages and whether it reported either
  truncation flag. An ancillary message carries descriptors or is one \<^verbatim>\<open>unix.ParseUnixRights\<close> refuses; ancillary data that
  \<^verbatim>\<open>unix.ParseSocketControlMessage\<close> refuses is \<open>None\<close>.
\<close>

datatype cmsg = Rights "int list" | NotRights

record datagram =
  d_bytes :: "byte list"
  d_oob :: "cmsg list option"
  d_truncated :: bool

record recv_env =
  r_deadline :: "int option"
  r_first :: instant
  r_attempts :: "(cerr, datagram) outcome attempt list"

text \<open>The common part of \<^verbatim>\<open>Recv\<close> and \<^verbatim>\<open>RecvFDs\<close> up to the datagram.\<close>

definition recvDatagram :: "recv_env \<Rightarrow> (cerr, datagram) outcome option" where
  "recvDatagram env =
     (case i_err (r_first env) of
        Some e \<Rightarrow> Some (Err e)
      | None \<Rightarrow>
         (case setSocketTimeout (r_deadline env) (r_first env) [] of
            (log, Some e) \<Rightarrow> Some (Err e)
          | (log, None) \<Rightarrow>
             (case msgRetry (r_deadline env) (r_attempts env) log of
                (_, None) \<Rightarrow> None
              | (_, Some Panic) \<Rightarrow> Some Panic
              | (_, Some (Err e)) \<Rightarrow> Some (Err (wrapSyscallErr (r_deadline env) e))
              | (_, Some (Ok (Err e))) \<Rightarrow> Some (Err (wrapSyscallErr (r_deadline env) e))
              | (_, Some (Ok Panic)) \<Rightarrow> Some Panic
              | (_, Some (Ok (Ok d))) \<Rightarrow> Some (Ok d))))"

definition underRecvProbe :: "Conn \<Rightarrow> 'a option \<Rightarrow> Conn" where
  "underRecvProbe c r =
     (let c = c\<lparr>recvProbe := enter (recvProbe c)\<rparr> in
      c\<lparr>recvProbe := (if r = None then recvProbe c else leave (recvProbe c))\<rparr>)"

definition Recv ::
  "(byte list \<Rightarrow> (cerr, ControlMessage) outcome) \<Rightarrow> recv_env \<Rightarrow> Conn \<Rightarrow> Conn \<times> (cerr, ControlMessage) outcome option" where
  "Recv unmarshal env c =
     (let r = map_option (\<lambda>d. andThen d (\<lambda>d.
          if d_truncated d then Err {ErrProtocolViolation}
          else (case unmarshal (d_bytes d) of
                  Err e \<Rightarrow> Err (insert CtlUnmarshal e) | Panic \<Rightarrow> Panic | Ok msg \<Rightarrow> Ok msg))) (recvDatagram env)
      in (underRecvProbe c r, r))"

text \<open>\<open>closeAll\<close> logs the descriptors it closes; \<open>parseRights\<close> closes those of earlier entries when an entry is refused.\<close>

definition closeAll :: "int list \<Rightarrow> int list \<Rightarrow> int list" where
  "closeAll fds closed = closed @ fds"

fun parseEntries :: "cmsg list \<Rightarrow> int list \<Rightarrow> int list \<Rightarrow> int list \<times> (cerr, int list) outcome" where
  "parseEntries [] fds closed = (closed, Ok fds)"
| "parseEntries (NotRights # cs) fds closed = (closeAll fds closed, Err {CtlOther})"
| "parseEntries (Rights rs # cs) fds closed = parseEntries cs (fds @ rs) closed"

definition parseRights :: "cmsg list option \<Rightarrow> int list \<Rightarrow> int list \<times> (cerr, int list) outcome" where
  "parseRights oob closed =
     (case oob of
        Some [] \<Rightarrow> (closed, Ok [])
      | None \<Rightarrow> (closed, Err {CtlOther})
      | Some cs \<Rightarrow> parseEntries cs [] closed)"

definition acceptFDs ::
  "(byte list \<Rightarrow> (cerr, ControlMessage) outcome) \<Rightarrow> datagram \<Rightarrow> int list
     \<Rightarrow> int list \<times> (cerr, ControlMessage \<times> int list) outcome" where
  "acceptFDs unmarshal d closed =
     (case parseRights (d_oob d) closed of
        (closed, Panic) \<Rightarrow> (closed, Panic)
      | (closed, Err e) \<Rightarrow> (closeAll [] closed, Err (insert ErrProtocolViolation e))
      | (closed, Ok fds) \<Rightarrow>
          if d_truncated d then (closeAll fds closed, Err {ErrProtocolViolation})
          else case unmarshal (d_bytes d) of
            Panic \<Rightarrow> (closed, Panic)
          | Err e \<Rightarrow> (closeAll fds closed, Err (insert CtlUnmarshal e))
          | Ok msg \<Rightarrow>
             (case recvDeclaredFDCount msg of
                None \<Rightarrow> (closeAll fds closed, Err {ErrProtocolViolation})
              | Some declared \<Rightarrow>
                  if declared \<noteq> of_nat (length fds) then (closeAll fds closed, Err {ErrProtocolViolation})
                  else (closed, Ok (msg, fds))))"

definition RecvFDs ::
  "(byte list \<Rightarrow> (cerr, ControlMessage) outcome) \<Rightarrow> recv_env \<Rightarrow> Conn \<Rightarrow> int list
     \<Rightarrow> Conn \<times> int list \<times> (cerr, ControlMessage \<times> int list) outcome option" where
  "RecvFDs unmarshal env c closed =
     (case recvDatagram env of
        None \<Rightarrow> (underRecvProbe c (None :: unit option), closed, None)
      | Some (Err e) \<Rightarrow> (underRecvProbe c (Some ()), closed, Some (Err e))
      | Some Panic \<Rightarrow> (underRecvProbe c (Some ()), closed, Some Panic)
      | Some (Ok d) \<Rightarrow>
         (case acceptFDs unmarshal d closed of (closed, r) \<Rightarrow> (underRecvProbe c (Some ()), closed, Some r)))"

section \<open>Deadlines hold across interrupted calls\<close>

text \<open>Every timeout armed under a deadline expires at that deadline, whenever it was armed.\<close>

definition expires_at :: "int \<Rightarrow> armed_log \<Rightarrow> bool" where
  "expires_at d log = list_all (\<lambda>(at, tv). case tv of Some remaining \<Rightarrow> 0 < remaining \<and> at + remaining = d | None \<Rightarrow> False) log"

lemma setSocketTimeout_expires:
  "expires_at d log \<Longrightarrow> setSocketTimeout (Some d) i log = (log', r) \<Longrightarrow> expires_at d log'"
  by (auto simp: setSocketTimeout_def expires_at_def Let_def split: if_splits)

lemma rearm_expires: "expires_at d log \<Longrightarrow> rearm (Some d) i log = (log', r) \<Longrightarrow> expires_at d log'"
  by (auto simp: rearm_def split: option.splits intro: setSocketTimeout_expires)

lemma msgRetry_expires:
  "expires_at d log \<Longrightarrow> msgRetry (Some d) as log = (log', r) \<Longrightarrow> expires_at d log'"
proof (induction as arbitrary: log)
  case (Cons a as)
  show ?case
  proof (cases a)
    case (Interrupted i)
    obtain l e where re: "rearm (Some d) i log = (l, e)" by (cases "rearm (Some d) i log")
    then show ?thesis
      using Cons rearm_expires [OF Cons.prems(1) re] Interrupted by (auto split: option.splits)
  qed (use Cons in auto)
qed simp

lemma msgRetry_stops:
  "\<exists>i \<in> set is. d \<le> i_now i \<Longrightarrow> \<exists>log' e. msgRetry (Some d) (map Interrupted is @ as) log = (log', Some (Err e))"
proof (induction "is" arbitrary: log)
  case (Cons i "is")
  show ?case
  proof (cases "rearm (Some d) i log")
    case (Pair l e)
    show ?thesis
    proof (cases e)
      case None
      then have "\<not> d \<le> i_now i" using Pair by (auto simp: rearm_def setSocketTimeout_def Let_def split: option.splits if_splits)
      then show ?thesis using Cons Pair None by simp
    qed (use Pair in simp)
  qed
qed simp

section \<open>Where received descriptors go\<close>

lemma parseEntries_rights: "parseEntries (map Rights fdss) fds closed = (closed, Ok (fds @ concat fdss))"
  by (induction fdss arbitrary: fds) auto

lemma parseRights_rights: "parseRights (Some (map Rights fdss)) closed = (closed, Ok (concat fdss))"
  using parseEntries_rights [of fdss "[]" closed] by (cases fdss) (auto simp: parseRights_def)

lemma acceptFDs_ledger:
  assumes "d_oob d = Some (map Rights fdss)" "\<forall>b. unmarshal b \<noteq> Panic"
  shows "\<exists>closed' r. acceptFDs unmarshal d closed = (closed @ closed', r) \<and>
    (case r of
       Ok (msg, fds) \<Rightarrow> fds = concat fdss \<and> closed' = [] \<and> recvDeclaredFDCount msg = Some (of_nat (length fds))
     | Err e \<Rightarrow> closed' = concat fdss
     | Panic \<Rightarrow> False)"
proof -
  have p: "parseRights (d_oob d) closed = (closed, Ok (concat fdss))" by (simp add: assms(1) parseRights_rights)
  show ?thesis
  proof (cases "unmarshal (d_bytes d)")
    case (Ok msg)
    then show ?thesis
      by (cases "recvDeclaredFDCount msg = Some (of_nat (length (concat fdss))) \<and> \<not> d_truncated d")
        (auto simp: acceptFDs_def p closeAll_def split: option.splits intro!: exI [of _ "[]"])
  qed (use assms(2) in \<open>auto simp: acceptFDs_def p closeAll_def\<close>)
qed

section \<open>What the kernel delivers\<close>

text \<open>
  A datagram is delivered whole into a buffer of \<^term>\<open>MaxMessageSize + 1\<close> bytes with its descriptors beside it, or reported
  as truncated.
\<close>

definition deliver :: "nat \<Rightarrow> byte list \<Rightarrow> int list \<Rightarrow> datagram" where
  "deliver maxFDs data fds =
     \<lparr>d_bytes = take (MaxMessageSize + 1) data,
      d_oob = Some (if fds = [] then [] else [Rights (take maxFDs fds)]),
      d_truncated = (length data > MaxMessageSize + 1 \<or> length fds > maxFDs)\<rparr>"

lemma sent_within_limit:
  assumes "sendFDsUnchecked marshal env msg fds c = (c', Some (data, fds'), r)"
  shows "length data < MaxMessageSize \<and> fds' = fds \<and> marshal (stampGeneration c msg) = Ok data \<and> r = Some (Ok ())"
proof -
  have "stampGeneration (c\<lparr>sendProbe := p\<rparr>) msg = stampGeneration c msg" for p by (simp add: stampGeneration_def)
  then show ?thesis
    using assms by (auto simp: sendFDsUnchecked_def Let_def split: option.splits outcome.splits prod.splits if_splits)
qed

lemma declared_stamp [simp]: "recvDeclaredFDCount (stampGeneration c msg) = recvDeclaredFDCount msg"
  by (simp add: recvDeclaredFDCount_def stampGeneration_def)

lemma delivered_intact:
  assumes "length data < MaxMessageSize" "length fds \<le> maxFDs"
  shows "deliver maxFDs data fds =
    \<lparr>d_bytes = data, d_oob = Some (map Rights (if fds = [] then [] else [fds])), d_truncated = False\<rparr>"
  using assms by (simp add: deliver_def)

section \<open>Properties\<close>


definition sample_instant :: instant where
  "sample_instant = \<lparr>i_err = None, i_now = 0, i_sockopt = None\<rparr>"

definition sample_restore :: ControlMessage where
  "sample_restore = \<lparr>correlation_id = 0, generation = 0,
     body = Some (BRestore \<lparr>sm_snapshot_fd_count = 1, sm_declared_length = 8, sm_format_version = 1\<rparr>)\<rparr>"

definition receiving_two :: recv_env where
  "receiving_two = \<lparr>r_deadline = Some 10, r_first = sample_instant,
     r_attempts = [Interrupted (sample_instant\<lparr>i_now := 4\<rparr>),
       Returned (Ok \<lparr>d_bytes = [1], d_oob = Some [Rights [5, 6]], d_truncated = False\<rparr>)]\<rparr>"


text \<open>what \<open>SendFDs\<close> has sent arrives. When it reports success, a receiver that allows that many descriptors gets
  the message as it was stamped and exactly the descriptors sent, and closes none: a message under the sender's size
  limit is never refused as too large, and the count check passes.\<close>

theorem send_recv_fds_roundtrip:
  assumes "SendFDs marshal env msg fds c = (c', Some (data, sent), r)"
    "\<forall>m b. marshal m = Ok b \<longrightarrow> unmarshal b = Ok m" "length fds \<le> maxFDs"
    "recvDatagram env' = Some (Ok (deliver maxFDs data sent))"
  shows "r = Some (Ok ()) \<and>
    (\<exists>k'. RecvFDs unmarshal env' k closed = (k', closed, Some (Ok (stampGeneration c msg, fds))))"
proof -
  obtain n where n: "recvDeclaredFDCount msg = Some n" "n = of_nat (length fds)"
      "sendFDsUnchecked marshal env msg fds c = (c', Some (data, sent), r)"
    using assms(1) by (auto simp: SendFDs_def split: option.splits if_splits)
  note s = sent_within_limit [OF n(3)]
  have "acceptFDs unmarshal (deliver maxFDs data fds) closed = (closed, Ok (stampGeneration c msg, fds))"
    using s n(1,2) assms(2,3) parseRights_rights [of "if fds = [] then [] else [fds]"]
    by (auto simp: delivered_intact acceptFDs_def)
  then show ?thesis using s assms(4) by (simp add: RecvFDs_def)
qed

definition sample_send :: send_env where
  "sample_send = \<lparr>s_deadline = Some 10, s_first = sample_instant, s_attempts = [Returned None]\<rparr>"

theorem send_recv_fds_roundtrip_witness:
  "\<exists>k'. RecvFDs (\<lambda>_. Ok (sample_restore\<lparr>generation := 3\<rparr>))
     \<lparr>r_deadline = None, r_first = sample_instant, r_attempts = [Returned (Ok (deliver 1 [7] [5]))]\<rparr> (NewConn 3) [] =
     (k', [], Some (Ok (sample_restore\<lparr>generation := 3\<rparr>, [5])))"
proof -
  let ?m = "\<lambda>m. if m = sample_restore\<lparr>generation := 3\<rparr> then Ok [7] else Err {CtlOther}"
  have "SendFDs ?m sample_send sample_restore [5] (NewConn 3) = (NewConn 3, Some ([7], [5]), Some (Ok ()))"
    by (simp add: SendFDs_def sendFDsUnchecked_def sample_send_def sample_instant_def sample_restore_def
        recvDeclaredFDCount_def stampGeneration_def NewConn_def setSocketTimeout_def MaxMessageSize_def enter_def leave_def)
  from send_recv_fds_roundtrip [OF this, where unmarshal = "\<lambda>_. Ok (sample_restore\<lparr>generation := 3\<rparr>)" and maxFDs = 1
      and env' = "\<lparr>r_deadline = None, r_first = sample_instant, r_attempts = [Returned (Ok (deliver 1 [7] [5]))]\<rparr>"]
  show ?thesis
    by (simp add: recvDatagram_def sample_instant_def setSocketTimeout_def stampGeneration_def sample_restore_def NewConn_def
        split: if_splits)
qed



text \<open>
  A refused entry of the ancillary data leaves the descriptors of the entries after it open: \<open>parseRights\<close> closes those
  of the entries before it only, and its caller has no others to close.
\<close>

theorem entries_after_refused_stay_open:
  "acceptFDs unmarshal \<lparr>d_bytes = bs, d_oob = Some [Rights [5], NotRights, Rights [6]], d_truncated = False\<rparr> [] =
     ([5], Err {ErrProtocolViolation, CtlOther})"
  by (simp add: acceptFDs_def parseRights_def closeAll_def)

end
