(* ===== verification/Snapshot.thy ===== *)
theory Snapshot
  imports Control_Messages
begin

text \<open>
  The hot-reload snapshot (\<^verbatim>\<open>internal/shm/snapshot.go\<close>): a memory file that is written, sealed and handed over, and
  the receiver's check of everything it must not take on trust. The memory file is the kernel's state of it: its seals,
  its size and its bytes. The results of the system calls are arguments, and so is \<^verbatim>\<open>crypto/sha256\<close>.
\<close>

datatype life_sentinel =
    ErrUnsealedSnapshot | ErrSnapshotLengthMismatch | ErrSnapshotTooLarge
  | ErrSnapshotRejected | ErrReloadCrashEquivalent | errDrainNotCommitted | ErrNoRestorerForState
  | ErrJoinTimeout | Ctl control_sentinel | LifeOther

type_synonym lerr = "life_sentinel set"

definition ctl :: "cerr \<Rightarrow> lerr" where
  "ctl e = Ctl ` e"

definition SnapshotFormatVersion :: u32 where "SnapshotFormatVersion = 1"
definition MaxSnapshotBytes :: u64 where "MaxSnapshotBytes = 1073741824"

text \<open>\<open>F_SEAL_WRITE | F_SEAL_GROW | F_SEAL_SHRINK | F_SEAL_SEAL\<close> with Linux's values 8, 4, 2 and 1.\<close>

definition snapshotSeals :: u32 where "snapshotSeals = 8 OR 4 OR 2 OR 1"

record memfd =
  mf_seals :: u32
  mf_size :: int
  mf_data :: "byte list"

section \<open>Building\<close>

record build_env =
  b_memfd :: "lerr option"
  b_truncate :: "lerr option"
  b_mmap :: "lerr option"
  b_munmap :: "lerr option"
  b_seal :: "lerr option"

text \<open>The result, and how many descriptors were created and closed.\<close>

definition BuildSnapshot ::
  "(byte list \<Rightarrow> byte list) \<Rightarrow> build_env \<Rightarrow> byte list \<Rightarrow> u64
     \<Rightarrow> nat \<times> nat \<times> (lerr, memfd \<times> u64 \<times> byte list) outcome" where
  "BuildSnapshot sha256 env payload maxLen =
     (let len = of_nat (length payload) :: u64 in
      if len > maxLen then (0, 0, Err {ErrSnapshotTooLarge})
      else case b_memfd env of
        Some e \<Rightarrow> (0, 0, Err e)
      | None \<Rightarrow>
         (case b_truncate env of
            Some e \<Rightarrow> (1, 1, Err e)
          | None \<Rightarrow>
             (case (if len > 0 then b_mmap env else None) of
                Some e \<Rightarrow> (1, 1, Err e)
              | None \<Rightarrow>
                 (case (if len > 0 then b_munmap env else None) of
                    Some e \<Rightarrow> (1, 1, Err e)
                  | None \<Rightarrow>
                     (case b_seal env of
                        Some e \<Rightarrow> (1, 1, Err e)
                      | None \<Rightarrow>
                          (1, 0, Ok (\<lparr>mf_seals = snapshotSeals, mf_size = uint len, mf_data = payload\<rparr>, len,
                             sha256 payload)))))))"

section \<open>Verifying\<close>

record verify_env =
  v_getseals :: "lerr option"
  v_fstat :: "lerr option"
  v_mmap :: "lerr option"

definition VerifySealedSnapshot ::
  "(byte list \<Rightarrow> byte list) \<Rightarrow> verify_env \<Rightarrow> memfd \<Rightarrow> u64 \<Rightarrow> (lerr, byte list \<times> byte list) outcome" where
  "VerifySealedSnapshot sha256 env f declaredLen =
     (case v_getseals env of
        Some e \<Rightarrow> Err e
      | None \<Rightarrow>
          if mf_seals f AND snapshotSeals \<noteq> snapshotSeals then Err {ErrUnsealedSnapshot}
          else case v_fstat env of
            Some e \<Rightarrow> Err e
          | None \<Rightarrow>
              if mf_size f < 0 then Err {ErrSnapshotLengthMismatch}
              else let actual = word_of_int (mf_size f) :: u64 in
                if actual \<noteq> declaredLen then Err {ErrSnapshotLengthMismatch}
                else if actual > MaxSnapshotBytes then Err {ErrSnapshotTooLarge}
                else if actual = 0 then Ok ([], sha256 [])
                else case v_mmap env of
                  Some e \<Rightarrow> Err e
                | None \<Rightarrow> Ok (mf_data f, sha256 (mf_data f)))"

text \<open>The kernel reports as size the number of bytes the file holds.\<close>

definition memfd_ok :: "memfd \<Rightarrow> bool" where
  "memfd_ok f \<longleftrightarrow> mf_size f = int (length (mf_data f)) \<and> length (mf_data f) < 2 ^ 63"

lemma VerifySealedSnapshot_Ok:
  assumes "VerifySealedSnapshot sha256 env f n = Ok (data, digest)" "memfd_ok f"
  shows "data = mf_data f \<and> digest = sha256 data \<and> n = of_nat (length data) \<and> length data \<le> 1073741824 \<and>
    mf_seals f AND snapshotSeals = snapshotSeals"
proof -
  have size: "mf_size f = int (length (mf_data f))" "length (mf_data f) < 2 ^ 63" using assms(2) by (auto simp: memfd_ok_def)
  have w: "(word_of_int (int k) :: u64) = of_nat k" for k by simp
  have u: "unat (of_nat (length (mf_data f)) :: u64) = length (mf_data f)"
    using size(2) by (simp add: unat_of_nat take_bit_nat_eq_self_iff)
  note d = assms(1)[unfolded VerifySealedSnapshot_def Let_def size(1) w]
  have seals: "mf_seals f AND snapshotSeals = snapshotSeals" and n: "n = of_nat (length (mf_data f))"
    and le: "\<not> (of_nat (length (mf_data f)) :: u64) > MaxSnapshotBytes"
    using d by (auto split: option.splits if_splits)
  have "length (mf_data f) \<le> 1073741824"
    using le u by (simp add: MaxSnapshotBytes_def word_less_nat_alt not_less)
  moreover have "data = mf_data f \<and> digest = sha256 data"
  proof (cases "(of_nat (length (mf_data f)) :: u64) = 0")
    case True
    then have "mf_data f = []" using u by simp
    then show ?thesis using d True by (auto split: option.splits if_splits)
  next
    case False
    then show ?thesis using d by (auto split: option.splits if_splits)
  qed
  ultimately show ?thesis using seals n by simp
qed

lemma BuildSnapshot_Ok:
  assumes "BuildSnapshot sha256 env payload MaxSnapshotBytes = (made, closed, Ok (f, n, digest))" "length payload < 2 ^ 63"
  shows "f = \<lparr>mf_seals = snapshotSeals, mf_size = int (length payload), mf_data = payload\<rparr> \<and> n = of_nat (length payload) \<and>
    digest = sha256 payload \<and> memfd_ok f \<and> length payload \<le> 1073741824"
proof -
  have u: "unat (of_nat (length payload) :: u64) = length payload"
    using assms(2) by (simp add: unat_of_nat take_bit_nat_eq_self_iff)
  have "uint (of_nat (length payload) :: u64) = int (length payload)" using u by (simp add: uint_nat del: of_nat_unat)
  then show ?thesis
    using assms u
    by (auto simp: BuildSnapshot_def Let_def memfd_ok_def MaxSnapshotBytes_def word_less_nat_alt not_less
        split: if_splits option.splits)
qed

lemma BuildSnapshot_ledger:
  "BuildSnapshot sha256 env payload maxLen = (made, closed, r) \<Longrightarrow>
     made = closed + (case r of Ok _ \<Rightarrow> 1 | _ \<Rightarrow> 0)"
  by (auto simp: BuildSnapshot_def Let_def split: if_splits option.splits)

section \<open>Property\<close>

text \<open>C40: a snapshot arrives as it was saved or not at all. What \<open>BuildSnapshot\<close> hands out is fully sealed, and the
  receiver, mapping it without error, reads exactly the saved bytes; and of any memory file at all, the receiver accepts
  only one whose complete seal set keeps it from changing afterwards, whose real size is the declared length and at
  most one gibibyte.\<close>

theorem snapshot_sealed_roundtrip:
  assumes "memfd_ok g" "length payload < 2 ^ 63"
  shows "(\<forall>made closed f n digest. BuildSnapshot sha256 env payload MaxSnapshotBytes = (made, closed, Ok (f, n, digest)) \<longrightarrow>
      VerifySealedSnapshot sha256 \<lparr>v_getseals = None, v_fstat = None, v_mmap = None\<rparr> f n = Ok (payload, digest)) \<and>
    (\<forall>env' n data digest. VerifySealedSnapshot sha256 env' g n = Ok (data, digest) \<longrightarrow>
      data = mf_data g \<and> digest = sha256 data \<and> unat n = length data \<and> length data \<le> 1073741824 \<and>
      mf_seals g AND snapshotSeals = snapshotSeals)"
proof (intro conjI allI impI)
  fix made closed f n digest
  assume "BuildSnapshot sha256 env payload MaxSnapshotBytes = (made, closed, Ok (f, n, digest))"
  note b = BuildSnapshot_Ok [OF this assms(2)]
  have u: "unat (of_nat (length payload) :: u64) = length payload"
    using assms(2) by (simp add: unat_of_nat take_bit_nat_eq_self_iff)
  have "\<not> MaxSnapshotBytes < (of_nat (length payload) :: u64)"
    using b u by (simp add: MaxSnapshotBytes_def word_less_nat_alt)
  moreover have "(of_nat (length payload) :: u64) = 0 \<Longrightarrow> payload = []" using u by (metis length_0_conv unat_0)
  ultimately show "VerifySealedSnapshot sha256 \<lparr>v_getseals = None, v_fstat = None, v_mmap = None\<rparr> f n = Ok (payload, digest)"
    using b by (auto simp: VerifySealedSnapshot_def Let_def)
next
  fix env' n data digest
  assume "VerifySealedSnapshot sha256 env' g n = Ok (data, digest)"
  note v = VerifySealedSnapshot_Ok [OF this assms(1)]
  show "data = mf_data g" "digest = sha256 data" "length data \<le> 1073741824" "mf_seals g AND snapshotSeals = snapshotSeals"
    using v by blast+
  have "length data \<le> 1073741824" using v by blast
  then have "length data < 2 ^ 64" by simp
  then show "unat n = length data" using v by (simp add: unat_of_nat take_bit_nat_eq_self_iff)
qed

theorem snapshot_sealed_roundtrip_witness:
  "VerifySealedSnapshot (\<lambda>b. [of_nat (length b)]) \<lparr>v_getseals = None, v_fstat = None, v_mmap = None\<rparr>
     \<lparr>mf_seals = 15, mf_size = 3, mf_data = [7, 8, 9]\<rparr> 3 = Ok ([7, 8, 9], [3])"
proof -
  have b: "BuildSnapshot (\<lambda>b. [of_nat (length b)])
      \<lparr>b_memfd = None, b_truncate = None, b_mmap = None, b_munmap = None, b_seal = None\<rparr> [7, 8, 9] MaxSnapshotBytes =
      (1, 0, Ok (\<lparr>mf_seals = 15, mf_size = 3, mf_data = [7, 8, 9]\<rparr>, 3, [3]))"
    by (simp add: BuildSnapshot_def MaxSnapshotBytes_def snapshotSeals_def)
  have "memfd_ok \<lparr>mf_seals = 15, mf_size = 3, mf_data = [7, 8, 9]\<rparr>" by (simp add: memfd_ok_def)
  from snapshot_sealed_roundtrip [OF this, of "[7, 8, 9]"] b show ?thesis by simp
qed

end
