(* ===== verification/Reload_Gate.thy ===== *)
theory Reload_Gate
  imports Prelude
begin

text \<open>
  The admission gate of a hot reload (\<^verbatim>\<open>AdmissionGate\<close> in \<^verbatim>\<open>internal/lifecycle/reload.go\<close>): its operations, each the part
  done under the gate's lock, and callers and the reload's \<^verbatim>\<open>Close\<close> as interleaved steps. A channel is a number; the
  channels closed so far are part of the state, and closing one twice would be a panic.
\<close>

record AdmissionGate =
  g_open :: bool
  g_active :: int
  g_drained :: "nat option"

definition zeroGate :: AdmissionGate where
  "zeroGate = \<lparr>g_open = False, g_active = 0, g_drained = None\<rparr>"

section \<open>Operations\<close>

definition Enter :: "AdmissionGate \<Rightarrow> AdmissionGate \<times> bool" where
  "Enter g = (if \<not> g_open g then (g, False) else (g\<lparr>g_active := g_active g + 1\<rparr>, True))"

text \<open>\<open>Leave\<close> also returns the channel it closes.\<close>

definition Leave :: "AdmissionGate \<Rightarrow> AdmissionGate \<times> nat option" where
  "Leave g =
     (let g = g\<lparr>g_active := g_active g - 1\<rparr> in
      if g_active g = 0 \<and> g_drained g \<noteq> None then (g\<lparr>g_drained := None\<rparr>, g_drained g) else (g, None))"

text \<open>\<open>Close\<close> up to its select, with the channel it makes; the flag says that it returns at once.\<close>

definition closeMark :: "nat \<Rightarrow> AdmissionGate \<Rightarrow> AdmissionGate \<times> bool" where
  "closeMark done g =
     (let g = g\<lparr>g_open := False\<rparr> in
      if g_active g = 0 then (g, True) else (g\<lparr>g_drained := Some done\<rparr>, False))"

definition closeExpired :: "nat \<Rightarrow> AdmissionGate \<Rightarrow> AdmissionGate" where
  "closeExpired done g = (if g_drained g = Some done then g\<lparr>g_drained := None\<rparr> else g)"

definition Open :: "AdmissionGate \<Rightarrow> AdmissionGate" where
  "Open g = g\<lparr>g_open := True\<rparr>"

definition IsOpen :: "AdmissionGate \<Rightarrow> bool" where
  "IsOpen g = g_open g"

section \<open>Callers and a reload\<close>

text \<open>
  Callers are numbers; \<open>inside\<close> are those between an \<open>Enter\<close> that returned true and their \<open>Leave\<close>, that is between
  admission and the hand-over of their request to the transport. One goroutine, the supervisor's loop, closes and opens.
\<close>

datatype closer = CloserIdle | CloserWaiting nat | CloserReturned bool

record gate_sys =
  gate :: AdmissionGate
  inside :: "nat set"
  closer :: closer
  next_chan :: nat
  closed_chans :: "nat set"
  gate_panic :: bool

inductive gate_step :: "gate_sys \<Rightarrow> gate_sys \<Rightarrow> bool" where
  enter: "c \<notin> inside s \<Longrightarrow> Enter (gate s) = (g, admitted) \<Longrightarrow>
    gate_step s (s\<lparr>gate := g, inside := (if admitted then insert c (inside s) else inside s)\<rparr>)"
| leave: "c \<in> inside s \<Longrightarrow> Leave (gate s) = (g, ch) \<Longrightarrow>
    gate_step s (s\<lparr>gate := g, inside := inside s - {c}, closed_chans := closed_chans s \<union> set_option ch,
      gate_panic := gate_panic s \<or> set_option ch \<inter> closed_chans s \<noteq> {}\<rparr>)"
| close: "(\<forall>ch. closer s \<noteq> CloserWaiting ch) \<Longrightarrow> closeMark (next_chan s) (gate s) = (g, now) \<Longrightarrow>
    gate_step s (s\<lparr>gate := g, next_chan := Suc (next_chan s),
      closer := (if now then CloserReturned True else CloserWaiting (next_chan s))\<rparr>)"
| woken: "closer s = CloserWaiting ch \<Longrightarrow> ch \<in> closed_chans s \<Longrightarrow> gate_step s (s\<lparr>closer := CloserReturned True\<rparr>)"
| expired: "closer s = CloserWaiting ch \<Longrightarrow>
    gate_step s (s\<lparr>gate := closeExpired ch (gate s), closer := CloserReturned False\<rparr>)"
| reopen: "(\<forall>ch. closer s \<noteq> CloserWaiting ch) \<Longrightarrow>
    gate_step s (s\<lparr>gate := Open (gate s), closer := CloserIdle\<rparr>)"

definition gate_start :: gate_sys where
  "gate_start = \<lparr>gate = zeroGate, inside = {}, closer = CloserIdle, next_chan = 0, closed_chans = {}, gate_panic = False\<rparr>"

inductive gate_reachable :: "gate_sys \<Rightarrow> bool" where
  gate_init: "gate_reachable gate_start"
| gate_more: "gate_reachable s \<Longrightarrow> gate_step s s' \<Longrightarrow> gate_reachable s'"

section \<open>Invariant\<close>

text \<open>The gate counts the callers inside; a waiting \<open>Close\<close> is registered with them or already woken.\<close>

fun closer_inv :: "closer \<Rightarrow> gate_sys \<Rightarrow> bool" where
  "closer_inv (CloserWaiting ch) s \<longleftrightarrow> \<not> g_open (gate s) \<and> ch < next_chan s \<and>
     (if ch \<in> closed_chans s then inside s = {} \<and> g_drained (gate s) = None
      else inside s \<noteq> {} \<and> g_drained (gate s) = Some ch)"
| "closer_inv (CloserReturned joined) s \<longleftrightarrow> g_drained (gate s) = None \<and> \<not> g_open (gate s) \<and> (joined \<longrightarrow> inside s = {})"
| "closer_inv CloserIdle s \<longleftrightarrow> g_drained (gate s) = None"

definition gate_inv :: "gate_sys \<Rightarrow> bool" where
  "gate_inv s \<longleftrightarrow> finite (inside s) \<and> g_active (gate s) = int (card (inside s)) \<and>
     closed_chans s \<subseteq> {..<next_chan s} \<and> \<not> gate_panic s \<and> closer_inv (closer s) s"

lemma gate_step_inv:
  assumes "gate_step s s'" "gate_inv s"
  shows "gate_inv s'"
  using assms(1)
proof cases
  case (enter c g admitted)
  then show ?thesis
    using assms(2) by (cases "closer s") (auto simp: gate_inv_def Enter_def split: if_splits)
next
  case (leave c g ch)
  have card: "card (inside s - {c}) = card (inside s) - 1" "0 < card (inside s)"
    using leave(2) assms(2) by (auto simp: gate_inv_def card_gt_0_iff)
  have last: "card (inside s) = 1 \<longleftrightarrow> inside s - {c} = {}"
    using leave(2) assms(2) card by (metis One_nat_def Suc_diff_1 card_0_eq diff_Suc_1 finite_Diff gate_inv_def)
  show ?thesis
    using leave assms(2) card last
    by (cases "closer s") (auto simp: gate_inv_def Leave_def Let_def of_nat_diff split: if_splits)
next
  case (close g now)
  then show ?thesis
    using assms(2) by (cases "closer s") (auto simp: gate_inv_def closeMark_def Let_def split: if_splits)
next
  case (woken ch)
  then show ?thesis using assms(2) by (auto simp: gate_inv_def)
next
  case (expired ch)
  then show ?thesis using assms(2) by (auto simp: gate_inv_def closeExpired_def split: if_splits)
next
  case reopen
  then show ?thesis using assms(2) by (cases "closer s") (auto simp: gate_inv_def Open_def)
qed

lemma gate_reachable_inv: "gate_reachable s \<Longrightarrow> gate_inv s"
proof (induction rule: gate_reachable.induct)
  case gate_init
  then show ?case by (simp add: gate_inv_def gate_start_def zeroGate_def)
next
  case (gate_more s s')
  then show ?case using gate_step_inv by blast
qed

section \<open>Property\<close>

text \<open>C17: the cutoff joins the publishers. In every interleaving of callers with the reload, when \<open>Close\<close> has returned
  without error the gate is shut and no caller is between its admission and its hand-over, so no request admitted before the
  cutoff reaches the plugin after it; a \<open>Close\<close> whose last caller has left is always woken; and no channel is closed twice.\<close>

theorem cutoff_joins_publishers:
  assumes "gate_reachable s"
  shows "(closer s = CloserReturned True \<longrightarrow> \<not> IsOpen (gate s) \<and> inside s = {} \<and> snd (Enter (gate s)) = False) \<and>
    (\<forall>ch. closer s = CloserWaiting ch \<and> inside s = {} \<longrightarrow> (\<exists>s'. gate_step s s' \<and> closer s' = CloserReturned True)) \<and>
    g_active (gate s) = int (card (inside s)) \<and> \<not> gate_panic s"
proof -
  have inv: "gate_inv s" by (rule gate_reachable_inv [OF assms])
  have "\<exists>s'. gate_step s s' \<and> closer s' = CloserReturned True" if "closer s = CloserWaiting ch" "inside s = {}" for ch
    using gate_step.woken [OF that(1)] inv that by (force simp: gate_inv_def split: if_splits)
  then show ?thesis using inv by (auto simp: gate_inv_def IsOpen_def Enter_def)
qed

lemma gate_run:
  "gate_reachable (gate_start\<lparr>gate := \<lparr>g_open = False, g_active = 0, g_drained = None\<rparr>, closer := CloserWaiting 0,
     next_chan := 1, closed_chans := {0}\<rparr>)"
proof -
  let ?g = "\<lambda>op n d. \<lparr>g_open = op, g_active = n, g_drained = d\<rparr>"
  have 1: "gate_reachable (gate_start\<lparr>gate := ?g True 0 None\<rparr>)"
    using gate_more [OF gate_init gate_step.reopen] by (simp add: gate_start_def Open_def zeroGate_def)
  have 2: "gate_reachable (gate_start\<lparr>gate := ?g True 1 None, inside := {7}\<rparr>)"
    using gate_more [OF 1 gate_step.enter [of 7 _ "?g True 1 None" True]] by (simp add: gate_start_def Enter_def)
  have 3: "gate_reachable (gate_start\<lparr>gate := ?g False 1 (Some 0), inside := {7}, closer := CloserWaiting 0, next_chan := 1\<rparr>)"
    using gate_more [OF 2 gate_step.close [of _ "?g False 1 (Some 0)" False]] by (simp add: gate_start_def closeMark_def)
  show ?thesis
    using gate_more [OF 3 gate_step.leave [of 7 _ "?g False 0 None" "Some 0"]] by (simp add: gate_start_def Leave_def)
qed

theorem cutoff_joins_publishers_witness:
  "\<exists>s s'. gate_reachable s \<and> closer s = CloserWaiting 0 \<and> gate_step s s' \<and> closer s' = CloserReturned True"
  using cutoff_joins_publishers [OF gate_run] gate_run by (fastforce simp: gate_start_def)

end
