(* ===== verification/Reload_Host.thy ===== *)
theory Reload_Host
  imports Snapshot Control_Conn "HOL-Library.Multiset"
begin

text \<open>
  The host's side of a hot reload (\<^verbatim>\<open>internal/lifecycle/reload.go\<close>, \<^verbatim>\<open>internal/lifecycle/rollback.go\<close>): the five phases of
  \<^verbatim>\<open>Transaction.Run\<close> and the rollback. The results of the admission gate's \<open>Close\<close>, of the messages sent and received, of
  spawning, promoting and tearing down, the clock and the system calls under the snapshot's verification are fields of an
  environment. What the transaction does is logged in order: the gate, the messages, the instances and the
  snapshot's descriptor.
\<close>

datatype Phase = PhaseCutoff | PhaseDrainAck | PhaseSnapshot | PhaseRestoreValidate | PhasePromote

record PhaseDeadlines =
  pd_DrainAck :: int
  pd_Snapshot :: int
  pd_RestoreValidate :: int

definition DefaultPhaseDeadlines :: PhaseDeadlines where
  "DefaultPhaseDeadlines = \<lparr>pd_DrainAck = 30000000000, pd_Snapshot = 10000000000, pd_RestoreValidate = 30000000000\<rparr>"

definition drainAckHostMargin :: int where "drainAckHostMargin = 1000000000"

datatype tx_event =
    GateClosed | GateOpened | DrainSent int | DrainAcked | FdReceived int | SaveAckSent | FdClosed int
  | Spawned | RestoreSent int | Ready | Promoted | OldTornDown | NewTornDown | ResumeSent | ResumeAcked

record tx =
  gate_open :: bool
  tx_log :: "tx_event list"
  Stragglers :: int

definition did :: "tx_event \<Rightarrow> tx \<Rightarrow> tx" where
  "did e t = t\<lparr>tx_log := tx_log t @ [e]\<rparr>"

definition openGate :: "tx \<Rightarrow> tx" where
  "openGate t = did GateOpened (t\<lparr>gate_open := True\<rparr>)"

definition closeGate :: "tx \<Rightarrow> tx" where
  "closeGate t = did GateClosed (t\<lparr>gate_open := False\<rparr>)"

record tx_env =
  t_deadlines :: PhaseDeadlines
  t_close :: "cerr option"
  t_ctx :: "cerr option"
  t_now :: int
  t_ctx_deadline :: "int option"
  t_send_drain :: "cerr option"
  t_drain_ack :: "(cerr, ControlMessage) outcome"
  t_save :: "(cerr, ControlMessage \<times> int list) outcome"
  t_memfd :: memfd
  t_verify :: verify_env
  t_munmap :: "lerr option"
  t_sha256 :: "byte list \<Rightarrow> byte list"
  t_send_save_ack :: "cerr option"
  t_spawn_configured :: bool
  t_spawn :: "(cerr, bool) outcome"
  t_send_restore :: "cerr option"
  t_restore_ack :: "(cerr, ControlMessage) outcome"
  t_promote :: "cerr option"
  t_teardown_old :: "int \<times> cerr option"
  t_send_resume :: "cerr option"
  t_resume_ack :: "(cerr, ControlMessage) outcome"

definition recvExpected ::
  "(cerr, ControlMessage) outcome \<Rightarrow> LifecycleState \<Rightarrow> MessageKind \<Rightarrow> (cerr, ControlMessage) outcome" where
  "recvExpected rx state want =
     (case rx of
        Err e \<Rightarrow> Err e
      | Panic \<Rightarrow> Panic
      | Ok msg \<Rightarrow>
         (case KindOf msg of
            None \<Rightarrow> Err {ErrProtocolViolation}
          | Some kind \<Rightarrow> if \<not> Legal state kind \<or> kind \<noteq> want then Err {ErrProtocolViolation} else Ok msg))"

section \<open>Drain\<close>

text \<open>How long the host waits, and the deadline it transmits; \<open>None\<close> when the budget leaves no room for a drain.\<close>

definition drainDeadlines :: "int \<Rightarrow> int \<Rightarrow> int option \<Rightarrow> (int \<times> int) option" where
  "drainDeadlines now budget ctxDeadline =
     (let hostWait = now + budget;
          hostWait = (case ctxDeadline of Some d \<Rightarrow> if d < hostWait then d else hostWait | None \<Rightarrow> hostWait);
          budget = hostWait - now in
      if budget < 2 then None
      else let margin = (if drainAckHostMargin \<ge> budget then budget div 2 else drainAckHostMargin) in
        Some (hostWait, hostWait - margin))"

definition drain :: "tx_env \<Rightarrow> tx \<Rightarrow> tx \<times> (lerr, unit) outcome" where
  "drain env t =
     (case drainDeadlines (t_now env) (pd_DrainAck (t_deadlines env)) (t_ctx_deadline env) of
        None \<Rightarrow> (t, Err {errDrainNotCommitted})
      | Some (hostWait, transmitted) \<Rightarrow>
         (case t_send_drain env of
            Some e \<Rightarrow> (t, Err (insert errDrainNotCommitted (ctl e)))
          | None \<Rightarrow>
              let t = did (DrainSent transmitted) t in
              case recvExpected (t_drain_ack env) StateDraining KindDrainAck of
                Err e \<Rightarrow> (t, Err (ctl e))
              | Panic \<Rightarrow> (t, Panic)
              | Ok _ \<Rightarrow> (did DrainAcked t, Ok ())))"

section \<open>Snapshot\<close>

record snapshot =
  sn_fd :: int
  sn_declaredLength :: u64
  sn_formatVersion :: u32
  sn_checksum :: "byte list"

definition closeFDs :: "int list \<Rightarrow> tx \<Rightarrow> tx" where
  "closeFDs fds t = fold (\<lambda>fd. did (FdClosed fd)) fds t"

definition verifySnapshot :: "tx_env \<Rightarrow> int \<Rightarrow> u64 \<Rightarrow> u32 \<Rightarrow> (lerr, snapshot) outcome" where
  "verifySnapshot env fd declaredLength formatVersion =
     (case VerifySealedSnapshot (t_sha256 env) (t_verify env) (t_memfd env) declaredLength of
        Panic \<Rightarrow> Panic
      | Err e \<Rightarrow>
          if ErrUnsealedSnapshot \<in> e \<or> ErrSnapshotLengthMismatch \<in> e \<or> ErrSnapshotTooLarge \<in> e
          then Err (insert ErrSnapshotRejected e) else Err e
      | Ok (data, checksum) \<Rightarrow>
         (case (if length data > 0 then t_munmap env else None) of
            Some e \<Rightarrow> Err e
          | None \<Rightarrow> Ok \<lparr>sn_fd = fd, sn_declaredLength = declaredLength, sn_formatVersion = formatVersion,
                       sn_checksum = checksum\<rparr>))"

definition GetSaveState :: "ControlMessage \<Rightarrow> SnapshotMsg" where
  "GetSaveState msg =
     (case body msg of Some (BSaveState s) \<Rightarrow> s
      | _ \<Rightarrow> \<lparr>sm_snapshot_fd_count = 0, sm_declared_length = 0, sm_format_version = 0\<rparr>)"

definition takeSnapshot :: "tx_env \<Rightarrow> tx \<Rightarrow> tx \<times> (lerr, snapshot) outcome" where
  "takeSnapshot env t =
     (case t_save env of
        Panic \<Rightarrow> (t, Panic)
      | Err e \<Rightarrow> (t, Err (ctl e))
      | Ok (msg, fds) \<Rightarrow>
          let t = fold (\<lambda>fd. did (FdReceived fd)) fds t in
          if \<not> (case KindOf msg of None \<Rightarrow> False | Some kind \<Rightarrow> Legal StateDraining kind \<and> kind = KindSaveState)
          then (closeFDs fds t, Err (ctl {ErrProtocolViolation}))
          else if length fds \<noteq> 1 then (closeFDs fds t, Err (ctl {ErrProtocolViolation}))
          else let save = GetSaveState msg in
            case verifySnapshot env (fds ! 0) (sm_declared_length save) (sm_format_version save) of
              Panic \<Rightarrow> (t, Panic)
            | Err e \<Rightarrow> (closeFDs fds t, Err e)
            | Ok snap \<Rightarrow>
               (case t_send_save_ack env of
                  Some e \<Rightarrow> (did (FdClosed (sn_fd snap)) t, Err (ctl e))
                | None \<Rightarrow> (did SaveAckSent t, Ok snap)))"

section \<open>Restore\<close>

definition GetRestoreAck :: "ControlMessage \<Rightarrow> RestoreAck" where
  "GetRestoreAck msg = (case body msg of Some (BRestoreAck a) \<Rightarrow> a | _ \<Rightarrow> \<lparr>ra_ready = False, ra_reason = []\<rparr>)"

text \<open>The flag in the result says whether a successor exists.\<close>

definition restoreValidate :: "tx_env \<Rightarrow> snapshot \<Rightarrow> tx \<Rightarrow> tx \<times> bool \<times> (lerr, unit) outcome" where
  "restoreValidate env snap t =
     (if \<not> t_spawn_configured env then (t, False, Err {LifeOther})
      else case t_spawn env of
        Panic \<Rightarrow> (t, False, Panic)
      | Err e \<Rightarrow> (t, False, Err (ctl e))
      | Ok False \<Rightarrow> (t, False, Err {LifeOther})
      | Ok True \<Rightarrow>
          let t = did Spawned t in
          case t_send_restore env of
            Some e \<Rightarrow> (t, True, Err (ctl e))
          | None \<Rightarrow>
              let t = did (RestoreSent (sn_fd snap)) t in
              case recvExpected (t_restore_ack env) StateRestoring KindRestoreAck of
                Panic \<Rightarrow> (t, True, Panic)
              | Err e \<Rightarrow> (t, True, Err (ctl e))
              | Ok reply \<Rightarrow>
                  if \<not> ra_ready (GetRestoreAck reply) then (t, True, Err {LifeOther}) else (did Ready t, True, Ok ()))"

section \<open>Rollback\<close>

definition resumeOld :: "tx_env \<Rightarrow> tx \<Rightarrow> tx \<times> (lerr, unit) outcome" where
  "resumeOld env t =
     (case t_send_resume env of
        Some e \<Rightarrow> (t, Err (ctl e))
      | None \<Rightarrow>
          let t = did ResumeSent t in
          case recvExpected (t_resume_ack env) StateDraining KindResumeAck of
            Panic \<Rightarrow> (t, Panic)
          | Err e \<Rightarrow> (t, Err (ctl e))
          | Ok _ \<Rightarrow> (did ResumeAcked t, Ok ()))"

definition rollback :: "tx_env \<Rightarrow> Phase \<Rightarrow> bool \<Rightarrow> lerr \<Rightarrow> tx \<Rightarrow> tx \<times> (lerr, unit) outcome" where
  "rollback env fromPhase successor cause t =
     (if fromPhase = PhaseCutoff then (openGate t, Err cause)
      else let t = (if successor then did NewTornDown t else t) in
        case resumeOld env t of
          (t, Panic) \<Rightarrow> (t, Panic)
        | (t, Err e) \<Rightarrow> (t, Err (insert ErrReloadCrashEquivalent (cause \<union> e)))
        | (t, Ok _) \<Rightarrow> (openGate t, Err cause))"

section \<open>The transaction\<close>

text \<open>After the snapshot: phases four and five. The descriptor is closed when \<open>Run\<close> returns, by its deferred call.\<close>

definition runRestored :: "tx_env \<Rightarrow> snapshot \<Rightarrow> tx \<Rightarrow> tx \<times> bool \<times> (lerr, unit) outcome" where
  "runRestored env snap t =
     (case restoreValidate env snap t of
        (t, successor, Panic) \<Rightarrow> (t, False, Panic)
      | (t, successor, Err e) \<Rightarrow>
         (case rollback env PhaseRestoreValidate successor e t of (t, r) \<Rightarrow> (t, False, r))
      | (t, successor, Ok _) \<Rightarrow>
         (case t_promote env of
            Some e \<Rightarrow> (case rollback env PhaseRestoreValidate successor (ctl e) t of (t, r) \<Rightarrow> (t, False, r))
          | None \<Rightarrow>
              let t = openGate (did Promoted t);
                  t = (did OldTornDown t)\<lparr>Stragglers := fst (t_teardown_old env)\<rparr> in
              (t, True, (case snd (t_teardown_old env) of Some e \<Rightarrow> Err (ctl e) | None \<Rightarrow> Ok ()))))"

text \<open>\<open>Run\<close> returns the final state, whether it returned the successor, and its error.\<close>

definition Run :: "tx_env \<Rightarrow> tx \<Rightarrow> tx \<times> bool \<times> (lerr, unit) outcome" where
  "Run env t =
     (let t = closeGate t;
          aborted = (\<lambda>phase e t. case rollback env phase False e t of (t, r) \<Rightarrow> (t, False, r)) in
      case t_close env of
        Some e \<Rightarrow> aborted PhaseCutoff (ctl e) t
      | None \<Rightarrow>
         (case t_ctx env of
            Some e \<Rightarrow> aborted PhaseCutoff (ctl e) t
          | None \<Rightarrow>
             (case drain env t of
                (t, Panic) \<Rightarrow> (t, False, Panic)
              | (t, Err e) \<Rightarrow> aborted (if errDrainNotCommitted \<in> e then PhaseCutoff else PhaseDrainAck) e t
              | (t, Ok _) \<Rightarrow>
                 (case takeSnapshot env t of
                    (t, Panic) \<Rightarrow> (t, False, Panic)
                  | (t, Err e) \<Rightarrow> aborted PhaseSnapshot e t
                  | (t, Ok snap) \<Rightarrow>
                     (case runRestored env snap t of (t, promoted, r) \<Rightarrow> (did (FdClosed (sn_fd snap)) t, promoted, r))))))"

section \<open>What a reload promises\<close>

text \<open>
  The abstract machine a log must run through: whether calls are admitted, whether the old instance has been told to freeze,
  whether it has been destroyed, whether a successor exists, is ready and serves, and the descriptors held. Its guards are the
  promises: calls are admitted only to an instance that is not frozen, the old instance is destroyed only after the successor
  serves, a successor that does not serve is destroyed before the old one resumes, and a descriptor is closed once.
\<close>

record promise =
  admitting :: bool
  frozen :: bool
  old_gone :: bool
  successor_lives :: bool
  successor_ready :: bool
  successor_serves :: bool
  held :: "int list"

fun promise_step :: "tx_event \<Rightarrow> promise \<Rightarrow> promise option" where
  "promise_step GateClosed a = Some (a\<lparr>admitting := False\<rparr>)"
| "promise_step GateOpened a =
     (if successor_serves a \<or> \<not> frozen a \<and> \<not> successor_lives a then Some (a\<lparr>admitting := True\<rparr>) else None)"
| "promise_step (DrainSent d) a = (if admitting a then None else Some (a\<lparr>frozen := True\<rparr>))"
| "promise_step DrainAcked a = (if frozen a then Some a else None)"
| "promise_step (FdReceived fd) a = (if frozen a then Some (a\<lparr>held := fd # held a\<rparr>) else None)"
| "promise_step SaveAckSent a = (if held a \<noteq> [] then Some a else None)"
| "promise_step (FdClosed fd) a = (if fd \<in> set (held a) then Some (a\<lparr>held := remove1 fd (held a)\<rparr>) else None)"
| "promise_step Spawned a = (if frozen a \<and> \<not> successor_lives a then Some (a\<lparr>successor_lives := True\<rparr>) else None)"
| "promise_step (RestoreSent fd) a = (if successor_lives a \<and> fd \<in> set (held a) then Some a else None)"
| "promise_step Ready a = (if successor_lives a then Some (a\<lparr>successor_ready := True\<rparr>) else None)"
| "promise_step Promoted a =
     (if successor_lives a \<and> successor_ready a \<and> \<not> admitting a then Some (a\<lparr>successor_serves := True\<rparr>) else None)"
| "promise_step OldTornDown a = (if successor_serves a \<and> \<not> old_gone a then Some (a\<lparr>old_gone := True\<rparr>) else None)"
| "promise_step NewTornDown a =
     (if successor_lives a \<and> \<not> successor_serves a
      then Some (a\<lparr>successor_lives := False, successor_ready := False\<rparr>) else None)"
| "promise_step ResumeSent a =
     (if frozen a \<and> \<not> admitting a \<and> \<not> successor_lives a \<and> \<not> old_gone a then Some a else None)"
| "promise_step ResumeAcked a = (if frozen a then Some (a\<lparr>frozen := False\<rparr>) else None)"

fun promise_run :: "tx_event list \<Rightarrow> promise \<Rightarrow> promise option" where
  "promise_run [] a = Some a"
| "promise_run (e # es) a = (case promise_step e a of None \<Rightarrow> None | Some a' \<Rightarrow> promise_run es a')"

definition serving_old :: promise where
  "serving_old = \<lparr>admitting = True, frozen = False, old_gone = False, successor_lives = False, successor_ready = False,
     successor_serves = False, held = []\<rparr>"

lemma promise_run_append:
  "promise_run (xs @ ys) a = (case promise_run xs a of None \<Rightarrow> None | Some b \<Rightarrow> promise_run ys b)"
  by (induction xs arbitrary: a) (auto split: option.splits)

text \<open>\<open>tx_tracks t0 t a\<close>: what was logged since \<open>t0\<close> runs from the serving state to \<open>a\<close>.\<close>

definition tx_tracks :: "tx \<Rightarrow> tx \<Rightarrow> promise \<Rightarrow> bool" where
  "tx_tracks t0 t a \<longleftrightarrow> (\<exists>L. tx_log t = tx_log t0 @ L \<and> promise_run L serving_old = Some a) \<and> gate_open t = admitting a"

lemma tracksI: "tx_log t = tx_log t0 @ L \<Longrightarrow> promise_run L serving_old = Some a \<Longrightarrow> gate_open t = admitting a \<Longrightarrow> tx_tracks t0 t a"
  unfolding tx_tracks_def by blast

lemma tracks_snoc:
  assumes "tx_tracks t0 t a" "promise_step e a = Some a'" "tx_log t' = tx_log t @ [e]" "gate_open t' = admitting a'"
  shows "tx_tracks t0 t' a'"
proof -
  obtain L where "tx_log t = tx_log t0 @ L" "promise_run L serving_old = Some a" using assms(1) unfolding tx_tracks_def by blast
  then show ?thesis using assms(2-4) by (intro tracksI [of _ _ "L @ [e]"]) (simp_all add: promise_run_append)
qed

lemma tracks_did:
  "tx_tracks t0 t a \<Longrightarrow> promise_step e a = Some a' \<Longrightarrow> admitting a' = admitting a \<Longrightarrow> tx_tracks t0 (did e t) a'"
  by (rule tracks_snoc [of t0 t a e a']) (auto simp: did_def tx_tracks_def)

lemma tracks_open:
  "tx_tracks t0 t a \<Longrightarrow> successor_serves a \<or> \<not> frozen a \<and> \<not> successor_lives a \<Longrightarrow> tx_tracks t0 (openGate t) (a\<lparr>admitting := True\<rparr>)"
  by (rule tracks_snoc [of t0 t a GateOpened]) (auto simp: did_def openGate_def)

lemma tracks_Stragglers [simp]: "tx_tracks t0 (t\<lparr>Stragglers := n\<rparr>) a = tx_tracks t0 t a"
  by (simp add: tx_tracks_def)

lemma tracks_received:
  "tx_tracks t0 t a \<Longrightarrow> frozen a \<Longrightarrow> tx_tracks t0 (fold (\<lambda>fd. did (FdReceived fd)) fds t) (a\<lparr>held := rev fds @ held a\<rparr>)"
proof (induction fds arbitrary: t a)
  case (Cons fd fds)
  have "tx_tracks t0 (did (FdReceived fd) t) (a\<lparr>held := fd # held a\<rparr>)"
    by (rule tracks_did [OF Cons.prems(1)]) (use Cons.prems(2) in simp_all)
  from Cons.IH [OF this] Cons.prems(2) show ?case by simp
qed simp

lemma tracks_closed:
  "tx_tracks t0 t a \<Longrightarrow> mset (held a) = mset fds \<Longrightarrow> tx_tracks t0 (closeFDs fds t) (a\<lparr>held := []\<rparr>)"
proof (induction fds arbitrary: t a)
  case Nil
  then show ?case by (cases a) (simp add: closeFDs_def)
next
  case (Cons fd fds)
  have fd: "fd \<in> set (held a)" using Cons.prems(2) by (metis list.set_intros(1) mset_eq_setD)
  have "tx_tracks t0 (did (FdClosed fd) t) (a\<lparr>held := remove1 fd (held a)\<rparr>)"
    by (rule tracks_did [OF Cons.prems(1)]) (use fd in simp_all)
  from Cons.IH [OF this] Cons.prems(2) show ?case by (simp add: closeFDs_def)
qed

section \<open>Each phase keeps the promise\<close>

definition frozen_old :: promise where
  "frozen_old = serving_old\<lparr>admitting := False, frozen := True\<rparr>"

definition tx_calm :: "tx_env \<Rightarrow> bool" where
  "tx_calm env \<longleftrightarrow> t_drain_ack env \<noteq> Panic \<and> t_save env \<noteq> Panic \<and> t_spawn env \<noteq> Panic \<and> t_restore_ack env \<noteq> Panic \<and>
     t_resume_ack env \<noteq> Panic"

lemma recvExpected_no_Panic: "rx \<noteq> Panic \<Longrightarrow> recvExpected rx state want \<noteq> Panic"
  by (cases rx) (auto simp: recvExpected_def split: option.splits)

lemma ctl_not_committed [simp]: "errDrainNotCommitted \<notin> ctl e" "ErrReloadCrashEquivalent \<notin> ctl e"
  by (auto simp: ctl_def)

lemma drain_tracks:
  assumes "tx_tracks t0 t (serving_old\<lparr>admitting := False\<rparr>)" "tx_calm env" "drain env t = (t', r)"
  shows "case r of
      Ok _ \<Rightarrow> tx_tracks t0 t' frozen_old
    | Err e \<Rightarrow> ErrReloadCrashEquivalent \<notin> e \<and>
        tx_tracks t0 t' (if errDrainNotCommitted \<in> e then serving_old\<lparr>admitting := False\<rparr> else frozen_old)
    | Panic \<Rightarrow> False"
proof -
  have sent: "tx_tracks t0 (did (DrainSent d) t) frozen_old" for d
    by (rule tracks_did [OF assms(1)]) (simp_all add: frozen_old_def)
  have acked: "tx_tracks t0 (did DrainAcked (did (DrainSent d) t)) frozen_old" for d
    by (rule tracks_did [OF sent]) (simp_all add: frozen_old_def)
  have "recvExpected (t_drain_ack env) StateDraining KindDrainAck \<noteq> Panic"
    using assms(2) by (intro recvExpected_no_Panic) (simp add: tx_calm_def)
  then show ?thesis
    using assms(1,3) sent acked
    by (auto simp: drain_def Let_def split: option.splits outcome.splits prod.splits)
qed

lemma verifySnapshot_shape:
  "verifySnapshot env fd n v \<noteq> Panic" "verifySnapshot env fd n v = Ok snap \<Longrightarrow> sn_fd snap = fd"
  by (auto simp: verifySnapshot_def VerifySealedSnapshot_def Let_def split: outcome.splits option.splits if_splits)

lemma takeSnapshot_tracks:
  assumes "tx_tracks t0 t frozen_old" "tx_calm env" "takeSnapshot env t = (t', r)"
  shows "case r of
      Ok snap \<Rightarrow> tx_tracks t0 t' (frozen_old\<lparr>held := [sn_fd snap]\<rparr>)
    | Err e \<Rightarrow> tx_tracks t0 t' frozen_old
    | Panic \<Rightarrow> False"
proof (cases "t_save env")
  case (Ok p)
  obtain msg fds where p: "p = (msg, fds)" by (cases p)
  let ?t = "fold (\<lambda>fd. did (FdReceived fd)) fds t"
  have "tx_tracks t0 ?t (frozen_old\<lparr>held := rev fds\<rparr>)"
    using tracks_received [OF assms(1), of fds] by (simp add: frozen_old_def serving_old_def)
  note got = this
  have closed: "tx_tracks t0 (closeFDs fds ?t) frozen_old"
    using tracks_closed [OF got, of fds] by (simp add: frozen_old_def serving_old_def)
  show ?thesis
  proof (cases "length fds = 1")
    case True
    then obtain fd where fd: "fds = [fd]" by (auto simp: length_Suc_conv)
    have acked: "tx_tracks t0 (did SaveAckSent ?t) (frozen_old\<lparr>held := [fd]\<rparr>)"
      using tracks_did [OF got, of SaveAckSent] fd by simp
    have "closeFDs fds ?t = did (FdClosed fd) ?t" by (simp add: closeFDs_def fd)
    then have lost: "tx_tracks t0 (did (FdClosed fd) ?t) frozen_old" using closed by simp
    show ?thesis
      using assms(3) Ok p fd acked closed lost verifySnapshot_shape
      by (auto simp: takeSnapshot_def Let_def split: if_splits outcome.splits option.splits)
  next
    case False
    then show ?thesis
      using assms(3) Ok p closed by (auto simp: takeSnapshot_def Let_def split: if_splits)
  qed
qed (use assms in \<open>auto simp: takeSnapshot_def tx_calm_def\<close>)

lemma resumeOld_tracks:
  assumes "tx_tracks t0 t (frozen_old\<lparr>held := h\<rparr>)" "tx_calm env" "resumeOld env t = (t', r)"
  shows "case r of
      Ok _ \<Rightarrow> tx_tracks t0 t' (frozen_old\<lparr>held := h, frozen := False\<rparr>)
    | Err e \<Rightarrow> tx_tracks t0 t' (frozen_old\<lparr>held := h\<rparr>)
    | Panic \<Rightarrow> False"
proof -
  have sent: "tx_tracks t0 (did ResumeSent t) (frozen_old\<lparr>held := h\<rparr>)"
    by (rule tracks_did [OF assms(1)]) (simp_all add: frozen_old_def serving_old_def)
  have acked: "tx_tracks t0 (did ResumeAcked (did ResumeSent t)) (frozen_old\<lparr>held := h, frozen := False\<rparr>)"
    by (rule tracks_did [OF sent]) (simp_all add: frozen_old_def serving_old_def)
  have "recvExpected (t_resume_ack env) StateDraining KindResumeAck \<noteq> Panic"
    using assms(2) by (intro recvExpected_no_Panic) (simp add: tx_calm_def)
  then show ?thesis
    using assms(1,3) sent acked by (auto simp: resumeOld_def Let_def split: option.splits outcome.splits)
qed

text \<open>A rollback from a frozen instance ends with it resumed and admitting, or reports it as crashed and admits nothing.\<close>

definition rolled_back :: "tx \<Rightarrow> int list \<Rightarrow> lerr \<Rightarrow> tx \<Rightarrow> (lerr, unit) outcome \<Rightarrow> bool" where
  "rolled_back t0 h cause t r \<longleftrightarrow> (\<exists>e. r = Err e \<and>
     (if ErrReloadCrashEquivalent \<in> e then tx_tracks t0 t (frozen_old\<lparr>held := h\<rparr>)
      else tx_tracks t0 t (serving_old\<lparr>held := h\<rparr>) \<and> e = cause))"

lemma rollback_tracks:
  assumes "tx_tracks t0 t (frozen_old\<lparr>held := h, successor_lives := b, successor_ready := rd\<rparr>)" "rd \<longrightarrow> b" "tx_calm env"
    "rollback env phase b cause t = (t', r)" "phase \<noteq> PhaseCutoff" "ErrReloadCrashEquivalent \<notin> cause"
  shows "rolled_back t0 h cause t' r"
proof -
  let ?t = "if b then did NewTornDown t else t"
  have gone: "tx_tracks t0 ?t (frozen_old\<lparr>held := h\<rparr>)"
  proof (cases b)
    case True
    have "tx_tracks t0 (did NewTornDown t) (frozen_old\<lparr>held := h\<rparr>)"
      by (rule tracks_did [OF assms(1)]) (use True in \<open>simp_all add: frozen_old_def serving_old_def\<close>)
    then show ?thesis using True by simp
  next
    case False
    then have "frozen_old\<lparr>held := h, successor_lives := b, successor_ready := rd\<rparr> = frozen_old\<lparr>held := h\<rparr>"
      using assms(2) by (simp add: frozen_old_def serving_old_def)
    then show ?thesis using assms(1) False by simp
  qed
  obtain u x where u: "resumeOld env ?t = (u, x)" by (cases "resumeOld env ?t")
  note x = resumeOld_tracks [OF gone assms(3) u]
  have opened: "tx_tracks t0 (openGate u) (serving_old\<lparr>held := h\<rparr>)" if "x = Ok v" for v
    using tracks_open [of t0 u "frozen_old\<lparr>held := h, frozen := False\<rparr>"] x that
    by (simp add: frozen_old_def serving_old_def)
  show ?thesis
    using assms(4-6) u x opened by (auto simp: rollback_def Let_def rolled_back_def split: outcome.splits)
qed

lemma restoreValidate_tracks:
  assumes "tx_tracks t0 t (frozen_old\<lparr>held := [sn_fd snap]\<rparr>)" "tx_calm env" "restoreValidate env snap t = (t', b, r)"
  shows "case r of
      Ok _ \<Rightarrow> b \<and> tx_tracks t0 t' (frozen_old\<lparr>held := [sn_fd snap], successor_lives := b, successor_ready := True\<rparr>)
    | Err e \<Rightarrow> ErrReloadCrashEquivalent \<notin> e \<and>
        tx_tracks t0 t' (frozen_old\<lparr>held := [sn_fd snap], successor_lives := b, successor_ready := False\<rparr>)
    | Panic \<Rightarrow> False"
proof -
  let ?a = "\<lambda>b rd. frozen_old\<lparr>held := [sn_fd snap], successor_lives := b, successor_ready := rd\<rparr>"
  have none: "tx_tracks t0 t (?a False False)" using assms(1) by (simp add: frozen_old_def serving_old_def)
  have spawned: "tx_tracks t0 (did Spawned t) (?a True False)"
    by (rule tracks_did [OF none]) (simp_all add: frozen_old_def serving_old_def)
  have sent: "tx_tracks t0 (did (RestoreSent (sn_fd snap)) (did Spawned t)) (?a True False)"
    by (rule tracks_did [OF spawned]) (simp_all add: frozen_old_def serving_old_def)
  have ready: "tx_tracks t0 (did Ready (did (RestoreSent (sn_fd snap)) (did Spawned t))) (?a True True)"
    by (rule tracks_did [OF sent]) (simp_all add: frozen_old_def serving_old_def)
  have np: "recvExpected (t_restore_ack env) StateRestoring KindRestoreAck \<noteq> Panic" "t_spawn env \<noteq> Panic"
    using assms(2) recvExpected_no_Panic [of "t_restore_ack env"] by (auto simp: tx_calm_def)
  show ?thesis
    using assms(3) none spawned sent ready np
    by (auto simp: restoreValidate_def Let_def split: if_splits bool.splits option.splits outcome.splits)
qed

definition serving_new :: promise where
  "serving_new = \<lparr>admitting = True, frozen = True, old_gone = True, successor_lives = True, successor_ready = True,
     successor_serves = True, held = []\<rparr>"

lemma runRestored_tracks:
  assumes "tx_tracks t0 t (frozen_old\<lparr>held := [sn_fd snap]\<rparr>)" "tx_calm env" "runRestored env snap t = (t', promoted, r)"
  shows "if promoted then tx_tracks t0 t' (serving_new\<lparr>held := [sn_fd snap]\<rparr>) \<and> Stragglers t' = fst (t_teardown_old env) \<and>
      r = (case snd (t_teardown_old env) of Some e \<Rightarrow> Err (ctl e) | None \<Rightarrow> Ok ())
    else \<exists>cause. rolled_back t0 [sn_fd snap] cause t' r"
proof -
  obtain u b x where u: "restoreValidate env snap t = (u, b, x)" by (cases "restoreValidate env snap t") auto
  note ux = restoreValidate_tracks [OF assms(1,2) u]
  show ?thesis
  proof (cases x)
    case (Err e)
    then have "rolled_back t0 [sn_fd snap] e t' r" "\<not> promoted"
      using rollback_tracks [where t = u and h = "[sn_fd snap]" and b = b and rd = False and env = env and
          phase = PhaseRestoreValidate and cause = e and t0 = t0] ux assms(2,3) u
      by (auto simp: runRestored_def split: prod.splits)
    then show ?thesis by auto
  next
    case (Ok v)
    note ready = ux [unfolded Ok, simplified]
    show ?thesis
    proof (cases "t_promote env")
      case (Some e)
      then have "rolled_back t0 [sn_fd snap] (ctl e) t' r" "\<not> promoted"
        using rollback_tracks [where t = u and h = "[sn_fd snap]" and b = b and rd = True and env = env and
            phase = PhaseRestoreValidate and cause = "ctl e" and t0 = t0] ready assms(2,3) u Ok
        by (auto simp: runRestored_def split: prod.splits)
      then show ?thesis by auto
    next
      case None
      let ?a = "frozen_old\<lparr>held := [sn_fd snap], successor_lives := True, successor_ready := True, successor_serves := True\<rparr>"
      have "tx_tracks t0 (did Promoted u) ?a"
        by (rule tracks_did [OF conjunct2 [OF ready]]) (use ready in \<open>simp_all add: frozen_old_def serving_old_def\<close>)
      then have "tx_tracks t0 (openGate (did Promoted u)) (?a\<lparr>admitting := True\<rparr>)"
        by (rule tracks_open) simp
      then have "tx_tracks t0 (did OldTornDown (openGate (did Promoted u))) (serving_new\<lparr>held := [sn_fd snap]\<rparr>)"
        by (rule tracks_did) (simp_all add: serving_new_def frozen_old_def serving_old_def)
      then show ?thesis
        using assms(3) u Ok None by (auto simp: runRestored_def Let_def)
    qed
  qed (use ux in simp)
qed

lemma rolled_back_close:
  "rolled_back t0 [fd] cause t r \<Longrightarrow> rolled_back t0 [] cause (did (FdClosed fd) t) r"
proof -
  have "tx_tracks t0 t (frozen_old\<lparr>held := [fd]\<rparr>) \<Longrightarrow> tx_tracks t0 (did (FdClosed fd) t) (frozen_old\<lparr>held := []\<rparr>)"
    "tx_tracks t0 t (serving_old\<lparr>held := [fd]\<rparr>) \<Longrightarrow> tx_tracks t0 (did (FdClosed fd) t) (serving_old\<lparr>held := []\<rparr>)"
    by (rule tracks_did, assumption, simp, simp)+
  then show "rolled_back t0 [fd] cause t r \<Longrightarrow> rolled_back t0 [] cause (did (FdClosed fd) t) r"
    unfolding rolled_back_def by metis
qed

lemma rolled_back_nil:
  "rolled_back t0 [] cause t r \<longleftrightarrow> (\<exists>e. r = Err e \<and>
     (if ErrReloadCrashEquivalent \<in> e then tx_tracks t0 t frozen_old else tx_tracks t0 t serving_old \<and> e = cause))"
proof -
  have "frozen_old\<lparr>held := []\<rparr> = frozen_old" "serving_old\<lparr>held := []\<rparr> = serving_old"
    by (simp_all add: frozen_old_def serving_old_def)
  then show ?thesis by (simp add: rolled_back_def)
qed

lemma cutoff_rolls_back:
  assumes "tx_tracks t0 t (serving_old\<lparr>admitting := False\<rparr>)" "ErrReloadCrashEquivalent \<notin> e"
  shows "\<exists>t'. rollback env PhaseCutoff False e t = (t', Err e) \<and> rolled_back t0 [] e t' (Err e)"
  using tracks_open [OF assms(1)] assms(2) by (simp add: rollback_def rolled_back_nil serving_old_def)

lemma frozen_rolls_back:
  assumes "tx_tracks t0 t frozen_old" "tx_calm env" "phase \<noteq> PhaseCutoff" "ErrReloadCrashEquivalent \<notin> e"
    "rollback env phase False e t = (t', r)"
  shows "rolled_back t0 [] e t' r"
proof -
  have "frozen_old\<lparr>held := [], successor_lives := False, successor_ready := False\<rparr> = frozen_old"
    by (simp add: frozen_old_def serving_old_def)
  then show ?thesis using rollback_tracks [where t = t and h = "[]" and b = False and rd = False and env = env and phase = phase
      and cause = e and t0 = t0] assms by simp
qed

lemma takeSnapshot_not_crash: "takeSnapshot env t = (t', Err e) \<Longrightarrow> ErrReloadCrashEquivalent \<notin> e \<or>
    (\<exists>x. v_getseals (t_verify env) = Some x \<and> ErrReloadCrashEquivalent \<in> x \<or>
         v_fstat (t_verify env) = Some x \<and> ErrReloadCrashEquivalent \<in> x \<or>
         v_mmap (t_verify env) = Some x \<and> ErrReloadCrashEquivalent \<in> x \<or>
         t_munmap env = Some x \<and> ErrReloadCrashEquivalent \<in> x)"
  by (auto simp: takeSnapshot_def Let_def verifySnapshot_def VerifySealedSnapshot_def
      split: outcome.splits if_splits option.splits prod.splits)

text \<open>System calls return neither a panic nor the transaction's own sentinel.\<close>

definition system_errors :: "tx_env \<Rightarrow> bool" where
  "system_errors env \<longleftrightarrow>
     (\<forall>x \<in> {v_getseals (t_verify env), v_fstat (t_verify env), v_mmap (t_verify env), t_munmap env}.
        \<forall>e. x = Some e \<longrightarrow> ErrReloadCrashEquivalent \<notin> e)"

lemma Run_tracks:
  assumes "tx_calm env" "system_errors env" "Run env t = (t', promoted, r)"
  shows "if promoted then tx_tracks t t' serving_new \<and> Stragglers t' = fst (t_teardown_old env) \<and>
      r = (case snd (t_teardown_old env) of Some e \<Rightarrow> Err (ctl e) | None \<Rightarrow> Ok ())
    else \<exists>cause. rolled_back t [] cause t' r"
proof -
  let ?c = "serving_old\<lparr>admitting := False\<rparr>"
  have cut: "tx_tracks t (closeGate t) ?c"
    by (rule tracksI [of _ _ "[GateClosed]"]) (simp_all add: closeGate_def did_def serving_old_def)
  obtain u x where u: "drain env (closeGate t) = (u, x)" by (cases "drain env (closeGate t)")
  note ux = drain_tracks [OF cut assms(1) u]
  show ?thesis
  proof (cases "t_close env = None \<and> t_ctx env = None")
    case False
    then obtain e where "Run env t = (case rollback env PhaseCutoff False (ctl e) (closeGate t) of (t, r) \<Rightarrow> (t, False, r))"
      by (cases "t_close env"; cases "t_ctx env") (simp_all add: Run_def Let_def)
    then show ?thesis using cutoff_rolls_back [OF cut, of "ctl e" env] assms(3) by auto
  next
    case True
    show ?thesis
    proof (cases x)
      case (Err e)
      let ?phase = "if errDrainNotCommitted \<in> e then PhaseCutoff else PhaseDrainAck"
      have eq: "(t', promoted, r) = (case rollback env ?phase False e u of (t, r) \<Rightarrow> (t, False, r))"
        using assms(3) True u Err by (simp add: Run_def Let_def)
      have "rolled_back t [] e t' r \<and> \<not> promoted"
      proof (cases "errDrainNotCommitted \<in> e")
        case True
        then show ?thesis using cutoff_rolls_back [of t u e env] ux Err eq by auto
      next
        case False
        then show ?thesis
          using frozen_rolls_back [of t u env PhaseDrainAck e t' r] ux Err eq assms(1) by (auto split: prod.splits)
      qed
      then show ?thesis by auto
    next
      case (Ok v)
      obtain w y where w: "takeSnapshot env u = (w, y)" by (cases "takeSnapshot env u")
      have "tx_tracks t u frozen_old" using ux Ok by simp
      note wy = takeSnapshot_tracks [OF this assms(1) w]
      show ?thesis
      proof (cases y)
        case (Err e)
        have "ErrReloadCrashEquivalent \<notin> e"
          using takeSnapshot_not_crash [OF w [unfolded Err]] assms(2) by (auto simp: system_errors_def)
        moreover have "(t', promoted, r) = (case rollback env PhaseSnapshot False e w of (t, r) \<Rightarrow> (t, False, r))"
          using assms(3) True u Ok w Err by (simp add: Run_def Let_def)
        ultimately have "rolled_back t [] e t' r \<and> \<not> promoted"
          using frozen_rolls_back [of t w env PhaseSnapshot e t' r] wy Err assms(1) by (auto split: prod.splits)
        then show ?thesis by auto
      next
        case (Ok snap)
        obtain z where z: "runRestored env snap w = (z, promoted, r)" "t' = did (FdClosed (sn_fd snap)) z"
          using assms(3) True u \<open>x = Ok v\<close> w Ok by (auto simp: Run_def Let_def split: prod.splits)
        have "tx_tracks t w (frozen_old\<lparr>held := [sn_fd snap]\<rparr>)" using wy Ok by simp
        note zr = runRestored_tracks [OF this assms(1) z(1)]
        have "tx_tracks t t' serving_new" if "tx_tracks t z (serving_new\<lparr>held := [sn_fd snap]\<rparr>)"
          unfolding z(2) by (rule tracks_did [OF that]) (simp_all add: serving_new_def)
        then show ?thesis
          using zr z(2) rolled_back_close [of t "sn_fd snap" _ z r] by (auto simp: did_def split: if_splits)
      qed (use wy in simp)
    qed (use ux in simp)
  qed
qed

section \<open>Properties\<close>

text \<open>C11: a reload is a transaction. Whatever the plugin, the successor and the system do, \<open>Run\<close> goes only through steps
  that keep its promises (calls admitted only to an instance that is not frozen, the old instance destroyed only once the
  successor serves, an unpromoted successor destroyed before the old one resumes, each descriptor closed once), and ends in
  one of three ways: the successor serves, admits calls, and the old instance is gone; or the old instance serves and
  admits calls as before, with no successor; or the error says the old instance is lost, and no call is admitted.\<close>

theorem reload_transactional:
  assumes "tx_calm env" "system_errors env" "Run env t = (t', promoted, r)"
  shows "\<exists>L a. tx_log t' = tx_log t @ L \<and> promise_run L serving_old = Some a \<and> gate_open t' = admitting a \<and> held a = [] \<and>
    (if promoted then a = serving_new
     else \<exists>e. r = Err e \<and>
       (if ErrReloadCrashEquivalent \<in> e then \<not> gate_open t' \<and> \<not> old_gone a \<and> \<not> successor_lives a else a = serving_old))"
proof (cases promoted)
  case True
  then have "tx_tracks t t' serving_new" using Run_tracks [OF assms] by simp
  then show ?thesis using True unfolding tx_tracks_def by (auto simp: serving_new_def)
next
  case False
  then obtain cause where "rolled_back t [] cause t' r" using Run_tracks [OF assms] by auto
  then obtain e a where e: "r = Err e" "tx_tracks t t' a"
      "a = (if ErrReloadCrashEquivalent \<in> e then frozen_old else serving_old)"
    unfolding rolled_back_nil by metis
  then show ?thesis using False unfolding tx_tracks_def by (auto simp: frozen_old_def serving_old_def)
qed

lemma transmitted_before_wait: "drainDeadlines now budget ctxDeadline = Some (w, d) \<Longrightarrow> d < w"
  by (auto simp: drainDeadlines_def drainAckHostMargin_def Let_def split: if_splits)

text \<open>the two sides never disagree about a drain's end. The deadline transmitted to the plugin lies strictly in the
  future and strictly before the moment the host stops waiting, which is within both the configured budget and the caller's
  deadline; the gap is a second, or half the budget when that is shorter.\<close>

theorem drain_deadline_order:
  assumes "drainDeadlines now budget ctxDeadline = Some (hostWait, transmitted)"
  shows "now < transmitted \<and> transmitted < hostWait \<and> hostWait \<le> now + budget \<and>
    (case ctxDeadline of Some d \<Rightarrow> hostWait \<le> d | None \<Rightarrow> True) \<and>
    (hostWait - transmitted = drainAckHostMargin \<or> hostWait - transmitted = (hostWait - now) div 2)"
proof -
  define w where "w = (case ctxDeadline of Some d \<Rightarrow> if d < now + budget then d else now + budget | None \<Rightarrow> now + budget)"
  have "w \<le> now + budget" "case ctxDeadline of Some d \<Rightarrow> w \<le> d | None \<Rightarrow> True"
    by (auto simp: w_def split: option.splits)
  moreover have "hostWait = w" "2 \<le> w - now"
    "transmitted = w - (if drainAckHostMargin \<ge> w - now then (w - now) div 2 else drainAckHostMargin)"
    using assms unfolding drainDeadlines_def Let_def w_def [symmetric] by (auto split: if_splits)
  ultimately show ?thesis by (auto simp: drainAckHostMargin_def)
qed

theorem drain_deadline_order_witness:
  "drainDeadlines 100 30000000000 (Some 600) = Some (600, 350) \<and> (100 :: int) < 350 \<and> (350 :: int) < 600"
proof -
  have "drainDeadlines 100 30000000000 (Some 600) = Some (600, 350)"
    by (simp add: drainDeadlines_def drainAckHostMargin_def)
  with drain_deadline_order [OF this] show ?thesis by simp
qed

definition kind_msg :: "Body \<Rightarrow> ControlMessage" where
  "kind_msg b = \<lparr>correlation_id = 0, generation = 0, body = Some b\<rparr>"

text \<open>An old instance that sends its snapshot, and a successor that refuses it.\<close>

definition refusing :: tx_env where
  "refusing = \<lparr>t_deadlines = DefaultPhaseDeadlines, t_close = None, t_ctx = None, t_now = 0, t_ctx_deadline = None,
     t_send_drain = None, t_drain_ack = Ok (kind_msg BDrainAck),
     t_save = Ok (kind_msg (BSaveState \<lparr>sm_snapshot_fd_count = 1, sm_declared_length = 2, sm_format_version = 1\<rparr>), [9]),
     t_memfd = \<lparr>mf_seals = 15, mf_size = 2, mf_data = [1, 2]\<rparr>,
     t_verify = \<lparr>v_getseals = None, v_fstat = None, v_mmap = None\<rparr>, t_munmap = None, t_sha256 = (\<lambda>b. b),
     t_send_save_ack = None, t_spawn_configured = True, t_spawn = Ok True, t_send_restore = None,
     t_restore_ack = Ok (kind_msg (BRestoreAck \<lparr>ra_ready = False, ra_reason = ''no''\<rparr>)), t_promote = None,
     t_teardown_old = (0, None), t_send_resume = None, t_resume_ack = Ok (kind_msg BResumeAck)\<rparr>"

lemma refusing_run:
  "Run refusing \<lparr>gate_open = True, tx_log = [], Stragglers = 0\<rparr> =
     (\<lparr>gate_open = True, tx_log = [GateClosed, DrainSent 29000000000, DrainAcked, FdReceived 9, SaveAckSent, Spawned,
        RestoreSent 9, NewTornDown, ResumeSent, ResumeAcked, GateOpened, FdClosed 9], Stragglers = 0\<rparr>, False, Err {LifeOther})"
  by (simp add: Run_def refusing_def drain_def drainDeadlines_def DefaultPhaseDeadlines_def drainAckHostMargin_def closeGate_def
      did_def recvExpected_def kind_msg_def KindOf_def Legal_def takeSnapshot_def GetSaveState_def verifySnapshot_def
      VerifySealedSnapshot_def snapshotSeals_def MaxSnapshotBytes_def runRestored_def restoreValidate_def GetRestoreAck_def
      rollback_def resumeOld_def openGate_def)

theorem reload_transactional_witness:
  "\<exists>L. promise_run L serving_old = Some serving_old \<and> NewTornDown \<in> set L \<and> ResumeAcked \<in> set L"
proof -
  have "tx_calm refusing" "system_errors refusing"
    by (simp_all add: refusing_def tx_calm_def system_errors_def)
  from reload_transactional [OF this refusing_run] obtain L where
    "L = [GateClosed, DrainSent 29000000000, DrainAcked, FdReceived 9, SaveAckSent, Spawned, RestoreSent 9, NewTornDown,
       ResumeSent, ResumeAcked, GateOpened, FdClosed 9]" "promise_run L serving_old = Some serving_old"
    by auto
  then show ?thesis by (intro exI [of _ L]) simp
qed

end
