(* ===== verification/Reload_Plugin.thy ===== *)
theory Reload_Plugin
  imports Reload_Host
begin

text \<open>
  The plugin's side of a hot reload (\<^verbatim>\<open>internal/lifecycle/plugin_reload.go\<close>, \<^verbatim>\<open>internal/lifecycle/restore.go\<close>). The mutators,
  the saver and the restorer are application code: what they return is part of the environment, as are the messages
  received, the results of sends and the system calls. What the instance does is logged.
\<close>

datatype ReloadOutcome = ReloadRetired | ReloadRolledBack

datatype plugin_event =
    Froze nat | Resumed nat | CallsDrained | SentDrainAck | SentSaveState u64 | SentResumeAck | SnapshotMade | SnapshotClosed

record plugin_env =
  m_freeze :: "lerr option list"
  m_resume :: "lerr option list"
  m_drained :: "lerr option option"
  m_send_drain_ack :: "cerr option"
  m_saver :: "(lerr + byte list) option"
  m_build :: build_env
  m_sha256 :: "byte list \<Rightarrow> byte list"
  m_send_save :: "cerr option"
  m_recv :: "((cerr + ControlMessage) \<times> bool) list"
  m_send_resume_ack :: "cerr option"

text \<open>
  The mutators are called in registration order up to the first failure; \<open>m_freeze\<close> and \<open>m_resume\<close> hold one result per
  mutator. The result is the log and the first error.
\<close>

fun callMutators :: "(nat \<Rightarrow> plugin_event) \<Rightarrow> nat \<Rightarrow> lerr option list \<Rightarrow> plugin_event list \<times> lerr option" where
  "callMutators ev i [] = ([], None)"
| "callMutators ev i (Some e # rs) = ([], Some e)"
| "callMutators ev i (None # rs) = (case callMutators ev (Suc i) rs of (log, r) \<Rightarrow> (ev i # log, r))"

definition freezeMutators :: "plugin_env \<Rightarrow> plugin_event list \<times> lerr option" where
  "freezeMutators env = callMutators Froze 0 (m_freeze env)"

definition resumeMutators :: "plugin_env \<Rightarrow> plugin_event list \<times> lerr option" where
  "resumeMutators env = callMutators Resumed 0 (m_resume env)"

text \<open>What a receive during the reload is: the context's end is told by the flag.\<close>

datatype during = Kind MessageKind | Ended | Failed lerr

definition recvDuringReload :: "(cerr + ControlMessage) \<times> bool \<Rightarrow> during" where
  "recvDuringReload rx =
     (case fst rx of
        Inl e \<Rightarrow> if snd rx then Ended else Failed (ctl e)
      | Inr msg \<Rightarrow>
         (case KindOf msg of
            None \<Rightarrow> Ended
          | Some kind \<Rightarrow> if \<not> Legal StateDraining kind then Failed (ctl {ErrProtocolViolation}) else Kind kind))"

type_synonym reload_result = "plugin_event list \<times> ReloadOutcome \<times> lerr option"

definition handleResume :: "plugin_env \<Rightarrow> reload_result" where
  "handleResume env =
     (case resumeMutators env of
        (log, Some e) \<Rightarrow> (log, ReloadRetired, Some e)
      | (log, None) \<Rightarrow>
         (case m_send_resume_ack env of
            Some e \<Rightarrow> (log, ReloadRetired, Some (ctl e))
          | None \<Rightarrow> (log @ [SentResumeAck], ReloadRolledBack, None)))"

text \<open>The two waits take the next receive; a schedule that has ended counts as the context's end.\<close>

definition awaitResumeOrExit :: "plugin_env \<Rightarrow> ((cerr + ControlMessage) \<times> bool) list \<Rightarrow> reload_result" where
  "awaitResumeOrExit env rxs =
     (case rxs of
        [] \<Rightarrow> ([], ReloadRetired, None)
      | rx # _ \<Rightarrow>
         (case recvDuringReload rx of
            Failed e \<Rightarrow> ([], ReloadRetired, Some e)
          | Ended \<Rightarrow> ([], ReloadRetired, None)
          | Kind KindResume \<Rightarrow> handleResume env
          | Kind KindShutdown \<Rightarrow> ([], ReloadRetired, None)
          | Kind _ \<Rightarrow> ([], ReloadRetired, Some (ctl {ErrProtocolViolation}))))"

definition awaitSaveStateOutcome :: "plugin_env \<Rightarrow> ((cerr + ControlMessage) \<times> bool) list \<Rightarrow> reload_result" where
  "awaitSaveStateOutcome env rxs =
     (case rxs of
        [] \<Rightarrow> ([], ReloadRetired, None)
      | rx # rest \<Rightarrow>
         (case recvDuringReload rx of
            Failed e \<Rightarrow> ([], ReloadRetired, Some e)
          | Ended \<Rightarrow> ([], ReloadRetired, None)
          | Kind KindSaveStateAck \<Rightarrow> awaitResumeOrExit env rest
          | Kind KindResume \<Rightarrow> handleResume env
          | Kind _ \<Rightarrow> ([], ReloadRetired, Some (ctl {ErrProtocolViolation}))))"

definition logged :: "plugin_event list \<Rightarrow> reload_result \<Rightarrow> reload_result" where
  "logged pre r = (pre @ fst r, snd r)"

definition loadStatePayload :: "plugin_env \<Rightarrow> lerr + byte list" where
  "loadStatePayload env = (case m_saver env of None \<Rightarrow> Inr [] | Some r \<Rightarrow> r)"

definition runSnapshotPhase :: "plugin_env \<Rightarrow> reload_result" where
  "runSnapshotPhase env =
     (case loadStatePayload env of
        Inl _ \<Rightarrow> awaitResumeOrExit env (m_recv env)
      | Inr payload \<Rightarrow>
         (case snd (snd (BuildSnapshot (m_sha256 env) (m_build env) payload MaxSnapshotBytes)) of
            Ok (f, declaredLen, _) \<Rightarrow>
              logged [SnapshotMade]
                (case m_send_save env of
                   Some e \<Rightarrow> ([SnapshotClosed], ReloadRetired, Some (ctl e))
                 | None \<Rightarrow>
                    (case awaitSaveStateOutcome env (m_recv env) of
                       (log, r) \<Rightarrow> ([SentSaveState declaredLen] @ log @ [SnapshotClosed], r)))
          | _ \<Rightarrow> awaitResumeOrExit env (m_recv env)))"

definition ServeReloadAfterDrain :: "plugin_env \<Rightarrow> reload_result" where
  "ServeReloadAfterDrain env =
     (case freezeMutators env of
        (log, Some e) \<Rightarrow> (log, ReloadRetired, Some e)
      | (log, None) \<Rightarrow>
         (case m_drained env of
            Some (Some _) \<Rightarrow> logged log (awaitResumeOrExit env (m_recv env))
          | drained \<Rightarrow>
             logged (log @ (if drained = None then [] else [CallsDrained]))
               (case m_send_drain_ack env of
                  Some e \<Rightarrow> ([], ReloadRetired, Some (ctl e))
                | None \<Rightarrow> logged [SentDrainAck] (runSnapshotPhase env))))"

definition ServeReload :: "cerr + ControlMessage \<Rightarrow> plugin_env \<Rightarrow> reload_result" where
  "ServeReload rx env =
     (case recvExpected (case rx of Inl e \<Rightarrow> Err e | Inr msg \<Rightarrow> Ok msg) StateServing KindDrain of
        Err e \<Rightarrow> ([], ReloadRetired, Some (ctl e))
      | Panic \<Rightarrow> ([], ReloadRetired, None)
      | Ok _ \<Rightarrow> ServeReloadAfterDrain env)"

section \<open>The successor\<close>

text \<open>\<open>restorer\<close> is what the registered restorer returns on a payload, or none registered.\<close>

definition verifyAndRestore ::
  "(byte list \<Rightarrow> byte list) \<Rightarrow> verify_env \<Rightarrow> memfd \<Rightarrow> u64 \<Rightarrow> u32 \<Rightarrow> (u32 \<Rightarrow> byte list \<Rightarrow> string option) option
     \<Rightarrow> (lerr \<Rightarrow> string) \<Rightarrow> RestoreAck" where
  "verifyAndRestore sha256 venv f declaredLen formatVersion restorer text =
     (case VerifySealedSnapshot sha256 venv f declaredLen of
        Ok (data, _) \<Rightarrow>
         (case restorer of
            None \<Rightarrow>
              if data = [] then \<lparr>ra_ready = True, ra_reason = []\<rparr>
              else \<lparr>ra_ready = False, ra_reason = text {ErrNoRestorerForState}\<rparr>
          | Some restore \<Rightarrow>
             (case restore formatVersion data of
                Some reason \<Rightarrow> \<lparr>ra_ready = False, ra_reason = reason\<rparr>
              | None \<Rightarrow> \<lparr>ra_ready = True, ra_reason = []\<rparr>))
      | Err e \<Rightarrow> \<lparr>ra_ready = False, ra_reason = text e\<rparr>
      | Panic \<Rightarrow> \<lparr>ra_ready = False, ra_reason = []\<rparr>)"

text \<open>\<open>ServeRestore\<close> returns its error, the acknowledgement it sent if any, and the descriptors it closed.\<close>

definition GetRestore :: "ControlMessage \<Rightarrow> SnapshotMsg" where
  "GetRestore msg =
     (case body msg of Some (BRestore s) \<Rightarrow> s
      | _ \<Rightarrow> \<lparr>sm_snapshot_fd_count = 0, sm_declared_length = 0, sm_format_version = 0\<rparr>)"

definition ServeRestore ::
  "(byte list \<Rightarrow> byte list) \<Rightarrow> verify_env \<Rightarrow> (int \<Rightarrow> memfd) \<Rightarrow> (u32 \<Rightarrow> byte list \<Rightarrow> string option) option \<Rightarrow> (lerr \<Rightarrow> string)
     \<Rightarrow> cerr + ControlMessage \<times> int list \<Rightarrow> cerr option \<Rightarrow> lerr option \<times> RestoreAck option \<times> int list" where
  "ServeRestore sha256 venv files restorer text rx sent =
     (case rx of
        Inl e \<Rightarrow> (Some (ctl e), None, [])
      | Inr (msg, fds) \<Rightarrow>
          if \<not> (case KindOf msg of None \<Rightarrow> False | Some kind \<Rightarrow> Legal StateRestoring kind \<and> kind = KindRestore)
          then (Some (ctl {ErrProtocolViolation}), None, fds)
          else if length fds \<noteq> 1 then (Some (ctl {ErrProtocolViolation}), None, fds)
          else let restore = GetRestore msg;
                   ack = verifyAndRestore sha256 venv (files (fds ! 0)) (sm_declared_length restore)
                           (sm_format_version restore) restorer text in
            (case sent of Some e \<Rightarrow> (Some (ctl e), None, fds) | None \<Rightarrow> (None, Some ack, fds)))"

section \<open>What the logs show\<close>

lemma callMutators_None:
  "callMutators ev i rs = (log, None) \<Longrightarrow> log = map ev [i..<i + length rs] \<and> (\<forall>r \<in> set rs. r = None)"
proof (induction rs arbitrary: i log)
  case (Cons r rs)
  have u: "[i..<i + Suc n] = i # [Suc i..<Suc i + n]" for n by (simp add: upt_conv_Cons)
  show ?case
  proof (cases r)
    case None
    obtain l e where l: "callMutators ev (Suc i) rs = (l, e)" by (cases "callMutators ev (Suc i) rs")
    then show ?thesis using Cons.prems Cons.IH [of "Suc i" l] None u [of "length rs"] by auto
  qed (use Cons.prems in simp)
qed simp

lemma callMutators_prefix: "\<exists>n \<le> length rs. fst (callMutators ev i rs) = map ev [i..<i + n]"
proof (induction rs arbitrary: i)
  case (Cons r rs)
  show ?case
  proof (cases r)
    case None
    obtain n where "n \<le> length rs" "fst (callMutators ev (Suc i) rs) = map ev [Suc i..<Suc i + n]" using Cons by blast
    then show ?thesis
      using None by (intro exI [of _ "Suc n"]) (auto simp: upt_rec [of i] split: prod.splits)
  qed (auto intro: exI [of _ 0])
qed simp

lemma set_callMutators: "set (fst (callMutators ev i rs)) \<subseteq> range ev"
  using callMutators_prefix [of rs ev i] by auto

text \<open>The end of a reload: a resumed instance has called every mutator's resume before its ResumeAck.\<close>

definition resumed_all :: "plugin_env \<Rightarrow> plugin_event list \<Rightarrow> bool" where
  "resumed_all env log \<longleftrightarrow> (\<exists>pre post. log = pre @ map Resumed [0..<length (m_resume env)] @ [SentResumeAck] @ post \<and>
     (\<forall>e \<in> set pre \<union> set post. e \<noteq> SentResumeAck \<and> e \<notin> range Resumed))"

definition ends_well :: "plugin_env \<Rightarrow> reload_result \<Rightarrow> bool" where
  "ends_well env r \<longleftrightarrow>
     (if fst (snd r) = ReloadRolledBack then snd (snd r) = None \<and> resumed_all env (fst r)
      else SentResumeAck \<notin> set (fst r))"

lemma handleResume_ends: "ends_well env (handleResume env)"
proof -
  obtain log e where l: "resumeMutators env = (log, e)" by (cases "resumeMutators env")
  have no: "SentResumeAck \<notin> set log" using set_callMutators [of Resumed 0 "m_resume env"] l by (auto simp: resumeMutators_def)
  show ?thesis
  proof (cases "e = None \<and> m_send_resume_ack env = None")
    case True
    then have "log = map Resumed [0..<length (m_resume env)]"
      using callMutators_None [of Resumed 0 "m_resume env" log] l by (simp add: resumeMutators_def)
    then show ?thesis
      using l True by (auto simp: handleResume_def ends_well_def resumed_all_def intro!: exI [of _ "[]"])
  next
    case False
    then show ?thesis using l no by (auto simp: handleResume_def ends_well_def split: option.splits)
  qed
qed

lemma awaitResumeOrExit_ends: "ends_well env (awaitResumeOrExit env rxs)"
  using handleResume_ends [of env]
  by (auto simp: awaitResumeOrExit_def ends_well_def split: list.splits during.splits MessageKind.splits)

lemma awaitSaveStateOutcome_ends: "ends_well env (awaitSaveStateOutcome env rxs)"
  using handleResume_ends [of env] awaitResumeOrExit_ends [of env]
  by (auto simp: awaitSaveStateOutcome_def ends_well_def split: list.splits during.splits MessageKind.splits)

lemma ends_well_around:
  assumes "ends_well env (log, r)" "\<forall>e \<in> set pre \<union> set post. e \<noteq> SentResumeAck \<and> e \<notin> range Resumed"
  shows "ends_well env (pre @ log @ post, r)"
proof (cases "fst r = ReloadRolledBack")
  case True
  then obtain p q where pq: "log = p @ map Resumed [0..<length (m_resume env)] @ [SentResumeAck] @ q"
      "\<forall>e \<in> set p \<union> set q. e \<noteq> SentResumeAck \<and> e \<notin> range Resumed" "snd r = None"
    using assms(1) by (auto simp: ends_well_def resumed_all_def)
  have "pre @ log @ post = (pre @ p) @ map Resumed [0..<length (m_resume env)] @ [SentResumeAck] @ q @ post"
    by (simp add: pq(1))
  moreover have "\<forall>e \<in> set (pre @ p) \<union> set (q @ post). e \<noteq> SentResumeAck \<and> e \<notin> range Resumed"
    using pq(2) assms(2) unfolding set_append by blast
  ultimately have "resumed_all env (pre @ log @ post)" unfolding resumed_all_def by blast
  then show ?thesis using True pq(3) by (simp add: ends_well_def)
next
  case False
  then have "SentResumeAck \<notin> set log" using assms(1) by (simp add: ends_well_def)
  then show ?thesis using False assms(2) unfolding ends_well_def by auto
qed

lemma ends_well_after:
  "ends_well env r \<Longrightarrow> \<forall>e \<in> set pre. e \<noteq> SentResumeAck \<and> e \<notin> range Resumed \<Longrightarrow> ends_well env (logged pre r)"
  using ends_well_around [of env "fst r" "snd r" pre "[]"] by (simp add: logged_def)

lemma runSnapshotPhase_ends: "ends_well env (runSnapshotPhase env)"
proof -
  obtain log r where l: "awaitSaveStateOutcome env (m_recv env) = (log, r)" by (cases "awaitSaveStateOutcome env (m_recv env)")
  have sent: "ends_well env ([SentSaveState n] @ log @ [SnapshotClosed], r)" for n
    using awaitSaveStateOutcome_ends [of env "m_recv env"] l by (intro ends_well_around) auto
  have lost: "ends_well env ([SnapshotClosed], ReloadRetired, e)" for e by (simp add: ends_well_def)
  have "ends_well env (logged [SnapshotMade]
      (case m_send_save env of Some e \<Rightarrow> ([SnapshotClosed], ReloadRetired, Some (ctl e))
       | None \<Rightarrow> (case awaitSaveStateOutcome env (m_recv env) of (log, r) \<Rightarrow> ([SentSaveState n] @ log @ [SnapshotClosed], r))))" for n
    by (rule ends_well_after) (use sent lost l in \<open>auto split: option.splits\<close>)
  note made = this
  show ?thesis
    unfolding runSnapshotPhase_def
    using made awaitResumeOrExit_ends [of env "m_recv env"]
    by (cases "loadStatePayload env") (simp_all split: outcome.splits prod.splits)
qed

text \<open>The waits log nothing but resumes and the ResumeAck.\<close>

abbreviation resumes :: "plugin_event set" where
  "resumes \<equiv> insert SentResumeAck (range Resumed)"

lemma handleResume_log: "set (fst (handleResume env)) \<subseteq> resumes"
  using set_callMutators [of Resumed 0 "m_resume env"]
  by (auto simp: handleResume_def resumeMutators_def split: prod.splits option.splits)

lemma awaitResumeOrExit_log: "set (fst (awaitResumeOrExit env rxs)) \<subseteq> resumes"
  using handleResume_log [of env]
  by (auto simp: awaitResumeOrExit_def split: list.splits during.splits MessageKind.splits)

lemma awaitSaveStateOutcome_log: "set (fst (awaitSaveStateOutcome env rxs)) \<subseteq> resumes"
  using handleResume_log [of env] awaitResumeOrExit_log [of env]
  by (auto simp: awaitSaveStateOutcome_def split: list.splits during.splits MessageKind.splits)

text \<open>The snapshot phase sends no DrainAck and closes the snapshot it makes.\<close>

definition snapshot_log :: "plugin_event list \<Rightarrow> bool" where
  "snapshot_log log \<longleftrightarrow> SentDrainAck \<notin> set log \<and> (SnapshotMade \<in> set log \<longleftrightarrow> SnapshotClosed \<in> set log)"

lemma resumes_snapshot_log: "set log \<subseteq> resumes \<Longrightarrow> snapshot_log log"
  by (auto simp: snapshot_log_def)

lemma runSnapshotPhase_log: "snapshot_log (fst (runSnapshotPhase env))"
proof -
  obtain log r where l: "awaitSaveStateOutcome env (m_recv env) = (log, r)" by (cases "awaitSaveStateOutcome env (m_recv env)")
  have "SentDrainAck \<notin> set log" using awaitSaveStateOutcome_log [of env "m_recv env"] l by auto
  then have "snapshot_log (fst (logged [SnapshotMade]
      (case m_send_save env of Some e \<Rightarrow> ([SnapshotClosed], ReloadRetired, Some (ctl e))
       | None \<Rightarrow> (case awaitSaveStateOutcome env (m_recv env) of (log, r) \<Rightarrow> ([SentSaveState n] @ log @ [SnapshotClosed], r)))))" for n
    using l by (auto simp: snapshot_log_def logged_def split: option.splits)
  note made = this
  show ?thesis
    unfolding runSnapshotPhase_def
    using made resumes_snapshot_log [OF awaitResumeOrExit_log [of env "m_recv env"]]
    by (cases "loadStatePayload env") (simp_all split: outcome.splits prod.splits)
qed

text \<open>The three shapes of a pass after its Drain.\<close>

lemma ServeReloadAfterDrain_cases:
  obtains (failed) e where "ServeReloadAfterDrain env = (fst (freezeMutators env), ReloadRetired, Some e)"
  | (undrained) "ServeReloadAfterDrain env = logged (map Froze [0..<length (m_freeze env)]) (awaitResumeOrExit env (m_recv env))"
  | (unsent) e where "ServeReloadAfterDrain env =
      (map Froze [0..<length (m_freeze env)] @ (if m_drained env = None then [] else [CallsDrained]), ReloadRetired, Some e)"
  | (acked) "m_drained env \<in> {None, Some None}" "ServeReloadAfterDrain env =
      logged (map Froze [0..<length (m_freeze env)] @ (if m_drained env = None then [] else [CallsDrained]) @ [SentDrainAck])
        (runSnapshotPhase env)"
proof -
  obtain log e where f: "freezeMutators env = (log, e)" by (cases "freezeMutators env")
  show thesis
  proof (cases e)
    case (Some x)
    then show thesis using f failed by (simp add: ServeReloadAfterDrain_def)
  next
    case None
    then have log: "log = map Froze [0..<length (m_freeze env)]"
      using callMutators_None [of Froze 0 "m_freeze env" log] f by (simp add: freezeMutators_def)
    consider x where "m_drained env = Some (Some x)" | "m_drained env \<in> {None, Some None}"
      by (metis insertCI not_None_eq)
    then show thesis
    proof cases
      case 1
      then show thesis using f None log undrained by (simp add: ServeReloadAfterDrain_def)
    next
      case 2
      then show thesis
        using f None log unsent acked
        by (cases "m_send_drain_ack env") (auto simp: ServeReloadAfterDrain_def logged_def)
    qed
  qed
qed

definition acks_true :: "plugin_env \<Rightarrow> reload_result \<Rightarrow> bool" where
  "acks_true env r \<longleftrightarrow> ends_well env r \<and> (SnapshotMade \<in> set (fst r) \<longleftrightarrow> SnapshotClosed \<in> set (fst r)) \<and>
     (SentDrainAck \<in> set (fst r) \<longrightarrow>
       (\<exists>rest. fst r = map Froze [0..<length (m_freeze env)] @ (if m_drained env = None then [] else [CallsDrained])
          @ SentDrainAck # rest) \<and> m_drained env \<in> {None, Some None})"

lemma ServeReloadAfterDrain_acks: "acks_true env (ServeReloadAfterDrain env)"
proof (cases rule: ServeReloadAfterDrain_cases [of env])
  case (failed e)
  then show ?thesis
    using set_callMutators [of Froze 0 "m_freeze env"] by (auto simp: acks_true_def ends_well_def freezeMutators_def)
next
  case undrained
  have "ends_well env (ServeReloadAfterDrain env)"
    unfolding undrained by (rule ends_well_after [OF awaitResumeOrExit_ends]) auto
  then show ?thesis
    using awaitResumeOrExit_log [of env "m_recv env"] undrained by (auto simp: acks_true_def logged_def)
next
  case (unsent e)
  then show ?thesis by (auto simp: acks_true_def ends_well_def)
next
  case acked
  have "ends_well env (ServeReloadAfterDrain env)"
    unfolding acked(2) by (rule ends_well_after [OF runSnapshotPhase_ends]) auto
  then show ?thesis
    using runSnapshotPhase_log [of env] acked by (auto simp: acks_true_def logged_def snapshot_log_def)
qed

section \<open>Properties\<close>

text \<open>C23: what the plugin tells the host is true. A DrainAck is sent only after every mutator has been frozen, in order, and
  the accepted calls have been drained; a ResumeAck only after every mutator has been resumed, in order. The pass reports a
  rollback exactly when a ResumeAck was sent. A snapshot made is closed when the pass ends.\<close>

theorem plugin_acks_are_true:
  assumes "ServeReload rx env = (log, outcome, err)"
  shows "(SentDrainAck \<in> set log \<longrightarrow>
      (\<exists>rest. log = map Froze [0..<length (m_freeze env)] @ (if m_drained env = None then [] else [CallsDrained])
         @ SentDrainAck # rest) \<and> m_drained env \<in> {None, Some None}) \<and>
    (SentResumeAck \<in> set log \<longleftrightarrow> outcome = ReloadRolledBack) \<and>
    (outcome = ReloadRolledBack \<longrightarrow> err = None \<and> resumed_all env log) \<and>
    (SnapshotMade \<in> set log \<longleftrightarrow> SnapshotClosed \<in> set log)"
proof -
  have "acks_true env (log, outcome, err)"
  proof (cases "\<exists>msg. recvExpected (case rx of Inl e \<Rightarrow> Err e | Inr msg \<Rightarrow> Ok msg) StateServing KindDrain = Ok msg")
    case True
    then have "ServeReload rx env = ServeReloadAfterDrain env" by (auto simp: ServeReload_def)
    then show ?thesis using ServeReloadAfterDrain_acks [of env] assms by simp
  next
    case False
    then have "log = [] \<and> outcome = ReloadRetired"
      using assms by (auto simp: ServeReload_def split: outcome.splits)
    then show ?thesis by (simp add: acks_true_def ends_well_def)
  qed
  note a = this [unfolded acks_true_def ends_well_def fst_conv snd_conv]
  have "resumed_all env log \<Longrightarrow> SentResumeAck \<in> set log" by (auto simp: resumed_all_def)
  then show ?thesis using a by (cases outcome) auto
qed

definition draining_plugin :: plugin_env where
  "draining_plugin = \<lparr>m_freeze = [None, None], m_resume = [None, None], m_drained = Some None, m_send_drain_ack = None,
     m_saver = Some (Inr [4, 5]), m_build = \<lparr>b_memfd = None, b_truncate = None, b_mmap = None, b_munmap = None, b_seal = None\<rparr>,
     m_sha256 = (\<lambda>b. b), m_send_save = None, m_recv = [(Inr (kind_msg (BSaveStateAck [])), False), (Inr (kind_msg BResume), False)],
     m_send_resume_ack = None\<rparr>"

theorem plugin_acks_are_true_witness:
  "\<exists>log. ServeReload (Inr (kind_msg (BDrain 7))) draining_plugin = (log, ReloadRolledBack, None) \<and>
     SentDrainAck \<in> set log \<and> SentResumeAck \<in> set log"
proof -
  have r: "ServeReload (Inr (kind_msg (BDrain 7))) draining_plugin =
      ([Froze 0, Froze 1, CallsDrained, SentDrainAck, SnapshotMade, SentSaveState 2, Resumed 0, Resumed 1, SentResumeAck,
        SnapshotClosed], ReloadRolledBack, None)"
    by (simp add: ServeReload_def recvExpected_def kind_msg_def KindOf_def Legal_def ServeReloadAfterDrain_def draining_plugin_def
        freezeMutators_def resumeMutators_def logged_def runSnapshotPhase_def loadStatePayload_def BuildSnapshot_def MaxSnapshotBytes_def
        awaitSaveStateOutcome_def awaitResumeOrExit_def recvDuringReload_def handleResume_def)
  from plugin_acks_are_true [OF r] r show ?thesis by simp
qed

end
