(* ===== verification/Reload_System.thy ===== *)
theory Reload_System
  imports Reload_Plugin
begin

text \<open>
  A hot reload between two processes: the host's transaction (\<^verbatim>\<open>Transaction.Run\<close> from the cutoff on, \<^verbatim>\<open>rollback\<close>) and the
  plugin's pass (\<^verbatim>\<open>ServeReload\<close>), each as the steps between its messages, over the two directions of the control socket and
  one clock. A receive takes a queued message before it reports its deadline. The transitions are those of
  \<open>Run\<close>, \<open>rollback\<close> and \<open>ServeReload\<close> in the theories before; what sends, mutators, the saver and the successor return is
  chosen freely.
\<close>

datatype to_plugin = WDrain int | WSaveAck | WResume | WShutdown
datatype to_host = WDrainAck | WSave | WResumeAck

datatype host_pc =
    HCutoff | HAwaitDrainAck int | HAwaitSave | HAckSave | HRestore | HRollback | HAwaitResumeAck
  | HServingOld | HServingNew | HLost

datatype plugin_pc =
    PServing | PFreeze int | PQuiesce int | PAck int | PSave | PSendSave | PAwaitSaveAck | PAwaitResume | PResume | PAckResume
  | PExit

record reload_sys =
  hpc :: host_pc
  ppc :: plugin_pc
  h2p :: "to_plugin list"
  p2h :: "to_host list"
  clock :: int
  mutators_frozen :: bool
  calls_admitted :: bool
  hsent :: "to_plugin list"
  hgot :: "to_host list"
  psent :: "to_host list"
  pgot :: "to_plugin list"

definition hsend :: "to_plugin \<Rightarrow> host_pc \<Rightarrow> reload_sys \<Rightarrow> reload_sys" where
  "hsend m pc s = s\<lparr>hpc := pc, h2p := h2p s @ [m], hsent := hsent s @ [m]\<rparr>"

definition hrecv :: "to_host \<Rightarrow> host_pc \<Rightarrow> reload_sys \<Rightarrow> reload_sys" where
  "hrecv m pc s = s\<lparr>hpc := pc, p2h := tl (p2h s), hgot := hgot s @ [m]\<rparr>"

definition psend :: "to_host \<Rightarrow> plugin_pc \<Rightarrow> reload_sys \<Rightarrow> reload_sys" where
  "psend m pc s = s\<lparr>ppc := pc, p2h := p2h s @ [m], psent := psent s @ [m]\<rparr>"

definition precv :: "to_plugin \<Rightarrow> plugin_pc \<Rightarrow> reload_sys \<Rightarrow> reload_sys" where
  "precv m pc s = s\<lparr>ppc := pc, h2p := tl (h2p s), pgot := pgot s @ [m]\<rparr>"

lemmas wire_defs = hsend_def hrecv_def psend_def precv_def

definition next_in :: "'m list \<Rightarrow> 'm \<Rightarrow> bool" where
  "next_in q m \<longleftrightarrow> q \<noteq> [] \<and> List.hd q = m"

section \<open>Steps\<close>

inductive host_step :: "reload_sys \<Rightarrow> reload_sys \<Rightarrow> bool" where
  not_committed: "hpc s = HCutoff \<Longrightarrow> host_step s (s\<lparr>hpc := HServingOld, calls_admitted := True\<rparr>)"
| send_drain: "hpc s = HCutoff \<Longrightarrow> drainDeadlines (clock s) budget ctxDeadline = Some (w, d) \<Longrightarrow>
    host_step s (hsend (WDrain d) (HAwaitDrainAck w) s)"
| drain_acked: "hpc s = HAwaitDrainAck w \<Longrightarrow> next_in (p2h s) WDrainAck \<Longrightarrow> host_step s (hrecv WDrainAck HAwaitSave s)"
| drain_other: "hpc s = HAwaitDrainAck w \<Longrightarrow> next_in (p2h s) m \<Longrightarrow> m \<noteq> WDrainAck \<Longrightarrow> host_step s (hrecv m HRollback s)"
| drain_expired: "hpc s = HAwaitDrainAck w \<Longrightarrow> p2h s = [] \<Longrightarrow> w \<le> clock s \<or> ppc s = PExit \<Longrightarrow> host_step s (s\<lparr>hpc := HRollback\<rparr>)"
| saved: "hpc s = HAwaitSave \<Longrightarrow> next_in (p2h s) WSave \<Longrightarrow> pc \<in> {HAckSave, HRollback} \<Longrightarrow> host_step s (hrecv WSave pc s)"
| save_other: "hpc s = HAwaitSave \<Longrightarrow> next_in (p2h s) m \<Longrightarrow> m \<noteq> WSave \<Longrightarrow> host_step s (hrecv m HRollback s)"
| save_expired: "hpc s = HAwaitSave \<Longrightarrow> p2h s = [] \<Longrightarrow> host_step s (s\<lparr>hpc := HRollback\<rparr>)"
| ack_save: "hpc s = HAckSave \<Longrightarrow> host_step s (hsend WSaveAck HRestore s)"
| ack_save_failed: "hpc s = HAckSave \<Longrightarrow> host_step s (s\<lparr>hpc := HRollback\<rparr>)"
| restored: "hpc s = HRestore \<Longrightarrow> host_step s ((hsend WShutdown HServingNew s)\<lparr>calls_admitted := True\<rparr>)"
| restore_failed: "hpc s = HRestore \<Longrightarrow> host_step s (s\<lparr>hpc := HRollback\<rparr>)"
| send_resume: "hpc s = HRollback \<Longrightarrow> host_step s (hsend WResume HAwaitResumeAck s)"
| send_resume_failed: "hpc s = HRollback \<Longrightarrow> host_step s (s\<lparr>hpc := HLost\<rparr>)"
| resumed: "hpc s = HAwaitResumeAck \<Longrightarrow> next_in (p2h s) WResumeAck \<Longrightarrow>
    host_step s ((hrecv WResumeAck HServingOld s)\<lparr>calls_admitted := True\<rparr>)"
| resume_other: "hpc s = HAwaitResumeAck \<Longrightarrow> next_in (p2h s) m \<Longrightarrow> m \<noteq> WResumeAck \<Longrightarrow> host_step s (hrecv m HLost s)"
| resume_expired: "hpc s = HAwaitResumeAck \<Longrightarrow> p2h s = [] \<Longrightarrow> host_step s (s\<lparr>hpc := HLost\<rparr>)"

inductive plugin_step :: "reload_sys \<Rightarrow> reload_sys \<Rightarrow> bool" where
  drain: "ppc s = PServing \<Longrightarrow> next_in (h2p s) (WDrain d) \<Longrightarrow> plugin_step s (precv (WDrain d) (PFreeze d) s)"
| serving_other: "ppc s = PServing \<Longrightarrow> next_in (h2p s) m \<Longrightarrow> \<forall>d. m \<noteq> WDrain d \<Longrightarrow> plugin_step s (precv m PExit s)"
| frozen: "ppc s = PFreeze d \<Longrightarrow> pc \<in> {PQuiesce d, PExit} \<Longrightarrow> plugin_step s (s\<lparr>ppc := pc, mutators_frozen := True\<rparr>)"
| quiet: "ppc s = PQuiesce d \<Longrightarrow> plugin_step s (s\<lparr>ppc := PAck d\<rparr>)"
| not_quiet: "ppc s = PQuiesce d \<Longrightarrow> d \<le> clock s \<Longrightarrow> plugin_step s (s\<lparr>ppc := PAwaitResume\<rparr>)"
| ack: "ppc s = PAck d \<Longrightarrow> clock s < d \<Longrightarrow> plugin_step s (psend WDrainAck PSave s)"
| ack_failed: "ppc s = PAck d \<Longrightarrow> plugin_step s (s\<lparr>ppc := PExit\<rparr>)"
| save: "ppc s = PSave \<Longrightarrow> pc \<in> {PSendSave, PAwaitResume} \<Longrightarrow> plugin_step s (s\<lparr>ppc := pc\<rparr>)"
| send_save: "ppc s = PSendSave \<Longrightarrow> plugin_step s (psend WSave PAwaitSaveAck s)"
| send_save_failed: "ppc s = PSendSave \<Longrightarrow> plugin_step s (s\<lparr>ppc := PExit\<rparr>)"
| save_acked: "ppc s = PAwaitSaveAck \<Longrightarrow> next_in (h2p s) WSaveAck \<Longrightarrow> plugin_step s (precv WSaveAck PAwaitResume s)"
| resume: "ppc s \<in> {PAwaitSaveAck, PAwaitResume} \<Longrightarrow> next_in (h2p s) WResume \<Longrightarrow> plugin_step s (precv WResume PResume s)"
| retired: "ppc s = PAwaitResume \<Longrightarrow> next_in (h2p s) WShutdown \<Longrightarrow> plugin_step s (precv WShutdown PExit s)"
| await_other: "ppc s = PAwaitSaveAck \<and> m \<notin> {WSaveAck, WResume} \<or> ppc s = PAwaitResume \<and> m \<notin> {WResume, WShutdown} \<Longrightarrow>
    next_in (h2p s) m \<Longrightarrow> plugin_step s (precv m PExit s)"
| resume_mutators: "ppc s = PResume \<Longrightarrow> plugin_step s (s\<lparr>ppc := PAckResume, mutators_frozen := False\<rparr>)"
| resume_failed: "ppc s = PResume \<Longrightarrow> plugin_step s (s\<lparr>ppc := PExit\<rparr>)"
| ack_resume: "ppc s = PAckResume \<Longrightarrow> plugin_step s (psend WResumeAck PServing s)"
| ack_resume_failed: "ppc s = PAckResume \<Longrightarrow> plugin_step s (s\<lparr>ppc := PExit\<rparr>)"
| gone: "plugin_step s (s\<lparr>ppc := PExit\<rparr>)"

inductive reload_step :: "reload_sys \<Rightarrow> reload_sys \<Rightarrow> bool" where
  by_host: "host_step s s' \<Longrightarrow> reload_step s s'"
| by_plugin: "plugin_step s s' \<Longrightarrow> reload_step s s'"
| time: "clock s \<le> t \<Longrightarrow> reload_step s (s\<lparr>clock := t\<rparr>)"

definition cutoff :: reload_sys where
  "cutoff = \<lparr>hpc = HCutoff, ppc = PServing, h2p = [], p2h = [], clock = 0, mutators_frozen = False, calls_admitted = False,
     hsent = [], hgot = [], psent = [], pgot = []\<rparr>"

definition reload_reachable :: "reload_sys \<Rightarrow> bool" where
  "reload_reachable s \<longleftrightarrow> reload_step\<^sup>*\<^sup>* cutoff s"

section \<open>Invariant\<close>

text \<open>What each side has received and sent at each of its points. \<open>d\<close> is the transmitted deadline.\<close>

fun plugin_hist :: "plugin_pc \<Rightarrow> int \<Rightarrow> bool \<Rightarrow> to_plugin list \<Rightarrow> to_host list \<Rightarrow> bool" where
  "plugin_hist PServing now fr got sent \<longleftrightarrow> \<not> fr \<and>
     (got = [] \<and> sent = [] \<or>
      (\<exists>d p. got \<in> {[WDrain d, WResume], [WDrain d, WSaveAck, WResume]} \<and> sent = p @ [WResumeAck] \<and>
         p \<in> {[], [WDrainAck], [WDrainAck, WSave]} \<and> (p = [] \<longrightarrow> d \<le> now)))"
| "plugin_hist (PFreeze d) now fr got sent \<longleftrightarrow> got = [WDrain d] \<and> sent = []"
| "plugin_hist (PQuiesce d) now fr got sent \<longleftrightarrow> got = [WDrain d] \<and> sent = []"
| "plugin_hist (PAck d) now fr got sent \<longleftrightarrow> got = [WDrain d] \<and> sent = []"
| "plugin_hist PSave now fr got sent \<longleftrightarrow> (\<exists>d. got = [WDrain d]) \<and> sent = [WDrainAck]"
| "plugin_hist PSendSave now fr got sent \<longleftrightarrow> (\<exists>d. got = [WDrain d]) \<and> sent = [WDrainAck]"
| "plugin_hist PAwaitSaveAck now fr got sent \<longleftrightarrow> (\<exists>d. got = [WDrain d]) \<and> sent = [WDrainAck, WSave]"
| "plugin_hist PAwaitResume now fr got sent \<longleftrightarrow> (\<exists>d. got = [WDrain d] \<and> (sent = [] \<and> d \<le> now \<or> sent = [WDrainAck]) \<or>
     got = [WDrain d, WSaveAck] \<and> sent = [WDrainAck, WSave])"
| "plugin_hist PResume now fr got sent \<longleftrightarrow> (\<exists>d. got \<in> {[WDrain d, WResume], [WDrain d, WSaveAck, WResume]} \<and>
     sent \<in> {[], [WDrainAck], [WDrainAck, WSave]} \<and> (sent = [] \<longrightarrow> d \<le> now))"
| "plugin_hist PAckResume now fr got sent \<longleftrightarrow> \<not> fr \<and> (\<exists>d. got \<in> {[WDrain d, WResume], [WDrain d, WSaveAck, WResume]} \<and>
     sent \<in> {[], [WDrainAck], [WDrainAck, WSave]} \<and> (sent = [] \<longrightarrow> d \<le> now))"
| "plugin_hist PExit now fr got sent \<longleftrightarrow> sent \<in> {[], [WDrainAck], [WDrainAck, WSave]} \<or>
     WResume \<in> set got \<and> (\<exists>p. sent = p @ [WResumeAck] \<and> p \<in> {[], [WDrainAck], [WDrainAck, WSave]})"

fun host_hist :: "host_pc \<Rightarrow> int \<Rightarrow> bool \<Rightarrow> to_plugin list \<Rightarrow> to_host list \<Rightarrow> bool" where
  "host_hist HCutoff now gone sent got \<longleftrightarrow> sent = [] \<and> got = []"
| "host_hist (HAwaitDrainAck w) now gone sent got \<longleftrightarrow> (\<exists>d < w. sent = [WDrain d]) \<and> got = []"
| "host_hist HAwaitSave now gone sent got \<longleftrightarrow> (\<exists>d. sent = [WDrain d]) \<and> got = [WDrainAck]"
| "host_hist HAckSave now gone sent got \<longleftrightarrow> (\<exists>d. sent = [WDrain d]) \<and> got = [WDrainAck, WSave]"
| "host_hist HRestore now gone sent got \<longleftrightarrow> (\<exists>d. sent = [WDrain d, WSaveAck]) \<and> got = [WDrainAck, WSave]"
| "host_hist HServingNew now gone sent got \<longleftrightarrow> (\<exists>d. sent = [WDrain d, WSaveAck, WShutdown]) \<and> got = [WDrainAck, WSave]"
| "host_hist HRollback now gone sent got \<longleftrightarrow>
     (\<exists>d. sent = [WDrain d] \<and> (got = [] \<and> (d \<le> now \<or> gone) \<or> got \<in> {[WDrainAck], [WDrainAck, WSave]}) \<or>
        sent = [WDrain d, WSaveAck] \<and> got = [WDrainAck, WSave])"
| "host_hist HAwaitResumeAck now gone sent got \<longleftrightarrow>
     (\<exists>d. sent = [WDrain d, WResume] \<and> (got = [] \<and> (d \<le> now \<or> gone) \<or> got \<in> {[WDrainAck], [WDrainAck, WSave]}) \<or>
        sent = [WDrain d, WSaveAck, WResume] \<and> got = [WDrainAck, WSave])"
| "host_hist HServingOld now gone sent got \<longleftrightarrow> sent = [] \<and> got = [] \<or>
     (\<exists>d. sent \<in> {[WDrain d, WResume], [WDrain d, WSaveAck, WResume]} \<and> WResumeAck \<in> set got)"
| "host_hist HLost now gone sent got \<longleftrightarrow> 
     (\<exists>d. sent \<in> {[WDrain d], [WDrain d, WSaveAck], [WDrain d, WResume], [WDrain d, WSaveAck, WResume]})"

definition wires :: "reload_sys \<Rightarrow> bool" where
  "wires s \<longleftrightarrow> psent s = hgot s @ p2h s \<and> hsent s = pgot s @ h2p s"

definition hists :: "reload_sys \<Rightarrow> bool" where
  "hists s \<longleftrightarrow>
     plugin_hist (ppc s) (clock s) (mutators_frozen s) (pgot s) (psent s) \<and>
     host_hist (hpc s) (clock s) (ppc s = PExit) (hsent s) (hgot s) \<and>
     (hpc s \<in> {HRollback, HAwaitResumeAck} \<and> hgot s = [] \<longrightarrow> WDrainAck \<notin> set (psent s)) \<and>
     (calls_admitted s \<longrightarrow> hpc s \<in> {HServingOld, HServingNew})"

lemma next_in_Cons: "next_in q m \<longleftrightarrow> (\<exists>r. q = m # r)"
  by (cases q) (auto simp: next_in_def)

lemma wires_keep [simp]:
  "wires (hsend m pc s) = wires s" "wires (psend m' pc' s) = wires s"
  "next_in (p2h s) m' \<Longrightarrow> wires (hrecv m' pc s) = wires s" "next_in (h2p s) m \<Longrightarrow> wires (precv m pc' s) = wires s"
  by (auto simp: wires_def wire_defs next_in_Cons)

lemma wires_update [simp]:
  "wires (s\<lparr>hpc := a\<rparr>) = wires s" "wires (s\<lparr>ppc := b\<rparr>) = wires s" "wires (s\<lparr>clock := t\<rparr>) = wires s"
  "wires (s\<lparr>mutators_frozen := f\<rparr>) = wires s" "wires (s\<lparr>calls_admitted := f\<rparr>) = wires s"
  by (simp_all add: wires_def)

lemma host_wires: "host_step s s' \<Longrightarrow> wires s \<Longrightarrow> wires s'"
  by (induction rule: host_step.induct) simp_all

lemma plugin_wires: "plugin_step s s' \<Longrightarrow> wires s \<Longrightarrow> wires s'"
  by (induction rule: plugin_step.induct) simp_all

text \<open>A message waiting is the next one sent after those received.\<close>

lemma next_to_host: "next_in (p2h s) m \<Longrightarrow> wires s \<Longrightarrow> \<exists>r. psent s = hgot s @ m # r"
  by (auto simp: wires_def next_in_Cons)

lemma next_to_plugin: "next_in (h2p s) m \<Longrightarrow> wires s \<Longrightarrow> \<exists>r. hsent s = pgot s @ m # r"
  by (auto simp: wires_def next_in_Cons)

lemma none_to_host: "p2h s = [] \<Longrightarrow> wires s \<Longrightarrow> psent s = hgot s"
  by (simp add: wires_def)

lemma pgot_prefix: "wires s \<Longrightarrow> \<exists>r. hsent s = pgot s @ r"
  by (auto simp: wires_def)

text \<open>The plugin may be gone at any moment; the histories still hold.\<close>

lemma host_gone: "host_hist pc now g sent got \<Longrightarrow> host_hist pc now True sent got"
  by (cases pc) auto

lemma plugin_gone: "plugin_hist pc now fr got sent \<Longrightarrow> plugin_hist PExit now fr' got sent"
  by (cases pc) auto

text \<open>Until the host rolls back the plugin has not been told to resume, so it has not acknowledged a resume.\<close>

lemma no_resume_ack:
  assumes "wires s" "hists s" "WResume \<notin> set (hsent s)"
  shows "WResumeAck \<notin> set (psent s)"
proof -
  have "set (pgot s) \<subseteq> set (hsent s)" using pgot_prefix [OF assms(1)] by auto
  then have "WResume \<notin> set (pgot s)" using assms(3) by blast
  moreover have "plugin_hist PExit (clock s) (mutators_frozen s) (pgot s) (psent s)"
    using assms(2) plugin_gone unfolding hists_def by blast
  ultimately show ?thesis by auto
qed

lemma psent_shape:
  assumes "hists s" "WResumeAck \<notin> set (psent s)"
  shows "psent s \<in> {[], [WDrainAck], [WDrainAck, WSave]}"
proof -
  have "plugin_hist PExit (clock s) (mutators_frozen s) (pgot s) (psent s)"
    using assms(1) plugin_gone unfolding hists_def by blast
  then show ?thesis using assms(2) by auto
qed

lemma first_is_drain_ack:
  assumes "wires s" "hists s" "hpc s = HAwaitDrainAck w" "next_in (p2h s) m"
  shows "m = WDrainAck"
proof -
  have h: "WResume \<notin> set (hsent s)" "hgot s = []" using assms(2,3) by (auto simp: hists_def)
  show ?thesis
    using next_to_host [OF assms(4,1)] psent_shape [OF assms(2) no_resume_ack [OF assms(1,2) h(1)]] h(2) by auto
qed

lemma second_is_save:
  assumes "wires s" "hists s" "hpc s = HAwaitSave" "next_in (p2h s) m"
  shows "m = WSave"
proof -
  have h: "WResume \<notin> set (hsent s)" "hgot s = [WDrainAck]" using assms(2,3) by (auto simp: hists_def)
  show ?thesis
    using next_to_host [OF assms(4,1)] psent_shape [OF assms(2) no_resume_ack [OF assms(1,2) h(1)]] h(2) by auto
qed

lemma host_hists: "host_step s s' \<Longrightarrow> wires s \<Longrightarrow> hists s \<Longrightarrow> hists s'"
proof (induction rule: host_step.induct)
  case (send_drain s budget ctxDeadline w d)
  then have "d < w" using transmitted_before_wait by blast
  then show ?case using send_drain by (auto simp: hists_def wire_defs)
next
  case (drain_other s w m)
  then show ?case using first_is_drain_ack by blast
next
  case (drain_expired s w)
  then have "psent s = []" using none_to_host by (auto simp: hists_def)
  then show ?case using drain_expired by (auto simp: hists_def)
next
  case (save_other s m)
  then show ?case using second_is_save by blast
qed (auto simp: hists_def wire_defs)

lemma hists_gone:
  assumes "hists s" "ppc s' = PExit" "hpc s' = hpc s" "clock s' = clock s" "hsent s' = hsent s" "hgot s' = hgot s"
    "psent s' = psent s" "calls_admitted s' = calls_admitted s" "pgot s' = pgot s @ r"
  shows "hists s'"
proof -
  have "plugin_hist PExit (clock s) (mutators_frozen s) (pgot s) (psent s)"
    using assms(1) plugin_gone unfolding hists_def by blast
  then have "plugin_hist PExit (clock s) (mutators_frozen s') (pgot s @ r) (psent s)" by auto
  moreover have "host_hist (hpc s) (clock s) True (hsent s) (hgot s)" using assms(1) host_gone unfolding hists_def by blast
  ultimately show ?thesis using assms unfolding hists_def by (simp del: plugin_hist.simps host_hist.simps)
qed

lemma one_drain: "hists s \<Longrightarrow> WDrain d \<notin> set (tl (hsent s))"
  by (cases "hpc s") (auto simp: hists_def)

text \<open>The acknowledgement the transmitted deadline still admits is not sent behind a host that gave up: the host waits longer.\<close>

lemma ack_not_late:
  assumes "wires s" "hists s" "ppc s = PAck d" "clock s < d"
  shows "\<not> (hpc s \<in> {HRollback, HAwaitResumeAck} \<and> hgot s = [])"
proof -
  have "pgot s = [WDrain d]" using assms(2,3) by (simp add: hists_def)
  then obtain r where "hsent s = WDrain d # r" using pgot_prefix [OF assms(1)] by auto
  then show ?thesis using assms(2-4) by (auto simp: hists_def)
qed

lemma plugin_hists: "plugin_step s s' \<Longrightarrow> wires s \<Longrightarrow> hists s \<Longrightarrow> hists s'"
proof (induction rule: plugin_step.induct)
  case (drain s d)
  obtain r where r: "hsent s = pgot s @ WDrain d # r" using next_to_plugin drain by blast
  have "pgot s = []" using one_drain [OF drain(4), of d] r by (cases "pgot s") auto
  then show ?case using drain by (auto simp: hists_def wire_defs)
next
  case (serving_other s m)
  show ?case by (rule hists_gone [OF serving_other(5)]) (simp_all add: wire_defs)
next
  case (frozen s d pc)
  have "pc = PExit \<Longrightarrow> ?case" by (rule hists_gone [where r = "[]", OF frozen(4)]) simp_all
  moreover have "pc = PQuiesce d \<Longrightarrow> ?case" using frozen by (simp add: hists_def)
  ultimately show ?case using frozen(2) by blast
next
  case (ack s d)
  then show ?case using ack_not_late [OF ack(3,4,1,2)] by (auto simp: hists_def wire_defs)
next
  case (retired s)
  show ?case by (rule hists_gone [OF retired(4)]) (simp_all add: wire_defs)
next
  case (await_other s m)
  show ?case by (rule hists_gone [OF await_other(4)]) (simp_all add: wire_defs)
next
  case (ack_failed s d)
  show ?case by (rule hists_gone [where r = "[]", OF ack_failed(3)]) simp_all
next
  case (send_save_failed s)
  show ?case by (rule hists_gone [where r = "[]", OF send_save_failed(3)]) simp_all
next
  case (resume_failed s)
  show ?case by (rule hists_gone [where r = "[]", OF resume_failed(3)]) simp_all
next
  case (ack_resume_failed s)
  show ?case by (rule hists_gone [where r = "[]", OF ack_resume_failed(3)]) simp_all
next
  case (quiet s d)
  then show ?case by (simp add: hists_def)
next
  case (not_quiet s d)
  then show ?case by (simp add: hists_def)
next
  case (save s pc)
  then show ?case by (auto simp: hists_def)
next
  case (send_save s)
  then show ?case by (auto simp: hists_def wire_defs)
next
  case (save_acked s)
  then show ?case by (auto simp: hists_def wire_defs)
next
  case (resume s)
  then show ?case by (auto simp: hists_def wire_defs)
next
  case (resume_mutators s)
  then show ?case by (simp add: hists_def)
next
  case (ack_resume s)
  then show ?case by (auto simp: hists_def wire_defs)
next
  case (gone s)
  show ?case by (rule hists_gone [where r = "[]", OF gone(2)]) simp_all
qed

lemma hist_later:
  "plugin_hist pc now fr got sent \<Longrightarrow> now \<le> t \<Longrightarrow> plugin_hist pc t fr got sent"
  "host_hist h now g hs hg \<Longrightarrow> now \<le> t \<Longrightarrow> host_hist h t g hs hg"
  by (cases pc; fastforce) (cases h; fastforce)

lemma reload_invariant: "reload_reachable s \<Longrightarrow> wires s \<and> hists s"
  unfolding reload_reachable_def
proof (induction rule: rtranclp_induct)
  case base
  show ?case by (simp add: cutoff_def wires_def hists_def)
next
  case (step s t)
  from step.hyps(2) show ?case
  proof cases
    case by_host
    then show ?thesis using step.IH host_wires host_hists by blast
  next
    case by_plugin
    then show ?thesis using step.IH plugin_wires plugin_hists by blast
  next
    case (time u)
    then show ?thesis using step.IH hist_later [OF _ time(2)] unfolding hists_def by simp
  qed
qed

section \<open>Properties\<close>

lemma resume_acked_serves: "plugin_hist pc now fr got sent \<Longrightarrow> WResumeAck \<in> set sent \<Longrightarrow> pc = PExit \<or> pc = PServing \<and> \<not> fr"
  by (cases pc) auto

lemma not_drained_serves: "plugin_hist pc now fr [] sent \<Longrightarrow> pc = PExit \<or> pc = PServing \<and> \<not> fr"
  by (cases pc) auto

text \<open>C10: no call enters a half-frozen plugin. Whatever the two processes, their clocks and their components do, when the host
  admits calls again it is either routing to the successor, after the old instance acknowledged the drain and handed over its
  snapshot, or to the old instance, which then runs with its mutators resumed, or is gone.\<close>

theorem admitted_to_unfrozen:
  assumes "reload_reachable s" "calls_admitted s"
  shows "hpc s = HServingNew \<and> hgot s = [WDrainAck, WSave] \<or>
    hpc s = HServingOld \<and> (ppc s = PServing \<and> \<not> mutators_frozen s \<or> ppc s = PExit)"
proof -
  note inv = conjunct1 [OF reload_invariant [OF assms(1)]] conjunct2 [OF reload_invariant [OF assms(1)]]
  have ph: "plugin_hist (ppc s) (clock s) (mutators_frozen s) (pgot s) (psent s)"
    and hh: "host_hist (hpc s) (clock s) (ppc s = PExit) (hsent s) (hgot s)" and at: "hpc s \<in> {HServingOld, HServingNew}"
    using inv(2) assms(2) unfolding hists_def by blast+
  consider "hpc s = HServingNew" | "hpc s = HServingOld" "hsent s = []" | "hpc s = HServingOld" "WResumeAck \<in> set (hgot s)"
    using at hh by auto
  then show ?thesis
  proof cases
    case 1
    then show ?thesis using hh by auto
  next
    case 2
    then have "pgot s = []" using inv(1) by (simp add: wires_def)
    then show ?thesis using 2(1) not_drained_serves ph by metis
  next
    case 3
    then have "WResumeAck \<in> set (psent s)" using inv(1) by (simp add: wires_def)
    then show ?thesis using 3(1) resume_acked_serves [OF ph] by blast
  qed
qed


section \<open>Runs\<close>

lemma host_next: "reload_reachable s \<Longrightarrow> host_step s s' \<Longrightarrow> reload_reachable s'"
  unfolding reload_reachable_def by (meson by_host rtranclp.rtrancl_into_rtrancl)

lemma plugin_next: "reload_reachable s \<Longrightarrow> plugin_step s s' \<Longrightarrow> reload_reachable s'"
  unfolding reload_reachable_def by (meson by_plugin rtranclp.rtrancl_into_rtrancl)

definition drained_run :: reload_sys where
  "drained_run = (precv (WDrain 2) (PFreeze 2) (hsend (WDrain 2) (HAwaitDrainAck 4) cutoff))\<lparr>ppc := PQuiesce 2, mutators_frozen := True\<rparr>"

text \<open>The plugin acknowledged the drain, the host gave up on the snapshot and asked it to resume.\<close>

definition asked :: reload_sys where
  "asked = hsend WResume HAwaitResumeAck
     ((hrecv WDrainAck HAwaitSave (psend WDrainAck PSave (drained_run\<lparr>ppc := PAck 2\<rparr>)))\<lparr>hpc := HRollback\<rparr>)"

lemmas run_defs = asked_def drained_run_def wire_defs cutoff_def next_in_def

lemma drained_run_reachable: "reload_reachable drained_run"
proof -
  have "reload_reachable cutoff" by (simp add: reload_reachable_def)
  moreover have "host_step cutoff (hsend (WDrain 2) (HAwaitDrainAck 4) cutoff)"
    by (rule send_drain [where budget = 4 and ctxDeadline = None]) (simp_all add: cutoff_def drainDeadlines_def drainAckHostMargin_def)
  ultimately have "reload_reachable (hsend (WDrain 2) (HAwaitDrainAck 4) cutoff)" by (rule host_next)
  then have "reload_reachable (precv (WDrain 2) (PFreeze 2) (hsend (WDrain 2) (HAwaitDrainAck 4) cutoff))"
    by (rule plugin_next) (rule drain; simp add: run_defs)
  then show ?thesis unfolding drained_run_def by (rule plugin_next) (rule frozen [where d = 2]; simp add: run_defs)
qed

lemma asked_reachable: "reload_reachable asked"
proof -
  have "reload_reachable (drained_run\<lparr>ppc := PAck 2\<rparr>)"
    by (rule plugin_next [OF drained_run_reachable]) (rule quiet; simp add: run_defs)
  then have "reload_reachable (psend WDrainAck PSave (drained_run\<lparr>ppc := PAck 2\<rparr>))"
    by (rule plugin_next) (rule ack [where d = 2]; simp add: run_defs)
  then have "reload_reachable (hrecv WDrainAck HAwaitSave (psend WDrainAck PSave (drained_run\<lparr>ppc := PAck 2\<rparr>)))"
    by (rule host_next) (rule drain_acked [where w = 4]; simp add: run_defs)
  then have "reload_reachable ((hrecv WDrainAck HAwaitSave (psend WDrainAck PSave (drained_run\<lparr>ppc := PAck 2\<rparr>)))\<lparr>hpc := HRollback\<rparr>)"
    by (rule host_next) (rule save_expired; simp add: run_defs)
  then show ?thesis unfolding asked_def by (rule host_next) (rule send_resume; simp add: run_defs)
qed

text \<open>From a plugin waiting for the host's verdict with a resume queued, it resumes and acknowledges.\<close>

definition resumes_run :: "reload_sys \<Rightarrow> reload_sys" where
  "resumes_run s = psend WResumeAck PServing ((precv WResume PResume s)\<lparr>ppc := PAckResume, mutators_frozen := False\<rparr>)"

lemma resumes_run_reachable:
  assumes "reload_reachable s" "ppc s \<in> {PAwaitSaveAck, PAwaitResume}" "next_in (h2p s) WResume"
  shows "reload_reachable (resumes_run s)"
proof -
  have "reload_reachable (precv WResume PResume s)" by (rule plugin_next [OF assms(1) resume [OF assms(2,3)]])
  then have "reload_reachable ((precv WResume PResume s)\<lparr>ppc := PAckResume, mutators_frozen := False\<rparr>)"
    by (rule plugin_next) (rule resume_mutators; simp add: wire_defs)
  then show ?thesis unfolding resumes_run_def by (rule plugin_next) (rule ack_resume; simp)
qed

theorem admitted_to_unfrozen_witness:
  "\<exists>s. reload_reachable s \<and> calls_admitted s \<and> hsent s = [WDrain 2, WResume] \<and> hgot s = [WDrainAck, WResumeAck] \<and>
     ppc s = PServing \<and> \<not> mutators_frozen s"
proof -
  let ?u = "resumes_run (asked\<lparr>ppc := PAwaitResume\<rparr>)"
  let ?s = "(hrecv WResumeAck HServingOld ?u)\<lparr>calls_admitted := True\<rparr>"
  have "reload_reachable (asked\<lparr>ppc := PAwaitResume\<rparr>)"
    by (rule plugin_next [OF asked_reachable]) (rule save; simp add: run_defs)
  then have "reload_reachable ?u" by (rule resumes_run_reachable) (simp_all add: run_defs)
  then have r: "reload_reachable ?s" by (rule host_next) (rule resumed; simp add: resumes_run_def run_defs)
  have "calls_admitted ?s" by simp
  from admitted_to_unfrozen [OF r this] have "ppc ?s = PServing \<and> \<not> mutators_frozen ?s" by (simp add: resumes_run_def run_defs)
  moreover have "hsent ?s = [WDrain 2, WResume] \<and> hgot ?s = [WDrainAck, WResumeAck]" by (simp add: resumes_run_def run_defs)
  ultimately show ?thesis using r by (intro exI [of _ ?s]) simp
qed



end
