(* ===== verification/Spec2Isabelle.thy ===== *)
theory Spec2Isabelle
  imports Ring_Concurrent Park_Wake Uds Writer_Run Stream_Flow Call_Concurrent Dispatch_Unary Handshake Control_Conn Snapshot Reload_Gate Reload_System
begin

text \<open>
  A model of styx, a Go library that runs plugins as separate processes and exchanges calls and streams with them over a
  shared-memory region or a Unix socket, and the theorems that make its parts correct. File names are relative to
  \<^verbatim>\<open>src/\<close>.

  \<^bold>\<open>The program.\<close> A host process starts a plugin process. The two first speak over a control socket
  (\<^verbatim>\<open>internal/control\<close>): a handshake fixes the protocol, transport, codec and features, and an attach hands over the
  descriptors of the data plane. The data plane is a region of shared memory (\<^verbatim>\<open>internal/shm\<close>) that holds, per direction, a
  ring of 64-byte descriptors (\<^verbatim>\<open>internal/ring\<close>) and an arena of payload slabs (\<^verbatim>\<open>internal/arena\<close>); an idle consumer parks
  and is woken through an eventfd (\<^verbatim>\<open>internal/event\<close>). The shared-memory transport (\<^verbatim>\<open>internal/transport/shm\<close>) sends through one
  writer goroutine and receives through one consumer; the socket transport (\<^verbatim>\<open>internal/transport/uds.go\<close>) carries the same
  frames over a byte stream. Above the transport, \<^verbatim>\<open>internal/rpcruntime\<close> keeps the table of pending calls, dispatches
  incoming calls, and runs the streams with their credits, fragments and lifecycle frames.

  \<^bold>\<open>Conventions.\<close> A Go function that may fail or panic returns an \<^typ>\<open>('e, 'a) outcome\<close>; an error is the set of sentinels that
  \<^verbatim>\<open>errors.Is\<close> finds in its chain. Fixed-width integers are words and wrap. What the program does not decide (the peer's
  writes, system calls, the clock, the choice of a select, the steps of other goroutines during a blocking call) is an
  argument of the operation, so a theorem holds for all of it. Concurrent parts are step relations whose steps are the
  program's atomic accesses, lock sections or channel operations, with invariants by rule induction.

  \<^bold>\<open>Theories, by part of the program.\<close>

  \<^item> \<open>Prelude\<close>: Go's integers and results, little-endian byte access, mask and wrapping arithmetic.

  \<^item> \<open>Descriptor\<close>, \<open>Ring\<close>, \<open>Ring_Concurrent\<close> (\<^verbatim>\<open>internal/ring\<close>): the descriptor and its accessors; the ring's operations as whole
  calls, with an interface \<open>descriptor_queue\<close> that the ring implements; and the two sides as interleaved steps that copy a
  descriptor byte by byte. Shown: FIFO order without loss or tearing in every interleaving, progress of each side alone, and
  refusal of any head and tail words that a faulty peer may write.

  \<^item> \<open>Layout\<close>, \<open>Layout_Roundtrip\<close> (\<^verbatim>\<open>internal/shm\<close>): deriving, writing and checking the layout page, creating and
  opening a region. Shown: an accepted layout has disjoint slabs within the region whatever the page holds, and a created
  region opens to its layout.

  \<^item> \<open>Arena\<close> (\<^verbatim>\<open>internal/arena\<close>): the slab allocator, with the interface its clients use.

  \<^item> \<open>Poison\<close>, \<open>Park_Wake\<close>, \<open>Recovery\<close>, \<open>Admission\<close> (\<^verbatim>\<open>transport/shm/poison.go\<close>, \<^verbatim>\<open>event/spin.go\<close>, \<^verbatim>\<open>transport/shm/recovery.go\<close>,
  \<^verbatim>\<open>transport/shm/admission.go\<close>): poisoning and teardown, parking against signal and teardown, the escalation of faults,
  and the startup capacity checks. Shown: the first cause wins, no wake is lost and a waiter with something to return
  returns, the escalation policy matches its specification, and certified capacity is never exhausted.

  \<^item> \<open>Frames\<close>, \<open>Crc32c\<close>, \<open>Consumer\<close>, \<open>Writer\<close>, \<open>Writer_Ledger\<close>, \<open>Writer_Run\<close>, \<open>Uds\<close> (\<^verbatim>\<open>internal/transport\<close>): frames and the
  status codec; the receive path; the writer goroutine; the socket transport. Shown: received payloads lie in their slabs
  and corruption fails closed; over any run of the writer no slab leaks or is freed twice and every accepted frame is
  reported exactly once; frames sent over the socket arrive intact under any schedule of partial reads and writes, and the
  receiver never loses the frame boundary silently.

  \<^item> \<open>Credit\<close>, \<open>Lease\<close>, \<open>Streams\<close>, \<open>Stream_Table\<close>, \<open>Stream_Ops\<close>, \<open>Stream_Frame\<close>, \<open>Stream_Send\<close>, \<open>Stream_Registry\<close>, \<open>Stream_Flow\<close>
  (\<^verbatim>\<open>rpcruntime/stream*.go\<close>, \<^verbatim>\<open>credit.go\<close>, \<^verbatim>\<open>lease.go\<close>, \<^verbatim>\<open>chunk_*.go\<close>): one stream, the table with admission, termination and the
  lifecycle lane, and two conforming endpoints. Shown: a send is all or nothing towards the peer, and two endpoints
  running this code never find each other in violation of the protocol.

  \<^item> \<open>Call_Table\<close>, \<open>Call_Concurrent\<close>, \<open>Dispatch_Unary\<close> (\<^verbatim>\<open>rpcruntime/table.go\<close>, \<^verbatim>\<open>idempotent_retry.go\<close>, \<^verbatim>\<open>dispatch.go\<close>): pending
  calls, sequentially and as interleaved threads, and the serving side's dispatch. Shown: every call gets exactly one
  result in every interleaving, and a dispatched call leaves no lease and at most one answer.

  \<^item> \<open>Control_Messages\<close>, \<open>Control_Handshake\<close>, \<open>Handshake_Spec\<close>, \<open>Handshake\<close>, \<open>Control_Conn\<close> (\<^verbatim>\<open>internal/control\<close>, and the handshakes of
  \<^verbatim>\<open>internal/supervisor/supervisor.go\<close> and \<^verbatim>\<open>pluginserver.go\<close>): messages and their legality table, negotiation, the exchange,
  and the control socket with descriptor passing. Shown: negotiation returns exactly the compatible tuple, the sides agree,
  a host never goes on with an acknowledgement it did not compute itself, no received descriptor is leaked, and
  interruptions do not extend deadlines.

  \<^item> \<open>Snapshot\<close> (\<^verbatim>\<open>internal/shm/snapshot.go\<close>): the sealed hot-reload snapshot. Shown: it is read as saved, and only fully sealed
  files of the declared length are accepted.

  \<^item> \<open>Reload_Gate\<close>, \<open>Reload_Host\<close>, \<open>Reload_Plugin\<close>, \<open>Reload_System\<close> (\<^verbatim>\<open>internal/lifecycle/reload.go\<close>, \<^verbatim>\<open>rollback.go\<close>,
  \<^verbatim>\<open>plugin_reload.go\<close>, \<^verbatim>\<open>restore.go\<close>): the admission gate, the host's transaction with its rollback, the plugin's pass, and
  both processes as interleaved steps over the control socket and a clock. Shown: the cutoff joins every admitted caller, a
  reload keeps an abstract promise on every path, the plugin's acknowledgements are true, calls never enter a frozen
  instance, and a drain acknowledgement never meets a host that rolled back. A late snapshot does, and costs the instance.
  \<^bold>\<open>Bounds.\<close> Loops of the program end by a measure, proved with each \<open>function\<close>. A loop over outside events (retries,
  partial reads, turns of the writer, steps of other goroutines) recurs over the list of those events; the theorems hold for
  every list, and those that claim a result state how long a list suffices, such as one read per byte in the socket round
  trip.

  \<^bold>\<open>Not modelled.\<close> The supervisor's loop, health checks and restarts, process spawning, the eventfd and mapping calls and the
  probes of the operating system are timers and system calls around the parts modelled. So is the
  order of one instance's teardown. The public API (\<^verbatim>\<open>host.go\<close>, \<^verbatim>\<open>clientconn.go\<close>,
  \<^verbatim>\<open>pluginserver.go\<close>, \<^verbatim>\<open>stream.go\<close>) wires these parts together and translates errors. The burst transport, a second socket for
  oversize unary payloads, is modelled only in the rule that activates it. Observability has no effect on calls. The protobuf
  encoding, SHA-256 and registered handlers are parameters. Generated code, the code generator, benchmarks, examples and
  test harnesses are left out. The Go memory model is taken as sequentially consistent for the
  atomics the code uses.
\<close>


end
